(* ===== verification/Pwl_Prelude.thy ===== *)
theory Pwl_Prelude
  imports Main "HOL-Library.Sublist"
begin

text \<open>
  The shared base of the development: the ways a C program can leave the defined
  behaviour of the language, the result type that carries them, its sequencing
  operator, and generic lemmas on lists that the component theories use.

  A definition that models C code returns \<open>Inl e\<close> when the code would run into
  undefined behaviour (it writes past an array, dereferences a null pointer, reads
  past an unterminated array), and \<open>Inr\<close> of its result otherwise. A failure the code
  handles itself (\<open>RET_FAILED\<close>, \<open>FALSE\<close>, \<open>-1\<close>) is part of the result.
\<close>

section \<open>Undefined behaviour as a value\<close>

datatype cerr =
    Overflow       \<comment> \<open>a write past the end of an array\<close>
  | OutOfBounds    \<comment> \<open>an indexed access outside an array\<close>
  | NullDeref      \<comment> \<open>a null pointer is dereferenced\<close>
  | Unterminated   \<comment> \<open>a string function runs off an array that holds no NUL\<close>
  | Uninitialised  \<comment> \<open>control depends on a variable that was never written\<close>
  | SelfDeadlock   \<comment> \<open>a thread locks a mutex that it holds already\<close>
  | UseAfterFree   \<comment> \<open>memory is used or freed after it was freed\<close>
  | DivByZero      \<comment> \<open>an integer is divided by 0\<close>
  | Blocked        \<comment> \<open>a thread waits without a limit for something that does not come\<close>

type_synonym 'a cres = "cerr + 'a"

definition cbind :: "'e + 'a \<Rightarrow> ('a \<Rightarrow> 'e + 'b) \<Rightarrow> 'e + 'b" where
  "cbind m f = (case m of Inl e \<Rightarrow> Inl e | Inr a \<Rightarrow> f a)"

definition cassert :: "bool \<Rightarrow> cerr \<Rightarrow> unit cres" where
  "cassert b e = (if b then Inr () else Inl e)"

text \<open>A pointer that is about to be used.\<close>

definition need :: "'a option \<Rightarrow> 'a cres" where
  "need p = (case p of None \<Rightarrow> Inl NullDeref | Some a \<Rightarrow> Inr a)"

section \<open>Fact collections\<close>

named_theorems buf_simps \<open>evaluation of the raw-buffer operations\<close>
named_theorems str_simps \<open>evaluation of the string functions on structured arguments\<close>
named_theorems frame_simps \<open>fields that an operation leaves alone\<close>

section \<open>Sequencing\<close>

lemma cbind_Inl [simp]: "cbind (Inl e) f = Inl e"
  by (simp add: cbind_def)

lemma cbind_Inr [simp]: "cbind (Inr a) f = f a"
  by (simp add: cbind_def)

lemma cbind_eq_Inr_iff: "cbind m f = Inr b \<longleftrightarrow> (\<exists>a. m = Inr a \<and> f a = Inr b)"
  by (cases m) simp_all

lemma cbind_eq_Inl_iff: "cbind m f = Inl e \<longleftrightarrow> m = Inl e \<or> (\<exists>a. m = Inr a \<and> f a = Inl e)"
  by (cases m) simp_all

lemma cbind_assoc: "cbind (cbind m f) g = cbind m (\<lambda>a. cbind (f a) g)"
  by (cases m) simp_all

lemma cbind_InrE [elim!]:
  assumes "cbind m f = Inr b"
  obtains a where "m = Inr a" and "f a = Inr b"
  using assms by (cases m) auto

lemma cassert_True [simp]: "cassert True e = Inr ()"
  by (simp add: cassert_def)

lemma cassert_eq_Inr [simp]: "cassert b e = Inr u \<longleftrightarrow> b"
  by (simp add: cassert_def)

lemma cbind_cassert: "cbind (cassert b e) f = (if b then f () else Inl e)"
  by (simp add: cassert_def)

lemma need_simps [simp]: "need (Some a) = Inr a" "need None = Inl NullDeref" "need p = Inr a \<longleftrightarrow> p = Some a"
  by (simp_all add: need_def split: option.splits)

section \<open>Postconditions\<close>

text \<open>A property of the result, when the computation stays within defined behaviour.\<close>

definition cpost :: "('a \<Rightarrow> bool) \<Rightarrow> 'e + 'a \<Rightarrow> bool" where
  "cpost P m \<longleftrightarrow> (case m of Inl e \<Rightarrow> True | Inr a \<Rightarrow> P a)"

lemma cpost_Inr [simp]: "cpost P (Inr a) = P a"
  by (simp add: cpost_def)

lemma cpost_Inl [simp]: "cpost P (Inl e)"
  by (simp add: cpost_def)

lemma cpost_cbindI: "cpost P m \<Longrightarrow> (\<And>a. P a \<Longrightarrow> cpost Q (f a)) \<Longrightarrow> cpost Q (cbind m f)"
  by (cases m) (simp_all add: cpost_def)

lemma cpost_cbind_any: "(\<And>a. m = Inr a \<Longrightarrow> cpost Q (f a)) \<Longrightarrow> cpost Q (cbind m f)"
  by (cases m) (simp_all add: cpost_def)

lemma cpost_ifI: "(b \<Longrightarrow> cpost P x) \<Longrightarrow> (\<not> b \<Longrightarrow> cpost P y) \<Longrightarrow> cpost P (if b then x else y)"
  by simp

lemma cpost_weaken: "cpost P m \<Longrightarrow> (\<And>a. P a \<Longrightarrow> Q a) \<Longrightarrow> cpost Q m"
  by (cases m) (simp_all add: cpost_def)

lemma cpostD: "cpost P m \<Longrightarrow> m = Inr a \<Longrightarrow> P a"
  by (simp add: cpost_def)

lemma cpostI: "(\<And>a. m = Inr a \<Longrightarrow> P a) \<Longrightarrow> cpost P m"
  by (cases m) (simp_all add: cpost_def)

section \<open>Repeated and limited actions\<close>

fun citer :: "nat \<Rightarrow> ('s \<Rightarrow> 'e + 's) \<Rightarrow> 's \<Rightarrow> 'e + 's" where
  "citer 0 f s = Inr s"
| "citer (Suc n) f s = cbind (f s) (citer n f)"

text \<open>
  An operation that performs an action at most while a counter is below its limit, and counts each
  action: however often it is repeated, the actions are bounded by what the counter leaves.
\<close>

locale limited_action =
  fixes act :: "'s \<Rightarrow> 'e + 's" and good :: "'s \<Rightarrow> bool" and count :: "'s \<Rightarrow> int" and acts :: "'s \<Rightarrow> nat"
    and limit :: int
  assumes act_limited: "good s \<Longrightarrow> cpost (\<lambda>s'. good s' \<and> count s \<le> count s'
    \<and> (acts s' = acts s \<or> acts s' = Suc (acts s) \<and> count s < limit \<and> count s < count s')) (act s)"
begin

lemma act_potential:
  "good s \<Longrightarrow> cpost (\<lambda>s'. good s' \<and> count s \<le> count s'
     \<and> acts s' + nat (limit - count s') \<le> acts s + nat (limit - count s)) (act s)"
  by (rule cpost_weaken [OF act_limited]) auto

lemma citer_bounded:
  "good s \<Longrightarrow> cpost (\<lambda>s'. good s' \<and> count s \<le> count s'
     \<and> acts s' + nat (limit - count s') \<le> acts s + nat (limit - count s)) (citer n act s)"
proof (induction n arbitrary: s)
  case (Suc n)
  show ?case unfolding citer.simps
    by (rule cpost_cbindI [OF act_potential [OF Suc.prems]]) (fastforce intro: cpost_weaken [OF Suc.IH])
qed simp

end

section \<open>Lists\<close>

lemma takeWhile_all: "(\<And>x. x \<in> set xs \<Longrightarrow> P x) \<Longrightarrow> takeWhile P xs = xs"
  by (simp add: takeWhile_eq_all_conv)

lemma takeWhile_stop: "(\<And>x. x \<in> set xs \<Longrightarrow> P x) \<Longrightarrow> \<not> P y \<Longrightarrow> takeWhile P (xs @ y # ys) = xs"
  by (induction xs) auto

lemma length_takeWhile_less: "x \<in> set xs \<Longrightarrow> \<not> P x \<Longrightarrow> length (takeWhile P xs) < length xs"
  by (induction xs) auto

lemma dropWhile_stop:
  "(\<And>x. x \<in> set xs \<Longrightarrow> P x) \<Longrightarrow> \<not> P y \<Longrightarrow> dropWhile P (xs @ y # ys) = y # ys"
  by (induction xs) auto

lemma dropWhile_length_le: "length (dropWhile P xs) \<le> length xs"
  by (induction xs) auto

lemma not_sublist_Cons: "\<not> sublist n (x # xs) \<longleftrightarrow> \<not> prefix n (x # xs) \<and> \<not> sublist n xs"
  by (auto simp: sublist_Cons_right)

text \<open>An infix that avoids a separator lies on one side of it.\<close>

lemma sublist_append_sep:
  assumes "sep \<notin> set n"
  shows "sublist n (xs @ sep # ys) \<longleftrightarrow> sublist n xs \<or> sublist n ys"
proof
  assume "sublist n (xs @ sep # ys)"
  then show "sublist n xs \<or> sublist n ys"
  proof (induction xs)
    case Nil
    then show ?case using assms
      by (cases n) (auto simp: sublist_Cons_right prefix_Cons)
  next
    case (Cons x xs)
    from Cons.prems consider "prefix n (x # xs @ sep # ys)" | "sublist n (xs @ sep # ys)"
      by (auto simp: sublist_Cons_right)
    then show ?case
    proof cases
      case 1
      then obtain zs where zs: "(x # xs) @ sep # ys = n @ zs" by (auto simp: prefix_def)
      have "length n \<le> length (x # xs)"
      proof (rule ccontr)
        assume "\<not> ?thesis"
        then have "(n @ zs) ! length (x # xs) \<in> set n" by (simp add: nth_append)
        with assms zs show False by (metis nth_append_length)
      qed
      with zs have "prefix n (x # xs)"
        by (metis prefixI prefix_length_prefix)
      then show ?thesis by (metis prefix_imp_sublist)
    next
      case 2
      with Cons.IH show ?thesis by (auto simp: sublist_Cons_right)
    qed
  qed
next
  assume "sublist n xs \<or> sublist n ys"
  then show "sublist n (xs @ sep # ys)"
    by (auto simp: sublist_def) (metis append_Cons append_assoc)+
qed

lemma sublist_set: "sublist n xs \<Longrightarrow> set n \<subseteq> set xs"
  by (auto simp: sublist_def)

end
