(* ===== verification/C_String.thy ===== *)
theory C_String
  imports Pwl_Prelude
begin

text \<open>
  The part of the C library that the services use on strings and buffers: \<^verbatim>\<open>strstr\<close>,
  \<^verbatim>\<open>strchr\<close>, \<^verbatim>\<open>strcspn\<close>, \<^verbatim>\<open>strtok\<close>, \<^verbatim>\<open>strcmp\<close> and its variants,
  \<^verbatim>\<open>atoi\<close>, the \<^verbatim>\<open>%d\<close> conversion of \<^verbatim>\<open>printf\<close>, \<^verbatim>\<open>fgets\<close>, and the raw
  array operations behind \<^verbatim>\<open>strncpy\<close> and indexed stores.

  A C string is a \<^typ>\<open>string\<close> without NUL; a pointer into it is the suffix it
  points at. An array whose bytes matter beyond the terminator is a \<open>cbuf\<close>, a list
  as long as the array, NUL bytes included.
\<close>

section \<open>Characters\<close>

abbreviation NUL :: char where "NUL \<equiv> CHR 0x00"
abbreviation NL :: char where "NL \<equiv> CHR 0x0A"
abbreviation CR :: char where "CR \<equiv> CHR 0x0D"

definition isspace :: "char \<Rightarrow> bool" where
  "isspace c \<longleftrightarrow> c \<in> {CHR '' '', CHR 0x09, CHR 0x0A, CHR 0x0B, CHR 0x0C, CHR 0x0D}"

definition isdigit :: "char \<Rightarrow> bool" where
  "isdigit c \<longleftrightarrow> 48 \<le> (of_char c :: nat) \<and> (of_char c :: nat) \<le> 57"

definition tolower :: "char \<Rightarrow> char" where
  "tolower c = (if 65 \<le> (of_char c :: nat) \<and> (of_char c :: nat) \<le> 90
                then char_of ((of_char c :: nat) + 32) else c)"

section \<open>Searching\<close>

fun strstr :: "string \<Rightarrow> string \<Rightarrow> string option" where
  "strstr [] needle = (if needle = [] then Some [] else None)"
| "strstr (c # cs) needle =
     (if prefix needle (c # cs) then Some (c # cs) else strstr cs needle)"

fun strchr :: "string \<Rightarrow> char \<Rightarrow> string option" where
  "strchr [] x = None"
| "strchr (c # cs) x = (if c = x then Some (c # cs) else strchr cs x)"

definition strcspn :: "string \<Rightarrow> string \<Rightarrow> nat" where
  "strcspn s reject = length (takeWhile (\<lambda>c. c \<notin> set reject) s)"

text \<open>\<^verbatim>\<open>s[strcspn(s, r)] = 0\<close>, the idiom that cuts a string at the first character of \<open>r\<close>.\<close>

definition cut_at :: "string \<Rightarrow> string \<Rightarrow> string" where
  "cut_at s reject = take (strcspn s reject) s"

text \<open>\<^verbatim>\<open>strncmp(s, t, n) == 0\<close> and \<^verbatim>\<open>strncasecmp(s, t, n) == 0\<close>.\<close>

definition strncmp_eq :: "string \<Rightarrow> string \<Rightarrow> nat \<Rightarrow> bool" where
  "strncmp_eq s t n \<longleftrightarrow> take n s = take n t"

definition strncasecmp_eq :: "string \<Rightarrow> string \<Rightarrow> nat \<Rightarrow> bool" where
  "strncasecmp_eq s t n \<longleftrightarrow> take n (map tolower s) = take n (map tolower t)"

definition strcasecmp_eq :: "string \<Rightarrow> string \<Rightarrow> bool" where
  "strcasecmp_eq s t \<longleftrightarrow> map tolower s = map tolower t"

section \<open>Tokens\<close>

text \<open>
  The tokens that successive calls of \<^verbatim>\<open>strtok\<close> with the same delimiters return:
  the maximal non-empty runs of characters outside the delimiters.
\<close>

fun toks_acc :: "string \<Rightarrow> string \<Rightarrow> string \<Rightarrow> string list" where
  "toks_acc d cur [] = (if cur = [] then [] else [cur])"
| "toks_acc d cur (c # cs) =
     (if c \<in> set d then (if cur = [] then toks_acc d [] cs else cur # toks_acc d [] cs)
      else toks_acc d (cur @ [c]) cs)"

definition strtok_all :: "string \<Rightarrow> string \<Rightarrow> string list" where
  "strtok_all d s = toks_acc d [] s"

section \<open>Numbers\<close>

definition digit_val :: "char \<Rightarrow> nat" where
  "digit_val c = of_char c - 48"

fun digits_val :: "nat \<Rightarrow> string \<Rightarrow> nat" where
  "digits_val acc [] = acc"
| "digits_val acc (c # cs) =
     (if isdigit c then digits_val (10 * acc + digit_val c) cs else acc)"

text \<open>
  \<^verbatim>\<open>atoi\<close> is \<^verbatim>\<open>(int) strtol(s, NULL, 10)\<close>: white space and a sign are skipped, the
  digits that follow are read, the value saturates at the bounds of a 64-bit
  \<^verbatim>\<open>long\<close> and is then truncated to 32 bits.
\<close>

definition strtol10 :: "string \<Rightarrow> int" where
  "strtol10 s =
     (case dropWhile isspace s of
        [] \<Rightarrow> 0
      | c # cs \<Rightarrow>
          if c = CHR ''-'' then - int (digits_val 0 cs)
          else if c = CHR ''+'' then int (digits_val 0 cs)
          else int (digits_val 0 (c # cs)))"

definition clamp_long :: "int \<Rightarrow> int" where
  "clamp_long x = max (- (2 ^ 63)) (min (2 ^ 63 - 1) x)"

definition to_int32 :: "int \<Rightarrow> int" where
  "to_int32 x = (x + 2 ^ 31) mod 2 ^ 32 - 2 ^ 31"

definition atoi :: "string \<Rightarrow> int" where
  "atoi s = to_int32 (clamp_long (strtol10 s))"

text \<open>The \<^verbatim>\<open>%d\<close> conversion.\<close>

definition digit_char :: "nat \<Rightarrow> char" where
  "digit_char n = char_of (48 + n)"

fun show_nat :: "nat \<Rightarrow> string" where
  "show_nat n = (if n < 10 then [digit_char n] else show_nat (n div 10) @ [digit_char (n mod 10)])"

declare show_nat.simps [simp del]

definition show_int :: "int \<Rightarrow> string" where
  "show_int i = (if i < 0 then CHR ''-'' # show_nat (nat (- i)) else show_nat (nat i))"

section \<open>Reading lines\<close>

text \<open>
  The strings that successive calls \<^verbatim>\<open>fgets(buf, n, fp)\<close> store: each ends after the
  first newline or after \<open>n - 1\<close> characters.
\<close>

fun lines_acc :: "nat \<Rightarrow> string \<Rightarrow> string \<Rightarrow> string list" where
  "lines_acc n cur [] = (if cur = [] then [] else [cur])"
| "lines_acc n cur (c # cs) =
     (if c = NL \<or> n - 1 \<le> Suc (length cur) then (cur @ [c]) # lines_acc n [] cs
      else lines_acc n (cur @ [c]) cs)"

definition fgets_lines :: "nat \<Rightarrow> string \<Rightarrow> string list" where
  "fgets_lines n s = lines_acc n [] s"

definition fgets :: "nat \<Rightarrow> string \<Rightarrow> string option" where
  "fgets n s = (case fgets_lines n s of [] \<Rightarrow> None | l # _ \<Rightarrow> Some l)"

section \<open>Raw arrays\<close>

type_synonym cbuf = "char list"

definition zeroed :: "nat \<Rightarrow> cbuf" where
  "zeroed n = replicate n NUL"

text \<open>The string an array holds.\<close>

definition cstr :: "cbuf \<Rightarrow> string cres" where
  "cstr b = (if NUL \<in> set b then Inr (takeWhile (\<lambda>c. c \<noteq> NUL) b) else Inl Unterminated)"

definition buf_strncpy :: "cbuf \<Rightarrow> string \<Rightarrow> nat \<Rightarrow> cbuf cres" where
  "buf_strncpy b s n =
     (if n \<le> length b then Inr (take n (s @ replicate n NUL) @ drop n b) else Inl Overflow)"

definition buf_strcpy :: "cbuf \<Rightarrow> string \<Rightarrow> cbuf cres" where
  "buf_strcpy b s =
     (if length s < length b then Inr (s @ NUL # drop (Suc (length s)) b) else Inl Overflow)"

definition buf_put :: "cbuf \<Rightarrow> int \<Rightarrow> char \<Rightarrow> cbuf cres" where
  "buf_put b i c =
     (if 0 \<le> i \<and> i < int (length b) then Inr (b[nat i := c]) else Inl OutOfBounds)"

text \<open>
  \<^verbatim>\<open>strstr(b, needle) != NULL\<close> on an array: a match inside the array is found even when
  no terminator follows; without a match and without a terminator the search leaves
  the array.
\<close>

definition buf_strstr :: "cbuf \<Rightarrow> string \<Rightarrow> bool cres" where
  "buf_strstr b needle =
     (if strstr (takeWhile (\<lambda>c. c \<noteq> NUL) b) needle \<noteq> None then Inr True
      else if NUL \<in> set b then Inr False else Inl Unterminated)"

text \<open>\<^verbatim>\<open>atoi\<close> on an array stops at the first character that is neither part of the number.\<close>

definition atoi_rest :: "cbuf \<Rightarrow> cbuf" where
  "atoi_rest b =
     (case dropWhile isspace b of
        [] \<Rightarrow> []
      | c # cs \<Rightarrow> dropWhile isdigit (if c = CHR ''-'' \<or> c = CHR ''+'' then cs else c # cs))"

definition buf_atoi :: "cbuf \<Rightarrow> int cres" where
  "buf_atoi b = (if atoi_rest b = [] then Inl Unterminated else Inr (atoi b))"

text \<open>\<^verbatim>\<open>strcpy\<close> of a string into an array of \<open>n\<close> bytes whose old content no longer matters.\<close>

definition strcpy_cap :: "nat \<Rightarrow> string \<Rightarrow> string cres" where
  "strcpy_cap n s = (if length s < n then Inr s else Inl Overflow)"

section \<open>Searching: lemmas\<close>

lemma strstr_eq_None_iff: "strstr s n = None \<longleftrightarrow> \<not> sublist n s"
  by (induction s) (auto simp: sublist_Cons_right)

lemma strstr_Some_suffix: "strstr s n = Some t \<Longrightarrow> suffix t s \<and> prefix n t"
  by (induction s) (auto simp: suffix_Cons split: if_splits)

lemma strstr_length: "strstr s n = Some t \<Longrightarrow> length t \<le> length s"
  by (induction s) (auto split: if_splits)

lemma strstr_prefix [str_simps]: "strstr (n @ s) n = Some (n @ s)"
  by (cases "n @ s") (simp_all, metis prefix_def)

lemma strstr_append_skip:
  "\<not> sublist n (xs @ butlast n) \<Longrightarrow> strstr (xs @ n @ ys) n = Some (n @ ys)"
proof (induction xs)
  case Nil
  then show ?case by (simp add: strstr_prefix)
next
  case (Cons x xs)
  have "\<not> prefix n (x # xs @ n @ ys)"
  proof
    assume p: "prefix n (x # xs @ n @ ys)"
    have "prefix n ((x # xs) @ butlast n)"
    proof (rule prefix_length_prefix [OF p])
      show "prefix ((x # xs) @ butlast n) (x # xs @ n @ ys)"
        by (metis append_Cons append_assoc append_butlast_last_id append_is_Nil_conv
            butlast.simps(1) prefix_def self_append_conv)
      show "length n \<le> length ((x # xs) @ butlast n)" by simp
    qed
    with Cons.prems show False by (metis prefix_imp_sublist)
  qed
  moreover have "\<not> sublist n (xs @ butlast n)"
    using Cons.prems by (auto simp: sublist_Cons_right)
  ultimately show ?case using Cons.IH by simp
qed

lemma strchr_eq_None_iff: "strchr s x = None \<longleftrightarrow> x \<notin> set s"
  by (induction s) auto

lemma strchr_append [str_simps]: "x \<notin> set xs \<Longrightarrow> strchr (xs @ x # ys) x = Some (x # ys)"
  by (induction xs) auto

lemma cut_at_eq: "cut_at s r = takeWhile (\<lambda>c. c \<notin> set r) s"
  unfolding cut_at_def strcspn_def by (rule takeWhile_eq_take [symmetric])

lemma cut_at_append [str_simps]:
  "(\<And>c. c \<in> set xs \<Longrightarrow> c \<notin> set r) \<Longrightarrow> y \<in> set r \<Longrightarrow> cut_at (xs @ y # ys) r = xs"
  by (simp add: cut_at_eq takeWhile_stop)

lemma cut_at_none [str_simps]: "(\<And>c. c \<in> set xs \<Longrightarrow> c \<notin> set r) \<Longrightarrow> cut_at xs r = xs"
  by (simp add: cut_at_eq takeWhile_all)

lemma length_cut_at: "length (cut_at s r) \<le> length s"
  by (simp add: cut_at_eq length_takeWhile_le)

lemma strncmp_eq_prefix: "strncmp_eq s t (length t) \<longleftrightarrow> prefix t s"
proof
  assume "strncmp_eq s t (length t)"
  then have "take (length t) s = t" by (simp add: strncmp_eq_def)
  then show "prefix t s" by (metis take_is_prefix)
qed (auto simp: strncmp_eq_def prefix_def)

section \<open>Tokens: lemmas\<close>

lemma toks_acc_run:
  "(\<And>c. c \<in> set xs \<Longrightarrow> c \<notin> set d) \<Longrightarrow> toks_acc d cur (xs @ ys) = toks_acc d (cur @ xs) ys"
  by (induction xs arbitrary: cur) auto

lemma strtok_all_last [str_simps]:
  "(\<And>c. c \<in> set xs \<Longrightarrow> c \<notin> set d) \<Longrightarrow> xs \<noteq> [] \<Longrightarrow> strtok_all d xs = [xs]"
  using toks_acc_run [of xs d "[]" "[]"] by (simp add: strtok_all_def)

lemma strtok_all_Cons [str_simps]:
  "(\<And>c. c \<in> set xs \<Longrightarrow> c \<notin> set d) \<Longrightarrow> xs \<noteq> [] \<Longrightarrow> x \<in> set d \<Longrightarrow>
   strtok_all d (xs @ x # ys) = xs # strtok_all d ys"
  using toks_acc_run [of xs d "[]" "x # ys"] by (simp add: strtok_all_def)

lemma strtok_all_delim [str_simps]: "x \<in> set d \<Longrightarrow> strtok_all d (x # ys) = strtok_all d ys"
  by (simp add: strtok_all_def)

lemma toks_acc_token:
  "t \<in> set (toks_acc d cur s) \<Longrightarrow> \<forall>c \<in> set cur. c \<notin> set d \<Longrightarrow>
   t \<noteq> [] \<and> (\<forall>c \<in> set t. c \<notin> set d)"
proof (induction s arbitrary: cur)
  case Nil
  then show ?case by (simp split: if_splits)
next
  case (Cons c s)
  show ?case
  proof (cases "c \<in> set d")
    case True
    with Cons.prems Cons.IH [of "[]"] show ?thesis by (auto split: if_splits)
  next
    case False
    with Cons.prems Cons.IH [of "cur @ [c]"] show ?thesis by simp
  qed
qed

lemma strtok_all_token: "t \<in> set (strtok_all d s) \<Longrightarrow> t \<noteq> [] \<and> (\<forall>c \<in> set t. c \<notin> set d)"
  unfolding strtok_all_def using toks_acc_token [of t d "[]" s] by simp

lemma toks_acc_length: "t \<in> set (toks_acc d cur s) \<Longrightarrow> length t \<le> length cur + length s"
proof (induction s arbitrary: cur)
  case Nil
  then show ?case by (simp split: if_splits)
next
  case (Cons c s)
  from Cons.prems consider "t = cur" | "t \<in> set (toks_acc d [] s)" | "t \<in> set (toks_acc d (cur @ [c]) s)"
    by (auto split: if_splits)
  then show ?case
    by cases (use Cons.IH [of "[]"] Cons.IH [of "cur @ [c]"] in auto)
qed

lemma strtok_all_length: "t \<in> set (strtok_all d s) \<Longrightarrow> length t \<le> length s"
  unfolding strtok_all_def using toks_acc_length [of t d "[]" s] by simp

section \<open>Numbers: lemmas\<close>

lemma of_char_digit_char: "n < 10 \<Longrightarrow> (of_char (digit_char n) :: nat) = 48 + n"
  by (simp add: digit_char_def)

lemma isdigit_digit_char [simp]: "n < 10 \<Longrightarrow> isdigit (digit_char n)"
  by (simp add: isdigit_def of_char_digit_char)

lemma digit_val_digit_char [simp]: "n < 10 \<Longrightarrow> digit_val (digit_char n) = n"
  by (simp add: digit_val_def of_char_digit_char)

lemma isdigit_not_special:
  "isdigit c \<Longrightarrow> c \<noteq> CHR ''-'' \<and> c \<noteq> CHR ''+'' \<and> c \<noteq> CHR ''='' \<and> c \<noteq> NL \<and> c \<noteq> CR \<and> c \<noteq> NUL
     \<and> c \<noteq> CHR '';'' \<and> c \<noteq> CHR '','' \<and> \<not> isspace c"
  by (auto simp: isdigit_def isspace_def)

lemma show_nat_nonempty [simp]: "show_nat n \<noteq> []"
  by (subst show_nat.simps) simp

lemma show_nat_isdigit: "c \<in> set (show_nat n) \<Longrightarrow> isdigit c"
proof (induction n arbitrary: c rule: show_nat.induct)
  case (1 n)
  then show ?case by (subst (asm) (2) show_nat.simps) (auto split: if_splits)
qed

lemma digits_val_snoc:
  "(\<And>c. c \<in> set xs \<Longrightarrow> isdigit c) \<Longrightarrow> isdigit x \<Longrightarrow>
   digits_val acc (xs @ [x]) = 10 * digits_val acc xs + digit_val x"
  by (induction xs arbitrary: acc) auto

lemma digits_val_show_nat: "digits_val 0 (show_nat n) = n"
proof (induction n rule: show_nat.induct)
  case (1 n)
  show ?case
  proof (cases "n < 10")
    case True
    then show ?thesis by (subst show_nat.simps) simp
  next
    case False
    then have "digits_val 0 (show_nat (n div 10)) = n div 10" using "1.IH" by simp
    with False show ?thesis
      by (subst show_nat.simps) (simp add: digits_val_snoc show_nat_isdigit)
  qed
qed

lemma digits_val_append:
  "(\<And>c. c \<in> set xs \<Longrightarrow> isdigit c) \<Longrightarrow> ys = [] \<or> \<not> isdigit (hd ys) \<Longrightarrow>
   digits_val acc (xs @ ys) = digits_val acc xs"
  by (induction xs arbitrary: acc) (cases ys, auto)

lemma show_nat_Cons: "\<exists>d ds. show_nat n = d # ds \<and> isdigit d"
  by (metis list.set_intros(1) neq_Nil_conv show_nat_isdigit show_nat_nonempty)

lemma strtol10_show_int:
  assumes "ys = [] \<or> \<not> isdigit (hd ys)"
  shows "strtol10 (show_int i @ ys) = i"
proof (cases "i < 0")
  case True
  then show ?thesis using assms
    by (simp add: strtol10_def show_int_def isspace_def digits_val_append show_nat_isdigit
        digits_val_show_nat)
next
  case False
  obtain d ds where d: "show_nat (nat i) = d # ds" "isdigit d" using show_nat_Cons by blast
  have "digits_val 0 ((d # ds) @ ys) = nat i"
    using assms digits_val_append [of "d # ds" ys 0] digits_val_show_nat [of "nat i"]
    by (metis d(1) show_nat_isdigit)
  with False d isdigit_not_special [OF d(2)] show ?thesis
    by (simp add: strtol10_def show_int_def)
qed

lemma to_int32_small: "- (2 ^ 31) \<le> x \<Longrightarrow> x < 2 ^ 31 \<Longrightarrow> to_int32 x = x"
  by (simp add: to_int32_def)

lemma to_int32_range: "- (2 ^ 31) \<le> to_int32 x \<and> to_int32 x < 2 ^ 31"
  by (simp add: to_int32_def)

lemma atoi_show_int [str_simps]:
  "- (2 ^ 31) \<le> i \<Longrightarrow> i < 2 ^ 31 \<Longrightarrow> ys = [] \<or> \<not> isdigit (hd ys) \<Longrightarrow> atoi (show_int i @ ys) = i"
  by (simp add: atoi_def strtol10_show_int clamp_long_def to_int32_small)

lemma show_int_chars: "c \<in> set (show_int i) \<Longrightarrow> isdigit c \<or> c = CHR ''-''"
  by (auto simp: show_int_def show_nat_isdigit split: if_splits)

lemma show_int_nonempty [simp]: "show_int i \<noteq> []"
  by (simp add: show_int_def)

lemma length_show_nat: "length (show_nat n) = (if n < 10 then 1 else Suc (length (show_nat (n div 10))))"
  by (subst show_nat.simps) simp

section \<open>Lines: lemmas\<close>

lemma concat_lines_acc: "concat (lines_acc n cur s) = cur @ s"
  by (induction n cur s rule: lines_acc.induct) auto

lemma concat_fgets_lines: "concat (fgets_lines n s) = s"
  by (simp add: fgets_lines_def concat_lines_acc)

lemma lines_acc_line:
  "NL \<notin> set xs \<Longrightarrow> length cur + length xs < n - 1 \<Longrightarrow>
   lines_acc n cur (xs @ NL # ys) = (cur @ xs @ [NL]) # lines_acc n [] ys"
  by (induction xs arbitrary: cur) auto

lemma fgets_lines_Cons [str_simps]:
  "NL \<notin> set xs \<Longrightarrow> length xs < n - 1 \<Longrightarrow>
   fgets_lines n (xs @ NL # ys) = (xs @ [NL]) # fgets_lines n ys"
  using lines_acc_line [of xs "[]" n ys] by (simp add: fgets_lines_def)

lemma fgets_lines_Nil [simp]: "fgets_lines n [] = []"
  by (simp add: fgets_lines_def)

lemma lines_acc_no_NL:
  "NL \<notin> set xs \<Longrightarrow> length cur + length xs < n - 1 \<Longrightarrow> cur @ xs \<noteq> [] \<Longrightarrow> lines_acc n cur xs = [cur @ xs]"
  by (induction xs arbitrary: cur) auto

lemma fgets_lines_last [str_simps]:
  "NL \<notin> set xs \<Longrightarrow> length xs < n - 1 \<Longrightarrow> xs \<noteq> [] \<Longrightarrow> fgets_lines n xs = [xs]"
  by (simp add: fgets_lines_def lines_acc_no_NL)

lemma lines_acc_bound:
  "1 < n \<Longrightarrow> length cur < n - 1 \<Longrightarrow> l \<in> set (lines_acc n cur s) \<Longrightarrow> length l \<le> n - 1"
  by (induction n cur s rule: lines_acc.induct) (auto split: if_splits)

lemma fgets_lines_bound: "1 < n \<Longrightarrow> l \<in> set (fgets_lines n s) \<Longrightarrow> length l < n"
  unfolding fgets_lines_def using lines_acc_bound [of n "[]" l s] by auto

lemma fgets_bound: "1 < n \<Longrightarrow> fgets n s = Some l \<Longrightarrow> length l < n"
  using fgets_lines_bound [of n l s] by (auto simp: fgets_def split: list.splits)

section \<open>Raw arrays: lemmas\<close>

lemma length_zeroed [simp]: "length (zeroed n) = n"
  by (simp add: zeroed_def)

lemma nth_zeroed [simp]: "i < n \<Longrightarrow> zeroed n ! i = NUL"
  by (simp add: zeroed_def)

lemma length_buf_strncpy: "buf_strncpy b s n = Inr b' \<Longrightarrow> length b' = length b"
  by (auto simp: buf_strncpy_def split: if_splits)

lemma length_buf_put: "buf_put b i c = Inr b' \<Longrightarrow> length b' = length b"
  by (auto simp: buf_put_def split: if_splits)

lemma length_buf_strcpy: "buf_strcpy b s = Inr b' \<Longrightarrow> length b' = length b"
  by (auto simp: buf_strcpy_def split: if_splits)

lemma buf_strncpy_full [buf_simps]:
  "length s \<le> length b \<Longrightarrow> buf_strncpy b s (length s) = Inr (s @ drop (length s) b)"
  by (simp add: buf_strncpy_def)

lemma cstr_terminated [buf_simps]: "NUL \<notin> set s \<Longrightarrow> cstr (s @ NUL # r) = Inr s"
proof -
  assume "NUL \<notin> set s"
  then have "takeWhile (\<lambda>c. c \<noteq> NUL) (s @ NUL # r) = s" by (intro takeWhile_stop) auto
  then show ?thesis by (simp add: cstr_def)
qed

lemma strcpy_cap_eq_Inr [simp]: "strcpy_cap n s = Inr t \<longleftrightarrow> length s < n \<and> t = s"
  by (auto simp: strcpy_cap_def)

end
