(* ===== verification/Common_Messages.thy ===== *)
theory Common_Messages
  imports C_String
begin

text \<open>
  The message queues between the services, from \<^verbatim>\<open>includes/common.h\<close> and
  \<^verbatim>\<open>common/common.c\<close>: the command identifiers \<^verbatim>\<open>pwl_cid_t\<close> and their names, the message
  \<^verbatim>\<open>msg_buffer_t\<close>, the routing macros, the reply that every handler sends, the log line
  that indexes the name tables, the record of per-command status, and the emptying of
  a queue at start-up. A queue is the list of its messages; a sent message is a pair
  of the queue path and the message.
\<close>

section \<open>Identifiers\<close>

datatype pwl_cid_t =
    PWL_CID_GET_MFR | PWL_CID_GET_SKUID | PWL_CID_GET_MAIN_FW_VER
  | PWL_CID_GET_AP_VER | PWL_CID_GET_CARRIER_VER | PWL_CID_GET_OEM_VER
  | PWL_CID_UPDATE_FW_VER | PWL_CID_GET_SIM_CARRIER | PWL_CID_GET_MD_VER
  | PWL_CID_GET_OP_VER | PWL_CID_GET_DPV_VER | PWL_CID_GET_PREF_CARRIER_ID
  | PWL_CID_GET_CXP_REBOOT_FLAG | PWL_CID_BACKUP_SN_IMEI | PWL_CID_GET_BACKUP_SN_IMEI
  | PLW_CID_MAX_PREF | PWL_CID_GET_CIMI | PWL_CID_GET_ATE
  | PWL_CID_GET_ATI | PWL_CID_GET_FW_VER | PWL_CID_GET_MODULE_SKU_ID
  | PWL_CID_SWITCH_TO_FASTBOOT | PWL_CID_CHECK_OEM_PRI_VERSION | PWL_CID_GET_PREF_CARRIER
  | PWL_CID_SET_PREF_CARRIER | PWL_CID_SET_OEM_PRI_VERSION | PWL_CID_DEL_TUNE_CODE
  | PWL_CID_GET_CRSM | PWL_CID_AT_UCOMP | PWL_CID_RESET
  | PWL_CID_GET_OEM_PRI_INFO | PWL_CID_GET_JP_FCC_AUTO_REBOOT | PWL_CID_ENABLE_JP_FCC_AUTO_REBOOT
  | PWL_CID_GET_OEM_PRI_RESET | PWL_CID_GET_PCIE_DEVICE_VERSION | PWL_CID_GET_PCIE_AP_VERSION
  | PWL_CID_GET_PCIE_OP_VERSION | PWL_CID_GET_PCIE_OEM_VERSION | PWL_CID_GET_PCIE_DPV_VERSION
  | PWL_CID_GET_CARRIER_ID | PWL_CID_GET_OEM_PRI_RESET_STATE | PWL_CID_GET_ESIM_STATE
  | PWL_CID_CHECK_ESIM_TEST_PROF | PWL_CID_DELETE_ESIM_TEST_PROF | PWL_CID_RESTORE_SN
  | PWL_CID_RESTORE_IMEI | PWL_CID_MADPT_RESTART | PWL_CID_SETUP_JP_FCC_CONFIG
  | PLW_CID_MAX_MADPT | PWL_CID_MAX

datatype pwl_cid_status_t =
    PWL_CID_STATUS_NONE | PWL_CID_STATUS_OK | PWL_CID_STATUS_ERROR
  | PWL_CID_STATUS_TIMEOUT | PWL_CID_STATUS_BUSY

datatype pwl_get_enable_state_t =
    PWL_CID_GET_ENABLE_STATE_DISABLED | PWL_CID_GET_ENABLE_STATE_ENABLED
  | PWL_CID_GET_ENABLE_STATE_ERROR

datatype pwl_sim_state_t =
    PWL_SIM_STATE_UNKNOWN | PWL_SIM_STATE_NOT_INSERTED | PWL_SIM_STATE_INITIALIZED

definition PWL_UNKNOWN_SIM_CARRIER :: string where "PWL_UNKNOWN_SIM_CARRIER = ''UNKNOWN''"

datatype pwl_device_type_t =
    PWL_DEVICE_TYPE_UNKNOWN | PWL_DEVICE_TYPE_USB | PWL_DEVICE_TYPE_PCIE

text \<open>The identifiers in the order of their numbers.\<close>

definition cid_enum :: "pwl_cid_t list" where
  "cid_enum =
    [PWL_CID_GET_MFR, PWL_CID_GET_SKUID, PWL_CID_GET_MAIN_FW_VER,
     PWL_CID_GET_AP_VER, PWL_CID_GET_CARRIER_VER, PWL_CID_GET_OEM_VER,
     PWL_CID_UPDATE_FW_VER, PWL_CID_GET_SIM_CARRIER, PWL_CID_GET_MD_VER,
     PWL_CID_GET_OP_VER, PWL_CID_GET_DPV_VER, PWL_CID_GET_PREF_CARRIER_ID,
     PWL_CID_GET_CXP_REBOOT_FLAG, PWL_CID_BACKUP_SN_IMEI, PWL_CID_GET_BACKUP_SN_IMEI,
     PLW_CID_MAX_PREF, PWL_CID_GET_CIMI, PWL_CID_GET_ATE,
     PWL_CID_GET_ATI, PWL_CID_GET_FW_VER, PWL_CID_GET_MODULE_SKU_ID,
     PWL_CID_SWITCH_TO_FASTBOOT, PWL_CID_CHECK_OEM_PRI_VERSION, PWL_CID_GET_PREF_CARRIER,
     PWL_CID_SET_PREF_CARRIER, PWL_CID_SET_OEM_PRI_VERSION, PWL_CID_DEL_TUNE_CODE,
     PWL_CID_GET_CRSM, PWL_CID_AT_UCOMP, PWL_CID_RESET,
     PWL_CID_GET_OEM_PRI_INFO, PWL_CID_GET_JP_FCC_AUTO_REBOOT, PWL_CID_ENABLE_JP_FCC_AUTO_REBOOT,
     PWL_CID_GET_OEM_PRI_RESET, PWL_CID_GET_PCIE_DEVICE_VERSION, PWL_CID_GET_PCIE_AP_VERSION,
     PWL_CID_GET_PCIE_OP_VERSION, PWL_CID_GET_PCIE_OEM_VERSION, PWL_CID_GET_PCIE_DPV_VERSION,
     PWL_CID_GET_CARRIER_ID, PWL_CID_GET_OEM_PRI_RESET_STATE, PWL_CID_GET_ESIM_STATE,
     PWL_CID_CHECK_ESIM_TEST_PROF, PWL_CID_DELETE_ESIM_TEST_PROF, PWL_CID_RESTORE_SN,
     PWL_CID_RESTORE_IMEI, PWL_CID_MADPT_RESTART, PWL_CID_SETUP_JP_FCC_CONFIG,
     PLW_CID_MAX_MADPT, PWL_CID_MAX]"

definition cid_of :: "nat \<Rightarrow> pwl_cid_t option" where
  "cid_of n = (if n < length cid_enum then Some (cid_enum ! n) else None)"

primrec index_of :: "'a \<Rightarrow> 'a list \<Rightarrow> nat" where
  "index_of x [] = 0"
| "index_of x (y # ys) = (if x = y then 0 else Suc (index_of x ys))"

definition cid_num :: "pwl_cid_t \<Rightarrow> nat" where
  "cid_num c = index_of c cid_enum"

text \<open>
  The designated initialisers of \<^verbatim>\<open>cid_name\<close>; the array has one entry per number up to the
  largest one initialised, and an entry that is not listed is a null pointer.
\<close>

definition cid_name_init :: "(pwl_cid_t \<times> string) list" where
  "cid_name_init =
    [(PWL_CID_GET_MFR, ''GET_MFR''), (PWL_CID_GET_SKUID, ''GET_SKUID''),
     (PWL_CID_GET_MAIN_FW_VER, ''GET_MAIN_FW_VER''), (PWL_CID_GET_AP_VER, ''GET_AP_VER''),
     (PWL_CID_GET_CARRIER_VER, ''GET_CARRIER_VER''), (PWL_CID_GET_OEM_VER, ''GET_OEM_VER''),
     (PWL_CID_UPDATE_FW_VER, ''UPDATE_FW_VER''), (PWL_CID_GET_MODULE_SKU_ID, ''GET_MODULE_SKU_ID''),
     (PWL_CID_GET_SIM_CARRIER, ''GET_SIM_CARRIER''), (PWL_CID_GET_MD_VER, ''GET_MD_VER''),
     (PWL_CID_GET_OP_VER, ''GET_OP_VER''), (PWL_CID_GET_DPV_VER, ''GET_DPV_VER''),
     (PWL_CID_GET_PREF_CARRIER_ID, ''GET_PREF_CARRIER_ID''), (PWL_CID_GET_CXP_REBOOT_FLAG, ''GET_CXP_REBOOT_FLAG''),
     (PWL_CID_BACKUP_SN_IMEI, ''BACKUP_SN_IMEI''), (PWL_CID_GET_BACKUP_SN_IMEI, ''GET_BACKUP_SN_IMEI''),
     (PWL_CID_GET_CIMI, ''GET_CIMI''), (PWL_CID_GET_ATE, ''GET_ATE''),
     (PWL_CID_GET_ATI, ''GET_ATI''), (PWL_CID_GET_FW_VER, ''GET_FW_VER''),
     (PWL_CID_SWITCH_TO_FASTBOOT, ''SWITCH_TO_FASTBOOT''), (PWL_CID_CHECK_OEM_PRI_VERSION, ''CHECK_OEM_PRI_VERSION''),
     (PWL_CID_GET_PREF_CARRIER, ''GET_PREF_CARRIER''), (PWL_CID_SET_PREF_CARRIER, ''SET_PREF_CARRIER''),
     (PWL_CID_SET_OEM_PRI_VERSION, ''SET_OEM_PRI_VERSION''), (PWL_CID_DEL_TUNE_CODE, ''DEL_TUNE_CODE''),
     (PWL_CID_GET_CRSM, ''GET_CRSM''), (PWL_CID_AT_UCOMP, ''AT_UCOMP''),
     (PWL_CID_RESET, ''RESET''), (PWL_CID_GET_OEM_PRI_INFO, ''GET_OEM_PRI_INFO''),
     (PWL_CID_GET_JP_FCC_AUTO_REBOOT, ''GET_JP_FCC_AUTO_REBOOT''), (PWL_CID_ENABLE_JP_FCC_AUTO_REBOOT, ''ENABLE_JP_FCC_AUTO_REBOOT''),
     (PWL_CID_GET_OEM_PRI_RESET, ''GET_OEM_PRI_RESET''), (PWL_CID_GET_PCIE_DEVICE_VERSION, ''GET_PCIE_DEVICE_VERSION''),
     (PWL_CID_GET_PCIE_AP_VERSION, ''GET_PCIE_AP_VERSION''), (PWL_CID_GET_PCIE_OP_VERSION, ''GET_PCIE_OP_VERSION''),
     (PWL_CID_GET_PCIE_OEM_VERSION, ''GET_PCIE_OEM_VERSION''), (PWL_CID_GET_PCIE_DPV_VERSION, ''GET_PCIE_DPV_VERSION''),
     (PWL_CID_GET_CARRIER_ID, ''GET_CARRIER_ID''), (PWL_CID_GET_OEM_PRI_RESET_STATE, ''GET_OEM_PRI_RESET_STATE''),
     (PWL_CID_GET_ESIM_STATE, ''GET_ESIM_STATE''), (PWL_CID_CHECK_ESIM_TEST_PROF, ''CHK_ESIM_TEST_PROF''),
     (PWL_CID_DELETE_ESIM_TEST_PROF, ''DEL_ESIM_TEST_PROF''), (PWL_CID_RESTORE_SN, ''RESTORE_SN''),
     (PWL_CID_RESTORE_IMEI, ''RESTORE_IMEI''), (PWL_CID_MADPT_RESTART, ''MADPT_RESTART''),
     (PWL_CID_SETUP_JP_FCC_CONFIG, ''SETUP_JP_FCC_CONFIG'')]"

definition cid_name :: "string option list" where
  "cid_name = map (map_of cid_name_init) (take (Suc (cid_num PWL_CID_SETUP_JP_FCC_CONFIG)) cid_enum)"

definition cid_status_name :: "pwl_cid_status_t \<Rightarrow> string option" where
  "cid_status_name s =
     (case s of
        PWL_CID_STATUS_NONE \<Rightarrow> None
      | PWL_CID_STATUS_OK \<Rightarrow> Some ''OK''
      | PWL_CID_STATUS_ERROR \<Rightarrow> Some ''ERROR''
      | PWL_CID_STATUS_TIMEOUT \<Rightarrow> Some ''TIMEOUT''
      | PWL_CID_STATUS_BUSY \<Rightarrow> Some ''BUSY'')"

section \<open>Routing\<close>

abbreviation (input) PWL_MQ_ID_INVALID :: nat where "PWL_MQ_ID_INVALID \<equiv> 0"
abbreviation (input) PWL_MQ_ID_CORE :: nat where "PWL_MQ_ID_CORE \<equiv> 1"
abbreviation (input) PWL_MQ_ID_MADPT :: nat where "PWL_MQ_ID_MADPT \<equiv> 2"
abbreviation (input) PWL_MQ_ID_PREF :: nat where "PWL_MQ_ID_PREF \<equiv> 3"
abbreviation (input) PWL_MQ_ID_FWUPDATE :: nat where "PWL_MQ_ID_FWUPDATE \<equiv> 4"
abbreviation (input) PWL_MQ_ID_UNLOCK :: nat where "PWL_MQ_ID_UNLOCK \<equiv> 5"

definition PWL_MQ_PATH_INVALID :: string where "PWL_MQ_PATH_INVALID = ''/pwl''"
definition PWL_MQ_PATH_CORE :: string where "PWL_MQ_PATH_CORE = ''/pwl_core''"
definition PWL_MQ_PATH_MADPT :: string where "PWL_MQ_PATH_MADPT = ''/pwl_madpt''"
definition PWL_MQ_PATH_PREF :: string where "PWL_MQ_PATH_PREF = ''/pwl_pref''"
definition PWL_MQ_PATH_FWUPDATE :: string where "PWL_MQ_PATH_FWUPDATE = ''/pwl_fwupdate''"
definition PWL_MQ_PATH_UNLOCK :: string where "PWL_MQ_PATH_UNLOCK = ''/pwl_unlock''"

definition PWL_MQ_PATH :: "nat \<Rightarrow> string" where
  "PWL_MQ_PATH x =
     (if x = PWL_MQ_ID_CORE then PWL_MQ_PATH_CORE
      else if x = PWL_MQ_ID_MADPT then PWL_MQ_PATH_MADPT
      else if x = PWL_MQ_ID_PREF then PWL_MQ_PATH_PREF
      else if x = PWL_MQ_ID_FWUPDATE then PWL_MQ_PATH_FWUPDATE
      else if x = PWL_MQ_ID_UNLOCK then PWL_MQ_PATH_UNLOCK
      else PWL_MQ_PATH_INVALID)"

definition CID_DESTINATION :: "nat \<Rightarrow> string" where
  "CID_DESTINATION x =
     (if x < cid_num PLW_CID_MAX_PREF then PWL_MQ_PATH_PREF
      else if cid_num PLW_CID_MAX_PREF \<le> x \<and> x < cid_num PLW_CID_MAX_MADPT then PWL_MQ_PATH_MADPT
      else PWL_MQ_PATH_INVALID)"

section \<open>Messages\<close>

definition PWL_MQ_MAX_RESP :: nat where "PWL_MQ_MAX_RESP = 500"
definition PWL_MQ_MAX_CONTENT_LEN :: nat where "PWL_MQ_MAX_CONTENT_LEN = 30"

text \<open>\<^verbatim>\<open>msg_buffer_t\<close>; the two arrays by the strings they hold.\<close>

record msg_buffer_t =
  sender_id :: nat
  pwl_cid :: nat
  status :: pwl_cid_status_t
  response :: string
  content :: string

type_synonym sent = "string \<times> msg_buffer_t"

text \<open>The entry of \<^verbatim>\<open>cid_name\<close> that a log line prints.\<close>

definition cid_name_at :: "nat \<Rightarrow> string option cres" where
  "cid_name_at n = (if n < length cid_name then Inr (cid_name ! n) else Inl OutOfBounds)"

text \<open>
  \<open>junk\<close> is the array \<^verbatim>\<open>content\<close> of the local message, which the function never writes.
  Opening the queue is not checked; the message is recorded as sent to its path.
\<close>

definition send_message_reply ::
  "string \<Rightarrow> nat \<Rightarrow> nat \<Rightarrow> nat \<Rightarrow> pwl_cid_status_t \<Rightarrow> string \<Rightarrow> sent cres" where
  "send_message_reply junk cid sender dest st msg =
     cbind (strcpy_cap PWL_MQ_MAX_RESP msg) (\<lambda>resp.
     cbind (cid_name_at cid) (\<lambda>_.
       Inr (PWL_MQ_PATH dest,
            \<lparr>sender_id = sender, pwl_cid = cid, status = st, response = resp, content = junk\<rparr>)))"

text \<open>The line \<^verbatim>\<open>print_message_info\<close> logs: sender path, number, name, status name.\<close>

definition print_message_info ::
  "msg_buffer_t \<Rightarrow> (string \<times> nat \<times> string option \<times> string option) cres" where
  "print_message_info m =
     cbind (cid_name_at (pwl_cid m)) (\<lambda>nm.
       Inr (PWL_MQ_PATH (sender_id m), pwl_cid m, nm, cid_status_name (status m)))"

section \<open>Command records and queues\<close>

record pwl_cid_record_t =
  rec_cid :: nat
  rec_status :: pwl_cid_status_t

definition update_cid_record ::
  "pwl_cid_record_t list \<Rightarrow> nat \<Rightarrow> pwl_cid_status_t \<Rightarrow> pwl_cid_record_t list cres" where
  "update_cid_record cid_table cid st =
     (if cid < length cid_table
      then Inr (cid_table[cid := (cid_table ! cid)\<lparr>rec_status := st\<rparr>])
      else Inl OutOfBounds)"

text \<open>The open queues by path; a path without a queue cannot be opened for reading.\<close>

type_synonym queues = "string \<Rightarrow> msg_buffer_t list option"

fun drain :: "msg_buffer_t list \<Rightarrow> nat \<Rightarrow> nat \<times> msg_buffer_t list" where
  "drain [] count = (count, [])"
| "drain (m # ms) count = drain ms (Suc count)"

definition pwl_discard_old_messages :: "string \<Rightarrow> queues \<Rightarrow> int \<times> queues" where
  "pwl_discard_old_messages path qs =
     (case qs path of
        None \<Rightarrow> (0, qs)
      | Some q \<Rightarrow> (0, qs(path := Some (snd (drain q 0)))))"

text \<open>
  \<^verbatim>\<open>cond_wait\<close>: the result of \<^verbatim>\<open>pthread_cond_timedwait\<close> decides; the pair is the return
  value and whether the mutex is held afterwards. On a failure the mutex stays locked until
  the next call unlocks it.
\<close>

definition cond_wait :: "int \<Rightarrow> bool \<times> bool" where
  "cond_wait timedwait_result = (if timedwait_result \<noteq> 0 then (False, True) else (True, False))"

section \<open>Lemmas\<close>

lemma cid_of_cid_num [simp]: "cid_of (cid_num c) = Some c"
  by (cases c) (simp_all add: cid_num_def cid_of_def cid_enum_def)

lemma cid_num_inject [simp]: "cid_num c = cid_num d \<longleftrightarrow> c = d"
  by (metis cid_of_cid_num option.inject)

lemma cid_num_bound: "cid_num c < 50"
  using cid_of_cid_num [of c] by (simp add: cid_of_def cid_enum_def split: if_splits)

lemma cid_of_eq_Some_iff: "cid_of n = Some c \<longleftrightarrow> n = cid_num c"
proof
  have distinct: "distinct cid_enum" by code_simp
  assume "cid_of n = Some c"
  then have n: "n < length cid_enum" "cid_enum ! n = c" by (auto simp: cid_of_def split: if_splits)
  from cid_of_cid_num [of c] have "cid_num c < length cid_enum" "cid_enum ! cid_num c = c"
    by (auto simp: cid_of_def split: if_splits)
  with n distinct show "n = cid_num c" by (metis nth_eq_iff_index_eq)
qed simp

lemma cid_enum_complete: "c \<in> set cid_enum"
  using cid_of_cid_num [of c] by (metis cid_of_def nth_mem option.distinct(1) option.inject)

lemma length_cid_name: "length cid_name = 48" by code_simp

lemma cid_name_at_ok: "n < 48 \<Longrightarrow> cid_name_at n = Inr (cid_name ! n)"
  by (simp add: cid_name_at_def length_cid_name)

lemma cid_name_at_num:
  "cid_name_at (cid_num c) = (if cid_num c < 48 then Inr (map_of cid_name_init c) else Inl OutOfBounds)"
proof (cases "cid_num c < 48")
  case True
  have "cid_enum ! cid_num c = c"
    using cid_of_cid_num [of c] by (auto simp: cid_of_def split: if_splits)
  moreover have "cid_name ! cid_num c = map_of cid_name_init (cid_enum ! cid_num c)"
    using True length_cid_name unfolding cid_name_def by (subst nth_map) simp_all
  ultimately show ?thesis using True by (simp add: cid_name_at_ok)
qed (simp add: cid_name_at_def length_cid_name)

lemma send_message_reply_eq_Inr_iff:
  "send_message_reply junk cid sender dest st msg = Inr m \<longleftrightarrow>
     length msg < PWL_MQ_MAX_RESP \<and> cid < 48 \<and>
     m = (PWL_MQ_PATH dest,
          \<lparr>sender_id = sender, pwl_cid = cid, status = st, response = msg, content = junk\<rparr>)"
  by (auto simp: send_message_reply_def cid_name_at_def length_cid_name strcpy_cap_def)

lemma print_message_info_ok: "pwl_cid m < 48 \<Longrightarrow> \<exists>l. print_message_info m = Inr l"
  by (simp add: print_message_info_def cid_name_at_ok)

lemma drain_empties: "drain q n = (n + length q, [])"
  by (induction q arbitrary: n) simp_all

section \<open>Properties\<close>

text \<open>Every command identifier has a name in the table the log lines index, except the
  group marker \<^verbatim>\<open>PLW_CID_MAX_PREF\<close>, whose entry is null, and the two end markers, which lie
  behind the end of the table.\<close>

theorem cid_name_total:
  "cid_name_at (cid_num c) =
     (if c = PWL_CID_MAX \<or> c = PLW_CID_MAX_MADPT then Inl OutOfBounds else Inr (map_of cid_name_init c))
   \<and> (map_of cid_name_init c = None \<longleftrightarrow> c = PLW_CID_MAX_PREF \<or> c = PLW_CID_MAX_MADPT \<or> c = PWL_CID_MAX)"
proof -
  have "list_all (\<lambda>c. cid_num c < 48 \<longleftrightarrow> c \<noteq> PWL_CID_MAX \<and> c \<noteq> PLW_CID_MAX_MADPT) cid_enum"
    by code_simp
  moreover have "list_all (\<lambda>c. map_of cid_name_init c = None
      \<longleftrightarrow> c = PLW_CID_MAX_PREF \<or> c = PLW_CID_MAX_MADPT \<or> c = PWL_CID_MAX) cid_enum"
    by code_simp
  ultimately show ?thesis
    using cid_enum_complete [of c] cid_name_at_num [of c] by (auto simp: list_all_iff)
qed

text \<open>A reply is sent exactly when the text fits the response array and the command has a
  table entry; it then goes to the queue of the addressed service and carries the given
  command, status and text.\<close>

theorem send_message_reply_correct:
  "(length msg < 500 \<and> cid < 48 \<longrightarrow>
     send_message_reply junk cid sender dest st msg =
       Inr (PWL_MQ_PATH dest, \<lparr>sender_id = sender, pwl_cid = cid, status = st, response = msg, content = junk\<rparr>))
   \<and> (500 \<le> length msg \<longrightarrow> send_message_reply junk cid sender dest st msg = Inl Overflow)
   \<and> (length msg < 500 \<and> 48 \<le> cid \<longrightarrow> send_message_reply junk cid sender dest st msg = Inl OutOfBounds)"
  by (simp add: send_message_reply_def cid_name_at_def length_cid_name strcpy_cap_def PWL_MQ_MAX_RESP_def)

theorem send_message_reply_correct_witness:
  "send_message_reply ''junk'' 18 2 4 PWL_CID_STATUS_OK ''abc''
    = Inr (''/pwl_fwupdate'', \<lparr>sender_id = 2, pwl_cid = 18, status = PWL_CID_STATUS_OK,
        response = ''abc'', content = ''junk''\<rparr>)"
  using send_message_reply_correct [of "''abc''" 18 "''junk''" 2 4 PWL_CID_STATUS_OK]
  by (simp add: PWL_MQ_PATH_def PWL_MQ_PATH_FWUPDATE_def)

end
