(* ===== verification/Common_Device.thy ===== *)
theory Common_Device
  imports Common_Messages
begin

text \<open>
  Host and module detection from \<^verbatim>\<open>common/common.c\<close>: the tables of supported machines and
  modules, the queries of the host (\<^verbatim>\<open>dmidecode\<close>), of the buses (\<^verbatim>\<open>lsusb\<close>, \<^verbatim>\<open>lspci\<close>,
  \<^verbatim>\<open>udevadm\<close>) and of the module over \<^verbatim>\<open>mbimcli\<close>, the device type that is found once and
  then cached, and the string helpers that live in the same file.

  A command run through \<^verbatim>\<open>popen\<close> is the parameter \<open>sh\<close>: it gives the whole output of a
  command line, or \<open>None\<close> when the command cannot be started. The static variables of the file
  are the fields of the record \<open>dev\<close>.
\<close>

section \<open>Tables\<close>

definition usb_devices :: "string list" where
  "usb_devices =
    [''0CBD'', ''0CC1'', ''0CC4'', ''0CB5'', ''0CB7'', ''0CB2'', ''0CB3'', ''0CB4'', ''0CB9'',
     ''0CBA'', ''0CBB'', ''0CBC'', ''0CD9'', ''0CDA'', ''0CF4'', ''0CE8'', ''0CF9'', ''0CF5'',
     ''0CF6'', ''0D5F'', ''0D60'', ''0D5C'', ''0D5E'', ''0D47'', ''0D48'', ''0D49'', ''0D61'',
     ''0D4D'', ''0D4E'', ''0D4F'', ''0D65'', ''0DF4'', ''0E39'', ''0E35'', ''0E1C'', ''0E38'',
     ''0E1D'', ''0E33'', ''0E1F'', ''0E8C'', ''0E8A'', ''0EA3'', ''0EAA'', ''0E26'', ''0E25'',
     ''0E23'', ''0E24'', ''0E29'', ''0E31'', ''0E5F'', ''0E65'', ''0E5B'', ''0E69'', ''0E5D'',
     ''0E67'', ''0DF5'', ''0E40'', ''0E36'', ''0E1A'', ''0E1B'', ''0E1E'', ''0DF3'', ''0E34'',
     ''0E20'', ''0E8D'', ''0E8B'', ''0EA4'', ''0EAB'', ''0E28'', ''0E22'', ''0E21'', ''0E27'',
     ''0E2A'', ''0E32'', ''0E60'', ''0E66'', ''0E5C'', ''0E6A'', ''0E5E'', ''0E68'']"

definition IOT_START_INDEX :: nat where "IOT_START_INDEX = 31"

definition pcie_devices :: "string list" where
  "pcie_devices =
    [''0CF4'', ''0CF5'', ''0CDD'', ''0CF1'', ''0CDB'', ''0D4D'', ''0D4E'', ''0D4F'', ''0D65'',
     ''0DBD'', ''0DBD'', ''0E1A'', ''0E38'', ''0E1B'', ''0E1D'', ''0E1C'', ''0E1E'', ''0E33'',
     ''0E3C'', ''0E34'', ''0E3D'', ''0E3A'', ''0E3B'', ''0E1F'', ''0E20'', ''0E22'', ''0E21'',
     ''0E25'', ''0E23'', ''0E24'', ''0E27'', ''0E31'', ''0E32'', ''0E26'', ''0E28'', ''0E3E'',
     ''0E3F'', ''0E82'', ''0E83'', ''0E84'', ''0E85'', ''0E5F'', ''0E65'', ''0E5B'', ''0E69'',
     ''0E60'', ''0E66'', ''0E5C'', ''0E6A'', ''0E5D'', ''0E67'', ''0E5E'', ''0E68'', ''0E8A'',
     ''0E8C'', ''0E8B'', ''0E8D'', ''0D85'', ''0D8A'', ''0D4D'', ''0D4E'', ''0D4F'', ''0D65'',
     ''0DD0'', ''0D87'', ''0D88'']"

definition ssid_sku_table :: "(string \<times> string) list" where
  "ssid_sku_table =
    [(''0CBD'', ''4131002''), (''0CC1'', ''4131003''), (''0CC4'', ''4131003''), (''0CB5'', ''4131001''),
     (''0CB7'', ''4131001''), (''0CB2'', ''4131001''), (''0CB3'', ''4131001''), (''0CB4'', ''4131001''),
     (''0CB9'', ''4131001''), (''0CBA'', ''4131001''), (''0CBB'', ''4131001''), (''0CBC'', ''4131001''),
     (''0CD9'', ''4131001''), (''0CDA'', ''4131001''), (''0CF4'', ''4131007''), (''0CE8'', ''4131009''),
     (''0CF9'', ''4131009''), (''0CF5'', ''4131008''), (''0CF6'', ''4131008''), (''0D5F'', ''4131009''),
     (''0D60'', ''4131009''), (''0D5C'', ''4131009''), (''0D5E'', ''4131009''), (''0D47'', ''4131007''),
     (''0D48'', ''4131007''), (''0D49'', ''4131007''), (''0D61'', ''4131007''), (''0D4D'', ''4131008''),
     (''0D4E'', ''4131008''), (''0D4F'', ''4131008''), (''0D65'', ''4131008''), (''0DF4'', ''4131023''),
     (''0E39'', ''4131021''), (''0E35'', ''4131021''), (''0E1C'', ''4131021''), (''0E38'', ''4131021''),
     (''0E1D'', ''4131022''), (''0E33'', ''4131021''), (''0E1F'', ''4131021''), (''0E8C'', ''4131021''),
     (''0E8A'', ''4131023''), (''0EA3'', ''4131023''), (''0EAA'', ''4131021''), (''0E26'', ''4131021''),
     (''0E25'', ''4131021''), (''0E23'', ''4131021''), (''0E24'', ''4131022''), (''0E29'', ''4131023''),
     (''0E31'', ''4131021''), (''0E5F'', ''4131021''), (''0E65'', ''4131021''), (''0E5B'', ''4131021''),
     (''0E69'', ''4131021''), (''0E5D'', ''4131023''), (''0E67'', ''4131023''), (''0DF5'', ''4131027''),
     (''0E40'', ''4131026''), (''0E36'', ''4131026''), (''0E1A'', ''4131024''), (''0E1B'', ''4131025''),
     (''0E1E'', ''4131026''), (''0DF3'', ''4131026''), (''0E34'', ''4131026''), (''0E20'', ''4131026''),
     (''0E8D'', ''4131026''), (''0E8B'', ''4131027''), (''0EA4'', ''4131027''), (''0EAB'', ''4131026''),
     (''0E28'', ''4131026''), (''0E22'', ''4131024''), (''0E21'', ''4131025''), (''0E27'', ''4131026''),
     (''0E2A'', ''4131027''), (''0E32'', ''4131026''), (''0E60'', ''4131026''), (''0E66'', ''4131026''),
     (''0E5C'', ''4131026''), (''0E6A'', ''4131026''), (''0E5E'', ''4131027''), (''0E68'', ''4131027'')]"

definition usbid_info :: "string list" where
  "usbid_info =
    [''413c:8217'', ''413c:8218'', ''413c:8219'', ''413c:81ea'', ''413c:81eb'', ''413c:81ec'']"

definition pcieid_info :: "string list" where
  "pcieid_info =
    [''14c0:4d75'', ''14c0:0b5e'', ''14c0:0b63'', ''14c0:0b62'', ''14c0:0b68'',
     ''14C0:0B68'', ''14c0:0b64'', ''14c0:0b66'', ''14c0:0b65'', ''14c0:0b5f'']"

definition SUBSYS_LIST :: "string list" where
  "SUBSYS_LIST = [''1028:5933'', ''1028:5966'']"

definition INFO_BUFFER_SIZE :: nat where "INFO_BUFFER_SIZE = 100"
definition PWL_MAX_SKUID_SIZE :: nat where "PWL_MAX_SKUID_SIZE = 15"
definition PWL_MAX_MFR_SIZE :: nat where "PWL_MAX_MFR_SIZE = 10"
definition IMEI_MAX_LENGTH :: nat where "IMEI_MAX_LENGTH = 32"
definition SN_MAX_LENGTH :: nat where "SN_MAX_LENGTH = 32"

section \<open>State and environment\<close>

record dev =
  g_device_type :: pwl_device_type_t
  g_subsysid :: "string option"
  g_is_iot_ssid :: bool
  g_is_iot_fw :: bool

definition dev_init :: dev where
  "dev_init = \<lparr>g_device_type = PWL_DEVICE_TYPE_UNKNOWN, g_subsysid = None,
               g_is_iot_ssid = False, g_is_iot_fw = False\<rparr>"

type_synonym shell = "string \<Rightarrow> string option"

section \<open>Host information\<close>

text \<open>The result is the return value and the new content of the buffer, \<open>old\<close> when it is not written.\<close>

definition get_host_info :: "shell \<Rightarrow> string \<Rightarrow> string \<Rightarrow> nat \<Rightarrow> bool \<times> string" where
  "get_host_info sh cmd old buff_len =
     (case sh cmd of
        None \<Rightarrow> (False, old)
      | Some out \<Rightarrow> (True, case fgets buff_len out of None \<Rightarrow> old | Some l \<Rightarrow> cut_at l [NL]))"

definition filter_host_info_header :: "string \<Rightarrow> string \<Rightarrow> string \<Rightarrow> int \<Rightarrow> bool \<times> string" where
  "filter_host_info_header header info old buff_len =
     (case strstr info header of
        None \<Rightarrow> (False, old)
      | Some head \<Rightarrow>
          let rest = drop (length header) head; info_len = int (length rest)
          in if info_len > 1 \<and> buff_len \<ge> info_len + 1 then (True, rest) else (False, old))"

text \<open>\<^verbatim>\<open>dmidecode -t 1 | grep 'field'\<close>\<close>

definition dmidecode_cmd :: "string \<Rightarrow> string" where
  "dmidecode_cmd field = ''dmidecode -t 1 | grep '' @ [CHR 0x27] @ field @ [CHR 0x27]"

text \<open>\<open>junk\<close> is the content of the local array, used when the command prints nothing.\<close>

definition pwl_get_manufacturer :: "shell \<Rightarrow> string \<Rightarrow> nat \<Rightarrow> string" where
  "pwl_get_manufacturer sh junk buff_len =
     (let (ok, manufacturer) = get_host_info sh (dmidecode_cmd ''Manufacturer:'') junk INFO_BUFFER_SIZE
      in if \<not> ok then []
         else snd (filter_host_info_header ''Manufacturer: '' manufacturer [] (int buff_len)))"

definition pwl_get_skuid :: "shell \<Rightarrow> string \<Rightarrow> nat \<Rightarrow> string" where
  "pwl_get_skuid sh junk buff_len =
     (let (ok, skuid) = get_host_info sh (dmidecode_cmd ''SKU Number:'') junk INFO_BUFFER_SIZE
      in if \<not> ok then []
         else snd (filter_host_info_header ''SKU Number: '' skuid [] (int buff_len)))"

section \<open>Module detection\<close>

text \<open>The return code and what is stored through \<^verbatim>\<open>subsysid\<close>.\<close>

definition get_fwupdate_subsysid :: "dev \<Rightarrow> (int \<times> string option) cres" where
  "get_fwupdate_subsysid d =
     (case g_subsysid d of
        None \<Rightarrow> Inr (-1, None)
      | Some s \<Rightarrow>
          cbind (strcpy_cap 20 s) (\<lambda>id_buffer.
            Inr (0, Some (case strtok_all '':'' id_buffer of
                            [] \<Rightarrow> ''default''
                          | [t] \<Rightarrow> take 4 t
                          | t # t2 # _ \<Rightarrow> take 4 t2 @ take 4 t))))"

definition subsys_query_head :: string where
  "subsys_query_head = ''udevadm info --query=all --path=/sys/bus/pci/devices/''"
definition subsys_query_tail :: string where
  "subsys_query_tail = '' | grep PCI_SUBSYS_ID=''"

text \<open>The check of the PCI subsystem id, for the device at address \<open>domain\<close>.\<close>

definition check_subsys :: "shell \<Rightarrow> string \<Rightarrow> dev \<Rightarrow> (bool \<times> dev) cres" where
  "check_subsys sh domain d =
     cbind (strcpy_cap (length subsys_query_head + 2 + length subsys_query_tail + 20)
              (subsys_query_head @ domain @ subsys_query_tail)) (\<lambda>query_cmd.
     case sh query_cmd of
       None \<Rightarrow> Inr (False, d)
     | Some out \<Rightarrow>
         (case fgets 100 out of
            None \<Rightarrow> Inr (False, d)
          | Some subsysid \<Rightarrow>
              (case strstr subsysid ''PCI_SUBSYS_ID='' of
                 None \<Rightarrow> Inl NullDeref
               | Some subsys \<Rightarrow>
                   let sid = drop (length ''PCI_SUBSYS_ID='') subsys
                   in if list_ex (\<lambda>s. strncmp_eq sid s (length s)) SUBSYS_LIST
                      then (case g_subsysid d of
                              None \<Rightarrow> cbind (strcpy_cap 20 sid) (\<lambda>g. Inr (True, d\<lparr>g_subsysid := Some g\<rparr>))
                            | Some _ \<Rightarrow> Inr (True, d))
                      else Inr (False, d))))"

definition pwl_module_device_id_exist ::
  "shell \<Rightarrow> pwl_device_type_t \<Rightarrow> string \<Rightarrow> dev \<Rightarrow> (bool \<times> dev) cres" where
  "pwl_module_device_id_exist sh ty devid d =
     (let command = (if ty = PWL_DEVICE_TYPE_USB then ''lsusb | grep '' else ''lspci -D -n | grep '')
      in case sh (command @ devid) of
           None \<Rightarrow> Inr (False, d)
         | Some out \<Rightarrow>
             (case fgets 200 out of
                None \<Rightarrow> Inr (False, d)
              | Some resp \<Rightarrow>
                  if ty = PWL_DEVICE_TYPE_USB then Inr (True, d)
                  else (case strtok_all '' '' resp of
                          [] \<Rightarrow> Inr (False, d)
                        | domain # _ \<Rightarrow> check_subsys sh domain d)))"

text \<open>The inner loops of \<^verbatim>\<open>pwl_get_device_type\<close>: the first module id that the bus shows.\<close>

fun probe_ids :: "shell \<Rightarrow> pwl_device_type_t \<Rightarrow> string list \<Rightarrow> dev \<Rightarrow> (bool \<times> dev) cres" where
  "probe_ids sh ty [] d = Inr (False, d)"
| "probe_ids sh ty (devid # ids) d =
     cbind (pwl_module_device_id_exist sh ty devid d) (\<lambda>(found, d').
       if found then Inr (True, d') else probe_ids sh ty ids d')"

fun scan_usb :: "shell \<Rightarrow> string \<Rightarrow> nat \<Rightarrow> string list \<Rightarrow> dev \<Rightarrow> (bool \<times> dev) cres" where
  "scan_usb sh skuid i [] d = Inr (False, d)"
| "scan_usb sh skuid i (u # us) d =
     (if strncmp_eq skuid u (length u)
      then cbind (probe_ids sh PWL_DEVICE_TYPE_USB usbid_info d) (\<lambda>(found, d').
             if found
             then Inr (True, d'\<lparr>g_device_type := PWL_DEVICE_TYPE_USB,
                                g_is_iot_ssid := (IOT_START_INDEX \<le> i)\<rparr>)
             else scan_usb sh skuid (Suc i) us d')
      else scan_usb sh skuid (Suc i) us d)"

fun scan_pcie :: "shell \<Rightarrow> string \<Rightarrow> string list \<Rightarrow> dev \<Rightarrow> (bool \<times> dev) cres" where
  "scan_pcie sh skuid [] d = Inr (False, d)"
| "scan_pcie sh skuid (p # ps) d =
     (if strncmp_eq skuid p (length p)
      then cbind (probe_ids sh PWL_DEVICE_TYPE_PCIE pcieid_info d) (\<lambda>(found, d').
             if found then Inr (True, d'\<lparr>g_device_type := PWL_DEVICE_TYPE_PCIE\<rparr>)
             else scan_pcie sh skuid ps d')
      else scan_pcie sh skuid ps d)"

definition pwl_get_device_type :: "shell \<Rightarrow> string \<Rightarrow> dev \<Rightarrow> (pwl_device_type_t \<times> dev) cres" where
  "pwl_get_device_type sh junk d =
     (if g_device_type d \<noteq> PWL_DEVICE_TYPE_UNKNOWN then Inr (g_device_type d, d)
      else let skuid = pwl_get_skuid sh junk PWL_MAX_SKUID_SIZE
           in cbind (scan_usb sh skuid 0 usb_devices d) (\<lambda>(found, d').
                if found then Inr (PWL_DEVICE_TYPE_USB, d')
                else cbind (scan_pcie sh skuid pcie_devices d') (\<lambda>(found2, d'').
                       if found2 then Inr (PWL_DEVICE_TYPE_PCIE, d'')
                       else Inr (PWL_DEVICE_TYPE_UNKNOWN, d''))))"

text \<open>
  The polling loop: \<open>env i\<close> is the environment of the \<open>i\<close>-th poll (the command results and the
  bytes of the local arrays); \<open>n\<close> counts the polls that are left.
\<close>

fun await_device_type ::
  "nat \<Rightarrow> (nat \<Rightarrow> shell \<times> string) \<Rightarrow> nat \<Rightarrow> dev \<Rightarrow> (pwl_device_type_t \<times> dev) cres" where
  "await_device_type 0 env i d = Inr (PWL_DEVICE_TYPE_UNKNOWN, d)"
| "await_device_type (Suc n) env i d =
     cbind (pwl_get_device_type (fst (env i)) (snd (env i)) d) (\<lambda>(ty, d').
       if ty \<noteq> PWL_DEVICE_TYPE_UNKNOWN then Inr (ty, d') else await_device_type n env (Suc i) d')"

definition pwl_get_device_type_await ::
  "(nat \<Rightarrow> shell \<times> string) \<Rightarrow> dev \<Rightarrow> (pwl_device_type_t \<times> dev) cres" where
  "pwl_get_device_type_await env d = await_device_type 30 env 0 d"

section \<open>Commands to the module\<close>

definition pwl_find_mbim_port ::
  "shell \<Rightarrow> string \<Rightarrow> cbuf \<Rightarrow> nat \<Rightarrow> dev \<Rightarrow> (bool \<times> cbuf \<times> dev) cres" where
  "pwl_find_mbim_port sh junk port_buff port_buff_size d =
     cbind (pwl_get_device_type sh junk d) (\<lambda>(ty, d').
       let fp = (case ty of
                   PWL_DEVICE_TYPE_USB \<Rightarrow> sh ''find /dev/ -name cdc-wdm*''
                 | PWL_DEVICE_TYPE_PCIE \<Rightarrow> sh ''find /dev/ -name wwan0mbim*''
                 | PWL_DEVICE_TYPE_UNKNOWN \<Rightarrow> None)
       in case fp of
            None \<Rightarrow> Inr (False, port_buff, d')
          | Some out \<Rightarrow>
              let buffer = cut_at (case fgets 50 out of None \<Rightarrow> [] | Some l \<Rightarrow> l) [NL]
              in if length buffer + 1 > port_buff_size then Inr (False, port_buff, d')
                 else if length buffer \<le> 0 then Inr (False, port_buff, d')
                 else cbind (buf_strncpy port_buff buffer (length buffer)) (\<lambda>pb. Inr (True, pb, d')))"

text \<open>The loop that collects the output of \<^verbatim>\<open>mbimcli\<close> in \<^verbatim>\<open>buff[PWL_MQ_MAX_RESP]\<close>.\<close>

fun strcat_lines :: "nat \<Rightarrow> string list \<Rightarrow> string \<Rightarrow> string cres" where
  "strcat_lines cap [] buff = Inr buff"
| "strcat_lines cap (l # ls) buff =
     cbind (strcpy_cap cap (buff @ l)) (\<lambda>buff'. strcat_lines cap ls buff')"

definition mbimcli_command :: "string \<Rightarrow> string \<Rightarrow> string" where
  "mbimcli_command port command =
     ''mbimcli -d '' @ port @ '' -p --compal-query-at-command='' @ [CHR 0x22] @ command @ [CHR 0x22]"

definition pwl_set_command ::
  "shell \<Rightarrow> string \<Rightarrow> string \<Rightarrow> dev \<Rightarrow> (bool \<times> string option \<times> dev) cres" where
  "pwl_set_command sh junk command d =
     cbind (pwl_find_mbim_port sh junk (zeroed 20) 20 d) (\<lambda>(found, port_buff, d').
       if \<not> found then Inr (False, None, d')
       else cbind (cstr port_buff) (\<lambda>port.
         case sh (mbimcli_command port command) of
           None \<Rightarrow> Inr (False, None, d')
         | Some out \<Rightarrow>
             cbind (strcat_lines PWL_MQ_MAX_RESP (fgets_lines 100 out) []) (\<lambda>buff.
               if length buff > 0 then Inr (True, Some buff, d') else Inr (False, None, d'))))"

definition pwl_set_command_available :: "shell \<Rightarrow> string \<Rightarrow> dev \<Rightarrow> (bool \<times> dev) cres" where
  "pwl_set_command_available sh junk d =
     cbind (pwl_set_command sh junk ''AT'' d) (\<lambda>(ok, resp, d').
       if ok then (case resp of
                     None \<Rightarrow> Inr (False, d')
                   | Some r \<Rightarrow> Inr (strstr r ''OK'' \<noteq> None, d'))
       else Inr (False, d'))"

section \<open>Firmware versions\<close>

definition get_fw_main_version :: "string \<Rightarrow> int" where
  "get_fw_main_version input =
     (let ts = strtok_all ''_'' input
      in if 1 < length ts
         then let sub = strtok_all ''.'' (ts ! 1) in if 2 < length sub then atoi (sub ! 2) else -1
         else -1)"

definition is_iot_image :: "string \<Rightarrow> bool" where
  "is_iot_image img \<longleftrightarrow> get_fw_main_version img \<ge> 50"

definition is_iot_module_fw :: "shell \<Rightarrow> string \<Rightarrow> dev \<Rightarrow> (bool \<times> dev) cres" where
  "is_iot_module_fw sh junk d =
     cbind (pwl_set_command sh junk ''at*bfwver'' d) (\<lambda>(ok, resp, d').
       let d2 = (if ok
                 then (case resp of
                         None \<Rightarrow> d'
                       | Some r \<Rightarrow> if strstr r ''OK'' \<noteq> None
                                   then d'\<lparr>g_is_iot_fw := (get_fw_main_version r \<ge> 50)\<rparr> else d')
                 else d')
       in Inr (g_is_iot_fw d2, d2))"

definition is_iot_ssid :: "dev \<Rightarrow> bool" where
  "is_iot_ssid d = g_is_iot_ssid d"

section \<open>Folders and strings\<close>

text \<open>The return code and the command line that was run.\<close>

definition remove_folder :: "shell \<Rightarrow> string \<Rightarrow> (int \<times> string) cres" where
  "remove_folder sh path =
     cbind (strcpy_cap 128 (''rm -rf '' @ path)) (\<lambda>command.
       case sh command of None \<Rightarrow> Inr (-1, command) | Some _ \<Rightarrow> Inr (0, command))"

text \<open>The loop that moves \<^verbatim>\<open>end\<close> back over white space while it lies behind \<^verbatim>\<open>start\<close>.\<close>

fun trim_end :: "string \<Rightarrow> nat \<Rightarrow> nat" where
  "trim_end s 0 = 0"
| "trim_end s (Suc n) = (if isspace (s ! Suc n) then trim_end s n else Suc n)"

definition trim_string :: "string \<Rightarrow> string" where
  "trim_string s =
     (let start = dropWhile isspace s
      in if start = [] then [] else take (Suc (trim_end start (length start - 1))) start)"

text \<open>
  The strings left in the two arrays, of \<open>sn_size\<close> and \<open>imei_size\<close> bytes, and the return code.
\<close>

definition split_backup_sn_imei :: "nat \<Rightarrow> nat \<Rightarrow> string \<Rightarrow> (int \<times> string \<times> string) cres" where
  "split_backup_sn_imei sn_size imei_size input =
     (case strchr input (CHR '';'') of
        None \<Rightarrow> Inr (-1, [], [])
      | Some sep \<Rightarrow>
          let sn_len = length input - length sep
          in cbind (strcpy_cap sn_size (take sn_len input)) (\<lambda>sn.
             cbind (cassert (IMEI_MAX_LENGTH \<le> imei_size) Overflow) (\<lambda>_.
               Inr (0, trim_string sn, trim_string (take (IMEI_MAX_LENGTH - 1) (tl sep))))))"

section \<open>Strings: lemmas\<close>

definition trim :: "string \<Rightarrow> string" where
  "trim s = rev (dropWhile isspace (rev (dropWhile isspace s)))"

lemma trim_end_take:
  assumes "n < length s" "\<not> isspace (s ! 0)"
  shows "take (Suc (trim_end s n)) s = rev (dropWhile isspace (rev (take (Suc n) s)))"
  using assms(1)
proof (induction n)
  case 0
  then show ?case using assms(2) by (cases s) simp_all
next
  case (Suc n)
  then have "take (Suc (Suc n)) s = take (Suc n) s @ [s ! Suc n]"
    by (simp add: take_Suc_conv_app_nth)
  with Suc show ?case by simp
qed

lemma trim_string_trim: "trim_string s = trim s"
proof (cases "dropWhile isspace s")
  case (Cons c cs)
  then have "\<not> isspace c" by (metis dropWhile_eq_Cons_conv)
  with Cons trim_end_take [of "length cs" "c # cs"] show ?thesis
    by (simp add: trim_string_def trim_def Let_def)
qed (auto simp: trim_string_def trim_def dest: set_dropWhileD)

lemma trim_fixed: "s = [] \<or> \<not> isspace (hd s) \<and> \<not> isspace (last s) \<Longrightarrow> trim s = s"
proof (cases "s = []")
  case False
  assume "s = [] \<or> \<not> isspace (hd s) \<and> \<not> isspace (last s)"
  with False have hd: "\<not> isspace (hd s)" and last: "\<not> isspace (hd (rev s))" by (simp_all add: hd_rev)
  then have "dropWhile isspace s = s" "dropWhile isspace (rev s) = rev s"
    using False by (metis dropWhile_eq_self_iff rev_is_Nil_conv)+
  then show ?thesis by (simp add: trim_def)
qed (simp add: trim_def)

lemma trim_ends: "trim s = [] \<or> \<not> isspace (hd (trim s)) \<and> \<not> isspace (last (trim s))"
proof -
  let ?a = "dropWhile isspace s" and ?b = "dropWhile isspace (rev (dropWhile isspace s))"
  have "?b \<noteq> [] \<longrightarrow> \<not> isspace (hd ?b)" by (simp add: hd_dropWhile)
  moreover have "?b \<noteq> [] \<longrightarrow> \<not> isspace (last ?b)"
  proof
    assume b: "?b \<noteq> []"
    then have "?a \<noteq> []" by (metis dropWhile.simps(1) rev.simps(1))
    then have "\<not> isspace (hd ?a)" by (simp add: hd_dropWhile)
    moreover have "last ?b = hd ?a"
      using b \<open>?a \<noteq> []\<close> by (metis dropWhile_eq_drop hd_rev last_drop length_greater_0_conv
          last_rev length_drop zero_less_diff)
    ultimately show "\<not> isspace (last ?b)" by simp
  qed
  ultimately show ?thesis by (auto simp: trim_def hd_rev last_rev)
qed

lemma strcat_lines_concat:
  "strcat_lines cap ls acc = (if ls = [] \<or> length (acc @ concat ls) < cap then Inr (acc @ concat ls) else Inl Overflow)"
  by (induction ls arbitrary: acc) (auto simp: strcpy_cap_def)

lemma mbimcli_output: "strcat_lines PWL_MQ_MAX_RESP (fgets_lines 100 out) []
    = (if length out < 500 then Inr out else Inl Overflow)"
proof -
  have "concat (fgets_lines 100 out) = out" by (rule concat_fgets_lines)
  moreover from this have "fgets_lines 100 out = [] \<longrightarrow> out = []" by force
  ultimately show ?thesis by (auto simp: strcat_lines_concat PWL_MQ_MAX_RESP_def)
qed

section \<open>Detection: lemmas\<close>

lemma filter_host_info_header_bound:
  "filter_host_info_header header info old n = (True, b) \<Longrightarrow> int (length b) + 1 \<le> n \<and> sublist b info"
  using strstr_Some_suffix [of info header]
  by (auto simp: filter_host_info_header_def Let_def split: option.splits if_splits)
    (metis sublist_altdef' sublist_appendI suffixE suffix_drop suffix_order.trans suffix_imp_sublist)

lemma length_pwl_get_skuid: "0 < n \<Longrightarrow> length (pwl_get_skuid sh junk n) < n"
  using filter_host_info_header_bound [of "''SKU Number: ''"]
  by (auto simp: pwl_get_skuid_def filter_host_info_header_def Let_def split: option.splits prod.splits)

definition subsys_ok :: "string \<Rightarrow> bool" where
  "subsys_ok s \<longleftrightarrow> length s < 20 \<and> list_ex (\<lambda>x. prefix x s) SUBSYS_LIST"

text \<open>The invariant of the static variables: a recorded subsystem id is one of the supported
  ones and fits its buffer, and a PCIe module is only reported once it is recorded.\<close>

definition dev_inv :: "dev \<Rightarrow> bool" where
  "dev_inv d \<longleftrightarrow> (case g_subsysid d of None \<Rightarrow> True | Some s \<Rightarrow> subsys_ok s)
     \<and> (g_device_type d = PWL_DEVICE_TYPE_PCIE \<longrightarrow> g_subsysid d \<noteq> None)"

lemma dev_inv_init: "dev_inv dev_init"
  by (simp add: dev_inv_def dev_init_def)

lemma check_subsys_inv:
  assumes "check_subsys sh domain d = Inr (found, d')" "dev_inv d"
  shows "dev_inv d' \<and> g_device_type d' = g_device_type d \<and> (found \<longrightarrow> g_subsysid d' \<noteq> None)"
  using assms
  by (auto simp: check_subsys_def dev_inv_def subsys_ok_def list_ex_iff strncmp_eq_prefix Let_def
      split: option.splits if_splits) blast

lemma module_device_id_inv:
  assumes "pwl_module_device_id_exist sh ty devid d = Inr (found, d')" "dev_inv d"
  shows "dev_inv d' \<and> g_device_type d' = g_device_type d
    \<and> (found \<and> ty = PWL_DEVICE_TYPE_PCIE \<longrightarrow> g_subsysid d' \<noteq> None)"
  using assms check_subsys_inv
  by (auto simp: pwl_module_device_id_exist_def Let_def split: option.splits if_splits list.splits)

lemma probe_ids_inv:
  "probe_ids sh ty ids d = Inr (found, d') \<Longrightarrow> dev_inv d \<Longrightarrow>
   dev_inv d' \<and> g_device_type d' = g_device_type d
    \<and> (found \<and> ty = PWL_DEVICE_TYPE_PCIE \<longrightarrow> g_subsysid d' \<noteq> None)"
proof (induction ids arbitrary: d)
  case (Cons devid ids)
  from Cons.prems(1) obtain f d1 where d1: "pwl_module_device_id_exist sh ty devid d = Inr (f, d1)"
    and step: "(if f then Inr (True, d1) else probe_ids sh ty ids d1) = Inr (found, d')" by auto
  note inv1 = module_device_id_inv [OF d1 Cons.prems(2)]
  show ?case
  proof (cases f)
    case True
    with step inv1 show ?thesis by auto
  next
    case False
    with step Cons.IH [of d1] inv1 show ?thesis by simp
  qed
qed simp

lemma scan_usb_inv:
  "scan_usb sh skuid i us d = Inr (found, d') \<Longrightarrow> dev_inv d \<Longrightarrow>
   g_device_type d = PWL_DEVICE_TYPE_UNKNOWN \<Longrightarrow>
   dev_inv d' \<and> g_device_type d' = (if found then PWL_DEVICE_TYPE_USB else PWL_DEVICE_TYPE_UNKNOWN)"
proof (induction us arbitrary: i d)
  case (Cons u us)
  show ?case
  proof (cases "strncmp_eq skuid u (length u)")
    case True
    with Cons.prems(1) obtain f d1 where d1: "probe_ids sh PWL_DEVICE_TYPE_USB usbid_info d = Inr (f, d1)"
      and step: "(if f then Inr (True, d1\<lparr>g_device_type := PWL_DEVICE_TYPE_USB,
          g_is_iot_ssid := (IOT_START_INDEX \<le> i)\<rparr>) else scan_usb sh skuid (Suc i) us d1) = Inr (found, d')"
      by auto
    note inv1 = probe_ids_inv [OF d1 Cons.prems(2)]
    show ?thesis
    proof (cases f)
      case True
      with step inv1 show ?thesis by (auto simp: dev_inv_def)
    next
      case False
      with step Cons.IH [of "Suc i" d1] inv1 Cons.prems(3) show ?thesis by simp
    qed
  next
    case False
    with Cons show ?thesis by simp
  qed
qed simp

lemma scan_pcie_inv:
  "scan_pcie sh skuid ps d = Inr (found, d') \<Longrightarrow> dev_inv d \<Longrightarrow>
   g_device_type d = PWL_DEVICE_TYPE_UNKNOWN \<Longrightarrow>
   dev_inv d' \<and> g_device_type d' = (if found then PWL_DEVICE_TYPE_PCIE else PWL_DEVICE_TYPE_UNKNOWN)"
proof (induction ps arbitrary: d)
  case (Cons p ps)
  show ?case
  proof (cases "strncmp_eq skuid p (length p)")
    case True
    with Cons.prems(1) obtain f d1 where d1: "probe_ids sh PWL_DEVICE_TYPE_PCIE pcieid_info d = Inr (f, d1)"
      and step: "(if f then Inr (True, d1\<lparr>g_device_type := PWL_DEVICE_TYPE_PCIE\<rparr>)
          else scan_pcie sh skuid ps d1) = Inr (found, d')" by auto
    note inv1 = probe_ids_inv [OF d1 Cons.prems(2)]
    show ?thesis
    proof (cases f)
      case True
      with step inv1 show ?thesis by (auto simp: dev_inv_def)
    next
      case False
      with step Cons.IH [of d1] inv1 Cons.prems(3) show ?thesis by simp
    qed
  next
    case False
    with Cons show ?thesis by simp
  qed
qed simp

lemma get_device_type_inv:
  assumes "pwl_get_device_type sh junk d = Inr (ty, d')" "dev_inv d"
  shows "dev_inv d' \<and> g_device_type d' = ty
    \<and> (g_device_type d \<noteq> PWL_DEVICE_TYPE_UNKNOWN \<longrightarrow> d' = d)"
proof (cases "g_device_type d = PWL_DEVICE_TYPE_UNKNOWN")
  case True
  let ?sku = "pwl_get_skuid sh junk PWL_MAX_SKUID_SIZE"
  from assms(1) True obtain f1 d1 where d1: "scan_usb sh ?sku 0 usb_devices d = Inr (f1, d1)"
    and s1: "(if f1 then Inr (PWL_DEVICE_TYPE_USB, d1)
        else cbind (scan_pcie sh ?sku pcie_devices d1) (\<lambda>(found2, d'').
          if found2 then Inr (PWL_DEVICE_TYPE_PCIE, d'') else Inr (PWL_DEVICE_TYPE_UNKNOWN, d''))) = Inr (ty, d')"
    by (auto simp: pwl_get_device_type_def Let_def)
  note inv1 = scan_usb_inv [OF d1 assms(2) True] and unknown = True
  show ?thesis
  proof (cases f1)
    case True
    with s1 inv1 unknown show ?thesis by auto
  next
    case False
    with s1 obtain f2 d2 where d2: "scan_pcie sh ?sku pcie_devices d1 = Inr (f2, d2)"
      and s2: "(if f2 then PWL_DEVICE_TYPE_PCIE else PWL_DEVICE_TYPE_UNKNOWN, d2) = (ty, d')"
      by (auto split: if_splits)
    from scan_pcie_inv [OF d2] inv1 False s2 unknown show ?thesis by (auto split: if_splits)
  qed
next
  case False
  with assms show ?thesis by (auto simp: pwl_get_device_type_def)
qed

lemma await_device_type_inv:
  "await_device_type n env i d = Inr (ty, d') \<Longrightarrow> dev_inv d \<Longrightarrow> g_device_type d = PWL_DEVICE_TYPE_UNKNOWN \<Longrightarrow>
   dev_inv d' \<and> g_device_type d' = ty"
proof (induction n arbitrary: i d)
  case (Suc n)
  from Suc.prems(1) obtain p where p: "pwl_get_device_type (fst (env i)) (snd (env i)) d = Inr p"
    and step: "(case p of (ty, d') \<Rightarrow> if ty \<noteq> PWL_DEVICE_TYPE_UNKNOWN then Inr (ty, d')
        else await_device_type n env (Suc i) d') = Inr (ty, d')"
    by (simp only: await_device_type.simps) (erule cbind_InrE)
  obtain t d1 where td: "p = (t, d1)" by (cases p)
  note inv1 = get_device_type_inv [OF p [unfolded td] Suc.prems(2)]
  show ?case
  proof (cases "t = PWL_DEVICE_TYPE_UNKNOWN")
    case True
    with step td Suc.IH [of "Suc i" d1] inv1 show ?thesis by simp
  next
    case False
    with step td inv1 show ?thesis by auto
  qed
qed simp

lemma await_device_type_stop:
  assumes "\<And>i. i < k \<Longrightarrow> pwl_get_device_type (fst (env (i0 + i))) (snd (env (i0 + i))) d = Inr (PWL_DEVICE_TYPE_UNKNOWN, d)"
    and "k < n" "pwl_get_device_type (fst (env (i0 + k))) (snd (env (i0 + k))) d = Inr (ty, d')"
    and "ty \<noteq> PWL_DEVICE_TYPE_UNKNOWN"
  shows "await_device_type n env i0 d = Inr (ty, d')"
  using assms
proof (induction n arbitrary: k i0)
  case (Suc n)
  show ?case
  proof (cases k)
    case 0
    with Suc.prems(3,4) show ?thesis by simp
  next
    case (Suc k')
    have "await_device_type n env (Suc i0) d = Inr (ty, d')"
    proof (rule Suc.IH [of k'])
      show "pwl_get_device_type (fst (env (Suc i0 + i))) (snd (env (Suc i0 + i))) d = Inr (PWL_DEVICE_TYPE_UNKNOWN, d)"
        if "i < k'" for i using Suc.prems(1) [of "Suc i"] that Suc by simp
    qed (use Suc Suc.prems in simp_all)
    with Suc.prems(1) [of 0] Suc show ?thesis by simp
  qed
qed simp

lemma subsysid_of:
  assumes "subsys_ok s"
  shows "\<exists>t. strtok_all '':'' s = ''1028'' # t \<and> (case t of [] \<Rightarrow> False | u # _ \<Rightarrow> take 4 u \<in> {''5933'', ''5966''})"
proof -
  from assms obtain r where "s = ''1028:'' @ ''5933'' @ r \<or> s = ''1028:'' @ ''5966'' @ r"
    by (auto simp: subsys_ok_def SUBSYS_LIST_def prefix_def)
  then obtain p where s: "s = ''1028:'' @ p @ r" "p \<in> {''5933'', ''5966''}" by blast
  have "toks_acc '':'' xs ys \<noteq> [] \<and> take 4 (hd (toks_acc '':'' xs ys)) = xs" if "length xs = 4" for xs ys
    using that
  proof -
    have "toks_acc '':'' zs ys \<noteq> [] \<and> take 4 (hd (toks_acc '':'' zs ys)) = take 4 zs" if "4 \<le> length zs" for zs
      using that by (induction ys arbitrary: zs) auto
    with that show ?thesis by simp
  qed
  from this [of p r] s(2) have "toks_acc '':'' p r \<noteq> []" "take 4 (hd (toks_acc '':'' p r)) = p" by auto
  moreover have "strtok_all '':'' s = ''1028'' # toks_acc '':'' p r"
    using s by (auto simp: strtok_all_def)
  ultimately show ?thesis using s(2) by (auto split: list.splits)
qed

lemma get_fwupdate_subsysid_inv:
  assumes "dev_inv d" "g_subsysid d \<noteq> None"
  shows "get_fwupdate_subsysid d \<in> {Inr (0, Some ''59331028''), Inr (0, Some ''59661028'')}"
proof -
  obtain s where s: "g_subsysid d = Some s" "subsys_ok s"
    using assms by (auto simp: dev_inv_def split: option.splits)
  obtain t where "strtok_all '':'' s = ''1028'' # t" "case t of [] \<Rightarrow> False | u # _ \<Rightarrow> take 4 u \<in> {''5933'', ''5966''}"
    using subsysid_of [OF s(2)] by blast
  with s show ?thesis
    by (auto simp: get_fwupdate_subsysid_def subsys_ok_def strcpy_cap_def split: list.splits)
qed

lemma find_mbim_port_inv:
  assumes "pwl_find_mbim_port sh junk pb n d = Inr (ok, pb', d')" "dev_inv d"
  shows "dev_inv d' \<and> (ok \<longrightarrow> g_device_type d' \<noteq> PWL_DEVICE_TYPE_UNKNOWN)"
  using assms get_device_type_inv
  by (fastforce simp: pwl_find_mbim_port_def Let_def split: option.splits if_splits pwl_device_type_t.splits)

lemma set_command_inv:
  assumes "pwl_set_command sh junk cmd d = Inr (ok, r, d')" "dev_inv d"
  shows "dev_inv d' \<and> (ok \<longleftrightarrow> r \<noteq> None) \<and> (\<forall>t. r = Some t \<longrightarrow> t \<noteq> [] \<and> length t < 500
    \<and> (\<exists>port. sh (mbimcli_command port cmd) = Some t))"
proof -
  obtain fnd pb d1 where p: "pwl_find_mbim_port sh junk (zeroed 20) 20 d = Inr (fnd, pb, d1)"
    using assms(1) by (cases "pwl_find_mbim_port sh junk (zeroed 20) 20 d") (auto simp: pwl_set_command_def)
  from find_mbim_port_inv [OF p assms(2)] assms(1) p show ?thesis
    by (auto simp: pwl_set_command_def mbimcli_output split: if_splits option.splits) metis
qed

lemma iot_module_fw_inv:
  assumes "is_iot_module_fw sh junk d = Inr (b, d')" "dev_inv d"
  shows "dev_inv d'"
proof -
  obtain ok r d1 where p: "pwl_set_command sh junk ''at*bfwver'' d = Inr (ok, r, d1)"
    using assms(1) by (cases "pwl_set_command sh junk ''at*bfwver'' d") (auto simp: is_iot_module_fw_def)
  from set_command_inv [OF p assms(2)] assms(1) p show ?thesis
    by (auto simp: is_iot_module_fw_def Let_def dev_inv_def split: if_splits option.splits)
qed

section \<open>Properties\<close>

text \<open>\<^verbatim>\<open>trim_string\<close> computes the string without its leading and trailing white space: the
  index arithmetic on the buffer agrees with stripping both ends, the result does not begin or
  end with white space, and trimming again changes nothing.\<close>

theorem trim_string_correct:
  "trim_string s = rev (dropWhile isspace (rev (dropWhile isspace s)))
   \<and> (trim_string s = [] \<or> \<not> isspace (hd (trim_string s)) \<and> \<not> isspace (last (trim_string s)))
   \<and> trim_string (trim_string s) = trim_string s"
  using trim_ends [of s] trim_fixed [of "trim s"] unfolding trim_string_trim
  by (simp add: trim_def [of s])

text \<open>A serial number and an IMEI joined by a semicolon are split into exactly the two
  parts, when they are trimmed, the serial number has no semicolon and fits its array, and the
  IMEI has at most 31 characters.\<close>

theorem split_backup_sn_imei_roundtrip:
  assumes "CHR '';'' \<notin> set sn" "length sn < sn_size" "length imei < IMEI_MAX_LENGTH"
    and "IMEI_MAX_LENGTH \<le> imei_size" "trim sn = sn" "trim imei = imei"
  shows "split_backup_sn_imei sn_size imei_size (sn @ '';'' @ imei) = Inr (0, sn, imei)"
  using assms by (simp add: split_backup_sn_imei_def strchr_append trim_string_trim strcpy_cap_def)

theorem split_backup_sn_imei_roundtrip_witness:
  "split_backup_sn_imei 32 32 ''SN123;356789012345678'' = Inr (0, ''SN123'', ''356789012345678'')"
  using split_backup_sn_imei_roundtrip [of "''SN123''" 32 "''356789012345678''" 32]
  by (simp add: IMEI_MAX_LENGTH_def trim_def isspace_def)

text \<open>Whatever the environment answers, when waiting for the module ends with a PCIe module,
  the subsystem id that selects the firmware images is available and is one of the two
  supported ones; and the type that is returned is the type that stays cached.\<close>

theorem await_pcie_subsysid:
  assumes "pwl_get_device_type_await env dev_init = Inr (ty, d)"
  shows "g_device_type d = ty \<and> dev_inv d
    \<and> (ty \<noteq> PWL_DEVICE_TYPE_UNKNOWN \<longrightarrow> pwl_get_device_type sh junk d = Inr (ty, d))
    \<and> (ty = PWL_DEVICE_TYPE_PCIE \<longrightarrow>
         get_fwupdate_subsysid d \<in> {Inr (0, Some ''59331028''), Inr (0, Some ''59661028'')})"
proof -
  have "dev_inv d \<and> g_device_type d = ty"
    using await_device_type_inv [OF assms [unfolded pwl_get_device_type_await_def] dev_inv_init]
    by (simp add: dev_init_def)
  then show ?thesis using get_fwupdate_subsysid_inv [of d]
    by (auto simp: dev_inv_def pwl_get_device_type_def)
qed

definition example_shell :: shell where
  "example_shell cmd =
     (if prefix ''dmidecode'' cmd then Some (''SKU Number: 0CDD'' @ [NL])
      else if prefix ''lspci'' cmd then Some (''0000:01:00.0 0d40: 14c0:4d75'' @ [NL])
      else if prefix ''udevadm'' cmd then Some (''E: PCI_SUBSYS_ID=1028:5966'' @ [NL])
      else None)"

lemma example_await:
  "pwl_get_device_type_await (\<lambda>_. (example_shell, [])) dev_init
    = Inr (PWL_DEVICE_TYPE_PCIE, dev_init\<lparr>g_device_type := PWL_DEVICE_TYPE_PCIE,
             g_subsysid := Some (''1028:5966'' @ [NL])\<rparr>)"
proof -
  have "pwl_get_device_type example_shell [] dev_init
    = Inr (PWL_DEVICE_TYPE_PCIE, dev_init\<lparr>g_device_type := PWL_DEVICE_TYPE_PCIE,
             g_subsysid := Some (''1028:5966'' @ [NL])\<rparr>)"
    by code_simp
  then show ?thesis
    unfolding pwl_get_device_type_await_def
    by (intro await_device_type_stop [where k = 0]) simp_all
qed

theorem await_pcie_subsysid_witness:
  "get_fwupdate_subsysid (dev_init\<lparr>g_device_type := PWL_DEVICE_TYPE_PCIE,
     g_subsysid := Some (''1028:5966'' @ [NL])\<rparr>) \<in> {Inr (0, Some ''59331028''), Inr (0, Some ''59661028'')}"
  using await_pcie_subsysid [OF example_await] by simp

text \<open>A command to the module over \<^verbatim>\<open>mbimcli\<close> that succeeds returns the tool's complete,
  non-empty output, which is shorter than the response buffer; a failure returns nothing.\<close>

theorem pwl_set_command_response:
  assumes "pwl_set_command sh junk command d = Inr (ok, resp, d')" "dev_inv d"
  shows "(ok \<longleftrightarrow> resp \<noteq> None) \<and> dev_inv d'
    \<and> (\<forall>t. resp = Some t \<longrightarrow> t \<noteq> [] \<and> length t < 500
         \<and> (\<exists>port. sh (mbimcli_command port command) = Some t))"
  using set_command_inv [OF assms] by blast

definition usb_shell :: shell where
  "usb_shell cmd =
     (if prefix ''find'' cmd then Some (''/dev/cdc-wdm0'' @ [NL])
      else if prefix ''mbimcli -d /dev/cdc-wdm0'' cmd then Some (''OK'' @ [NL]) else None)"

definition usb_module_dev :: dev where
  "usb_module_dev = dev_init\<lparr>g_device_type := PWL_DEVICE_TYPE_USB\<rparr>"

lemma example_set_command: "pwl_set_command usb_shell [] ''AT'' usb_module_dev = Inr (True, Some (''OK'' @ [NL]), usb_module_dev)"
  by code_simp

theorem pwl_set_command_response_witness:
  "\<exists>port. usb_shell (mbimcli_command port ''AT'') = Some (''OK'' @ [NL])"
  using pwl_set_command_response [OF example_set_command] by (simp add: dev_inv_def usb_module_dev_def dev_init_def)

text \<open>From a version string \<^verbatim>\<open>name_a.b.N.d_rest\<close> the function extracts the number \<open>N\<close>, on
  which the IoT classification rests.\<close>

theorem get_fw_main_version_correct:
  assumes "nm \<noteq> []" "CHR ''_'' \<notin> set nm" "a \<noteq> []" "b \<noteq> []"
    and "set a \<inter> set ''_.'' = {}" "set b \<inter> set ''_.'' = {}" "CHR ''_'' \<notin> set d"
    and "0 \<le> n" "n < 2 ^ 31"
  shows "get_fw_main_version (nm @ ''_'' @ a @ ''.'' @ b @ ''.'' @ show_int n @ ''.'' @ d @ ''_'' @ rest) = n"
proof -
  let ?v = "a @ ''.'' @ b @ ''.'' @ show_int n @ ''.'' @ d"
  have digits: "c \<in> set (show_int n) \<Longrightarrow> c \<noteq> CHR ''_'' \<and> c \<noteq> CHR ''.''" for c
    using show_int_chars [of c n] by (auto simp: isdigit_def)
  have "strtok_all ''_'' (nm @ CHR ''_'' # ?v @ CHR ''_'' # rest) = nm # strtok_all ''_'' (?v @ CHR ''_'' # rest)"
    using assms(1,2) by (intro strtok_all_Cons) auto
  moreover have "strtok_all ''_'' (?v @ CHR ''_'' # rest) = ?v # strtok_all ''_'' rest"
    using assms(3,5,6,7) digits by (intro strtok_all_Cons) auto
  moreover have "strtok_all ''.'' (a @ CHR ''.'' # b @ CHR ''.'' # show_int n @ CHR ''.'' # d)
      = a # strtok_all ''.'' (b @ CHR ''.'' # show_int n @ CHR ''.'' # d)"
    using assms(3,5) by (intro strtok_all_Cons) auto
  moreover have "strtok_all ''.'' (b @ CHR ''.'' # show_int n @ CHR ''.'' # d)
      = b # strtok_all ''.'' (show_int n @ CHR ''.'' # d)"
    using assms(4,6) by (intro strtok_all_Cons) auto
  moreover have "strtok_all ''.'' (show_int n @ CHR ''.'' # d) = show_int n # strtok_all ''.'' d"
    using digits by (intro strtok_all_Cons) auto
  moreover have "atoi (show_int n) = n" using atoi_show_int [of n "[]"] assms(8,9) by simp
  ultimately show ?thesis by (simp add: get_fw_main_version_def Let_def)
qed

theorem get_fw_main_version_correct_witness:
  "get_fw_main_version ''RMM_00.00.52.07_A01'' = 52"
proof -
  have "show_int 52 = ''52''" by code_simp
  then show ?thesis
    using get_fw_main_version_correct [of "''RMM''" "''00''" "''00''" "''07''" 52 "''A01''"] by simp
qed

text \<open>Every supported USB machine has a SKU entry at the same index, no machine is listed
  twice, and the index that separates the IoT machines separates the IoT SKUs.\<close>

theorem usb_sku_table_consistent:
  "map fst ssid_sku_table = usb_devices \<and> distinct usb_devices
   \<and> list_all (\<lambda>(ssid, sku). sku \<in> set [''4131001'', ''4131002'', ''4131003'', ''4131007'', ''4131008'', ''4131009''])
       (take IOT_START_INDEX ssid_sku_table)
   \<and> list_all (\<lambda>(ssid, sku). sku \<in> set [''4131021'', ''4131022'', ''4131023'', ''4131024'', ''4131025'',
       ''4131026'', ''4131027'']) (drop IOT_START_INDEX ssid_sku_table)"
proof (intro conjI)
  show "map fst ssid_sku_table = usb_devices" by (simp add: ssid_sku_table_def usb_devices_def)
  show "distinct usb_devices" by (simp add: usb_devices_def)
qed (simp_all add: IOT_START_INDEX_def ssid_sku_table_def)

end
