(* ===== verification/Common_Status.thy ===== *)
theory Common_Status
  imports C_String "HOL-Library.Word"
begin

text \<open>
  The status records of \<^verbatim>\<open>common/common.c\<close>: small text files of \<^verbatim>\<open>key=value\<close> lines in
  which the services keep their retry counters between runs. The theory models the file
  operations (\<^verbatim>\<open>*_status_init\<close>, \<^verbatim>\<open>set_*_status_value\<close>,
  \<^verbatim>\<open>get_*_status_value\<close>, \<^verbatim>\<open>read_config_from_file\<close>) over an explicit file system and
  raw arrays, gives them the abstract specification of a finite map from keys to
  integers (locale \<open>status_store\<close>), and interprets it for the three records.
\<close>

section \<open>Files\<close>

text \<open>
  \<^verbatim>\<open>access(p, F_OK) == 0\<close> holds when the path has an entry; \<^verbatim>\<open>fopen\<close> can fail for lack
  of permission. A write through an opened file is complete.
\<close>

record fs =
  files :: "string \<Rightarrow> string option"
  can_read :: "string \<Rightarrow> bool"
  can_write :: "string \<Rightarrow> bool"

definition access_ok :: "fs \<Rightarrow> string \<Rightarrow> bool" where
  "access_ok w p \<longleftrightarrow> files w p \<noteq> None"

definition fopen_r :: "fs \<Rightarrow> string \<Rightarrow> string option" where
  "fopen_r w p = (if can_read w p then files w p else None)"

definition fopen_rw :: "fs \<Rightarrow> string \<Rightarrow> string option" where
  "fopen_rw w p = (if can_read w p \<and> can_write w p then files w p else None)"

definition write_file :: "string \<Rightarrow> string \<Rightarrow> fs \<Rightarrow> fs" where
  "write_file p s w = w\<lparr>files := (files w)(p := Some s)\<rparr>"

section \<open>Constants of \<^verbatim>\<open>common.h\<close>\<close>

definition STATUS_LINE_LENGTH :: nat where "STATUS_LINE_LENGTH = 128"

definition FW_UPDATE_STATUS_RECORD :: string where
  "FW_UPDATE_STATUS_RECORD = ''/opt/pwl/firmware/fw_update_status''"
definition BOOTUP_STATUS_RECORD :: string where
  "BOOTUP_STATUS_RECORD = ''/opt/pwl/bootup_status''"
definition ESIM_PROFILE_REMOVE_RECORD :: string where
  "ESIM_PROFILE_REMOVE_RECORD = ''/opt/pwl/esim_profile_remove_status''"

definition FW_UPDATE_RETRY_COUNT :: string where "FW_UPDATE_RETRY_COUNT = ''Fw_update_retry_count''"
definition DO_HW_RESET_COUNT :: string where "DO_HW_RESET_COUNT = ''Do_hw_reset_count''"
definition NEED_RETRY_FW_UPDATE :: string where "NEED_RETRY_FW_UPDATE = ''Need_retry_fw_update''"
definition JP_FCC_CONFIG_COUNT :: string where "JP_FCC_CONFIG_COUNT = ''jp_fcc_config_count''"
definition BOOTUP_FAILURE_COUNT :: string where "BOOTUP_FAILURE_COUNT = ''Bootup_failure_count''"
definition ESIM_ENABLE_STATE :: string where "ESIM_ENABLE_STATE = ''esim_enable''"
definition ESIM_TESTPROFILE_DELETE_COUNTER :: string where
  "ESIM_TESTPROFILE_DELETE_COUNTER = ''Testprofile_Delete_Counter''"
definition ESIM_TESTPROFILE_DELETE_DONE :: string where
  "ESIM_TESTPROFILE_DELETE_DONE = ''Testprofile_Delete_Done''"

lemmas key_defs = FW_UPDATE_RETRY_COUNT_def DO_HW_RESET_COUNT_def NEED_RETRY_FW_UPDATE_def
  JP_FCC_CONFIG_COUNT_def BOOTUP_FAILURE_COUNT_def ESIM_ENABLE_STATE_def
  ESIM_TESTPROFILE_DELETE_COUNTER_def ESIM_TESTPROFILE_DELETE_DONE_def

section \<open>Creating a record\<close>

definition record_init :: "string \<Rightarrow> string \<Rightarrow> fs \<Rightarrow> int \<times> fs" where
  "record_init path content w =
     (if access_ok w path
      then (case fopen_r w path of None \<Rightarrow> (-1, w) | Some _ \<Rightarrow> (0, w))
      else if can_write w path then (0, write_file path content w) else (-1, w))"

definition fw_update_status_init :: "fs \<Rightarrow> int \<times> fs" where
  "fw_update_status_init w = record_init FW_UPDATE_STATUS_RECORD
     (''Find_fastboot_retry_count=0'' @ [NL] @
      ''Wait_modem_port_retry_count=0'' @ [NL] @
      ''Wait_at_port_retry_count=0'' @ [NL] @
      ''Fw_update_retry_count=0'' @ [NL] @
      ''Do_hw_reset_count=0'' @ [NL] @
      ''Need_retry_fw_update=0'' @ [NL] @
      ''jp_fcc_config_count=0'' @ [NL]) w"

definition esim_profile_remove_status_init :: "fs \<Rightarrow> int \<times> fs" where
  "esim_profile_remove_status_init w = record_init ESIM_PROFILE_REMOVE_RECORD
     (''Testprofile_Delete_Counter=0'' @ [NL] @
      ''Testprofile_Delete_Done=0'' @ [NL]) w"

definition bootup_status_init :: "fs \<Rightarrow> int \<times> fs" where
  "bootup_status_init w = record_init BOOTUP_STATUS_RECORD
     (''Bootup_failure_count=0'' @ [NL] @
      ''esim_enable=1'' @ [NL]) w"

section \<open>Writing a value\<close>

definition count_int_length :: "32 word \<Rightarrow> nat" where
  "count_int_length x =
     (if 1000000000 \<le> x then 10
      else if 100000000 \<le> x then 9
      else if 10000000 \<le> x then 8
      else if 1000000 \<le> x then 7
      else if 100000 \<le> x then 6
      else if 10000 \<le> x then 5
      else if 1000 \<le> x then 4
      else if 100 \<le> x then 3
      else if 10 \<le> x then 2
      else 1)"

text \<open>
  The loop over the lines of the old file: a line in which the key occurs becomes
  \<^verbatim>\<open>key=value\<close>, every other line is kept. \<open>cap\<close> is the size of the allocated buffer
  \<open>acc\<close> grows in; \<^verbatim>\<open>new_value_line\<close> has \<^verbatim>\<open>STATUS_LINE_LENGTH\<close> bytes.
\<close>

fun replace_lines :: "nat \<Rightarrow> string \<Rightarrow> int \<Rightarrow> string list \<Rightarrow> string \<Rightarrow> string cres" where
  "replace_lines cap key v [] acc = Inr acc"
| "replace_lines cap key v (line # ls) acc =
     (if strstr line key \<noteq> None
      then cbind (strcpy_cap STATUS_LINE_LENGTH (key @ ''='' @ show_int v @ [NL])) (\<lambda>new_value_line.
           cbind (strcpy_cap cap (acc @ new_value_line)) (\<lambda>acc'.
             replace_lines cap key v ls acc'))
      else cbind (strcpy_cap cap (acc @ line)) (\<lambda>acc'. replace_lines cap key v ls acc'))"

definition set_record_value :: "string \<Rightarrow> string \<Rightarrow> int \<Rightarrow> fs \<Rightarrow> (int \<times> fs) cres" where
  "set_record_value path key v w =
     (case fopen_rw w path of
        None \<Rightarrow> Inr (-1, w)
      | Some content \<Rightarrow>
          let value_len = count_int_length (word_of_int v);
              new_file_size = length content + value_len + 1
          in cbind (replace_lines new_file_size key v (fgets_lines STATUS_LINE_LENGTH content) [])
               (\<lambda>new_content. if can_write w path then Inr (0, write_file path new_content w)
                              else Inr (-1, w)))"

definition set_fw_update_status_value :: "string \<Rightarrow> int \<Rightarrow> fs \<Rightarrow> (int \<times> fs) cres" where
  "set_fw_update_status_value key v w = set_record_value FW_UPDATE_STATUS_RECORD key v w"

definition set_esim_profile_remove_status_value :: "string \<Rightarrow> int \<Rightarrow> fs \<Rightarrow> (int \<times> fs) cres" where
  "set_esim_profile_remove_status_value key v w = set_record_value ESIM_PROFILE_REMOVE_RECORD key v w"

definition set_bootup_status_value :: "string \<Rightarrow> int \<Rightarrow> fs \<Rightarrow> (int \<times> fs) cres" where
  "set_bootup_status_value key v w = set_record_value BOOTUP_STATUS_RECORD key v w"

section \<open>Reading a value\<close>

text \<open>
  The loop over the lines; \<open>value\<close> is the local array \<^verbatim>\<open>char value[5]\<close> with whatever
  bytes it holds.
\<close>

fun scan_lines :: "string \<Rightarrow> string list \<Rightarrow> cbuf \<Rightarrow> cbuf cres" where
  "scan_lines key [] value = Inr value"
| "scan_lines key (line # ls) value =
     (if strstr line key \<noteq> None
      then (case strchr line (CHR ''='') of
              None \<Rightarrow> Inl NullDeref
            | Some p \<Rightarrow>
                let temp_pos = tl p; n = length temp_pos
                in cbind (buf_strncpy value temp_pos n) (\<lambda>v1.
                   cbind (buf_strstr v1 [CR, NL]) (\<lambda>crlf.
                   cbind (buf_put v1 (if crlf then int n - 2 else int n - 1) NUL) (\<lambda>v2.
                     scan_lines key ls v2))))
      else scan_lines key ls value)"

text \<open>
  The result is the return code and, when the file could be opened, the integer stored
  through \<^verbatim>\<open>result\<close>.
\<close>

definition get_record_value :: "string \<Rightarrow> string \<Rightarrow> cbuf \<Rightarrow> fs \<Rightarrow> (int \<times> int option) cres" where
  "get_record_value path key value w =
     (case fopen_r w path of
        None \<Rightarrow> Inr (-1, None)
      | Some content \<Rightarrow>
          cbind (scan_lines key (fgets_lines STATUS_LINE_LENGTH content) value) (\<lambda>v.
          cbind (buf_atoi v) (\<lambda>result. Inr (0, Some result))))"

text \<open>
  \<open>stack\<close> stands for the indeterminate initial bytes of the local array
  \<^verbatim>\<open>value\<close>; only \<^verbatim>\<open>get_bootup_status_value\<close> clears it first.
\<close>

definition get_fw_update_status_value :: "cbuf \<Rightarrow> string \<Rightarrow> fs \<Rightarrow> (int \<times> int option) cres" where
  "get_fw_update_status_value stack key w = get_record_value FW_UPDATE_STATUS_RECORD key stack w"

definition get_esim_profile_remove_status_value :: "cbuf \<Rightarrow> string \<Rightarrow> fs \<Rightarrow> (int \<times> int option) cres" where
  "get_esim_profile_remove_status_value stack key w =
     get_record_value ESIM_PROFILE_REMOVE_RECORD key stack w"

definition get_bootup_status_value :: "string \<Rightarrow> fs \<Rightarrow> (int \<times> int option) cres" where
  "get_bootup_status_value key w = get_record_value BOOTUP_STATUS_RECORD key (zeroed 5) w"

definition read_config_from_file :: "cbuf \<Rightarrow> string \<Rightarrow> string \<Rightarrow> fs \<Rightarrow> (int \<times> int option) cres" where
  "read_config_from_file stack file_name key w = get_record_value file_name key stack w"

section \<open>The abstract record\<close>

text \<open>A record file is the rendering of an association list of keys and integers.\<close>

type_synonym kvs = "(string \<times> int) list"

definition render_line :: "string \<times> int \<Rightarrow> string" where
  "render_line kv = fst kv @ ''='' @ show_int (snd kv) @ [NL]"

definition render :: "kvs \<Rightarrow> string" where
  "render r = concat (map render_line r)"

definition parse_line :: "string \<Rightarrow> string \<times> int" where
  "parse_line l = (takeWhile (\<lambda>c. c \<noteq> CHR ''='') l, atoi (tl (dropWhile (\<lambda>c. c \<noteq> CHR ''='') l)))"

definition parse_record :: "string \<Rightarrow> kvs" where
  "parse_record content = map parse_line (fgets_lines STATUS_LINE_LENGTH content)"

definition update_kvs :: "string \<Rightarrow> int \<Rightarrow> kvs \<Rightarrow> kvs" where
  "update_kvs key v r = map (\<lambda>kv. if fst kv = key then (key, v) else kv) r"

text \<open>
  Keys are usable when no key occurs inside another one, since the code looks a key up
  with \<^verbatim>\<open>strstr\<close>; a value is readable when it has at most three characters, since the
  array \<^verbatim>\<open>value\<close> must hold it with the newline and a terminator.
\<close>

definition key_ok :: "string \<Rightarrow> bool" where
  "key_ok k \<longleftrightarrow> length k \<le> 100 \<and> CHR ''='' \<notin> set k \<and> NL \<notin> set k
     \<and> (\<exists>c \<in> set k. \<not> isdigit c \<and> c \<noteq> CHR ''-'')"

definition val_ok :: "int \<Rightarrow> bool" where
  "val_ok v \<longleftrightarrow> -99 \<le> v \<and> v \<le> 999"

definition int32 :: "int \<Rightarrow> bool" where
  "int32 v \<longleftrightarrow> - (2 ^ 31) \<le> v \<and> v < 2 ^ 31"

definition keys_ok :: "string list \<Rightarrow> bool" where
  "keys_ok ks \<longleftrightarrow> distinct ks \<and> list_all key_ok ks
     \<and> list_all (\<lambda>k. list_all (\<lambda>k'. k = k' \<or> strstr k' k = None) ks) ks"

definition record_ok :: "kvs \<Rightarrow> bool" where
  "record_ok r \<longleftrightarrow> keys_ok (map fst r) \<and> list_all (\<lambda>kv. val_ok (snd kv)) r"

definition store_inv :: "string \<Rightarrow> fs \<Rightarrow> bool" where
  "store_inv path w \<longleftrightarrow> can_read w path \<and> can_write w path \<and>
     (case files w path of
        None \<Rightarrow> False
      | Some content \<Rightarrow> record_ok (parse_record content) \<and> render (parse_record content) = content)"

definition store_abs :: "string \<Rightarrow> fs \<Rightarrow> string \<Rightarrow> int option" where
  "store_abs path w k =
     (case files w path of None \<Rightarrow> None | Some content \<Rightarrow> map_of (parse_record content) k)"

text \<open>
  What the bytes of the uninitialised array must not contain for a read to be
  reliable: no carriage return, and a terminator in the last place.
\<close>

definition stack_ok :: "cbuf \<Rightarrow> bool" where
  "stack_ok st \<longleftrightarrow> length st = 5 \<and> CR \<notin> set st \<and> st ! 4 = NUL"


section \<open>Digit counts\<close>

lemma length_show_nat_digits:
  "10 ^ k \<le> n \<Longrightarrow> n < 10 ^ Suc k \<Longrightarrow> length (show_nat n) = Suc k"
proof (induction k arbitrary: n)
  case 0
  then show ?case by (subst length_show_nat) simp
next
  case (Suc k)
  from Suc.prems have "10 ^ k * 10 \<le> n" "n < 10 ^ Suc k * 10" by simp_all
  then have "10 ^ k \<le> n div 10" "n div 10 < 10 ^ Suc k"
    by (simp_all only: less_eq_div_iff_mult_less_eq div_less_iff_less_mult zero_less_numeral)
  moreover have "10 \<le> n"
  proof -
    have "(10 :: nat) \<le> 10 ^ k * 10" by simp
    then show ?thesis using \<open>10 ^ k * 10 \<le> n\<close> by (rule order_trans)
  qed
  ultimately
  show ?case using Suc.IH [of "n div 10"] by (subst length_show_nat) simp
qed

lemma length_show_nat_1: "n < 10 \<Longrightarrow> length (show_nat n) = 1"
  by (subst length_show_nat) simp

lemma count_int_length_digits: "count_int_length x = length (show_nat (unat x))"
proof -
  have "unat x < 2 ^ 32" using unsigned_less [of x, where ?'a = nat] by simp
  then have "unat x < 10 ^ 10" by simp
  then show ?thesis
    using length_show_nat_1 [of "unat x"] length_show_nat_digits [of 1 "unat x"]
      length_show_nat_digits [of 2 "unat x"] length_show_nat_digits [of 3 "unat x"]
      length_show_nat_digits [of 4 "unat x"] length_show_nat_digits [of 5 "unat x"]
      length_show_nat_digits [of 6 "unat x"] length_show_nat_digits [of 7 "unat x"]
      length_show_nat_digits [of 8 "unat x"] length_show_nat_digits [of 9 "unat x"]
    unfolding count_int_length_def word_le_nat_alt by (simp add: not_le)
qed

lemma length_show_nat_mono: "m \<le> n \<Longrightarrow> length (show_nat m) \<le> length (show_nat n)"
proof (induction n arbitrary: m rule: show_nat.induct)
  case (1 n)
  show ?case
  proof (cases "m < 10")
    case True
    then show ?thesis by (simp add: length_show_nat_1 Suc_le_eq)
  next
    case False
    with "1.prems" "1.IH" [of "m div 10"] show ?thesis
      by (subst (1 2) length_show_nat) (simp add: div_le_mono)
  qed
qed

lemma length_show_int_count:
  assumes "int32 v"
  shows "length (show_int v) \<le> Suc (count_int_length (word_of_int v))"
proof (cases "v < 0")
  case True
  have "v mod 2 ^ 32 = v + 2 ^ 32"
    using True assms by (subst mod_add_self2 [symmetric], subst mod_pos_pos_trivial) (simp_all add: int32_def)
  then have w: "unat (word_of_int v :: 32 word) = nat (v + 2 ^ 32)"
    by (simp add: unat_eq_nat_uint uint_word_of_int)
  have "nat (- v) \<le> nat (v + 2 ^ 32)" using assms by (intro nat_mono) (simp add: int32_def)
  then have "length (show_nat (nat (- v))) \<le> count_int_length (word_of_int v)"
    unfolding count_int_length_digits w by (rule length_show_nat_mono)
  with True show ?thesis by (simp add: show_int_def)
next
  case False
  have "unat (word_of_int v :: 32 word) = nat v"
    using False assms by (simp add: int32_def unat_eq_nat_uint uint_word_of_int)
  with False show ?thesis by (simp add: count_int_length_digits show_int_def)
qed

section \<open>Writing: refinement of the map update\<close>

definition subst_line :: "string \<Rightarrow> int \<Rightarrow> string \<Rightarrow> string" where
  "subst_line key v line = (if strstr line key \<noteq> None then render_line (key, v) else line)"

lemma replace_lines_ok:
  assumes "length (render_line (key, v)) < STATUS_LINE_LENGTH"
    and "length (acc @ concat (map (subst_line key v) ls)) < cap"
  shows "replace_lines cap key v ls acc = Inr (acc @ concat (map (subst_line key v) ls))"
  using assms(2)
proof (induction ls arbitrary: acc)
  case (Cons l ls)
  then have "length (acc @ subst_line key v l) < cap" by simp
  with Cons show ?case using assms(1) Cons.IH [of "acc @ subst_line key v l"]
    by (cases "strstr l key") (simp_all add: subst_line_def [of key v l] render_line_def strcpy_cap_def)
qed simp

lemma key_in_line:
  assumes "key_ok key"
  shows "strstr (render_line (k, v)) key \<noteq> None \<longleftrightarrow> strstr k key \<noteq> None"
proof -
  from assms obtain c where c: "c \<in> set key" "\<not> isdigit c" "c \<noteq> CHR ''-''"
    and key: "CHR ''='' \<notin> set key" "NL \<notin> set key" by (auto simp: key_ok_def)
  have "\<not> sublist key (show_int v)" using c sublist_set show_int_chars by blast
  moreover have "\<not> sublist key []" using c by auto
  ultimately have "\<not> sublist key (show_int v @ [NL])"
    using sublist_append_sep [OF key(2), of "show_int v" "[]"] by simp
  then have "sublist key (render_line (k, v)) \<longleftrightarrow> sublist key k"
    using sublist_append_sep [OF key(1), of k "show_int v @ [NL]"] by (simp add: render_line_def)
  then show ?thesis by (simp add: strstr_eq_None_iff)
qed

lemma keys_ok_lookup:
  "keys_ok ks \<Longrightarrow> key \<in> set ks \<Longrightarrow> k \<in> set ks \<Longrightarrow> strstr k key \<noteq> None \<longleftrightarrow> k = key"
  using strstr_prefix [of key "[]"] unfolding keys_ok_def list_all_iff
  by (metis append_Nil2 option.discI)

lemma keys_ok_key: "keys_ok ks \<Longrightarrow> k \<in> set ks \<Longrightarrow> key_ok k"
  by (simp add: keys_ok_def list_all_iff)

lemma subst_line_render:
  assumes "keys_ok (map fst r)" "key \<in> fst ` set r"
  shows "concat (map (subst_line key v) (map render_line r)) = render (update_kvs key v r)"
proof -
  have "subst_line key v (render_line kv) = render_line (if fst kv = key then (key, v) else kv)"
    if "kv \<in> set r" for kv
  proof (cases kv)
    case (Pair k u)
    have "strstr (render_line (k, u)) key \<noteq> None \<longleftrightarrow> k = key"
      using that Pair assms(2) key_in_line [OF keys_ok_key [OF assms(1), of key], of k u]
        keys_ok_lookup [OF assms(1), of key k] by (metis fst_conv image_eqI set_map)
    with Pair show ?thesis by (simp add: subst_line_def)
  qed
  then have "map (subst_line key v) (map render_line r) = map render_line (update_kvs key v r)"
    by (simp add: update_kvs_def)
  then show ?thesis by (simp only: render_def)
qed

lemma length_show_int_val: "val_ok v \<Longrightarrow> length (show_int v) \<le> 3"
proof -
  assume v: "val_ok v"
  have "length (show_nat n) \<le> 2" if "n \<le> 99" for n
    using length_show_nat_mono [OF that] length_show_nat_digits [of 1 99] by simp
  moreover have "length (show_nat n) \<le> 3" if "n \<le> 999" for n
    using length_show_nat_mono [OF that] length_show_nat_digits [of 2 999] by simp
  ultimately show ?thesis using v by (auto simp: val_ok_def show_int_def)
qed

lemma length_show_int_int32: "int32 v \<Longrightarrow> length (show_int v) \<le> 11"
  using length_show_int_count [of v] by (simp add: count_int_length_def split: if_splits)

lemma render_Cons [simp]: "render (kv # r) = render_line kv @ render r"
  by (simp add: render_def)

lemma render_Nil [simp]: "render [] = []"
  by (simp add: render_def)

lemma fgets_lines_render:
  assumes "\<And>k v. (k, v) \<in> set r \<Longrightarrow> key_ok k \<and> int32 v"
  shows "fgets_lines STATUS_LINE_LENGTH (render r) = map render_line r"
  using assms
proof (induction r)
  case (Cons kv r)
  obtain k v where kv: "kv = (k, v)" by (cases kv)
  then have ok: "key_ok k" "int32 v" using Cons.prems by auto
  have "NL \<notin> set (k @ ''='' @ show_int v)"
    using ok(1) show_int_chars [of NL v] by (auto simp: key_ok_def isdigit_def)
  moreover have "length (k @ ''='' @ show_int v) < STATUS_LINE_LENGTH - 1"
    using ok length_show_int_int32 [of v] by (simp add: key_ok_def STATUS_LINE_LENGTH_def)
  ultimately have "fgets_lines STATUS_LINE_LENGTH ((k @ ''='' @ show_int v) @ NL # render r)
      = ((k @ ''='' @ show_int v) @ [NL]) # fgets_lines STATUS_LINE_LENGTH (render r)"
    by (rule fgets_lines_Cons)
  moreover have "fgets_lines STATUS_LINE_LENGTH (render r) = map render_line r"
    using Cons.IH Cons.prems by auto
  ultimately show ?case by (simp add: kv render_line_def)
qed simp

lemma parse_render:
  assumes "\<And>k v. (k, v) \<in> set r \<Longrightarrow> key_ok k \<and> int32 v"
  shows "parse_record (render r) = r"
proof -
  have "parse_line (render_line kv) = kv" if "kv \<in> set r" for kv
  proof (cases kv)
    case (Pair k v)
    have "CHR ''='' \<notin> set k" "int32 v" using that assms Pair by (auto simp: key_ok_def)
    moreover have "takeWhile (\<lambda>c. c \<noteq> CHR ''='') (k @ CHR ''='' # show_int v @ [NL]) = k"
      using calculation by (intro takeWhile_stop) auto
    moreover have "dropWhile (\<lambda>c. c \<noteq> CHR ''='') (k @ CHR ''='' # show_int v @ [NL])
        = CHR ''='' # show_int v @ [NL]"
      using calculation by (intro dropWhile_stop) auto
    moreover have "atoi (show_int v @ [NL]) = v"
      using calculation by (intro atoi_show_int) (auto simp: int32_def isdigit_def)
    ultimately show ?thesis by (simp add: parse_line_def render_line_def Pair)
  qed
  then show ?thesis
    by (simp add: parse_record_def fgets_lines_render [OF assms] comp_def map_idI)
qed

lemma fst_update_kvs [simp]: "map fst (update_kvs key v r) = map fst r"
  by (induction r) (simp_all add: update_kvs_def)

lemma update_kvs_absent: "key \<notin> fst ` set r \<Longrightarrow> update_kvs key v r = r"
  unfolding update_kvs_def by (rule map_idI) (auto simp: image_iff)

lemma update_kvs_split:
  assumes "distinct (map fst r)" "key \<in> fst ` set r"
  obtains r1 u r2 where "r = r1 @ (key, u) # r2" "update_kvs key v r = r1 @ (key, v) # r2"
    "key \<notin> fst ` set r1" "key \<notin> fst ` set r2"
proof -
  from assms(2) obtain u where "(key, u) \<in> set r" by force
  then obtain r1 r2 where r: "r = r1 @ (key, u) # r2" by (meson split_list)
  have "key \<notin> fst ` set r1" "key \<notin> fst ` set r2" using assms(1) r by auto
  moreover have "update_kvs key v r = update_kvs key v r1 @ (key, v) # update_kvs key v r2"
    by (simp add: r update_kvs_def)
  ultimately show thesis using that [OF r] by (simp add: update_kvs_absent)
qed

lemma map_of_update_kvs:
  "key \<in> fst ` set r \<Longrightarrow> map_of (update_kvs key v r) = (map_of r)(key \<mapsto> v)"
proof (induction r)
  case (Cons kv r)
  show ?case
  proof (cases "key \<in> fst ` set r")
    case True
    with Cons.IH show ?thesis by (cases kv) (auto simp: update_kvs_def fun_eq_iff)
  next
    case False
    with Cons.prems have "fst kv = key" by auto
    with update_kvs_absent [OF False, of v] show ?thesis
      by (cases kv) (auto simp: update_kvs_def fun_eq_iff)
  qed
qed simp

lemma render_append [simp]: "render (r1 @ r2) = render r1 @ render r2"
  by (simp add: render_def)

lemma length_render_update:
  assumes "distinct (map fst r)" "key \<in> fst ` set r" "int32 v"
  shows "length (render (update_kvs key v r)) < length (render r) + count_int_length (word_of_int v) + 1"
proof -
  obtain r1 u r2 where r: "r = r1 @ (key, u) # r2" "update_kvs key v r = r1 @ (key, v) # r2"
    using update_kvs_split [OF assms(1,2)] by metis
  obtain c cs where "show_int u = c # cs" using show_int_nonempty neq_Nil_conv by meson
  with r length_show_int_count [OF assms(3)] show ?thesis by (simp add: render_line_def)
qed

lemma val_ok_int32: "val_ok v \<Longrightarrow> int32 v"
  by (simp add: val_ok_def int32_def)

lemma store_inv_content:
  assumes "store_inv path w"
  obtains r where "files w path = Some (render r)" "record_ok r" "parse_record (render r) = r"
  using assms that [of "parse_record (the (files w path))"]
  by (auto simp: store_inv_def split: option.splits)

lemma record_ok_entry: "record_ok r \<Longrightarrow> (k, v) \<in> set r \<Longrightarrow> key_ok k \<and> val_ok v \<and> int32 v"
  by (force simp: record_ok_def keys_ok_def list_all_iff val_ok_int32)

lemma record_ok_parse: "record_ok r \<Longrightarrow> parse_record (render r) = r"
  using record_ok_entry by (intro parse_render) blast

lemma set_record_value_writes:
  assumes "store_inv path w" "files w path = Some (render r)" "record_ok r"
    and "key \<in> fst ` set r" "int32 v"
  shows "set_record_value path key v w = Inr (0, write_file path (render (update_kvs key v r)) w)"
proof -
  let ?cap = "length (render r) + count_int_length (word_of_int v) + 1"
  have keys: "keys_ok (map fst r)" using assms(3) by (simp add: record_ok_def)
  have "fgets_lines STATUS_LINE_LENGTH (render r) = map render_line r"
    using record_ok_entry [OF assms(3)] by (intro fgets_lines_render) blast
  moreover have "length (render_line (key, v)) < STATUS_LINE_LENGTH"
    using keys_ok_key [OF keys, of key] assms(4) length_show_int_int32 [OF assms(5)]
    by (simp add: render_line_def STATUS_LINE_LENGTH_def key_ok_def)
  moreover have "length (render (update_kvs key v r)) < ?cap"
    using keys assms(4,5) by (intro length_render_update) (simp_all add: keys_ok_def)
  ultimately have "replace_lines ?cap key v (fgets_lines STATUS_LINE_LENGTH (render r)) []
      = Inr (render (update_kvs key v r))"
    using replace_lines_ok [of key v "[]" "map render_line r" ?cap]
      subst_line_render [OF keys assms(4), of v] by simp
  with assms(1,2) show ?thesis
    by (simp add: set_record_value_def fopen_rw_def store_inv_def Let_def)
qed

lemma store_abs_map_of:
  "files w path = Some (render r) \<Longrightarrow> record_ok r \<Longrightarrow> store_abs path w = map_of r"
  by (simp add: store_abs_def record_ok_parse fun_eq_iff)

lemma record_ok_update: "record_ok r \<Longrightarrow> val_ok v \<Longrightarrow> record_ok (update_kvs key v r)"
  unfolding record_ok_def fst_update_kvs by (auto simp: list_all_iff update_kvs_def)

lemma set_record_value_store:
  assumes "store_inv path w" "key \<in> dom (store_abs path w)" "val_ok v"
  shows "\<exists>w'. set_record_value path key v w = Inr (0, w') \<and> store_inv path w'
    \<and> store_abs path w' = (store_abs path w)(key \<mapsto> v)"
proof -
  obtain r where r: "files w path = Some (render r)" "record_ok r" "parse_record (render r) = r"
    using store_inv_content [OF assms(1)] .
  note abs = store_abs_map_of [OF r(1,2)]
  have key: "key \<in> fst ` set r"
    using assms(2) unfolding abs dom_map_of_conv_image_fst .
  let ?r' = "update_kvs key v r" and ?w' = "write_file path (render (update_kvs key v r)) w"
  have ok: "record_ok ?r'" using record_ok_update r(2) assms(3) by blast
  have "store_inv path ?w'"
    using assms(1) ok by (simp add: store_inv_def write_file_def record_ok_parse)
  moreover have "store_abs path ?w' = (store_abs path w)(key \<mapsto> v)"
    using store_abs_map_of [of ?w' path ?r'] ok abs map_of_update_kvs [OF key]
    by (simp add: write_file_def)
  ultimately show ?thesis
    using set_record_value_writes [OF assms(1) r(1,2) key val_ok_int32 [OF assms(3)]] by blast
qed

section \<open>Reading: the last value written\<close>

lemma atoi_rest_NUL: "NUL \<in> set b \<Longrightarrow> atoi_rest b \<noteq> []"
proof -
  assume nul: "NUL \<in> set b"
  have keep: "NUL \<in> set xs \<Longrightarrow> NUL \<in> set (dropWhile P xs)" if "\<not> P NUL" for P xs
    using that by (induction xs) auto
  have "NUL \<in> set (dropWhile isspace b)" using nul by (intro keep) (simp_all add: isspace_def)
  then obtain c cs where c: "dropWhile isspace b = c # cs" "NUL \<in> set (c # cs)"
    by (cases "dropWhile isspace b") auto
  then have "NUL \<in> set (if c = CHR ''-'' \<or> c = CHR ''+'' then cs else c # cs)" by auto
  then have "NUL \<in> set (dropWhile isdigit (if c = CHR ''-'' \<or> c = CHR ''+'' then cs else c # cs))"
    by (intro keep) (simp_all add: isdigit_def)
  then have "dropWhile isdigit (if c = CHR ''-'' \<or> c = CHR ''+'' then cs else c # cs) \<noteq> []"
    by (metis empty_iff empty_set)
  then show ?thesis by (simp only: atoi_rest_def c(1) list.case not_False_eq_True)
qed

lemma buf_atoi_show_int [buf_simps]:
  "int32 v \<Longrightarrow> buf_atoi (show_int v @ NUL # ys) = Inr v"
  by (simp add: buf_atoi_def atoi_rest_NUL atoi_show_int int32_def isdigit_def)

text \<open>Storing one line's value in the array: the number, a terminator, the old tail.\<close>

lemma scan_line_value:
  assumes "stack_ok st" "val_ok v"
  defines "n \<equiv> length (show_int v @ [NL])"
  shows "buf_strncpy st (show_int v @ [NL]) n = Inr (show_int v @ NL # drop n st)"
    and "buf_strstr (show_int v @ NL # drop n st) [CR, NL] = Inr False"
    and "buf_put (show_int v @ NL # drop n st) (int n - 1) NUL = Inr (show_int v @ NUL # drop n st)"
proof -
  have len: "length (show_int v) \<le> 3" by (rule length_show_int_val [OF assms(2)])
  have st: "length st = 5" "CR \<notin> set st" "st ! 4 = NUL" using assms(1) by (simp_all add: stack_ok_def)
  show "buf_strncpy st (show_int v @ [NL]) n = Inr (show_int v @ NL # drop n st)"
    using len st(1) by (simp add: n_def buf_strncpy_def)
  have n: "n \<le> 4" using len by (simp add: n_def)
  then have "drop n st ! (4 - n) = NUL" "4 - n < length (drop n st)" using st by simp_all
  then have "NUL \<in> set (drop n st)" by (metis nth_mem)
  moreover have "CR \<notin> set (show_int v @ NL # drop n st)"
    using st(2) show_int_chars [of CR v] set_drop_subset [of n st] by (auto simp: isdigit_def)
  then have "\<not> sublist [CR, NL] (takeWhile (\<lambda>c. c \<noteq> NUL) (show_int v @ NL # drop n st))"
    using sublist_set set_takeWhileD by (metis list.set_intros(1) subsetD)
  ultimately show "buf_strstr (show_int v @ NL # drop n st) [CR, NL] = Inr False"
    by (simp add: buf_strstr_def strstr_eq_None_iff)
  show "buf_put (show_int v @ NL # drop n st) (int n - 1) NUL = Inr (show_int v @ NUL # drop n st)"
    by (simp add: buf_put_def n_def)
qed

lemma strchr_render_line: "CHR ''='' \<notin> set k \<Longrightarrow>
    strchr (render_line (k, v)) (CHR ''='') = Some (CHR ''='' # show_int v @ [NL])"
  by (simp add: render_line_def strchr_append)

lemma scan_lines_skip:
  "(\<And>l. l \<in> set ls \<Longrightarrow> strstr l key = None) \<Longrightarrow> scan_lines key (ls @ ls') st = scan_lines key ls' st"
  by (induction ls) auto

lemma scan_lines_hit:
  assumes "stack_ok st" "val_ok v" "key_ok key"
  shows "scan_lines key (render_line (key, v) # ls) st
    = scan_lines key ls (show_int v @ NUL # drop (length (show_int v @ [NL])) st)"
proof -
  have "strstr (render_line (key, v)) key \<noteq> None"
    using key_in_line [OF assms(3), of key v] strstr_prefix [of key "[]"] by simp
  moreover have "CHR ''='' \<notin> set key" using assms(3) by (simp add: key_ok_def)
  ultimately show ?thesis
    using scan_line_value [OF assms(1,2)] by (simp add: strchr_render_line Let_def)
qed

lemma get_record_value_reads:
  assumes "store_inv path w" "store_abs path w key = Some v" "stack_ok st"
  shows "get_record_value path key st w = Inr (0, Some v)"
proof -
  obtain r where r: "files w path = Some (render r)" "record_ok r" "parse_record (render r) = r"
    using store_inv_content [OF assms(1)] .
  have kv: "(key, v) \<in> set r"
    using assms(2) unfolding store_abs_map_of [OF r(1,2)] by (rule map_of_SomeD)
  then obtain r1 r2 where split: "r = r1 @ (key, v) # r2" by (meson split_list)
  have keys: "keys_ok (map fst r)" using r(2) by (simp add: record_ok_def)
  note ok = record_ok_entry [OF r(2) kv]
  have skip: "strstr l key = None" if "l \<in> set (map render_line r1) \<or> l \<in> set (map render_line r2)" for l
  proof -
    from that obtain k u where l: "l = render_line (k, u)" "(k, u) \<in> set r1 \<union> set r2" by auto
    have "key \<notin> fst ` set r1" "key \<notin> fst ` set r2" using keys split by (simp_all add: keys_ok_def)
    with l(2) have "k \<noteq> key" by (metis UnE fst_conv image_eqI)
    moreover have "k \<in> set (map fst r)" using l(2) split by (force simp: image_iff)
    moreover have "key \<in> set (map fst r)" using split by simp
    ultimately show ?thesis
      using key_in_line [of key k u] keys_ok_lookup [OF keys, of key k] ok l(1) by auto
  qed
  have "scan_lines key (map render_line r) st = Inr (show_int v @ NUL # drop (length (show_int v @ [NL])) st)"
    using scan_lines_skip [of "map render_line r1" key] scan_lines_skip [of "map render_line r2" key "[]"]
      scan_lines_hit [OF assms(3)] ok skip by (simp add: split)
  moreover have "fgets_lines STATUS_LINE_LENGTH (render r) = map render_line r"
    using record_ok_entry [OF r(2)] by (intro fgets_lines_render) blast
  ultimately show ?thesis
    using assms(1) ok r(1) by (simp add: get_record_value_def fopen_r_def store_inv_def buf_simps)
qed

section \<open>Values the reader cannot hold\<close>

lemma length_show_int_wide:
  assumes "\<not> val_ok v"
  shows "4 \<le> length (show_int v)"
proof (cases "v < 0")
  case True
  with assms have "100 \<le> nat (- v)" by (simp add: val_ok_def)
  from length_show_nat_mono [OF this] length_show_nat_digits [of 2 100] True
  show ?thesis by (simp add: show_int_def)
next
  case False
  with assms have "1000 \<le> nat v" by (simp add: val_ok_def)
  from length_show_nat_mono [OF this] length_show_nat_digits [of 3 1000] False
  show ?thesis by (simp add: show_int_def)
qed

definition wide_error :: "int \<Rightarrow> cerr" where
  "wide_error v = (if length (show_int v) = 4 then Unterminated else Overflow)"

lemma scan_lines_wide:
  assumes "length st = 5" "\<not> val_ok v" "key_ok key"
  shows "scan_lines key (render_line (key, v) # ls) st = Inl (wide_error v)"
proof -
  have hit: "strstr (render_line (key, v)) key \<noteq> None"
    using key_in_line [OF assms(3), of key v] strstr_prefix [of key "[]"] by simp
  have eq: "CHR ''='' \<notin> set key" using assms(3) by (simp add: key_ok_def)
  show ?thesis
  proof (cases "length (show_int v) = 4")
    case True
    then have "buf_strncpy st (show_int v @ [NL]) (Suc (length (show_int v))) = Inr (show_int v @ [NL])"
      using assms(1) by (simp add: buf_strncpy_def)
    moreover have no: "NUL \<notin> set (show_int v @ [NL])" "CR \<notin> set (show_int v @ [NL])"
      using show_int_chars [of NUL v] show_int_chars [of CR v] by (auto simp: isdigit_def)
    have "takeWhile (\<lambda>c. c \<noteq> NUL) (show_int v @ [NL]) = show_int v @ [NL]"
      by (rule takeWhile_all) (use no(1) in metis)
    moreover have "\<not> sublist [CR, NL] (show_int v @ [NL])" using sublist_set no(2) by fastforce
    ultimately have "buf_strstr (show_int v @ [NL]) [CR, NL] = Inl Unterminated"
      using no(1) by (simp only: buf_strstr_def strstr_eq_None_iff [symmetric] if_False not_not simp_thms)
    note this \<open>buf_strncpy st _ _ = _\<close>
    moreover note True
    ultimately show ?thesis using hit by (simp add: strchr_render_line [OF eq] True wide_error_def)
  next
    case False
    with length_show_int_wide [OF assms(2)]
    have "buf_strncpy st (show_int v @ [NL]) (Suc (length (show_int v))) = Inl Overflow"
      using assms(1) by (simp add: buf_strncpy_def)
    with False hit show ?thesis by (simp add: strchr_render_line [OF eq] wide_error_def)
  qed
qed

lemma get_record_value_wide:
  assumes "store_inv path w" "key \<in> dom (store_abs path w)" "int32 v" "\<not> val_ok v" "length st = 5"
  shows "\<exists>w'. set_record_value path key v w = Inr (0, w')
    \<and> get_record_value path key st w' = Inl (wide_error v)"
proof -
  obtain r where r: "files w path = Some (render r)" "record_ok r" "parse_record (render r) = r"
    using store_inv_content [OF assms(1)] .
  have key: "key \<in> fst ` set r"
    using assms(2) unfolding store_abs_map_of [OF r(1,2)] dom_map_of_conv_image_fst .
  have keys: "keys_ok (map fst r)" using r(2) by (simp add: record_ok_def)
  then have d: "distinct (map fst r)" by (simp add: keys_ok_def)
  obtain r1 u r2 where split: "r = r1 @ (key, u) # r2" "update_kvs key v r = r1 @ (key, v) # r2"
    "key \<notin> fst ` set r1" by (rule update_kvs_split [OF d key, of v])
  have kok: "key_ok key" using keys_ok_key [OF keys] key by simp
  have skip: "strstr l key = None" if "l \<in> set (map render_line r1)" for l
  proof -
    from that obtain k u where l: "l = render_line (k, u)" "(k, u) \<in> set r1" by auto
    with split(3) have "k \<noteq> key" by (metis fst_conv image_eqI)
    moreover have "k \<in> set (map fst r)" using l(2) split(1) by (force simp: image_iff)
    ultimately show ?thesis
      using key_in_line [OF kok, of k u] keys_ok_lookup [OF keys, of key k] key l(1) by auto
  qed
  have "fgets_lines STATUS_LINE_LENGTH (render (update_kvs key v r)) = map render_line (update_kvs key v r)"
    using record_ok_entry [OF r(2)] assms(3) kok
    unfolding split(2) by (intro fgets_lines_render) (auto simp: split(1))
  moreover have "scan_lines key (map render_line (update_kvs key v r)) st = Inl (wide_error v)"
    by (simp only: split(2) map_append list.map scan_lines_skip [OF skip]
        scan_lines_wide [OF assms(5,4) kok])
  ultimately show ?thesis
    using set_record_value_writes [OF assms(1) r(1,2) key assms(3)] assms(1)
    by (simp add: get_record_value_def fopen_r_def store_inv_def write_file_def)
qed

section \<open>The interface of a status record\<close>

fun set_seq :: "(string \<Rightarrow> int \<Rightarrow> fs \<Rightarrow> (int \<times> fs) cres) \<Rightarrow> (string \<times> int) list \<Rightarrow> fs \<Rightarrow> fs cres" where
  "set_seq setv [] w = Inr w"
| "set_seq setv ((k, v) # ops) w = cbind (setv k v w) (\<lambda>(rc, w'). set_seq setv ops w')"

locale status_store =
  fixes getv :: "cbuf \<Rightarrow> string \<Rightarrow> fs \<Rightarrow> (int \<times> int option) cres"
    and setv :: "string \<Rightarrow> int \<Rightarrow> fs \<Rightarrow> (int \<times> fs) cres"
    and inv :: "fs \<Rightarrow> bool"
    and absm :: "fs \<Rightarrow> string \<Rightarrow> int option"
  assumes get_abs: "inv w \<Longrightarrow> absm w k = Some v \<Longrightarrow> stack_ok st \<Longrightarrow> getv st k w = Inr (0, Some v)"
    and set_abs: "inv w \<Longrightarrow> k \<in> dom (absm w) \<Longrightarrow> val_ok v \<Longrightarrow>
      \<exists>w'. setv k v w = Inr (0, w') \<and> inv w' \<and> absm w' = (absm w)(k \<mapsto> v)"
begin

lemma seq_abs:
  assumes "inv w" "fst ` set ops \<subseteq> dom (absm w)" "\<forall>kv \<in> set ops. val_ok (snd kv)"
  shows "\<exists>w'. set_seq setv ops w = Inr w' \<and> inv w' \<and> absm w' = absm w ++ map_of (rev ops)"
  using assms
proof (induction ops arbitrary: w)
  case (Cons op ops)
  obtain k v where op: "op = (k, v)" by (cases op)
  then obtain w1 where w1: "setv k v w = Inr (0, w1)" "inv w1" "absm w1 = (absm w)(k \<mapsto> v)"
    using set_abs [of w k v] Cons.prems by auto
  have "fst ` set ops \<subseteq> dom (absm w1)" using Cons.prems(2) w1(3) by auto
  with Cons.IH [OF w1(2)] Cons.prems(3) obtain w' where
    "set_seq setv ops w1 = Inr w'" "inv w'" "absm w' = absm w1 ++ map_of (rev ops)" by fastforce
  with w1 op show ?case by (simp add: map_add_upd_left map_add_def fun_eq_iff split: option.splits)
qed simp

lemma get_after_seq:
  assumes "inv w" "fst ` set ops \<subseteq> dom (absm w)" "\<forall>kv \<in> set ops. val_ok (snd kv)"
    and "stack_ok st" "(absm w ++ map_of (rev ops)) k = Some v"
  shows "\<exists>w'. set_seq setv ops w = Inr w' \<and> getv st k w' = Inr (0, Some v)"
proof -
  obtain w' where "set_seq setv ops w = Inr w'" "inv w'" "absm w' = absm w ++ map_of (rev ops)"
    using seq_abs [OF assms(1-3)] by blast
  then show ?thesis using get_abs [of w' k v st] assms(4,5) by simp
qed

lemma bump:
  assumes "inv w" "absm w k = Some v" "val_ok (v + 1)" "stack_ok st"
  shows "\<exists>w'. cbind (getv st k w) (\<lambda>(rc, c). setv k (the c + 1) w) = Inr (0, w') \<and> inv w'
    \<and> absm w' = (absm w)(k \<mapsto> v + 1)"
  using get_abs [OF assms(1,2,4)] set_abs [OF assms(1) _ assms(3), of k] assms(2) by auto

end

interpretation fw_status: status_store get_fw_update_status_value set_fw_update_status_value
  "store_inv FW_UPDATE_STATUS_RECORD" "store_abs FW_UPDATE_STATUS_RECORD"
  by unfold_locales
    (simp_all add: get_fw_update_status_value_def set_fw_update_status_value_def
      get_record_value_reads set_record_value_store)

interpretation esim_status: status_store get_esim_profile_remove_status_value
  set_esim_profile_remove_status_value
  "store_inv ESIM_PROFILE_REMOVE_RECORD" "store_abs ESIM_PROFILE_REMOVE_RECORD"
  by unfold_locales
    (simp_all add: get_esim_profile_remove_status_value_def set_esim_profile_remove_status_value_def
      get_record_value_reads set_record_value_store)

lemma stack_ok_zeroed: "stack_ok (zeroed 5)"
  by (simp add: stack_ok_def zeroed_def)

interpretation bootup_status: status_store "\<lambda>_. get_bootup_status_value" set_bootup_status_value
  "store_inv BOOTUP_STATUS_RECORD" "store_abs BOOTUP_STATUS_RECORD"
  by unfold_locales
    (simp_all add: get_bootup_status_value_def set_bootup_status_value_def stack_ok_zeroed
      get_record_value_reads set_record_value_store)

section \<open>The initial records\<close>

definition fw_init_kvs :: kvs where
  "fw_init_kvs = [(''Find_fastboot_retry_count'', 0), (''Wait_modem_port_retry_count'', 0),
     (''Wait_at_port_retry_count'', 0), (FW_UPDATE_RETRY_COUNT, 0), (DO_HW_RESET_COUNT, 0),
     (NEED_RETRY_FW_UPDATE, 0), (JP_FCC_CONFIG_COUNT, 0)]"

definition esim_init_kvs :: kvs where
  "esim_init_kvs = [(ESIM_TESTPROFILE_DELETE_COUNTER, 0), (ESIM_TESTPROFILE_DELETE_DONE, 0)]"

definition bootup_init_kvs :: kvs where
  "bootup_init_kvs = [(BOOTUP_FAILURE_COUNT, 0), (ESIM_ENABLE_STATE, 1)]"

lemma fw_init_ok: "record_ok fw_init_kvs" by code_simp
lemma esim_init_ok: "record_ok esim_init_kvs" by code_simp
lemma bootup_init_ok: "record_ok bootup_init_kvs" by code_simp

lemma show_int_0: "show_int 0 = ''0''" by code_simp
lemma show_int_1: "show_int 1 = ''1''" by code_simp

lemma record_init_fresh:
  assumes "files w path = None" "can_read w path" "can_write w path" "record_ok r"
  shows "\<exists>w'. record_init path (render r) w = (0, w') \<and> store_inv path w' \<and> store_abs path w' = map_of r"
  using assms
  by (auto simp: record_init_def access_ok_def write_file_def store_inv_def store_abs_def
      record_ok_parse fun_eq_iff)

lemmas init_contents = fw_init_kvs_def esim_init_kvs_def bootup_init_kvs_def render_line_def
  show_int_0 show_int_1 key_defs

lemma fw_update_status_init_render:
  "fw_update_status_init w = record_init FW_UPDATE_STATUS_RECORD (render fw_init_kvs) w"
  by (simp add: fw_update_status_init_def init_contents)

lemma esim_profile_remove_status_init_render:
  "esim_profile_remove_status_init w = record_init ESIM_PROFILE_REMOVE_RECORD (render esim_init_kvs) w"
  by (simp add: esim_profile_remove_status_init_def init_contents)

lemma bootup_status_init_render:
  "bootup_status_init w = record_init BOOTUP_STATUS_RECORD (render bootup_init_kvs) w"
  by (simp add: bootup_status_init_def init_contents)

text \<open>A file system without files, and the one that \<^verbatim>\<open>fw_update_status_init\<close> leaves.\<close>

definition fs0 :: fs where
  "fs0 = \<lparr>files = \<lambda>_. None, can_read = \<lambda>_. True, can_write = \<lambda>_. True\<rparr>"

definition fw_fresh :: fs where
  "fw_fresh = write_file FW_UPDATE_STATUS_RECORD (render fw_init_kvs) fs0"

lemma fw_fresh_inv: "store_inv FW_UPDATE_STATUS_RECORD fw_fresh"
  by (simp add: store_inv_def fw_fresh_def fs0_def write_file_def record_ok_parse fw_init_ok)

lemma fw_fresh_abs: "store_abs FW_UPDATE_STATUS_RECORD fw_fresh = map_of fw_init_kvs"
  by (rule store_abs_map_of [OF _ fw_init_ok]) (simp add: fw_fresh_def write_file_def)

section \<open>Properties\<close>

text \<open>C13: starting from a fresh firmware-update record, after any sequence of writes to its
  keys with values from -99 to 999, a read of a key returns the value last written to it, or the
  initial 0, when the reader's uninitialised array of five bytes holds no carriage return and ends
  with a NUL; and no step leaves the defined behaviour of C. Both conditions are needed: longer values
  and other bytes in the array give wrong results (\<open>get_fw_update_status_value_wide\<close>,
  \<open>get_fw_update_status_value_stale_stack\<close>).\<close>

theorem fw_status_last_write:
  assumes "files w FW_UPDATE_STATUS_RECORD = None" "can_read w FW_UPDATE_STATUS_RECORD"
    and "can_write w FW_UPDATE_STATUS_RECORD"
    and "fst ` set ops \<subseteq> fst ` set fw_init_kvs" "\<forall>kv \<in> set ops. val_ok (snd kv)"
    and "key \<in> fst ` set fw_init_kvs" "stack_ok st"
  shows "\<exists>w1 w2. fw_update_status_init w = (0, w1)
    \<and> set_seq set_fw_update_status_value ops w1 = Inr w2
    \<and> get_fw_update_status_value st key w2
        = Inr (0, Some (case map_of (rev ops) key of None \<Rightarrow> 0 | Some v \<Rightarrow> v))"
proof -
  obtain w1 where w1: "fw_update_status_init w = (0, w1)" "store_inv FW_UPDATE_STATUS_RECORD w1"
    "store_abs FW_UPDATE_STATUS_RECORD w1 = map_of fw_init_kvs"
    using record_init_fresh [OF assms(1-3) fw_init_ok] by (auto simp: fw_update_status_init_render)
  have "map_of fw_init_kvs key = Some 0"
    using assms(6) by (auto simp: fw_init_kvs_def key_defs)
  then have val: "(store_abs FW_UPDATE_STATUS_RECORD w1 ++ map_of (rev ops)) key
      = Some (case map_of (rev ops) key of None \<Rightarrow> 0 | Some v \<Rightarrow> v)"
    by (simp add: w1(3) map_add_def split: option.splits)
  have dom: "fst ` set ops \<subseteq> dom (store_abs FW_UPDATE_STATUS_RECORD w1)"
    using assms(4) by (simp add: w1(3) dom_map_of_conv_image_fst)
  show ?thesis
    using fw_status.get_after_seq [OF w1(2) dom assms(5,7) val] by (simp add: w1(1))
qed

theorem fw_status_last_write_witness:
  "\<exists>w1 w2. fw_update_status_init fs0 = (0, w1)
    \<and> set_seq set_fw_update_status_value
        [(DO_HW_RESET_COUNT, 1), (FW_UPDATE_RETRY_COUNT, 7), (DO_HW_RESET_COUNT, 2)] w1 = Inr w2
    \<and> get_fw_update_status_value (''abcd'' @ [NUL]) DO_HW_RESET_COUNT w2 = Inr (0, Some 2)"
  using fw_status_last_write
    [of fs0 "[(DO_HW_RESET_COUNT, 1), (FW_UPDATE_RETRY_COUNT, 7), (DO_HW_RESET_COUNT, 2)]"
      DO_HW_RESET_COUNT "''abcd'' @ [NUL]"]
  by (simp add: fs0_def fw_init_kvs_def key_defs val_ok_def stack_ok_def)

text \<open>Writing any 32-bit value to an existing key of a well-formed record stays inside the
  buffer the code allocates from \<^verbatim>\<open>count_int_length\<close> and replaces exactly that key's line.\<close>

theorem set_fw_update_status_value_fits:
  assumes "store_inv FW_UPDATE_STATUS_RECORD w" "files w FW_UPDATE_STATUS_RECORD = Some (render r)"
    and "record_ok r" "key \<in> fst ` set r" "int32 v"
  shows "set_fw_update_status_value key v w
    = Inr (0, write_file FW_UPDATE_STATUS_RECORD (render (update_kvs key v r)) w)"
  unfolding set_fw_update_status_value_def by (rule set_record_value_writes [OF assms])

theorem set_fw_update_status_value_fits_witness:
  "set_fw_update_status_value DO_HW_RESET_COUNT (- 2147483648) fw_fresh
    = Inr (0, write_file FW_UPDATE_STATUS_RECORD
        (render (update_kvs DO_HW_RESET_COUNT (- 2147483648) fw_init_kvs)) fw_fresh)"
  by (rule set_fw_update_status_value_fits [OF fw_fresh_inv _ fw_init_ok])
    (simp_all add: fw_fresh_def write_file_def int32_def fw_init_kvs_def)

text \<open>A value that prints with four or more characters can be written but not read back:
  the reader overruns its five-byte array or searches it without a terminator.\<close>

theorem get_fw_update_status_value_wide:
  assumes "store_inv FW_UPDATE_STATUS_RECORD w" "key \<in> dom (store_abs FW_UPDATE_STATUS_RECORD w)"
    and "int32 v" "\<not> val_ok v" "length st = 5"
  shows "\<exists>w'. set_fw_update_status_value key v w = Inr (0, w')
    \<and> get_fw_update_status_value st key w' = Inl (wide_error v)"
  unfolding set_fw_update_status_value_def get_fw_update_status_value_def
  by (rule get_record_value_wide [OF assms])

theorem get_fw_update_status_value_wide_witness:
  "\<exists>w'. set_fw_update_status_value DO_HW_RESET_COUNT 1000 fw_fresh = Inr (0, w')
    \<and> get_fw_update_status_value (zeroed 5) DO_HW_RESET_COUNT w' = Inl (wide_error 1000)"
  by (rule get_fw_update_status_value_wide [OF fw_fresh_inv])
    (simp_all add: fw_fresh_abs fw_init_kvs_def int32_def val_ok_def zeroed_def)

text \<open>The readers that do not clear their array can return a wrong number: when the bytes
  left on the stack end in carriage return and newline, the stored value 12 is read as 1.\<close>

theorem get_fw_update_status_value_stale_stack:
  "\<exists>st w'. length st = 5 \<and> set_fw_update_status_value DO_HW_RESET_COUNT 12 fw_fresh = Inr (0, w')
    \<and> store_abs FW_UPDATE_STATUS_RECORD w' DO_HW_RESET_COUNT = Some 12
    \<and> get_fw_update_status_value st DO_HW_RESET_COUNT w' = Inr (0, Some 1)"
proof -
  obtain w' where w': "set_fw_update_status_value DO_HW_RESET_COUNT 12 fw_fresh = Inr (0, w')"
    "w' = write_file FW_UPDATE_STATUS_RECORD (render (update_kvs DO_HW_RESET_COUNT 12 fw_init_kvs)) fw_fresh"
    using set_record_value_writes [OF fw_fresh_inv _ fw_init_ok, of DO_HW_RESET_COUNT 12]
    by (simp add: set_fw_update_status_value_def fw_fresh_def write_file_def int32_def fw_init_kvs_def)
  have "scan_lines DO_HW_RESET_COUNT (fgets_lines STATUS_LINE_LENGTH
      (render (update_kvs DO_HW_RESET_COUNT 12 fw_init_kvs))) (''abc'' @ [CR, NL])
      = Inr [CHR ''1'', NUL, NL, CR, NL]"
    by code_simp
  moreover have "buf_atoi [CHR ''1'', NUL, NL, CR, NL] = Inr 1" by code_simp
  moreover have "map_of (update_kvs DO_HW_RESET_COUNT 12 fw_init_kvs) DO_HW_RESET_COUNT = Some 12"
    by code_simp
  moreover have "record_ok (update_kvs DO_HW_RESET_COUNT 12 fw_init_kvs)" by code_simp
  ultimately show ?thesis using w'
    by (intro exI [of _ "''abc'' @ [CR, NL]"] exI [of _ w'])
      (simp add: get_fw_update_status_value_def get_record_value_def fopen_r_def write_file_def
        fw_fresh_def fs0_def store_abs_def record_ok_parse)
qed
end
