(* ===== verification/Core.thy ===== *)
theory Core
  imports Common_Device Common_Status
begin

text \<open>
  The core service, \<^verbatim>\<open>pwl-core/pwl_core.c\<close>: the recovery monitor of a PCIe module, the GPIO reset
  of a USB module, the D-Bus methods, and the connection to the MBIM device whose indications it
  publishes.

  The globals of the file are the fields of the record \<open>core\<close>, beside the files, the commands that
  were run for their effect (\<open>c_ran\<close>), the writes to device nodes (\<open>c_nodes\<close>), the messages
  (\<open>c_out\<close>) and the D-Bus signals (\<open>c_signals\<close>). What the host answers is the record \<open>core_env\<close>,
  read at the tick of \<open>c_clock\<close>. While the code sleeps or waits on its condition variable, the next
  entry of \<open>c_script\<close> says which callbacks of the MBIM library run and whether the wait is
  signalled. Callbacks are admitted in every order, so the theorems cover the orders of the library.
\<close>

section \<open>Types and constants\<close>

fun sim_state_num :: "pwl_sim_state_t \<Rightarrow> int" where
  "sim_state_num PWL_SIM_STATE_UNKNOWN = 0"
| "sim_state_num PWL_SIM_STATE_NOT_INSERTED = 1"
| "sim_state_num PWL_SIM_STATE_INITIALIZED = 2"

definition HW_RESET_RETRY_TH :: int where "HW_RESET_RETRY_TH = 5"
definition MAX_BOOTUP_FAILURE :: int where "MAX_BOOTUP_FAILURE = 1"
definition MAX_RESCAN_FAILURE :: int where "MAX_RESCAN_FAILURE = 3"
definition PCIE_UPDATE_BASE_FLZ :: int where "PCIE_UPDATE_BASE_FLZ = 0"
definition PCIE_UPDATE_BASE_FLASH_FOLDER :: int where "PCIE_UPDATE_BASE_FLASH_FOLDER = 1"
definition UPDATE_FW_FOLDER_FILE :: string where "UPDATE_FW_FOLDER_FILE = ''/opt/pwl/firmware/FwPackage''"
definition UPDATE_DEV_FOLDER_FILE :: string where "UPDATE_DEV_FOLDER_FILE = ''/opt/pwl/firmware/DevPackage''"
definition BOOTUP_CONFIG_FILE :: string where "BOOTUP_CONFIG_FILE = ''/opt/pwl/bootup_config''"
definition CONFIG_MAX_BOOTUP_FAILURE :: string where "CONFIG_MAX_BOOTUP_FAILURE = ''MAX_BOOTUP_FAILURE''"
definition DEVICE_MODE_NAME :: string where "DEVICE_MODE_NAME = ''t7xx_mode''"
definition DEVICE_REMOVE_NAME :: string where "DEVICE_REMOVE_NAME = ''remove''"
definition DEVICE_RESCAN_NAME :: string where "DEVICE_RESCAN_NAME = ''rescan''"
definition SHELL_CMD_RSP_LENGTH :: nat where "SHELL_CMD_RSP_LENGTH = 128"
definition DEVICE_MODE_LENGTH :: nat where "DEVICE_MODE_LENGTH = 16"
definition MODE_DEVICE_CAP :: int where "MODE_DEVICE_CAP = 1"
definition DEVICE_HW_RESET :: int where "DEVICE_HW_RESET = 0"
definition DEVICE_HW_RESCAN :: int where "DEVICE_HW_RESCAN = 1"
definition AUTOSUSPEND_DELAY_NODE_PATH :: "string \<Rightarrow> string" where
  "AUTOSUSPEND_DELAY_NODE_PATH d = ''/sys/bus/pci/devices/'' @ d @ ''/power/autosuspend_delay_ms''"
definition AUTOSUSPEND_DELAY_VALUE :: string where "AUTOSUSPEND_DELAY_VALUE = ''5000''"

text \<open>The GPIO that resets the module, by the SKU of the machine.\<close>

definition g_skuid_to_gpio :: "(string \<times> int) list" where
  "g_skuid_to_gpio =
    [(''0CBD'', 883), (''0CC1'', 883), (''0CC4'', 883), (''0CB5'', 717), (''0CB7'', 595), (''0CB2'', 717),
     (''0CB3'', 717), (''0CB4'', 595), (''0CB9'', 717), (''0CBA'', 717), (''0CBB'', 717), (''0CBC'', 595),
     (''0CD9'', 717), (''0CDA'', 717), (''0CF4'', 883), (''0CE8'', 883), (''0CF9'', 595), (''0CF5'', 883),
     (''0CF6'', 595), (''0D5F'', 528), (''0D60'', 528), (''0D5C'', 528), (''0D5E'', 528), (''0D47'', 528),
     (''0D48'', 528), (''0D49'', 528), (''0D61'', 528), (''0D4D'', 528), (''0D4E'', 528), (''0D4F'', 528),
     (''0D65'', 528),
     (''0DF4'', -1), (''0E39'', -1), (''0E35'', -1), (''0E1C'', -1), (''0E38'', -1), (''0E1D'', -1),
     (''0DF2'', -1), (''0E33'', -1), (''0E1F'', -1), (''0E26'', -1), (''0E25'', -1), (''0E23'', -1),
     (''0E24'', -1), (''0E29'', -1), (''0E31'', -1), (''0E3A'', -1), (''0E3C'', -1), (''0DF5'', -1),
     (''0E40'', -1), (''0E36'', -1), (''0E1A'', -1), (''0E1B'', -1), (''0E1E'', -1), (''0DF3'', -1),
     (''0E34'', -1), (''0E20'', -1), (''0E28'', -1), (''0E22'', -1), (''0E21'', -1), (''0E27'', -1),
     (''0E2A'', -1), (''0E32'', -1), (''0E3B'', -1), (''0E3D'', -1)]"

section \<open>State and environment\<close>

datatype core_signal =
    GetFwVersion
  | NoticeModuleRecoveryFinish int
  | SubscriberReadyStateChange pwl_sim_state_t

text \<open>The callbacks of the MBIM library on the device of the recovery monitor.\<close>

datatype pci_event = PciNew bool | PciOpen bool | PciCaps "string option" "string option" | PciClosed

record core_env =
  ce_shell :: "nat \<Rightarrow> shell"
  ce_junk :: "nat \<Rightarrow> string"
  ce_exists :: "nat \<Rightarrow> string \<Rightarrow> bool"
  ce_node :: "nat \<Rightarrow> string \<Rightarrow> string option"
  ce_node_opens :: "nat \<Rightarrow> string \<Rightarrow> bool"
  ce_system :: "nat \<Rightarrow> string \<Rightarrow> int"

text \<open>What C leaves open: uninitialised variables and the unwritten parts of arrays.\<close>

record cjunk =
  cj_gpio :: int
  cj_sku :: cbuf
  cj_mode :: cbuf
  cj_stack :: cbuf
  cj_response :: string
  cj_content :: string

record core =
  gb_recoverying :: bool
  g_fw_update_retry_count :: int
  g_do_hw_reset_count :: int
  g_need_retry_fw_update :: int
  g_mode :: int
  g_rescan_failure_count :: int
  g_device_cap_check_pass :: bool
  g_bootup_failure_count :: int
  g_bootup_failure_limit :: int
  g_pci_device :: bool
  g_pci_cancellable :: bool
  g_ready_cb :: bool
  g_core_device :: bool
  g_cancellable :: bool
  c_threads :: nat
  c_new_pending :: nat
  c_open_pending :: nat
  c_handlers :: bool
  c_indications :: bool
  c_dev :: dev
  c_fs :: fs
  c_clock :: nat
  c_ran :: "string list"
  c_nodes :: "(string \<times> string) list"
  c_out :: "sent list"
  c_signals :: "core_signal list"
  c_caps_queries :: nat
  c_script :: "(pci_event list \<times> bool) list"

definition tick :: "core \<Rightarrow> core" where
  "tick st = st\<lparr>c_clock := Suc (c_clock st)\<rparr>"

definition emit :: "core_signal \<Rightarrow> core \<Rightarrow> core" where
  "emit s st = st\<lparr>c_signals := c_signals st @ [s]\<rparr>"

text \<open>\<^verbatim>\<open>popen(cmd, "r")\<close> and \<^verbatim>\<open>popen(cmd, "w")\<close>.\<close>

definition popen_r :: "core_env \<Rightarrow> string \<Rightarrow> core \<Rightarrow> string option \<times> core" where
  "popen_r env cmd st = (ce_shell env (c_clock st) cmd, tick st)"

definition popen_w :: "core_env \<Rightarrow> string \<Rightarrow> core \<Rightarrow> bool \<times> core" where
  "popen_w env cmd st =
     (case ce_shell env (c_clock st) cmd of
        None \<Rightarrow> (False, tick st)
      | Some _ \<Rightarrow> (True, (tick st)\<lparr>c_ran := c_ran st @ [cmd]\<rparr>))"

definition core_access :: "core_env \<Rightarrow> string \<Rightarrow> core \<Rightarrow> bool" where
  "core_access env path st = ce_exists env (c_clock st) path"

section \<open>The device nodes of the PCIe module\<close>

text \<open>The return code and the new content of the caller's array, \<open>old\<close> when it is not written.\<close>

definition do_shell_cmd :: "core_env \<Rightarrow> string \<Rightarrow> string \<Rightarrow> core \<Rightarrow> int \<times> string \<times> core" where
  "do_shell_cmd env cmd old st =
     (case popen_r env cmd st of
        (None, st1) \<Rightarrow> (-1, old, st1)
      | (Some out, st1) \<Rightarrow> (0, (case fgets SHELL_CMD_RSP_LENGTH out of None \<Rightarrow> [] | Some l \<Rightarrow> l), st1))"

definition get_full_path :: "core_env \<Rightarrow> core \<Rightarrow> int \<times> string \<times> core" where
  "get_full_path env st =
     (let (_, rsp, st1) = do_shell_cmd env (''find /sys/ -name '' @ DEVICE_MODE_NAME) [] st
      in if length rsp > 0 then (0, rsp, st1) else (-1, [], st1))"

text \<open>The loop over the components of the path, collected in \<^verbatim>\<open>device_node_path[128]\<close>.\<close>

fun join_nodes :: "string list \<Rightarrow> string \<Rightarrow> string cres" where
  "join_nodes [] acc = Inr acc"
| "join_nodes (tok # ts) acc =
     (if strstr tok DEVICE_MODE_NAME \<noteq> None then strcpy_cap SHELL_CMD_RSP_LENGTH (acc @ ''/'')
      else cbind (strcpy_cap SHELL_CMD_RSP_LENGTH (acc @ ''/'')) (\<lambda>acc1.
           cbind (strcpy_cap SHELL_CMD_RSP_LENGTH (acc1 @ tok)) (join_nodes ts)))"

definition get_device_node_path :: "string \<Rightarrow> string cres" where
  "get_device_node_path full_path = join_nodes (strtok_all ''/'' full_path) []"

text \<open>
  \<^verbatim>\<open>fread\<close> fills \<^verbatim>\<open>buffer[16]\<close> from the node and \<^verbatim>\<open>strcpy\<close> takes it as a string; the array is not
  cleared before. The result is the return code and the text, \<open>None\<close> when the array of the caller is
  not written.
\<close>

definition get_device_mode :: "core_env \<Rightarrow> cjunk \<Rightarrow> string \<Rightarrow> core \<Rightarrow> (int \<times> string option \<times> core) cres" where
  "get_device_mode env j path st =
     cbind (strcpy_cap SHELL_CMD_RSP_LENGTH (path @ DEVICE_MODE_NAME)) (\<lambda>file_name.
       case ce_node env (c_clock st) file_name of
         None \<Rightarrow> Inr (-1, None, tick st)
       | Some txt \<Rightarrow>
           let got = take DEVICE_MODE_LENGTH txt
           in cbind (cstr (got @ drop (length got) (cj_mode j))) (\<lambda>buffer.
              cbind (strcpy_cap DEVICE_MODE_LENGTH buffer) (\<lambda>mode. Inr (0, Some mode, tick st))))"

definition set_device_mode :: "core_env \<Rightarrow> string \<Rightarrow> string \<Rightarrow> string \<Rightarrow> core \<Rightarrow> (int \<times> core) cres" where
  "set_device_mode env path node val st =
     cbind (strcpy_cap SHELL_CMD_RSP_LENGTH (path @ node)) (\<lambda>file_name.
       if ce_node_opens env (c_clock st) file_name
       then Inr (0, (tick st)\<lparr>c_nodes := c_nodes st @ [(file_name, val)]\<rparr>)
       else Inr (-1, tick st))"

text \<open>The part of \<^verbatim>\<open>do_pci_hw_reset\<close> behind the reset: remove, rescan, read the mode again.\<close>

definition pci_remove_rescan :: "core_env \<Rightarrow> cjunk \<Rightarrow> string \<Rightarrow> core \<Rightarrow> (int \<times> core) cres" where
  "pci_remove_rescan env j device_node_path st =
     cbind (set_device_mode env device_node_path DEVICE_REMOVE_NAME ''1'' st) (\<lambda>(_, st1).
     cbind (set_device_mode env ''/sys/bus/pci/'' DEVICE_RESCAN_NAME ''1'' st1) (\<lambda>(_, st2).
     cbind (get_device_mode env j device_node_path st2) (\<lambda>(rc, _, st3).
       if rc = 0 then Inr (0, st3) else Inr (-1, st3))))"

definition do_pci_hw_reset :: "core_env \<Rightarrow> cjunk \<Rightarrow> int \<Rightarrow> core \<Rightarrow> (int \<times> core) cres" where
  "do_pci_hw_reset env j reset_mode st =
     (let (rc, full_path, st1) = get_full_path env st
      in if rc \<noteq> 0 then Inr (-1, st1)
         else cbind (get_device_node_path full_path) (\<lambda>device_node_path.
              cbind (get_device_mode env j device_node_path st1) (\<lambda>(rc2, _, st2).
                if rc2 \<noteq> 0 then Inr (-1, st2)
                else if reset_mode = DEVICE_HW_RESET
                then cbind (set_device_mode env device_node_path DEVICE_MODE_NAME ''reset'' st2) (\<lambda>(_, st3).
                     cbind (get_device_mode env j device_node_path st3) (\<lambda>(rc4, _, st4).
                       if rc4 \<noteq> 0 then Inr (-1, st4) else pci_remove_rescan env j device_node_path st4))
                else pci_remove_rescan env j device_node_path st2)))"

section \<open>The module check over MBIM\<close>

definition find_port :: "core_env \<Rightarrow> string \<Rightarrow> cbuf \<Rightarrow> nat \<Rightarrow> core \<Rightarrow> (int \<times> cbuf \<times> core) cres" where
  "find_port env cmd port_buff port_buff_size st =
     (case popen_r env cmd st of
        (None, st1) \<Rightarrow> Inr (-1, port_buff, st1)
      | (Some out, st1) \<Rightarrow>
          let buffer = cut_at (case fgets 50 out of None \<Rightarrow> [] | Some l \<Rightarrow> l) [NL]
          in if length buffer + 1 > port_buff_size then Inr (-1, port_buff, st1)
             else if length buffer \<le> 0 then Inr (-1, port_buff, st1)
             else cbind (buf_strncpy port_buff buffer (length buffer)) (\<lambda>pb. Inr (0, pb, st1)))"

definition find_mbim_port :: "core_env \<Rightarrow> cbuf \<Rightarrow> nat \<Rightarrow> core \<Rightarrow> (int \<times> cbuf \<times> core) cres" where
  "find_mbim_port env = find_port env ''find /dev/ -name wwan0mbim*''"

definition find_abnormal_port :: "core_env \<Rightarrow> cbuf \<Rightarrow> nat \<Rightarrow> core \<Rightarrow> (int \<times> cbuf \<times> core) cres" where
  "find_abnormal_port env = find_port env ''find /dev/ -name wwan0fastboot*''"

definition device_caps_cb :: "string option \<Rightarrow> string option \<Rightarrow> core \<Rightarrow> core" where
  "device_caps_cb firmware_info hardware_info st =
     (let st0 = st\<lparr>g_device_cap_check_pass := False\<rparr>
      in case (firmware_info, hardware_info) of
           (Some fw, Some hw) \<Rightarrow>
             if length fw > 0 \<and> length hw > 0 then st0\<lparr>g_device_cap_check_pass := True\<rparr> else st0
         | _ \<Rightarrow> st0)"

definition pci_mbim_device_ready_cb :: "core \<Rightarrow> core" where
  "pci_mbim_device_ready_cb st =
     (if g_mode st = MODE_DEVICE_CAP then st\<lparr>c_caps_queries := Suc (c_caps_queries st)\<rparr> else st)"

definition pci_device_open_cb :: "bool \<Rightarrow> core \<Rightarrow> core" where
  "pci_device_open_cb ok st = (if \<not> ok then st else if g_ready_cb st then pci_mbim_device_ready_cb st else st)"

definition pci_device_new_cb :: "bool \<Rightarrow> core \<Rightarrow> core" where
  "pci_device_new_cb ok st = st\<lparr>g_pci_device := ok\<rparr>"

fun pci_event_step :: "pci_event \<Rightarrow> core \<Rightarrow> core" where
  "pci_event_step (PciNew ok) st = pci_device_new_cb ok st"
| "pci_event_step (PciOpen ok) st = pci_device_open_cb ok st"
| "pci_event_step (PciCaps fw hw) st = device_caps_cb fw hw st"
| "pci_event_step PciClosed st = st"

definition c_wait :: "core \<Rightarrow> bool \<times> core" where
  "c_wait st =
     (case c_script st of
        [] \<Rightarrow> (False, st)
      | (evs, signalled) # sc \<Rightarrow> (signalled, fold pci_event_step evs (st\<lparr>c_script := sc\<rparr>)))"

definition pci_mbim_device_init :: "core_env \<Rightarrow> core \<Rightarrow> (int \<times> core) cres" where
  "pci_mbim_device_init env st =
     cbind (find_mbim_port env (zeroed 20) 20 st) (\<lambda>(rc, _, st1).
       if rc = -1 then Inr (-1, st1) else Inr (0, st1\<lparr>g_pci_cancellable := True, g_ready_cb := True\<rparr>))"

definition pci_device_close :: "core \<Rightarrow> core" where
  "pci_device_close st = st\<lparr>g_pci_device := False\<rparr>"

definition pci_mbim_device_deinit :: "core \<Rightarrow> core" where
  "pci_mbim_device_deinit st =
     (let (_, st1) = c_wait (pci_device_close st)
      in st1\<lparr>g_pci_cancellable := False, g_pci_device := False\<rparr>)"

definition check_module_info_v2 :: "core_env \<Rightarrow> core \<Rightarrow> (int \<times> core) cres" where
  "check_module_info_v2 env st =
     cbind (pci_mbim_device_init env (st\<lparr>g_mode := MODE_DEVICE_CAP, g_device_cap_check_pass := False\<rparr>)) (\<lambda>(rc, st1).
       if rc = -1 then Inr (-1, pci_mbim_device_deinit st1)
       else let st2 = snd (c_wait st1);
                check_result = (if g_device_cap_check_pass st2 then 0 else -1)
            in Inr (check_result, pci_mbim_device_deinit st2))"

section \<open>The recovery monitor\<close>

text \<open>Tell the others to flash from the folder, when there is one.\<close>

definition flash_recovery_check :: "core_env \<Rightarrow> core \<Rightarrow> core" where
  "flash_recovery_check env st =
     (if core_access env UPDATE_FW_FOLDER_FILE st \<or> core_access env UPDATE_DEV_FOLDER_FILE st
      then emit (NoticeModuleRecoveryFinish PCIE_UPDATE_BASE_FLASH_FOLDER) (emit GetFwVersion st)
      else st)"

definition set_bootup_count :: "int \<Rightarrow> core \<Rightarrow> core cres" where
  "set_bootup_count n st =
     cbind (set_bootup_status_value BOOTUP_FAILURE_COUNT n (c_fs st)) (\<lambda>(_, w).
       Inr (st\<lparr>g_bootup_failure_count := n, c_fs := w\<rparr>))"

text \<open>
  One round of the loop, and whether the loop goes on: the module check, the count of failed starts
  when the module is in its abnormal state, the rescan when it is absent.
\<close>

definition monitor_check :: "core_env \<Rightarrow> core \<Rightarrow> (bool \<times> core) cres" where
  "monitor_check env st =
     cbind (find_mbim_port env (zeroed 20) 20 st) (\<lambda>(rc, _, st1).
       if rc = 0
       then cbind (check_module_info_v2 env st1) (\<lambda>(ok, st2).
              if ok = 0
              then cbind (set_bootup_count 0 st2) (\<lambda>st3.
                     Inr (True, emit (NoticeModuleRecoveryFinish PCIE_UPDATE_BASE_FLZ) (emit GetFwVersion st3)))
              else Inr (False, st2))
       else Inr (False, st1))"

definition monitor_abnormal :: "core_env \<Rightarrow> core \<Rightarrow> (bool \<times> core) cres" where
  "monitor_abnormal env st =
     cbind (set_bootup_count (g_bootup_failure_count st + 1) st) (\<lambda>st1.
       if g_bootup_failure_count st1 \<le> g_bootup_failure_limit st1
       then Inr (False, flash_recovery_check env st1)
       else Inr (False, st1))"

definition monitor_rescan :: "core_env \<Rightarrow> cjunk \<Rightarrow> core \<Rightarrow> (bool \<times> core) cres" where
  "monitor_rescan env j st =
     (let st1 = st\<lparr>g_rescan_failure_count := g_rescan_failure_count st + 1\<rparr>
      in if g_rescan_failure_count st1 \<le> MAX_RESCAN_FAILURE
         then cbind (do_pci_hw_reset env j DEVICE_HW_RESCAN st1) (\<lambda>(_, st2). Inr (True, st2))
         else Inr (False, flash_recovery_check env st1))"

definition monitor_round :: "core_env \<Rightarrow> cjunk \<Rightarrow> core \<Rightarrow> (bool \<times> core) cres" where
  "monitor_round env j st =
     cbind (monitor_check env st) (\<lambda>(passed, st1).
       if passed then Inr (False, st1)
       else cbind (find_abnormal_port env (zeroed 20) 20 st1) (\<lambda>(rc, _, st2).
              if rc = 0 then monitor_abnormal env st2 else monitor_rescan env j st2))"

text \<open>\<open>None\<close> when the loop has not ended after \<open>n\<close> rounds.\<close>

fun monitor_rounds :: "nat \<Rightarrow> core_env \<Rightarrow> cjunk \<Rightarrow> core \<Rightarrow> core option cres" where
  "monitor_rounds 0 env j st = Inr None"
| "monitor_rounds (Suc n) env j st =
     cbind (monitor_round env j st) (\<lambda>(again, st1). if again then monitor_rounds n env j st1 else Inr (Some st1))"

definition mbim_monitor_thread_func :: "nat \<Rightarrow> core_env \<Rightarrow> cjunk \<Rightarrow> core \<Rightarrow> core option cres" where
  "mbim_monitor_thread_func n env j st =
     cbind (monitor_rounds n env j (st\<lparr>gb_recoverying := True\<rparr>)) (\<lambda>r.
       Inr (map_option (\<lambda>st1. st1\<lparr>gb_recoverying := False\<rparr>) r))"

section \<open>The GPIO reset\<close>

definition SKU_CMD :: string where
  "SKU_CMD = ''dmidecode -t 1 | grep SKU | awk -F '' @ [CHR 0x27] @ '' '' @ [CHR 0x27] @ '' '' @ [CHR 0x27]
     @ ''{print$3}'' @ [CHR 0x27]"

text \<open>The text that the loop of \<^verbatim>\<open>fgets\<close> leaves in \<^verbatim>\<open>SKU_id[16]\<close>.\<close>

definition read_sku_id :: "cjunk \<Rightarrow> string \<Rightarrow> string cres" where
  "read_sku_id j out =
     (case rev (fgets_lines 16 out) of [] \<Rightarrow> cstr (cj_sku j) | l # _ \<Rightarrow> Inr (cut_at l [NL]))"

definition find_gpio :: "string \<Rightarrow> int option" where
  "find_gpio SKU_id = map_option snd (find (\<lambda>e. strstr SKU_id (fst e) \<noteq> None) g_skuid_to_gpio)"

definition set_gpio_status :: "core_env \<Rightarrow> int \<Rightarrow> int \<Rightarrow> core \<Rightarrow> (int \<times> core) cres" where
  "set_gpio_status env enable gpio st =
     (if enable = 1 \<or> enable = 0
      then cbind (strcpy_cap 64 (''echo '' @ show_int enable @ '' > /sys/class/gpio/gpio'' @ show_int gpio @ ''/value'')) (\<lambda>gpio_cmd.
             let (ok, st1) = popen_w env gpio_cmd st in if ok then Inr (0, st1) else Inr (-1, st1))
      else Inr (-1, st))"

definition show_gpio_reset_failed :: "core_env \<Rightarrow> core \<Rightarrow> int \<times> core" where
  "show_gpio_reset_failed env st =
     (let (out, st1) = popen_r env (''find /run/user -name '' @ [CHR 0x22] @ ''Xauthority'' @ [CHR 0x22] @ '' 2>/dev/null | head -1'') st;
          env_variable = (case out of None \<Rightarrow> [] | Some t \<Rightarrow> cut_at (take 255 t) [NL]);
          cmd = take 511 (''export DISPLAY=:0; export XDG_CURRENT_DESKTOP=GNOME; export XAUTHORITY='' @ env_variable
                 @ ''; zenity --error --text='' @ [CHR 0x27] @ ''Reset failed.'' @ [CHR 0x27] @ '' --title='' @ [CHR 0x27] @ ''Error'' @ [CHR 0x27])
      in (ce_system env (c_clock st1) cmd, (tick st1)\<lparr>c_ran := c_ran st1 @ [cmd]\<rparr>))"

definition c_send_message_queue :: "cjunk \<Rightarrow> pwl_cid_t \<Rightarrow> core \<Rightarrow> core" where
  "c_send_message_queue j c st =
     st\<lparr>c_out := c_out st @ [(CID_DESTINATION (cid_num c), \<lparr>sender_id = PWL_MQ_ID_CORE, pwl_cid = cid_num c,
        status = PWL_CID_STATUS_NONE, response = cj_response j, content = cj_content j\<rparr>)]\<rparr>"

text \<open>The end of \<^verbatim>\<open>hw_reset\<close>: the line down, up, and the message to the module adapter.\<close>

definition gpio_pulse :: "core_env \<Rightarrow> cjunk \<Rightarrow> int \<Rightarrow> core \<Rightarrow> (int \<times> core) cres" where
  "gpio_pulse env j gpio st =
     cbind (set_gpio_status env 0 gpio st) (\<lambda>(rc0, st1).
       if rc0 \<noteq> 0 then Inr (-1, st1)
       else cbind (set_gpio_status env 1 gpio st1) (\<lambda>(rc1, st2).
              if rc1 \<noteq> 0 then Inr (-1, st2)
              else Inr (1, c_send_message_queue j PWL_CID_MADPT_RESTART st2)))"

definition hw_reset :: "core_env \<Rightarrow> cjunk \<Rightarrow> core \<Rightarrow> (int \<times> core) cres" where
  "hw_reset env j st =
     (if \<not> core_access env ''/sys/class/gpio/export'' st then Inr (-1, st)
      else case popen_r env SKU_CMD st of
             (None, st1) \<Rightarrow> Inr (-1, st1)
           | (Some out, st1) \<Rightarrow>
               cbind (read_sku_id j out) (\<lambda>SKU_id.
                 case find_gpio SKU_id of
                   None \<Rightarrow> Inr (-1, st1)
                 | Some gpio \<Rightarrow>
                     if gpio = -1 then Inr (-1, snd (show_gpio_reset_failed env st1))
                     else gpio_pulse env j gpio st1))"

text \<open>
  \<^verbatim>\<open>gpio_init\<close> tests \<^verbatim>\<open>gpio == -1\<close> before it tests whether the SKU was found: the variable is then
  uninitialised.
\<close>

definition gpio_export :: "core_env \<Rightarrow> int \<Rightarrow> core \<Rightarrow> (int \<times> core) cres" where
  "gpio_export env gpio st =
     (if core_access env (''/sys/class/gpio/gpio'' @ show_int gpio) st then Inr (0, st)
      else cbind (strcpy_cap 64 (''echo '' @ show_int gpio @ '' > /sys/class/gpio/export'')) (\<lambda>cmd.
             let (ok, st1) = popen_w env cmd st in Inr (if ok then 0 else -1, st1)))"

definition gpio_init :: "core_env \<Rightarrow> cjunk \<Rightarrow> core \<Rightarrow> (int \<times> core) cres" where
  "gpio_init env j st =
     (if \<not> core_access env ''/sys/class/gpio/export'' st then Inr (-1, st)
      else case popen_r env SKU_CMD st of
             (None, st1) \<Rightarrow> Inr (-1, st1)
           | (Some out, st1) \<Rightarrow>
               cbind (read_sku_id j out) (\<lambda>SKU_id.
                 let found = find_gpio SKU_id; gpio = (case found of None \<Rightarrow> cj_gpio j | Some g \<Rightarrow> g)
                 in if gpio = -1 then Inr (-1, st1)
                    else if found = None then Inr (-1, st1)
                    else cbind (gpio_export env gpio st1) (\<lambda>(rc, st2).
                         if rc \<noteq> 0 then Inr (-1, st2)
                         else cbind (strcpy_cap 64 (''echo out > /sys/class/gpio/gpio'' @ show_int gpio @ ''/direction'')) (\<lambda>cmd.
                              let (ok, st3) = popen_w env cmd st2
                              in if \<not> ok then Inr (-1, st3)
                                 else cbind (set_gpio_status env 1 gpio st3) (\<lambda>(rc4, st4).
                                        if rc4 \<noteq> 0 then Inr (-1, st4) else Inr (0, st4))))))"

section \<open>D-Bus methods\<close>

definition madpt_ready_method :: "core \<Rightarrow> core" where
  "madpt_ready_method st = emit GetFwVersion st"

definition request_update_fw_version :: "core \<Rightarrow> core" where
  "request_update_fw_version st = emit GetFwVersion st"

definition request_fw_update_check :: "core \<Rightarrow> core" where
  "request_fw_update_check st =
     (if \<not> gb_recoverying st
      then emit (NoticeModuleRecoveryFinish PCIE_UPDATE_BASE_FLZ) (emit GetFwVersion st)
      else st)"

definition ready_to_fcc_unlock_method :: "core \<Rightarrow> core" where
  "ready_to_fcc_unlock_method st = st"

text \<open>A status that cannot be read leaves the counter as it is.\<close>

definition load_status :: "cjunk \<Rightarrow> string \<Rightarrow> (int \<Rightarrow> core \<Rightarrow> core) \<Rightarrow> core \<Rightarrow> core cres" where
  "load_status j key upd st =
     cbind (get_fw_update_status_value (cj_stack j) key (c_fs st)) (\<lambda>(_, v).
       Inr (case v of None \<Rightarrow> st | Some n \<Rightarrow> upd n st))"

definition gpio_reset_method :: "core_env \<Rightarrow> cjunk \<Rightarrow> core \<Rightarrow> core cres" where
  "gpio_reset_method env j st =
     cbind (load_status j DO_HW_RESET_COUNT (\<lambda>n s. s\<lparr>g_do_hw_reset_count := n\<rparr>) st) (\<lambda>st1.
       if g_do_hw_reset_count st1 \<le> HW_RESET_RETRY_TH
       then let n = g_do_hw_reset_count st1 + 1
            in cbind (set_fw_update_status_value DO_HW_RESET_COUNT n (c_fs st1)) (\<lambda>(_, w).
               cbind (hw_reset env j (st1\<lparr>g_do_hw_reset_count := n, c_fs := w\<rparr>)) (\<lambda>(_, st2). Inr st2))
       else Inr st1)"

section \<open>The connection to the MBIM device\<close>

datatype mbim_ready_state =
    MBIM_NOT_INITIALIZED | MBIM_INITIALIZED | MBIM_SIM_NOT_INSERTED | MBIM_BAD_SIM | MBIM_FAILURE
  | MBIM_NOT_ACTIVATED | MBIM_DEVICE_LOCKED | MBIM_NO_ESIM_PROFILE | MBIM_OTHER

definition sim_state_of :: "mbim_ready_state \<Rightarrow> pwl_sim_state_t" where
  "sim_state_of r =
     (case r of
        MBIM_INITIALIZED \<Rightarrow> PWL_SIM_STATE_INITIALIZED
      | MBIM_SIM_NOT_INSERTED \<Rightarrow> PWL_SIM_STATE_NOT_INSERTED
      | _ \<Rightarrow> PWL_SIM_STATE_UNKNOWN)"

text \<open>The argument is what the library parsed from the notification, \<open>None\<close> when parsing failed.\<close>

definition subscriber_ready_status_update :: "mbim_ready_state option \<Rightarrow> core \<Rightarrow> core" where
  "subscriber_ready_status_update r st =
     (case r of None \<Rightarrow> st | Some ready \<Rightarrow> emit (SubscriberReadyStateChange (sim_state_of ready)) st)"

datatype mbim_indication =
    IndSubscriberReady "mbim_ready_state option" | IndOtherBasicConnect | IndOtherService

definition mbim_indication_cb :: "mbim_indication \<Rightarrow> core \<Rightarrow> core" where
  "mbim_indication_cb i st =
     (case i of IndSubscriberReady r \<Rightarrow> subscriber_ready_status_update r st | _ \<Rightarrow> st)"

definition spawn_mbim_thread :: "core \<Rightarrow> core" where
  "spawn_mbim_thread st = st\<lparr>c_threads := Suc (c_threads st)\<rparr>"

text \<open>One attempt of the thread; a success asks the library for a device and ends the thread.\<close>

definition mbim_dbus_init :: "core_env \<Rightarrow> core \<Rightarrow> (bool \<times> core) cres" where
  "mbim_dbus_init env st =
     cbind (pwl_find_mbim_port (ce_shell env (c_clock st)) (ce_junk env (c_clock st)) (zeroed 20) 20 (c_dev st)) (\<lambda>(ok, _, d).
       let st1 = (tick st)\<lparr>c_dev := d\<rparr>
       in if \<not> ok then Inr (False, st1)
          else Inr (True, st1\<lparr>g_cancellable := True, c_new_pending := Suc (c_new_pending st1)\<rparr>))"

definition mbim_device_thread :: "core_env \<Rightarrow> core \<Rightarrow> core cres" where
  "mbim_device_thread env st =
     cbind (mbim_dbus_init env st) (\<lambda>(ok, st1).
       Inr (if ok then st1\<lparr>c_threads := c_threads st1 - 1\<rparr> else st1))"

definition device_new_cb :: "bool \<Rightarrow> core \<Rightarrow> core" where
  "device_new_cb ok st =
     (let st1 = st\<lparr>c_new_pending := c_new_pending st - 1, g_core_device := ok\<rparr>
      in if \<not> ok then spawn_mbim_thread st1 else st1\<lparr>c_open_pending := Suc (c_open_pending st1)\<rparr>)"

definition core_device_open_cb :: "bool \<Rightarrow> core \<Rightarrow> core" where
  "core_device_open_cb ok st =
     (let st1 = st\<lparr>c_open_pending := c_open_pending st - 1\<rparr>
      in if \<not> ok then spawn_mbim_thread st1 else st1\<lparr>c_handlers := True, c_indications := True\<rparr>)"

text \<open>
  Releasing the last reference of a device ends its signal handlers. \<^verbatim>\<open>mbim_device_error_cb\<close> closes by
  force and releases it. \<^verbatim>\<open>mbim_device_removed_cb\<close> disconnects its own handler and the one for errors
  (\<open>c_handlers\<close>), but not the one for indications (\<open>c_indications\<close>), and the close it starts keeps
  the device for some time: an indication may still come after the removal.
\<close>

definition mbim_device_error_cb :: "bool \<Rightarrow> core \<Rightarrow> core" where
  "mbim_device_error_cb not_opened st =
     (if not_opened
      then spawn_mbim_thread (st\<lparr>g_cancellable := False, g_core_device := False, c_handlers := False, c_indications := False\<rparr>)
      else st)"

definition mbim_device_removed_cb :: "core \<Rightarrow> core" where
  "mbim_device_removed_cb st =
     spawn_mbim_thread ((emit (SubscriberReadyStateChange PWL_SIM_STATE_NOT_INSERTED) (st\<lparr>c_handlers := False\<rparr>))
       \<lparr>g_core_device := False, g_cancellable := False\<rparr>)"

text \<open>The events of the connection, each when it can happen.\<close>

inductive conn_step :: "core_env \<Rightarrow> core \<Rightarrow> core \<Rightarrow> bool" for env where
  attempt: "c_threads st > 0 \<Longrightarrow> mbim_device_thread env st = Inr st' \<Longrightarrow> conn_step env st st'"
| created: "c_new_pending st > 0 \<Longrightarrow> conn_step env st (device_new_cb ok st)"
| opened: "c_open_pending st > 0 \<Longrightarrow> conn_step env st (core_device_open_cb ok st)"
| failed: "c_handlers st \<Longrightarrow> conn_step env st (mbim_device_error_cb not_opened st)"
| removed: "c_handlers st \<Longrightarrow> conn_step env st (mbim_device_removed_cb st)"
| indicated: "c_indications st \<Longrightarrow> conn_step env st (mbim_indication_cb i st)"

inductive conn_run :: "core_env \<Rightarrow> core \<Rightarrow> core \<Rightarrow> bool" for env where
  stop: "conn_run env st st"
| step: "conn_step env st st1 \<Longrightarrow> conn_run env st1 st2 \<Longrightarrow> conn_run env st st2"

section \<open>Start-up\<close>

text \<open>\<open>popen\<close> that fails leaves a null stream for \<^verbatim>\<open>fgets\<close>.\<close>

definition update_autosuspend_delay :: "core_env \<Rightarrow> core \<Rightarrow> core cres" where
  "update_autosuspend_delay env st =
     (case popen_r env (''lspci -D -n | grep '' @ hd pcieid_info) st of
        (None, st1) \<Rightarrow> Inl NullDeref
      | (Some out, st1) \<Rightarrow>
          (case fgets 200 out of
             None \<Rightarrow> Inr st1
           | Some rsp \<Rightarrow>
               (case strtok_all '' '' rsp of
                  [] \<Rightarrow> Inr st1
                | domain # _ \<Rightarrow>
                    cbind (strcpy_cap (length (AUTOSUSPEND_DELAY_NODE_PATH ''%s'') + 20) (AUTOSUSPEND_DELAY_NODE_PATH domain)) (\<lambda>node_path.
                      if ce_node_opens env (c_clock st1) node_path
                      then Inr ((tick st1)\<lparr>c_nodes := c_nodes st1 @ [(node_path, AUTOSUSPEND_DELAY_VALUE)]\<rparr>)
                      else Inr (tick st1)))))"

definition load_fw_update_status :: "cjunk \<Rightarrow> core \<Rightarrow> core cres" where
  "load_fw_update_status j st =
     (let (rc, w) = fw_update_status_init (c_fs st); st1 = st\<lparr>c_fs := w\<rparr>
      in if rc = 0
         then cbind (load_status j FW_UPDATE_RETRY_COUNT (\<lambda>n s. s\<lparr>g_fw_update_retry_count := n\<rparr>) st1) (\<lambda>st2.
              cbind (load_status j DO_HW_RESET_COUNT (\<lambda>n s. s\<lparr>g_do_hw_reset_count := n\<rparr>) st2) (\<lambda>st3.
                load_status j NEED_RETRY_FW_UPDATE (\<lambda>n s. s\<lparr>g_need_retry_fw_update := n\<rparr>) st3))
         else Inr st1)"

definition load_bootup_status :: "cjunk \<Rightarrow> core \<Rightarrow> core cres" where
  "load_bootup_status j st =
     cbind (read_config_from_file (cj_stack j) BOOTUP_CONFIG_FILE CONFIG_MAX_BOOTUP_FAILURE (c_fs st)) (\<lambda>(rc, v).
       let st1 = (if rc = 0 then (case v of None \<Rightarrow> st | Some n \<Rightarrow> st\<lparr>g_bootup_failure_limit := n\<rparr>)
                  else st\<lparr>g_bootup_failure_limit := MAX_BOOTUP_FAILURE\<rparr>);
           (rc2, w) = bootup_status_init (c_fs st1); st2 = st1\<lparr>c_fs := w\<rparr>
       in if rc2 = 0
          then cbind (get_bootup_status_value BOOTUP_FAILURE_COUNT w) (\<lambda>(_, c).
                 Inr (case c of None \<Rightarrow> st2 | Some n \<Rightarrow> st2\<lparr>g_bootup_failure_count := n\<rparr>))
          else Inr (st2\<lparr>g_bootup_failure_count := 0\<rparr>))"

text \<open>
  \<^verbatim>\<open>main\<close> up to the main loop, and the recovery monitor that a PCIe module starts; \<open>n\<close> bounds its
  rounds. The state is \<open>None\<close> when the bus name cannot be requested.
\<close>

definition core_main ::
  "nat \<Rightarrow> bool \<Rightarrow> (nat \<Rightarrow> shell \<times> string) \<Rightarrow> core_env \<Rightarrow> cjunk \<Rightarrow> core \<Rightarrow> core option cres" where
  "core_main n owns boot_env env j st =
     (let st0 = spawn_mbim_thread st
      in if \<not> owns then Inr None
         else cbind (load_fw_update_status j st0) (\<lambda>st1.
              cbind (pwl_get_device_type_await boot_env (c_dev st1)) (\<lambda>(ty, d).
              let st2 = st1\<lparr>c_dev := d\<rparr>
              in case ty of
                   PWL_DEVICE_TYPE_USB \<Rightarrow> cbind (gpio_init env j st2) (\<lambda>(_, st3). Inr (Some st3))
                 | PWL_DEVICE_TYPE_PCIE \<Rightarrow>
                     cbind (update_autosuspend_delay env st2) (\<lambda>st3.
                     cbind (load_bootup_status j st3) (\<lambda>st4. mbim_monitor_thread_func n env j st4))
                 | PWL_DEVICE_TYPE_UNKNOWN \<Rightarrow> Inr (Some st2))))"

section \<open>What the operations leave alone\<close>

text \<open>The part of the state that the recovery decisions depend on and that only the monitor changes.\<close>

definition frame :: "core \<Rightarrow> int \<times> int \<times> int \<times> fs \<times> core_signal list \<times> sent list \<times> bool \<times> string list" where
  "frame st = (g_rescan_failure_count st, g_bootup_failure_count st, g_bootup_failure_limit st, c_fs st,
     c_signals st, c_out st, gb_recoverying st, c_ran st)"

lemma frame_updates [frame_simps]:
  "frame (tick st) = frame st" "frame (st\<lparr>c_nodes := x\<rparr>) = frame st" "frame (st\<lparr>g_mode := i\<rparr>) = frame st"
  "frame (st\<lparr>g_device_cap_check_pass := b\<rparr>) = frame st" "frame (st\<lparr>g_pci_device := b\<rparr>) = frame st"
  "frame (st\<lparr>g_pci_cancellable := b\<rparr>) = frame st" "frame (st\<lparr>g_ready_cb := b\<rparr>) = frame st"
  "frame (st\<lparr>c_script := sc\<rparr>) = frame st" "frame (st\<lparr>c_caps_queries := k\<rparr>) = frame st"
  by (simp_all add: frame_def tick_def)

lemma get_full_path_frame: "frame (snd (snd (get_full_path env st))) = frame st"
  by (simp add: get_full_path_def do_shell_cmd_def popen_r_def Let_def frame_simps split: option.splits)

abbreviation keeps2 :: "core \<Rightarrow> ('a \<times> core) cres \<Rightarrow> bool" where
  "keeps2 st \<equiv> cpost (\<lambda>(_, s). frame s = frame st)"

abbreviation keeps3 :: "core \<Rightarrow> ('a \<times> 'b \<times> core) cres \<Rightarrow> bool" where
  "keeps3 st \<equiv> cpost (\<lambda>(_, _, s). frame s = frame st)"

lemma get_device_mode_frame: "frame st = frame st0 \<Longrightarrow> keeps3 st0 (get_device_mode env j path st)"
  by (auto simp: get_device_mode_def Let_def frame_simps intro!: cpost_cbind_any split: option.splits)

lemma set_device_mode_frame: "frame st = frame st0 \<Longrightarrow> keeps2 st0 (set_device_mode env path node v st)"
  by (auto simp: set_device_mode_def frame_simps intro!: cpost_cbind_any)

lemma pci_remove_rescan_frame: "frame st = frame st0 \<Longrightarrow> keeps2 st0 (pci_remove_rescan env j path st)"
  unfolding pci_remove_rescan_def
  by (auto intro!: cpost_cbindI [OF set_device_mode_frame] cpost_cbindI [OF get_device_mode_frame])

lemma do_pci_hw_reset_frame:
  assumes "frame st = frame st0"
  shows "keeps2 st0 (do_pci_hw_reset env j m st)"
proof -
  obtain rc p st1 where p: "get_full_path env st = (rc, p, st1)" by (metis prod_cases3)
  then have "frame st1 = frame st0" using get_full_path_frame [of env st] assms by simp
  then show ?thesis
    unfolding do_pci_hw_reset_def p Let_def prod.case
    by (auto intro!: cpost_cbind_any [of "get_device_node_path _"] cpost_cbindI [OF set_device_mode_frame]
        cpost_cbindI [OF get_device_mode_frame] pci_remove_rescan_frame)
qed

lemma find_port_frame: "keeps3 st (find_port env cmd b n st)"
  by (auto simp: find_port_def popen_r_def Let_def frame_simps intro!: cpost_cbind_any split: option.splits)

lemma fold_events_frame: "frame (fold pci_event_step evs st) = frame st"
proof (induction evs arbitrary: st)
  case (Cons e evs)
  then show ?case
    by (cases e) (simp_all add: pci_device_new_cb_def pci_device_open_cb_def pci_mbim_device_ready_cb_def
        device_caps_cb_def Let_def frame_simps split: option.splits)
qed simp

lemma c_wait_frame: "frame (snd (c_wait st)) = frame st"
  by (simp add: c_wait_def fold_events_frame frame_simps split: list.splits prod.splits)

lemma deinit_frame: "frame (pci_mbim_device_deinit st) = frame st"
  by (simp add: pci_mbim_device_deinit_def pci_device_close_def Let_def case_prod_beta c_wait_frame frame_simps)

lemma check_module_frame: "keeps2 st (check_module_info_v2 env st)"
proof -
  have "keeps2 st (pci_mbim_device_init env (st\<lparr>g_mode := MODE_DEVICE_CAP, g_device_cap_check_pass := False\<rparr>))"
    unfolding pci_mbim_device_init_def find_mbim_port_def
    by (rule cpost_cbindI [OF find_port_frame]) (auto simp: frame_simps)
  then show ?thesis
    unfolding check_module_info_v2_def
    by (rule cpost_cbindI) (auto simp: Let_def deinit_frame c_wait_frame)
qed

section \<open>The monitor ends\<close>

text \<open>What a round may add to the signals.\<close>

abbreviation flz_signals :: "core_signal list" where
  "flz_signals \<equiv> [GetFwVersion, NoticeModuleRecoveryFinish PCIE_UPDATE_BASE_FLZ]"

definition recovery_signals :: "core_signal list list" where
  "recovery_signals = [[], flz_signals,
     [GetFwVersion, NoticeModuleRecoveryFinish PCIE_UPDATE_BASE_FLASH_FOLDER]]"

abbreviation rescans :: "core \<Rightarrow> int" where
  "rescans \<equiv> g_rescan_failure_count"

lemma set_bootup_count_post:
  "cpost (\<lambda>s. rescans s = rescans st \<and> c_signals s = c_signals st \<and> g_bootup_failure_limit s = g_bootup_failure_limit st
     \<and> g_bootup_failure_count s = n) (set_bootup_count n st)"
  by (auto simp: set_bootup_count_def intro!: cpost_cbind_any)

lemma monitor_check_post:
  "cpost (\<lambda>(passed, s). rescans s = rescans st
     \<and> c_signals s = c_signals st @ (if passed then flz_signals else [])) (monitor_check env st)"
  unfolding monitor_check_def find_mbim_port_def
  by (rule cpost_cbindI [OF find_port_frame],
      auto simp: frame_def emit_def recovery_signals_def intro!: cpost_cbindI [OF check_module_frame] cpost_cbindI [OF set_bootup_count_post])

lemma recovery_signals_mem: "[] \<in> set recovery_signals" "flz_signals \<in> set recovery_signals"
  by (simp_all add: recovery_signals_def)

lemma flash_recovery_rescans [simp]: "rescans (flash_recovery_check env st) = rescans st"
  by (simp add: flash_recovery_check_def emit_def)

lemma flash_recovery_signals:
  "c_signals st = c_signals st0 \<Longrightarrow> \<exists>x \<in> set recovery_signals. c_signals (flash_recovery_check env st) = c_signals st0 @ x"
  by (simp add: flash_recovery_check_def emit_def recovery_signals_def)

text \<open>Either the loop goes on, with one more rescan counted and nothing said, or it has ended.\<close>

definition round_post :: "core \<Rightarrow> bool \<times> core \<Rightarrow> bool" where
  "round_post st r \<longleftrightarrow> (case r of (again, s) \<Rightarrow>
     if again then rescans s = rescans st + 1 \<and> rescans s \<le> MAX_RESCAN_FAILURE \<and> c_signals s = c_signals st
     else rescans s \<le> rescans st + 1 \<and> (\<exists>x \<in> set recovery_signals. c_signals s = c_signals st @ x))"

lemma round_postI:
  "rescans s = rescans st + 1 \<Longrightarrow> rescans s \<le> MAX_RESCAN_FAILURE \<Longrightarrow> c_signals s = c_signals st \<Longrightarrow> round_post st (True, s)"
  "rescans s \<le> rescans st + 1 \<Longrightarrow> x \<in> set recovery_signals \<Longrightarrow> c_signals s = c_signals st @ x \<Longrightarrow> round_post st (False, s)"
  by (auto simp: round_post_def)

lemma round_post_quiet: "rescans s \<le> rescans st + 1 \<Longrightarrow> c_signals s = c_signals st \<Longrightarrow> round_post st (False, s)"
  by (rule round_postI(2) [of s st "[]"]) (simp_all add: recovery_signals_mem)

lemma round_post_flash:
  "rescans s \<le> rescans st + 1 \<Longrightarrow> c_signals s = c_signals st \<Longrightarrow> round_post st (False, flash_recovery_check env s)"
  using flash_recovery_signals [of s st env] by (auto simp: round_post_def)

lemma monitor_abnormal_post:
  assumes "rescans st1 = rescans st" "c_signals st1 = c_signals st"
  shows "cpost (round_post st) (monitor_abnormal env st1)"
  unfolding monitor_abnormal_def using assms
  by (intro cpost_cbindI [OF set_bootup_count_post] cpost_ifI) (simp_all add: round_post_flash round_post_quiet)

lemma monitor_rescan_post:
  assumes "rescans st1 = rescans st" "c_signals st1 = c_signals st"
  shows "cpost (round_post st) (monitor_rescan env j st1)"
  unfolding monitor_rescan_def Let_def using assms
  by (intro cpost_ifI cpost_cbindI [OF do_pci_hw_reset_frame [OF refl]])
    (auto simp: frame_def intro!: round_postI(1) round_post_flash)

lemma monitor_round_post: "cpost (round_post st) (monitor_round env j st)"
proof -
  have "cpost (round_post st) (cbind (find_abnormal_port env (zeroed 20) 20 st1) (\<lambda>(rc, _, st2).
      if rc = 0 then monitor_abnormal env st2 else monitor_rescan env j st2))"
    if "rescans st1 = rescans st" "c_signals st1 = c_signals st" for st1
    unfolding find_abnormal_port_def using that
    by (intro cpost_cbindI [OF find_port_frame]) (auto simp: frame_def intro!: monitor_abnormal_post monitor_rescan_post)
  then show ?thesis
    unfolding monitor_round_def
    by (intro cpost_cbindI [OF monitor_check_post]) (auto intro!: round_postI(2) [OF _ recovery_signals_mem(2)])
qed

lemma monitor_rounds_end:
  assumes "nat (MAX_RESCAN_FAILURE - rescans st) < n"
  shows "cpost (\<lambda>r. \<exists>s x. r = Some s \<and> x \<in> set recovery_signals \<and> c_signals s = c_signals st @ x
    \<and> rescans s \<le> max (rescans st) MAX_RESCAN_FAILURE + 1) (monitor_rounds n env j st)"
  using assms
proof (induction n arbitrary: st)
  case (Suc n)
  have "cpost (\<lambda>r. \<exists>s x. r = Some s \<and> x \<in> set recovery_signals \<and> c_signals s = c_signals st @ x
      \<and> rescans s \<le> max (rescans st) MAX_RESCAN_FAILURE + 1)
    (if again then monitor_rounds n env j s else Inr (Some s))" if "round_post st (again, s)" for again s
  proof (cases again)
    case True
    with that have s: "rescans s = rescans st + 1" "rescans s \<le> MAX_RESCAN_FAILURE" "c_signals s = c_signals st"
      by (simp_all add: round_post_def)
    then have "nat (MAX_RESCAN_FAILURE - rescans s) < n" using Suc.prems by simp
    from Suc.IH [OF this] True s show ?thesis by (auto elim!: cpost_weaken)
  qed (use that in \<open>auto simp: round_post_def\<close>)
  then show ?case by (auto intro!: cpost_cbindI [OF monitor_round_post])
qed simp

section \<open>The count of failed starts\<close>

definition no_mbim_port :: "core_env \<Rightarrow> bool" where
  "no_mbim_port env \<longleftrightarrow> (\<forall>t. ce_shell env t ''find /dev/ -name wwan0mbim*'' = Some [])"

definition abnormal_port :: "core_env \<Rightarrow> bool" where
  "abnormal_port env \<longleftrightarrow>
     (\<forall>t. ce_shell env t ''find /dev/ -name wwan0fastboot*'' = Some (''/dev/wwan0fastboot0'' @ [NL]))"

lemma find_no_port:
  "no_mbim_port env \<Longrightarrow> find_mbim_port env (zeroed 20) 20 st = Inr (-1, zeroed 20, tick st)"
  by (simp add: find_mbim_port_def find_port_def popen_r_def no_mbim_port_def fgets_def cut_at_def)

lemma find_fastboot_port:
  "abnormal_port env \<Longrightarrow> \<exists>pb. find_abnormal_port env (zeroed 20) 20 st = Inr (0, pb, tick st)"
proof -
  have "cut_at (case fgets 50 (''/dev/wwan0fastboot0'' @ [NL]) of None \<Rightarrow> [] | Some l \<Rightarrow> l) [NL] = ''/dev/wwan0fastboot0''"
    by code_simp
  then show "abnormal_port env \<Longrightarrow> ?thesis"
    by (simp add: find_abnormal_port_def find_port_def popen_r_def abnormal_port_def Let_def buf_strncpy_def)
qed

text \<open>One start of the service on a module in its abnormal state, from the state the last one left.\<close>

definition boot_once :: "nat \<Rightarrow> core_env \<Rightarrow> cjunk \<Rightarrow> core \<Rightarrow> core cres" where
  "boot_once n env j st =
     cbind (load_bootup_status j (st\<lparr>g_rescan_failure_count := 0\<rparr>)) (\<lambda>st1.
     cbind (mbim_monitor_thread_func n env j st1) (\<lambda>r. Inr (case r of None \<Rightarrow> st1 | Some s \<Rightarrow> s)))"

definition bootup_readable :: "core \<Rightarrow> bool" where
  "bootup_readable st \<longleftrightarrow> store_inv BOOTUP_STATUS_RECORD (c_fs st) \<and>
     (\<exists>c. store_abs BOOTUP_STATUS_RECORD (c_fs st) BOOTUP_FAILURE_COUNT = Some c \<and> 0 \<le> c \<and> c \<le> 999)"

definition bootup_count :: "core \<Rightarrow> int" where
  "bootup_count st =
     (if bootup_readable st then the (store_abs BOOTUP_STATUS_RECORD (c_fs st) BOOTUP_FAILURE_COUNT) else 1000)"

definition boot_good :: "nat \<Rightarrow> core_env \<Rightarrow> core \<Rightarrow> bool" where
  "boot_good n env st \<longleftrightarrow> 0 < n \<and> no_mbim_port env \<and> abnormal_port env \<and> files (c_fs st) BOOTUP_CONFIG_FILE = None
     \<and> (bootup_readable st \<or> \<not> bootup_readable st \<and> (\<exists>e. get_bootup_status_value BOOTUP_FAILURE_COUNT (c_fs st) = Inl e))"

definition flash_notices :: "core \<Rightarrow> nat" where
  "flash_notices st = count_list (c_signals st) (NoticeModuleRecoveryFinish PCIE_UPDATE_BASE_FLASH_FOLDER)"

lemma load_bootup_existing:
  assumes "files (c_fs st) BOOTUP_CONFIG_FILE = None" "fopen_r (c_fs st) BOOTUP_STATUS_RECORD \<noteq> None"
  shows "load_bootup_status j st = cbind (get_bootup_status_value BOOTUP_FAILURE_COUNT (c_fs st)) (\<lambda>(_, c).
     Inr (case c of None \<Rightarrow> st\<lparr>g_bootup_failure_limit := MAX_BOOTUP_FAILURE\<rparr>
          | Some n \<Rightarrow> st\<lparr>g_bootup_failure_limit := MAX_BOOTUP_FAILURE, g_bootup_failure_count := n\<rparr>))"
proof -
  have init: "bootup_status_init (c_fs st) = (0, c_fs st)"
    using assms(2) by (auto simp: bootup_status_init_def record_init_def access_ok_def fopen_r_def split: if_splits)
  have same: "st\<lparr>g_bootup_failure_limit := MAX_BOOTUP_FAILURE, c_fs := c_fs st\<rparr> = st\<lparr>g_bootup_failure_limit := MAX_BOOTUP_FAILURE\<rparr>"
    by simp
  have "read_config_from_file (cj_stack j) BOOTUP_CONFIG_FILE CONFIG_MAX_BOOTUP_FAILURE (c_fs st) = Inr (-1, None)"
    using assms(1) by (simp add: read_config_from_file_def get_record_value_def fopen_r_def)
  with init same show ?thesis
    by (cases "get_bootup_status_value BOOTUP_FAILURE_COUNT (c_fs st)")
      (simp_all add: load_bootup_status_def Let_def split: prod.splits option.splits)
qed

lemma load_bootup_readable:
  assumes "files (c_fs st) BOOTUP_CONFIG_FILE = None" "bootup_readable st"
  shows "load_bootup_status j st = Inr (st\<lparr>g_bootup_failure_limit := MAX_BOOTUP_FAILURE, g_bootup_failure_count := bootup_count st\<rparr>)"
proof -
  obtain c where c: "store_abs BOOTUP_STATUS_RECORD (c_fs st) BOOTUP_FAILURE_COUNT = Some c"
    and inv: "store_inv BOOTUP_STATUS_RECORD (c_fs st)"
    using assms(2) by (auto simp: bootup_readable_def)
  then have "fopen_r (c_fs st) BOOTUP_STATUS_RECORD \<noteq> None"
    by (auto simp: store_inv_def fopen_r_def split: option.splits)
  with c assms show ?thesis
    by (simp add: load_bootup_existing bootup_status.get_abs [OF inv c stack_ok_zeroed] bootup_count_def)
qed

lemma load_bootup_unreadable:
  assumes "files (c_fs st) BOOTUP_CONFIG_FILE = None" "get_bootup_status_value BOOTUP_FAILURE_COUNT (c_fs st) = Inl e"
  shows "load_bootup_status j st = Inl e"
proof -
  have "fopen_r (c_fs st) BOOTUP_STATUS_RECORD \<noteq> None"
    using assms(2) by (auto simp: get_bootup_status_value_def get_record_value_def split: option.splits)
  with assms show ?thesis by (simp add: load_bootup_existing)
qed

text \<open>A monitor run on a module in its abnormal state is one count and at most one notice.\<close>

lemma monitor_abnormal_module:
  assumes "0 < n" "no_mbim_port env" "abnormal_port env"
  shows "mbim_monitor_thread_func n env j st =
    cbind (monitor_abnormal env (tick (tick (st\<lparr>gb_recoverying := True\<rparr>)))) (\<lambda>(_, s). Inr (Some (s\<lparr>gb_recoverying := False\<rparr>)))"
proof -
  obtain k where k: "n = Suc k" using assms(1) gr0_implies_Suc by blast
  have once: "cpost (\<lambda>(again, _). \<not> again) (monitor_abnormal env s)" for s
    by (auto simp: monitor_abnormal_def intro!: cpost_cbind_any)
  let ?s = "tick (tick (st\<lparr>gb_recoverying := True\<rparr>))"
  obtain pb where "find_abnormal_port env (zeroed 20) 20 (tick (st\<lparr>gb_recoverying := True\<rparr>)) = Inr (0, pb, ?s)"
    using find_fastboot_port [OF assms(3)] by blast
  then have "mbim_monitor_thread_func n env j st =
    cbind (cbind (monitor_abnormal env ?s) (\<lambda>(again, s1). if again then monitor_rounds k env j s1 else Inr (Some s1)))
      (\<lambda>r. Inr (map_option (\<lambda>st1. st1\<lparr>gb_recoverying := False\<rparr>) r))"
    by (simp add: k mbim_monitor_thread_func_def monitor_round_def monitor_check_def find_no_port [OF assms(2)])
  with once [of ?s] show ?thesis by (cases "monitor_abnormal env ?s") auto
qed

lemma set_bootup_only:
  "set_bootup_status_value k v w = Inr (0, w') \<Longrightarrow> store_inv BOOTUP_STATUS_RECORD w \<Longrightarrow> p \<noteq> BOOTUP_STATUS_RECORD
   \<Longrightarrow> files w' p = files w p"
  by (auto simp: set_bootup_status_value_def set_record_value_def write_file_def Let_def split: option.splits if_splits)

text \<open>Writing the next count: up to 999 it can be read back, from 1000 on reading it fails.\<close>

lemma set_next_count:
  assumes "bootup_readable st"
  shows "\<exists>w. set_bootup_status_value BOOTUP_FAILURE_COUNT (bootup_count st + 1) (c_fs st) = Inr (0, w)
    \<and> (\<forall>s. c_fs s = w \<longrightarrow> bootup_count s = bootup_count st + 1 \<and>
          (bootup_readable s \<or> \<not> bootup_readable s \<and> (\<exists>e. get_bootup_status_value BOOTUP_FAILURE_COUNT w = Inl e)))"
proof -
  let ?R = BOOTUP_STATUS_RECORD and ?K = BOOTUP_FAILURE_COUNT
  obtain c where c: "store_abs ?R (c_fs st) ?K = Some c" "0 \<le> c" "c \<le> 999" and inv: "store_inv ?R (c_fs st)"
    using assms by (auto simp: bootup_readable_def)
  have count: "bootup_count st = c" using assms c by (simp add: bootup_count_def)
  have dom: "?K \<in> dom (store_abs ?R (c_fs st))" using c by blast
  show ?thesis
  proof (cases "c < 999")
    case True
    then have "val_ok (c + 1)" using c by (simp add: val_ok_def)
    then obtain w where w: "set_bootup_status_value ?K (c + 1) (c_fs st) = Inr (0, w)" "store_inv ?R w"
      "store_abs ?R w ?K = Some (c + 1)"
      using bootup_status.set_abs [OF inv dom] by fastforce
    then have "bootup_readable s \<and> bootup_count s = c + 1" if "c_fs s = w" for s
      using True c(2) that by (simp add: bootup_count_def bootup_readable_def)
    with w count show ?thesis by auto
  next
    case False
    then have "int32 (c + 1)" "\<not> val_ok (c + 1)" "c = 999" using c by (simp_all add: int32_def val_ok_def)
    from get_record_value_wide [OF inv dom this(1,2), of "zeroed 5"] obtain w e where
      w: "set_bootup_status_value ?K (c + 1) (c_fs st) = Inr (0, w)" "get_bootup_status_value ?K w = Inl e"
      by (auto simp: set_bootup_status_value_def get_bootup_status_value_def)
    have "\<not> bootup_readable s" if "c_fs s = w" for s
      using w(2) that bootup_status.get_abs [OF _ _ stack_ok_zeroed] by (fastforce simp: bootup_readable_def)
    with w \<open>c = 999\<close> count show ?thesis by (auto simp: bootup_count_def)
  qed
qed

lemma boot_once_limited:
  assumes "boot_good n env st"
  shows "cpost (\<lambda>s. boot_good n env s \<and> bootup_count st \<le> bootup_count s
    \<and> (flash_notices s = flash_notices st
       \<or> flash_notices s = Suc (flash_notices st) \<and> bootup_count st < MAX_BOOTUP_FAILURE \<and> bootup_count st < bootup_count s))
    (boot_once n env j st)"
proof (cases "bootup_readable st")
  case True
  obtain w where w: "set_bootup_status_value BOOTUP_FAILURE_COUNT (bootup_count st + 1) (c_fs st) = Inr (0, w)"
    and next_count: "\<And>s. c_fs s = w \<Longrightarrow> bootup_count s = bootup_count st + 1 \<and>
      (bootup_readable s \<or> \<not> bootup_readable s \<and> (\<exists>e. get_bootup_status_value BOOTUP_FAILURE_COUNT w = Inl e))"
    using set_next_count [OF True] by blast
  have other: "files w BOOTUP_CONFIG_FILE = None"
    using set_bootup_only [OF w, of BOOTUP_CONFIG_FILE] True assms
    by (simp add: bootup_readable_def boot_good_def BOOTUP_CONFIG_FILE_def BOOTUP_STATUS_RECORD_def)
  have view: "bootup_readable (st\<lparr>g_rescan_failure_count := 0\<rparr>)" "bootup_count (st\<lparr>g_rescan_failure_count := 0\<rparr>) = bootup_count st"
    using True by (simp_all add: bootup_readable_def bootup_count_def)
  let ?st1 = "st\<lparr>g_rescan_failure_count := 0, g_bootup_failure_limit := MAX_BOOTUP_FAILURE, g_bootup_failure_count := bootup_count st\<rparr>"
  have run: "boot_once n env j st = cbind (monitor_abnormal env (tick (tick (?st1\<lparr>gb_recoverying := True\<rparr>)))) (\<lambda>(_, s). Inr (s\<lparr>gb_recoverying := False\<rparr>))"
    using assms view
    by (simp add: boot_once_def boot_good_def load_bootup_readable monitor_abnormal_module cbind_assoc case_prod_beta')
  have "cpost (\<lambda>s. c_fs s = w \<and> (flash_notices s = flash_notices st \<or> flash_notices s = Suc (flash_notices st) \<and> bootup_count st < MAX_BOOTUP_FAILURE))
    (boot_once n env j st)"
    unfolding run monitor_abnormal_def set_bootup_count_def
    by (simp add: tick_def w flash_recovery_check_def emit_def flash_notices_def PCIE_UPDATE_BASE_FLASH_FOLDER_def)
  then show ?thesis
    using next_count assms other by (elim cpost_weaken) (fastforce simp: boot_good_def)
next
  case False
  with assms show ?thesis by (auto simp: boot_good_def boot_once_def load_bootup_unreadable)
qed

interpretation boots: limited_action "boot_once n env j" "boot_good n env" bootup_count flash_notices MAX_BOOTUP_FAILURE
  for n env j
  by unfold_locales (rule boot_once_limited)

section \<open>The reset pulse\<close>

definition gpio_value_cmd :: "int \<Rightarrow> int \<Rightarrow> string" where
  "gpio_value_cmd enable gpio = ''echo '' @ show_int enable @ '' > /sys/class/gpio/gpio'' @ show_int gpio @ ''/value''"

definition restart_message :: "cjunk \<Rightarrow> sent" where
  "restart_message j = (CID_DESTINATION (cid_num PWL_CID_MADPT_RESTART), \<lparr>sender_id = PWL_MQ_ID_CORE,
     pwl_cid = cid_num PWL_CID_MADPT_RESTART, status = PWL_CID_STATUS_NONE, response = cj_response j, content = cj_content j\<rparr>)"

lemma popen_w_frame:
  "c_fs (snd (popen_w env cmd st)) = c_fs st" "c_out (snd (popen_w env cmd st)) = c_out st"
  "c_ran (snd (popen_w env cmd st)) = c_ran st @ (if fst (popen_w env cmd st) then [cmd] else [])"
  by (auto simp: popen_w_def tick_def split: option.splits)

lemma set_gpio_status_post:
  "e \<in> {0, 1} \<Longrightarrow> cpost (\<lambda>(rc, s). c_fs s = c_fs st \<and> c_out s = c_out st \<and>
     c_ran s = c_ran st @ (if rc = 0 then [gpio_value_cmd e g] else [])) (set_gpio_status env e g st)"
  by (auto simp: set_gpio_status_def Let_def case_prod_beta popen_w_frame gpio_value_cmd_def strcpy_cap_def)

lemma find_gpio_in: "find_gpio sku = Some g \<Longrightarrow> g \<in> snd ` set g_skuid_to_gpio"
  by (auto simp: find_gpio_def find_Some_iff) (metis image_eqI nth_mem snd_conv)

text \<open>A reset that reports success has pulled one line of the table down and up again, in this order,
  and then sent the restart message; any other outcome has sent nothing.\<close>

definition reset_post :: "cjunk \<Rightarrow> core \<Rightarrow> int \<times> core \<Rightarrow> bool" where
  "reset_post j st r \<longleftrightarrow> (case r of (rc, s) \<Rightarrow> c_fs s = c_fs st \<and>
     (if rc = 1 then (\<exists>g. g \<noteq> -1 \<and> g \<in> snd ` set g_skuid_to_gpio
          \<and> c_ran s = c_ran st @ [gpio_value_cmd 0 g, gpio_value_cmd 1 g]) \<and> c_out s = c_out st @ [restart_message j]
      else c_out s = c_out st))"

lemma show_failed_post: "c_fs (snd (show_gpio_reset_failed env st)) = c_fs st" "c_out (snd (show_gpio_reset_failed env st)) = c_out st"
  by (simp_all add: show_gpio_reset_failed_def popen_r_def tick_def Let_def)

lemma reset_post_quiet: "c_fs s = c_fs st \<Longrightarrow> c_out s = c_out st \<Longrightarrow> reset_post j st (-1, s)"
  by (simp add: reset_post_def)

lemma reset_post_done:
  "c_fs s = c_fs st \<Longrightarrow> c_out s = c_out st \<Longrightarrow> g \<noteq> -1 \<Longrightarrow> g \<in> snd ` set g_skuid_to_gpio
   \<Longrightarrow> c_ran s = c_ran st @ [gpio_value_cmd 0 g, gpio_value_cmd 1 g]
   \<Longrightarrow> reset_post j st (1, c_send_message_queue j PWL_CID_MADPT_RESTART s)"
  by (simp add: reset_post_def c_send_message_queue_def restart_message_def) blast

lemma gpio_pulse_post:
  assumes "g \<noteq> -1" "g \<in> snd ` set g_skuid_to_gpio"
  shows "cpost (reset_post j st) (gpio_pulse env j g st)"
proof -
  have "cpost (reset_post j st) (cbind (set_gpio_status env 1 g st2) (\<lambda>(rc1, st3).
      if rc1 \<noteq> 0 then Inr (-1, st3) else Inr (1, c_send_message_queue j PWL_CID_MADPT_RESTART st3)))"
    if "c_fs st2 = c_fs st" "c_out st2 = c_out st" "c_ran st2 = c_ran st @ [gpio_value_cmd 0 g]" for st2
    using that
    by (intro cpost_cbindI [OF set_gpio_status_post]) (auto intro!: reset_post_quiet reset_post_done [OF _ _ assms])
  then show ?thesis
    unfolding gpio_pulse_def by (intro cpost_cbindI [OF set_gpio_status_post]) (auto intro!: reset_post_quiet)
qed

lemma reset_post_tick: "reset_post j (tick st) = reset_post j st"
  by (simp add: reset_post_def tick_def fun_eq_iff)

lemma tick_fields [simp]: "c_fs (tick st) = c_fs st" "c_out (tick st) = c_out st" "c_ran (tick st) = c_ran st"
  by (simp_all add: tick_def)

lemma hw_reset_post: "cpost (reset_post j st) (hw_reset env j st)"
proof -
  have "cpost (reset_post j st) (gpio_pulse env j g (tick st))" if "find_gpio sku = Some g" "g \<noteq> -1" for sku g
    using gpio_pulse_post [OF that(2) find_gpio_in [OF that(1)], of j "tick st" env] by (simp add: reset_post_tick)
  then show ?thesis
    unfolding hw_reset_def popen_r_def
    by (auto intro!: reset_post_quiet cpost_cbind_any simp: show_failed_post split: option.splits)
qed

section \<open>The count of resets\<close>

definition gpio_good :: "cjunk \<Rightarrow> core \<Rightarrow> bool" where
  "gpio_good j st \<longleftrightarrow> stack_ok (cj_stack j) \<and> store_inv FW_UPDATE_STATUS_RECORD (c_fs st) \<and>
     (\<exists>c. store_abs FW_UPDATE_STATUS_RECORD (c_fs st) DO_HW_RESET_COUNT = Some c \<and> 0 \<le> c)"

definition reset_count :: "core \<Rightarrow> int" where
  "reset_count st = the (store_abs FW_UPDATE_STATUS_RECORD (c_fs st) DO_HW_RESET_COUNT)"

definition resets_sent :: "core \<Rightarrow> nat" where
  "resets_sent st = length (c_out st)"

lemma gpio_reset_limited:
  assumes "gpio_good j st"
  shows "cpost (\<lambda>s. gpio_good j s \<and> reset_count st \<le> reset_count s
    \<and> (resets_sent s = resets_sent st
       \<or> resets_sent s = Suc (resets_sent st) \<and> reset_count st < HW_RESET_RETRY_TH + 1 \<and> reset_count st < reset_count s))
    (gpio_reset_method env j st)"
proof -
  let ?R = FW_UPDATE_STATUS_RECORD and ?K = DO_HW_RESET_COUNT
  obtain c where c: "store_abs ?R (c_fs st) ?K = Some c" "0 \<le> c" and inv: "store_inv ?R (c_fs st)" and stk: "stack_ok (cj_stack j)"
    using assms by (auto simp: gpio_good_def)
  have load: "load_status j ?K (\<lambda>n s. s\<lparr>g_do_hw_reset_count := n\<rparr>) st = Inr (st\<lparr>g_do_hw_reset_count := c\<rparr>)"
    by (simp add: load_status_def fw_status.get_abs [OF inv c(1) stk])
  show ?thesis
  proof (cases "c \<le> HW_RESET_RETRY_TH")
    case True
    then have "val_ok (c + 1)" using c(2) by (simp add: val_ok_def HW_RESET_RETRY_TH_def)
    then obtain w where w: "set_fw_update_status_value ?K (c + 1) (c_fs st) = Inr (0, w)" "store_inv ?R w"
      "store_abs ?R w ?K = Some (c + 1)"
      using fw_status.set_abs [OF inv, of ?K] c(1) by fastforce
    let ?st1 = "st\<lparr>g_do_hw_reset_count := c + 1, c_fs := w\<rparr>"
    have "gpio_reset_method env j st = cbind (hw_reset env j ?st1) (\<lambda>(_, s). Inr s)"
      using True by (simp add: gpio_reset_method_def load Let_def w(1))
    then show ?thesis
      using True c w stk
      by (auto intro!: cpost_cbindI [OF hw_reset_post] simp: reset_post_def gpio_good_def reset_count_def resets_sent_def split: if_splits)
  next
    case False
    then show ?thesis
      using assms c by (simp add: gpio_reset_method_def load gpio_good_def reset_count_def resets_sent_def)
  qed
qed

interpretation resets: limited_action "gpio_reset_method env j" "gpio_good j" reset_count resets_sent "HW_RESET_RETRY_TH + 1"
  for env j
  by unfold_locales (rule gpio_reset_limited)

section \<open>The connection is unique and recovers\<close>

inductive_cases conn_stepE: "conn_step env st st'"

text \<open>The activities that drive the connection: threads that look for the port, requests under way,
  and an open device with its handlers.\<close>

definition conn_tokens :: "core \<Rightarrow> nat" where
  "conn_tokens st = c_threads st + c_new_pending st + c_open_pending st + (if c_handlers st then 1 else 0)"

definition conn_inv :: "core \<Rightarrow> bool" where
  "conn_inv st \<longleftrightarrow> conn_tokens st = 1 \<and> (c_new_pending st > 0 \<longrightarrow> g_cancellable st)
     \<and> (c_open_pending st > 0 \<or> c_handlers st \<longrightarrow> g_core_device st \<and> g_cancellable st)"

lemmas conn_defs = conn_inv_def conn_tokens_def mbim_device_thread_def mbim_dbus_init_def device_new_cb_def
  core_device_open_cb_def mbim_device_error_cb_def mbim_device_removed_cb_def mbim_indication_cb_def
  subscriber_ready_status_update_def spawn_mbim_thread_def emit_def tick_def Let_def

lemma mbim_device_thread_result:
  assumes "mbim_device_thread env st = Inr st'"
  shows "(\<exists>d. st' = (tick st)\<lparr>c_dev := d\<rparr>) \<or> (\<exists>d. st' = (tick st)\<lparr>c_dev := d, g_cancellable := True,
    c_new_pending := Suc (c_new_pending st), c_threads := c_threads st - 1\<rparr>)"
proof -
  obtain ok pb d where "pwl_find_mbim_port (ce_shell env (c_clock st)) (ce_junk env (c_clock st)) (zeroed 20) 20 (c_dev st) = Inr (ok, pb, d)"
    using assms unfolding mbim_device_thread_def mbim_dbus_init_def
    by (cases "pwl_find_mbim_port (ce_shell env (c_clock st)) (ce_junk env (c_clock st)) (zeroed 20) 20 (c_dev st)") auto
  with assms show ?thesis
    by (cases ok) (simp_all add: mbim_device_thread_def mbim_dbus_init_def Let_def tick_def, blast+)
qed

lemma thread_inv:
  assumes "conn_inv st" "c_threads st > 0" "mbim_device_thread env st = Inr st'"
  shows "conn_inv st'"
  using mbim_device_thread_result [OF assms(3)] assms(1,2)
  by (auto simp: conn_inv_def conn_tokens_def tick_def split: if_splits)

lemma conn_step_inv: "conn_step env st st' \<Longrightarrow> conn_inv st \<Longrightarrow> conn_inv st'"
proof (erule conn_stepE)
  show "conn_inv st \<Longrightarrow> c_threads st > 0 \<Longrightarrow> mbim_device_thread env st = Inr st' \<Longrightarrow> conn_inv st'"
    by (rule thread_inv)
qed (auto simp: conn_defs split: if_splits option.splits mbim_indication.splits)

lemma conn_run_inv: "conn_run env st st' \<Longrightarrow> conn_inv st \<Longrightarrow> conn_inv st'"
  by (induction rule: conn_run.induct) (auto intro: conn_step_inv)

definition port_found :: "core_env \<Rightarrow> dev \<Rightarrow> bool" where
  "port_found env d \<longleftrightarrow> (\<forall>t. \<exists>pb. pwl_find_mbim_port (ce_shell env t) (ce_junk env t) (zeroed 20) 20 d = Inr (True, pb, d))"

lemma opened_run: "c_open_pending st > 0 \<Longrightarrow> \<exists>st'. conn_run env st st' \<and> c_handlers st'"
proof -
  assume "c_open_pending st > 0"
  then have "conn_step env st (core_device_open_cb True st)" by (rule conn_step.opened)
  moreover have "c_handlers (core_device_open_cb True st)" by (simp add: core_device_open_cb_def Let_def)
  ultimately show ?thesis by (meson conn_run.stop conn_run.step)
qed

lemma created_run:
  assumes "c_new_pending st > 0"
  shows "\<exists>st'. conn_run env st st' \<and> c_handlers st'"
proof -
  have "c_open_pending (device_new_cb True st) > 0" by (simp add: device_new_cb_def Let_def)
  from opened_run [OF this] show ?thesis using conn_step.created [OF assms] by (metis conn_run.step)
qed

lemma attempt_run:
  assumes "c_threads st > 0" "port_found env (c_dev st)"
  shows "\<exists>st'. conn_run env st st' \<and> c_handlers st'"
proof -
  obtain st1 where st1: "mbim_device_thread env st = Inr st1" "c_new_pending st1 > 0"
    using assms(2) unfolding port_found_def by (fastforce simp: mbim_device_thread_def mbim_dbus_init_def Let_def dest: spec [of _ "c_clock st"])
  from created_run [OF st1(2)] show ?thesis using conn_step.attempt [OF assms(1) st1(1)] by (metis conn_run.step)
qed

lemma conn_recovers:
  assumes "conn_inv st" "port_found env (c_dev st)"
  shows "\<exists>st'. conn_run env st st' \<and> c_handlers st'"
proof -
  have "conn_tokens st = 1" using assms(1) by (simp add: conn_inv_def)
  then have "c_threads st \<noteq> 0 \<or> c_new_pending st \<noteq> 0 \<or> c_open_pending st \<noteq> 0 \<or> c_handlers st"
    by (auto simp: conn_tokens_def)
  then show ?thesis
    using attempt_run [OF _ assms(2)] created_run [of st env] opened_run [of st env] conn_run.stop [of env st] by auto
qed

section \<open>Device nodes\<close>

definition slashed :: "string list \<Rightarrow> string" where
  "slashed cs = concat (map (\<lambda>c. ''/'' @ c) cs)"

definition comp_ok :: "string \<Rightarrow> bool" where
  "comp_ok c \<longleftrightarrow> c \<noteq> [] \<and> CHR ''/'' \<notin> set c \<and> strstr c DEVICE_MODE_NAME = None"

lemma strtok_slashed:
  assumes "\<forall>c \<in> set cs. comp_ok c" "l \<noteq> []" "CHR ''/'' \<notin> set l"
  shows "strtok_all ''/'' (slashed cs @ ''/'' @ l) = cs @ [l]"
  using assms(1)
proof (induction cs)
  case Nil
  show ?case using assms(2,3) strtok_all_last [of l "''/''"] by (auto simp: slashed_def strtok_all_delim)
next
  case (Cons c cs)
  obtain r where r: "slashed cs @ ''/'' @ l = CHR ''/'' # r" by (cases cs) (auto simp: slashed_def)
  have c: "c \<noteq> []" "CHR ''/'' \<notin> set c" using Cons.prems by (simp_all add: comp_ok_def)
  have "strtok_all ''/'' (c @ CHR ''/'' # r) = c # strtok_all ''/'' r" using c by (intro strtok_all_Cons) auto
  moreover have "strtok_all ''/'' r = cs @ [l]" using Cons r by (simp add: strtok_all_delim)
  ultimately show ?case using r by (simp add: slashed_def strtok_all_delim)
qed

lemma join_nodes_slashed:
  assumes "\<forall>c \<in> set cs. comp_ok c" "strstr l DEVICE_MODE_NAME \<noteq> None" "length acc + length (slashed cs) + 1 < SHELL_CMD_RSP_LENGTH"
  shows "join_nodes (cs @ [l]) acc = Inr (acc @ slashed cs @ ''/'')"
  using assms
proof (induction cs arbitrary: acc)
  case (Cons c cs)
  then have "join_nodes (cs @ [l]) (acc @ ''/'' @ c) = Inr ((acc @ ''/'' @ c) @ slashed cs @ ''/'')"
    by (intro Cons.IH) (auto simp: slashed_def)
  with Cons.prems show ?case by (simp add: comp_ok_def slashed_def strcpy_cap_def)
qed (simp add: slashed_def strcpy_cap_def)

section \<open>Properties\<close>

definition core_start :: "(pci_event list \<times> bool) list \<Rightarrow> fs \<Rightarrow> core" where
  "core_start script w = \<lparr>gb_recoverying = False, g_fw_update_retry_count = 0, g_do_hw_reset_count = 0,
     g_need_retry_fw_update = 0, g_mode = 0, g_rescan_failure_count = 0, g_device_cap_check_pass = False,
     g_bootup_failure_count = 0, g_bootup_failure_limit = 0, g_pci_device = False, g_pci_cancellable = False,
     g_ready_cb = False, g_core_device = False, g_cancellable = False, c_threads = 0, c_new_pending = 0,
     c_open_pending = 0, c_handlers = False, c_indications = False, c_dev = usb_module_dev, c_fs = w, c_clock = 0, c_ran = [], c_nodes = [],
     c_out = [], c_signals = [], c_caps_queries = 0, c_script = script\<rparr>"

definition cjunk0 :: cjunk where
  "cjunk0 = \<lparr>cj_gpio = 0, cj_sku = zeroed 16, cj_mode = zeroed 16, cj_stack = zeroed 5, cj_response = [], cj_content = []\<rparr>"

definition env_of :: "shell \<Rightarrow> core_env" where
  "env_of sh = \<lparr>ce_shell = \<lambda>_. sh, ce_junk = \<lambda>_. [], ce_exists = \<lambda>_ _. True, ce_node = \<lambda>_ _. None,
     ce_node_opens = \<lambda>_ _. True, ce_system = \<lambda>_ _. 0\<rparr>"

text \<open>C11: the recovery monitor always ends: whatever the host, the ports and the module do, after at most
  four rounds (three rescans) the loop has been left, the flag that blocks update checks is cleared
  again, and at most one recovery was announced, together with the request to read the versions. The
  only other outcome is a departure from defined behaviour, which the result \<open>Inl\<close> shows.\<close>

theorem mbim_monitor_terminates:
  assumes "g_rescan_failure_count st = 0" "4 \<le> n"
  shows "(\<exists>e. mbim_monitor_thread_func n env j st = Inl e)
    \<or> (\<exists>s x. mbim_monitor_thread_func n env j st = Inr (Some s) \<and> \<not> gb_recoverying s \<and> rescans s \<le> 4
         \<and> x \<in> set recovery_signals \<and> c_signals s = c_signals st @ x)"
proof -
  let ?st = "st\<lparr>gb_recoverying := True\<rparr>"
  have "nat (MAX_RESCAN_FAILURE - rescans ?st) < n" using assms by (simp add: MAX_RESCAN_FAILURE_def)
  from monitor_rounds_end [OF this, of env j] show ?thesis
    using assms(1) by (cases "monitor_rounds n env j ?st") (auto simp: mbim_monitor_thread_func_def MAX_RESCAN_FAILURE_def)
qed

definition silent_shell :: shell where
  "silent_shell cmd = Some []"

lemma example_monitor:
  "\<exists>s. mbim_monitor_thread_func 4 (env_of silent_shell) cjunk0 (core_start [] fs0) = Inr (Some s) \<and> rescans s = 4"
  by (simp add: mbim_monitor_thread_func_def numeral_eq_Suc monitor_round_def monitor_check_def find_mbim_port_def
      find_abnormal_port_def find_port_def popen_r_def env_of_def silent_shell_def fgets_def cut_at_def monitor_rescan_def
      MAX_RESCAN_FAILURE_def do_pci_hw_reset_def get_full_path_def do_shell_cmd_def Let_def tick_def core_start_def
      flash_recovery_check_def emit_def)

theorem mbim_monitor_terminates_witness:
  "\<exists>s x. mbim_monitor_thread_func 4 (env_of silent_shell) cjunk0 (core_start [] fs0) = Inr (Some s)
     \<and> rescans s = 4 \<and> x \<in> set recovery_signals \<and> c_signals s = x"
  using mbim_monitor_terminates [of "core_start [] fs0" 4 "env_of silent_shell" cjunk0] example_monitor
  by (auto simp: core_start_def)

text \<open>C37: a module that stays in its abnormal state does not send the host into a loop of recoveries:
  over any number of starts with the default limit, the recovery from the flash folder is announced
  at most once more than before, and not at all when a failed start is already on record.\<close>

theorem flash_recovery_bounded:
  assumes "boot_good k env st"
  shows "cpost (\<lambda>s. flash_notices s \<le> flash_notices st + nat (1 - bootup_count st))
    (citer n (boot_once k env j) st)"
  by (rule cpost_weaken [OF boots.citer_bounded [OF assms]]) (auto simp: MAX_BOOTUP_FAILURE_def)

definition fastboot_shell :: shell where
  "fastboot_shell cmd = (if cmd = ''find /dev/ -name wwan0fastboot*'' then Some (''/dev/wwan0fastboot0'' @ [NL]) else Some [])"

definition bootup_fresh :: fs where
  "bootup_fresh = write_file BOOTUP_STATUS_RECORD (render bootup_init_kvs) fs0"

lemma bootup_fresh_readable:
  "bootup_readable (core_start [] bootup_fresh)" "bootup_count (core_start [] bootup_fresh) = 0"
proof -
  have "store_abs BOOTUP_STATUS_RECORD bootup_fresh = map_of bootup_init_kvs"
    by (rule store_abs_map_of [OF _ bootup_init_ok]) (simp add: bootup_fresh_def write_file_def)
  moreover have "store_inv BOOTUP_STATUS_RECORD bootup_fresh"
    by (simp add: store_inv_def bootup_fresh_def fs0_def write_file_def record_ok_parse bootup_init_ok)
  ultimately show "bootup_readable (core_start [] bootup_fresh)"
    by (simp add: bootup_readable_def core_start_def bootup_init_kvs_def)
  with \<open>store_abs _ _ = _\<close> show "bootup_count (core_start [] bootup_fresh) = 0"
    by (simp add: bootup_count_def core_start_def bootup_init_kvs_def)
qed

theorem flash_recovery_bounded_witness:
  "cpost (\<lambda>s. flash_notices s \<le> 1) (citer 7 (boot_once 4 (env_of fastboot_shell) cjunk0) (core_start [] bootup_fresh))"
proof -
  have "boot_good 4 (env_of fastboot_shell) (core_start [] bootup_fresh)"
    using bootup_fresh_readable(1)
    by (simp add: boot_good_def no_mbim_port_def abnormal_port_def env_of_def fastboot_shell_def core_start_def
        bootup_fresh_def write_file_def fs0_def BOOTUP_CONFIG_FILE_def BOOTUP_STATUS_RECORD_def)
  from flash_recovery_bounded [OF this, of 7 cjunk0] show ?thesis
    by (simp add: bootup_fresh_readable(2)) (simp add: flash_notices_def core_start_def)
qed

text \<open>The reset of the module through its GPIO line is limited: with a readable record, any number of
  calls of the D-Bus method sends at most as many restart messages as the recorded count leaves up to
  six, also across restarts of the service, because the count is kept in the record.\<close>

theorem gpio_resets_bounded:
  assumes "gpio_good j st"
  shows "cpost (\<lambda>s. gpio_good j s \<and> resets_sent s \<le> resets_sent st + nat (6 - reset_count st))
    (citer n (gpio_reset_method env j) st)"
  by (rule cpost_weaken [OF resets.citer_bounded [OF assms]]) (auto simp: HW_RESET_RETRY_TH_def)

theorem gpio_resets_bounded_witness:
  "cpost (\<lambda>s. gpio_good cjunk0 s \<and> resets_sent s \<le> 6)
     (citer 100 (gpio_reset_method (env_of silent_shell) cjunk0) (core_start [] fw_fresh))"
proof -
  have "gpio_good cjunk0 (core_start [] fw_fresh)"
    by (simp add: gpio_good_def cjunk0_def stack_ok_zeroed core_start_def fw_fresh_inv fw_fresh_abs fw_init_kvs_def key_defs)
  moreover have "reset_count (core_start [] fw_fresh) = 0"
    by (simp add: reset_count_def core_start_def fw_fresh_abs fw_init_kvs_def key_defs)
  ultimately show ?thesis
    using gpio_resets_bounded [of cjunk0 "core_start [] fw_fresh" 100 "env_of silent_shell"]
    by (simp add: resets_sent_def core_start_def)
qed

text \<open>A reset that reports success has pulled one GPIO line of the table down and then up again, with
  no other command between, and has then sent exactly one restart message; every other outcome
  sends none. No reset changes a file.\<close>

theorem hw_reset_sequence:
  assumes "hw_reset env j st = Inr (rc, s)"
  shows "c_fs s = c_fs st \<and>
    (if rc = 1
     then (\<exists>g. g \<noteq> -1 \<and> g \<in> snd ` set g_skuid_to_gpio
            \<and> c_ran s = c_ran st @ [gpio_value_cmd 0 g, gpio_value_cmd 1 g]) \<and> c_out s = c_out st @ [restart_message j]
     else c_out s = c_out st)"
  using cpostD [OF hw_reset_post assms] by (simp add: reset_post_def)

definition sku_shell :: shell where
  "sku_shell cmd = (if cmd = SKU_CMD then Some (''0CBD'' @ [NL]) else Some [])"

lemma example_reset: "\<exists>s. hw_reset (env_of sku_shell) cjunk0 (core_start [] fs0) = Inr (1, s)"
proof -
  have "read_sku_id cjunk0 (''0CBD'' @ [NL]) = Inr ''0CBD''" "find_gpio ''0CBD'' = Some 883"
    "show_int 0 = ''0''" "show_int 1 = ''1''" "show_int 883 = ''883''" by code_simp+
  then show ?thesis
    by (simp add: hw_reset_def core_access_def env_of_def popen_r_def sku_shell_def gpio_pulse_def set_gpio_status_def
        strcpy_cap_def popen_w_def Let_def)
qed

theorem hw_reset_sequence_witness:
  "\<exists>s. hw_reset (env_of sku_shell) cjunk0 (core_start [] fs0) = Inr (1, s) \<and> c_out s = [restart_message cjunk0]"
proof -
  obtain s where s: "hw_reset (env_of sku_shell) cjunk0 (core_start [] fs0) = Inr (1, s)" using example_reset by blast
  from hw_reset_sequence [OF s] s show ?thesis by (auto simp: core_start_def)
qed

text \<open>C38: the service never has two connections to the module under way: from the start on, in every state
  that the events of the library and of the threads can lead to, exactly one of the following
  exists: a thread that looks for the port, a request for a device, a request to open it, an open
  device with its handlers; and a device that is being opened or open is remembered.\<close>

theorem connection_unique:
  assumes "conn_run env (core_start sc w\<lparr>c_threads := 1\<rparr>) st"
  shows "c_threads st + c_new_pending st + c_open_pending st + (if c_handlers st then 1 else 0) = 1
    \<and> (c_open_pending st > 0 \<or> c_handlers st \<longrightarrow> g_core_device st \<and> g_cancellable st)"
proof -
  have "conn_inv (core_start sc w\<lparr>c_threads := 1\<rparr>)" by (simp add: conn_inv_def conn_tokens_def core_start_def)
  from conn_run_inv [OF assms this] show ?thesis by (simp add: conn_inv_def conn_tokens_def)
qed

theorem connection_unique_witness:
  "c_threads (core_start [] fs0\<lparr>c_threads := 1\<rparr>) + c_new_pending (core_start [] fs0\<lparr>c_threads := 1\<rparr>) = 1"
  using connection_unique [OF conn_run.stop, of "[]" fs0] by (simp add: core_start_def)

text \<open>C39: the connection recovers: from every state that can be reached, as long as the port of the module
  can be found, some continuation opens the device again, whatever failed before.\<close>

theorem connection_recovers:
  assumes "conn_run env (core_start sc w\<lparr>c_threads := 1\<rparr>) st" "port_found env (c_dev st)"
  shows "\<exists>st'. conn_run env st st' \<and> c_handlers st'"
proof -
  have "conn_inv (core_start sc w\<lparr>c_threads := 1\<rparr>)" by (simp add: conn_inv_def conn_tokens_def core_start_def)
  from conn_run_inv [OF assms(1) this] assms(2) show ?thesis by (rule conn_recovers)
qed

lemma usb_port_found: "port_found (env_of usb_shell) usb_module_dev"
proof -
  have "\<exists>pb. pwl_find_mbim_port usb_shell [] (zeroed 20) 20 usb_module_dev = Inr (True, pb, usb_module_dev)"
    by (rule exI [of _ "''/dev/cdc-wdm0'' @ replicate 7 NUL"]) code_simp
  then show ?thesis by (simp add: port_found_def env_of_def)
qed

theorem connection_recovers_witness:
  "\<exists>st'. conn_run (env_of usb_shell) (core_start [] fs0\<lparr>c_threads := 1\<rparr>) st' \<and> c_handlers st'"
  using connection_recovers [OF conn_run.stop, of "env_of usb_shell" "[]" fs0] usb_port_found
  by (simp add: core_start_def)

text \<open>From the path that the search prints for the mode node, the service computes the directory of
  the node, and the directory with the name of the node is that path again.\<close>

theorem get_device_node_path_correct:
  assumes "\<forall>c \<in> set cs. comp_ok c" "length (slashed cs) + 1 < SHELL_CMD_RSP_LENGTH"
  shows "\<exists>p. get_device_node_path (slashed cs @ ''/'' @ DEVICE_MODE_NAME @ [NL]) = Inr p
    \<and> p @ DEVICE_MODE_NAME @ [NL] = slashed cs @ ''/'' @ DEVICE_MODE_NAME @ [NL]"
proof -
  let ?l = "DEVICE_MODE_NAME @ [NL]"
  have l: "?l \<noteq> []" "CHR ''/'' \<notin> set ?l" "strstr ?l DEVICE_MODE_NAME \<noteq> None"
    by (simp_all add: DEVICE_MODE_NAME_def)
  from strtok_slashed [OF assms(1) l(1,2)] join_nodes_slashed [OF assms(1) l(3), of "[]"] assms(2)
  show ?thesis by (simp add: get_device_node_path_def)
qed

theorem get_device_node_path_correct_witness:
  "get_device_node_path (''/sys/devices/pci0/t7xx_mode'' @ [NL]) = Inr ''/sys/devices/pci0/''"
  using get_device_node_path_correct [of "[''sys'', ''devices'', ''pci0'']"]
  by (simp add: comp_ok_def slashed_def DEVICE_MODE_NAME_def SHELL_CMD_RSP_LENGTH_def)

text \<open>The mode that is read is not only the text of the node: the array is not cleared and \<^verbatim>\<open>fread\<close>
  writes no terminator, so a text of less than 16 characters is followed by the bytes that the stack
  held, up to the next NUL; when there is none among them, the copy runs off the array.\<close>

theorem get_device_mode_stale:
  assumes "length path + length DEVICE_MODE_NAME < SHELL_CMD_RSP_LENGTH"
    and "ce_node env (c_clock st) (path @ DEVICE_MODE_NAME) = Some txt" "length txt < DEVICE_MODE_LENGTH"
    and "NUL \<notin> set txt" "length (cj_mode j) = DEVICE_MODE_LENGTH"
  shows "get_device_mode env j path st =
    (let rest = drop (length txt) (cj_mode j)
     in if NUL \<in> set rest then Inr (0, Some (txt @ takeWhile (\<lambda>c. c \<noteq> NUL) rest), tick st) else Inl Unterminated)"
proof -
  let ?rest = "drop (length txt) (cj_mode j)"
  have "takeWhile (\<lambda>c. c \<noteq> NUL) (txt @ ?rest) = txt @ takeWhile (\<lambda>c. c \<noteq> NUL) ?rest"
    using assms(4) by (auto intro: takeWhile_append2)
  moreover have "length txt + length (takeWhile (\<lambda>c. c \<noteq> NUL) ?rest) < DEVICE_MODE_LENGTH" if "NUL \<in> set ?rest"
    using length_takeWhile_less [OF that, of "\<lambda>c. c \<noteq> NUL"] assms(3,5) by simp
  ultimately show ?thesis
    using assms by (auto simp: get_device_mode_def cstr_def Let_def strcpy_cap_def)
qed

definition mode_env :: core_env where
  "mode_env = (env_of silent_shell)\<lparr>ce_node := \<lambda>_ _. Some ''ready''\<rparr>"

theorem get_device_mode_stale_witness:
  "get_device_mode mode_env (cjunk0\<lparr>cj_mode := replicate 16 (CHR ''x'')\<rparr>) ''/sys/'' (core_start [] fs0) = Inl Unterminated"
  using get_device_mode_stale [of "''/sys/''" mode_env "core_start [] fs0" "''ready''" "cjunk0\<lparr>cj_mode := replicate 16 (CHR ''x'')\<rparr>"]
  by (simp add: SHELL_CMD_RSP_LENGTH_def DEVICE_MODE_LENGTH_def DEVICE_MODE_NAME_def mode_env_def)

text \<open>The table of GPIO lines against the table of supported USB machines: every machine before the
  first IoT machine has a line, every listed IoT machine is marked as not supported, and these are
  exactly the machines that are missing, for which \<^verbatim>\<open>gpio_init\<close> reads an uninitialised variable.\<close>

theorem gpio_table_coverage:
  "list_all (\<lambda>d. case map_of g_skuid_to_gpio d of None \<Rightarrow> False | Some g \<Rightarrow> 0 < g) (take IOT_START_INDEX usb_devices)
   \<and> list_all (\<lambda>d. map_of g_skuid_to_gpio d \<in> {None, Some (-1)}) (drop IOT_START_INDEX usb_devices)
   \<and> filter (\<lambda>d. map_of g_skuid_to_gpio d = None) usb_devices =
      [''0E8C'', ''0E8A'', ''0EA3'', ''0EAA'', ''0E5F'', ''0E65'', ''0E5B'', ''0E69'', ''0E5D'', ''0E67'',
       ''0E8D'', ''0E8B'', ''0EA4'', ''0EAB'', ''0E60'', ''0E66'', ''0E5C'', ''0E6A'', ''0E5E'', ''0E68'']
   \<and> distinct (map fst g_skuid_to_gpio)"
  by code_simp

end
