(* ===== verification/At_Channel.thy ===== *)
theory At_Channel
  imports Common_Device
begin

text \<open>
  The serial AT channel, \<^verbatim>\<open>pwl-madpt/pwl_atchannel.c\<close>: a command is written to a terminal port and
  its response is assembled from the pieces that successive reads return, in an array of
  \<^verbatim>\<open>PWL_MQ_MAX_RESP\<close> bytes; the port that answers is remembered.

  What the terminal does during one call is a \<open>tty_env\<close>: whether the port opens, whether its
  attributes can be read and set, whether the write succeeds, and the bytes of each read that
  \<^verbatim>\<open>select\<close> announces (an empty read stands for \<^verbatim>\<open>read\<close> returning 0 or an error; the end of
  the list for the timeout of \<^verbatim>\<open>select\<close>). The overlapping \<^verbatim>\<open>memcpy\<close> that closes a gap is
  taken to move the bytes in order.
\<close>

section \<open>One command\<close>

record tty_env =
  tty_open :: bool
  tty_getattr :: bool
  tty_setattr :: bool
  tty_write :: bool
  tty_reads :: "string list"

text \<open>The loop that removes NUL bytes from the first \<open>n\<close> bytes; it goes on behind a removed byte.\<close>

function remove_nulls :: "cbuf \<Rightarrow> nat \<Rightarrow> nat \<Rightarrow> cbuf \<times> nat" where
  "remove_nulls resp n i =
     (if i < n
      then if resp ! i = NUL
           then remove_nulls (take i resp @ take (n - 1 - i) (drop (i + 1) resp) @ drop (n - 1) resp) (n - 1) (i + 1)
           else remove_nulls resp n (i + 1)
      else (resp, n))"
  by pat_completeness auto

termination remove_nulls
  by (relation "measure (\<lambda>(resp, n, i). n - i)") auto

declare remove_nulls.simps [simp del]

definition store_piece :: "cbuf \<Rightarrow> nat \<Rightarrow> string \<Rightarrow> cbuf \<times> nat" where
  "store_piece resp resp_len bytes =
     (if resp_len < PWL_MQ_MAX_RESP
      then let copy_len = (if resp_len + length bytes > PWL_MQ_MAX_RESP
                           then PWL_MQ_MAX_RESP - resp_len else length bytes)
           in (take resp_len resp @ take copy_len bytes @ drop (resp_len + copy_len) resp,
               resp_len + copy_len)
      else (resp, resp_len))"

text \<open>\<^verbatim>\<open>strstr(resp, "OK") || strstr(resp, "ERROR") || strstr(resp, "+CME ERROR")\<close>\<close>

definition resp_complete :: "cbuf \<Rightarrow> bool cres" where
  "resp_complete resp =
     cbind (buf_strstr resp ''OK'') (\<lambda>ok. if ok then Inr True else
     cbind (buf_strstr resp ''ERROR'') (\<lambda>err. if err then Inr True else
       buf_strstr resp ''+CME ERROR''))"

fun tty_read_loop :: "string list \<Rightarrow> cbuf \<Rightarrow> nat \<Rightarrow> (cbuf \<times> nat) cres" where
  "tty_read_loop [] resp resp_len = Inr (resp, resp_len)"
| "tty_read_loop (bytes # rs) resp resp_len =
     (let bytes = take PWL_MQ_MAX_RESP bytes
      in if bytes = [] then Inr (resp, resp_len)
         else let (resp1, len1) = store_piece resp resp_len bytes;
                  (resp2, len2) = remove_nulls resp1 len1 0
              in cbind (resp_complete resp2) (\<lambda>fin.
                   if fin then Inr (resp2, len2) else tty_read_loop rs resp2 len2))"

text \<open>The return value and the string stored through \<^verbatim>\<open>response\<close>. The final
  \<^verbatim>\<open>strlen(resp)\<close> needs a terminator in the array, which a full response has not left.\<close>

definition send_at_cmd :: "tty_env \<Rightarrow> (bool \<times> string option) cres" where
  "send_at_cmd t =
     (if \<not> tty_open t then Inr (False, None)
      else if \<not> tty_getattr t then Inr (False, None)
      else if \<not> tty_setattr t then Inr (False, None)
      else if \<not> tty_write t then Inr (False, None)
      else cbind (tty_read_loop (tty_reads t) (zeroed PWL_MQ_MAX_RESP) 0) (\<lambda>(resp, resp_len).
             cbind (cstr resp) (\<lambda>str.
               if str \<noteq> []
               then Inr (True, Some (takeWhile (\<lambda>c. c \<noteq> NUL) (take resp_len resp)))
               else Inr (False, None))))"

text \<open>The bytes written to the port for a command.\<close>

definition at_request :: "string \<Rightarrow> string" where
  "at_request command = command @ [CR, NL]"

section \<open>The port\<close>

text \<open>
  The state: the static port buffer, the statics of the common code, a clock that counts the
  interactions with the environment, and the requests written so far. The environment gives the
  command results and the terminal behaviour at each tick.
\<close>

record atch =
  g_port :: cbuf
  at_dev :: dev
  at_clock :: nat
  at_log :: "(string \<times> string) list"

record at_env =
  env_shell :: "nat \<Rightarrow> shell \<times> string"
  env_tty :: "nat \<Rightarrow> string \<Rightarrow> tty_env"

definition send_at :: "at_env \<Rightarrow> string \<Rightarrow> string \<Rightarrow> atch \<Rightarrow> (bool \<times> string option \<times> atch) cres" where
  "send_at env port command s =
     cbind (send_at_cmd (env_tty env (at_clock s) port)) (\<lambda>(ret, rsp).
       Inr (ret, rsp, s\<lparr>at_clock := Suc (at_clock s),
                             at_log := at_log s @ [(port, at_request command)]\<rparr>))"

definition port_answers :: "string option \<Rightarrow> bool" where
  "port_answers r0 =
     (case r0 of None \<Rightarrow> False | Some r \<Rightarrow> strstr r ''OK'' \<noteq> None \<or> strstr r ''ERROR'' \<noteq> None)"

text \<open>The loop over the lines of \<^verbatim>\<open>find\<close>, each read with \<^verbatim>\<open>fgets(port, 20, fp)\<close>.\<close>

fun try_ports :: "at_env \<Rightarrow> string list \<Rightarrow> atch \<Rightarrow> (bool \<times> atch) cres" where
  "try_ports env [] s = Inr (False, s)"
| "try_ports env (line # ls) s =
     (let port = cut_at line [NL]
      in cbind (send_at env port ''AT'' s) (\<lambda>(result, r1, s1).
         cbind (if \<not> result then send_at env port ''AT'' s1 else Inr (result, r1, s1))
           (\<lambda>(_, rsp, s2).
             if port_answers rsp
             then cbind (buf_strncpy (g_port s2) port (length port)) (\<lambda>gp.
                    Inr (True, s2\<lparr>g_port := gp\<rparr>))
             else try_ports env ls s2)))"

definition find_ports_output :: "shell \<Rightarrow> pwl_device_type_t \<Rightarrow> string option" where
  "find_ports_output sh ty =
     (case ty of
        PWL_DEVICE_TYPE_USB \<Rightarrow> sh ''find /dev/ -name ttyUSB*''
      | PWL_DEVICE_TYPE_PCIE \<Rightarrow> sh ''find /dev/ -name wwan0at*''
      | PWL_DEVICE_TYPE_UNKNOWN \<Rightarrow> None)"

definition pwl_atchannel_find_at_port :: "at_env \<Rightarrow> atch \<Rightarrow> (bool \<times> atch) cres" where
  "pwl_atchannel_find_at_port env s =
     (let (sh, junk) = env_shell env (at_clock s)
      in cbind (pwl_get_device_type sh junk (at_dev s)) (\<lambda>(ty, d).
           let s1 = s\<lparr>at_dev := d, at_clock := Suc (at_clock s)\<rparr>
           in case find_ports_output sh ty of
                None \<Rightarrow> Inr (False, s1)
              | Some out \<Rightarrow> try_ports env (fgets_lines 20 out) s1))"

definition pwl_atchannel_at_req ::
  "at_env \<Rightarrow> string \<Rightarrow> atch \<Rightarrow> (bool \<times> string option \<times> atch) cres" where
  "pwl_atchannel_at_req env command s =
     cbind (cstr (g_port s)) (\<lambda>p.
     cbind (if p = [] then pwl_atchannel_find_at_port env s else Inr (True, s)) (\<lambda>(found, s1).
       if \<not> found then Inr (False, None, s1)
       else cbind (cstr (g_port s1)) (\<lambda>port. send_at env port command s1)))"

text \<open>Ten attempts; \<open>n\<close> counts the ones that are left.\<close>

fun at_port_wait :: "nat \<Rightarrow> at_env \<Rightarrow> atch \<Rightarrow> (bool \<times> atch) cres" where
  "at_port_wait 0 env s = Inr (False, s)"
| "at_port_wait (Suc n) env s =
     (let (sh, junk) = env_shell env (at_clock s)
      in cbind (pwl_get_device_type sh junk (at_dev s)) (\<lambda>(ty, d).
           let s1 = s\<lparr>at_dev := d, at_clock := Suc (at_clock s)\<rparr>
           in case find_ports_output sh ty of
                None \<Rightarrow> at_port_wait n env s1
              | Some out \<Rightarrow> (case fgets 20 out of
                               None \<Rightarrow> at_port_wait n env s1
                             | Some _ \<Rightarrow> Inr (True, s1))))"

definition pwl_atchannel_at_port_wait :: "at_env \<Rightarrow> atch \<Rightarrow> (bool \<times> atch) cres" where
  "pwl_atchannel_at_port_wait env s = at_port_wait 10 env s"

section \<open>The response array\<close>

definition resp_inv :: "cbuf \<times> nat \<Rightarrow> bool" where
  "resp_inv p \<longleftrightarrow> length (fst p) = PWL_MQ_MAX_RESP \<and> snd p \<le> PWL_MQ_MAX_RESP"

lemma remove_nulls_inv: "resp_inv (b, n) \<Longrightarrow> resp_inv (remove_nulls b n i)"
proof (induction b n i rule: remove_nulls.induct)
  case (1 b n i)
  show ?case
  proof (cases "i < n \<and> b ! i = NUL")
    case True
    then have "resp_inv (take i b @ take (n - 1 - i) (drop (i + 1) b) @ drop (n - 1) b, n - 1)"
      using "1.prems" by (auto simp: resp_inv_def min_def)
    then have "resp_inv (remove_nulls (take i b @ take (n - 1 - i) (drop (i + 1) b) @ drop (n - 1) b) (n - 1) (i + 1))"
      using "1.IH"(1) True by blast
    with True show ?thesis by (subst remove_nulls.simps) simp
  next
    case False
    with "1.IH"(2) "1.prems" show ?thesis by (subst remove_nulls.simps) simp
  qed
qed

lemma store_piece_inv: "resp_inv (b, n) \<Longrightarrow> resp_inv (store_piece b n bytes)"
  by (auto simp: resp_inv_def store_piece_def Let_def PWL_MQ_MAX_RESP_def)

lemma tty_read_loop_inv: "tty_read_loop rs b n = Inr p \<Longrightarrow> resp_inv (b, n) \<Longrightarrow> resp_inv p"
proof (induction rs arbitrary: b n)
  case (Cons bytes rs)
  let ?bytes = "take PWL_MQ_MAX_RESP bytes"
  obtain b1 n1 where s1: "store_piece b n ?bytes = (b1, n1)" by (cases "store_piece b n ?bytes")
  obtain b2 n2 where s2: "remove_nulls b1 n1 0 = (b2, n2)" by (cases "remove_nulls b1 n1 0")
  have inv2: "resp_inv (b2, n2)"
    using store_piece_inv [OF Cons.prems(2), of ?bytes] remove_nulls_inv [of b1 n1 0] s1 s2 by simp
  show ?case
  proof (cases "?bytes = []")
    case True
    with Cons.prems show ?thesis by auto
  next
    case False
    with Cons.prems(1) s1 s2 obtain fin where "resp_complete b2 = Inr fin"
      "(if fin then Inr (b2, n2) else tty_read_loop rs b2 n2) = (Inr p :: (cbuf \<times> nat) cres)"
      by (auto simp: Let_def)
    then show ?thesis using inv2 Cons.IH [of b2 n2] by (auto split: if_splits)
  qed
qed auto

lemma remove_nulls_id: "(\<And>j. i \<le> j \<Longrightarrow> j < n \<Longrightarrow> b ! j \<noteq> NUL) \<Longrightarrow> remove_nulls b n i = (b, n)"
proof (induction b n i rule: remove_nulls.induct)
  case (1 b n i)
  then show ?case by (subst remove_nulls.simps) auto
qed

text \<open>The specification of the assembly: pieces are joined until a final result code shows up
  or the array is full; a full array without \<^verbatim>\<open>OK\<close> is searched behind its end.\<close>

definition has_result :: "string \<Rightarrow> bool" where
  "has_result s \<longleftrightarrow> strstr s ''OK'' \<noteq> None \<or> strstr s ''ERROR'' \<noteq> None \<and> length s < PWL_MQ_MAX_RESP"

fun assemble :: "string list \<Rightarrow> string \<Rightarrow> string cres" where
  "assemble [] acc = Inr acc"
| "assemble (bytes # rs) acc =
     (if bytes = [] then Inr acc
      else let acc' = take PWL_MQ_MAX_RESP (acc @ bytes)
           in if has_result acc' then Inr acc'
              else if length acc' = PWL_MQ_MAX_RESP then Inl Unterminated else assemble rs acc')"

definition filled :: "string \<Rightarrow> cbuf" where
  "filled acc = acc @ replicate (PWL_MQ_MAX_RESP - length acc) NUL"

lemma filled_string: "NUL \<notin> set acc \<Longrightarrow> takeWhile (\<lambda>c. c \<noteq> NUL) (filled acc) = acc"
proof (cases "PWL_MQ_MAX_RESP - length acc")
  case 0
  assume "NUL \<notin> set acc"
  with 0 show ?thesis by (auto simp: filled_def intro: takeWhile_all)
next
  case (Suc m)
  assume "NUL \<notin> set acc"
  with Suc show ?thesis unfolding filled_def by (auto intro: takeWhile_stop)
qed

lemma cstr_filled:
  assumes "NUL \<notin> set acc" "length acc \<le> PWL_MQ_MAX_RESP"
  shows "cstr (filled acc) = (if length acc < PWL_MQ_MAX_RESP then Inr acc else Inl Unterminated)"
proof -
  have "NUL \<in> set (filled acc) \<longleftrightarrow> length acc < PWL_MQ_MAX_RESP"
    using assms by (auto simp: filled_def)
  then show ?thesis by (simp only: cstr_def filled_string [OF assms(1)])
qed

lemma buf_strstr_filled:
  assumes "NUL \<notin> set acc" "length acc \<le> PWL_MQ_MAX_RESP"
  shows "buf_strstr (filled acc) needle =
    (if strstr acc needle \<noteq> None then Inr True
     else if length acc < PWL_MQ_MAX_RESP then Inr False else Inl Unterminated)"
proof -
  have "NUL \<in> set (filled acc) \<longleftrightarrow> length acc < PWL_MQ_MAX_RESP"
    using assms by (auto simp: filled_def)
  then show ?thesis by (simp only: buf_strstr_def filled_string [OF assms(1)])
qed

lemma cme_error: "strstr s ''ERROR'' = None \<Longrightarrow> strstr s ''+CME ERROR'' = None"
proof -
  have "sublist ''ERROR'' ''+CME ERROR''" 
    using sublist_appendI [of "''ERROR''" "''+CME ''" "[]"] by simp
  then show "strstr s ''ERROR'' = None \<Longrightarrow> strstr s ''+CME ERROR'' = None"
    unfolding strstr_eq_None_iff using sublist_order.order.trans by blast
qed

lemma resp_complete_filled:
  assumes "NUL \<notin> set acc" "length acc \<le> PWL_MQ_MAX_RESP"
  shows "resp_complete (filled acc) =
    (if has_result acc then Inr True
     else if length acc < PWL_MQ_MAX_RESP then Inr False else Inl Unterminated)"
  using cme_error [of acc]
  by (auto simp: resp_complete_def has_result_def buf_strstr_filled [OF assms])

lemma store_piece_filled:
  assumes "length acc < PWL_MQ_MAX_RESP" "length bytes \<le> PWL_MQ_MAX_RESP"
  shows "store_piece (filled acc) (length acc) bytes
    = (filled (take PWL_MQ_MAX_RESP (acc @ bytes)), length (take PWL_MQ_MAX_RESP (acc @ bytes)))"
  using assms by (auto simp: store_piece_def filled_def Let_def)

lemma filled_no_NUL: "NUL \<notin> set acc \<Longrightarrow> remove_nulls (filled acc) (length acc) 0 = (filled acc, length acc)"
  by (rule remove_nulls_id) (auto simp: filled_def nth_append in_set_conv_nth)

lemma tty_read_loop_assemble:
  assumes "NUL \<notin> set acc" "length acc < PWL_MQ_MAX_RESP" "\<forall>b \<in> set rs. NUL \<notin> set b \<and> length b \<le> PWL_MQ_MAX_RESP"
  shows "tty_read_loop rs (filled acc) (length acc) = cbind (assemble rs acc) (\<lambda>a. Inr (filled a, length a))"
  using assms
proof (induction rs arbitrary: acc)
  case (Cons b rs)
  let ?a = "take PWL_MQ_MAX_RESP (acc @ b)"
  have b: "take PWL_MQ_MAX_RESP b = b" "NUL \<notin> set b" "length b \<le> PWL_MQ_MAX_RESP" using Cons.prems(3) by auto
  have a: "NUL \<notin> set ?a" "length ?a \<le> PWL_MQ_MAX_RESP"
    using b(2) Cons.prems(1) by (auto dest: in_set_takeD)
  note eqs = b(1) store_piece_filled [OF Cons.prems(2) b(3)] filled_no_NUL [OF a(1)] resp_complete_filled [OF a]
  show ?case
  proof (cases "b = []")
    case False
    have step: "tty_read_loop (b # rs) (filled acc) (length acc) =
        (if has_result ?a then Inr (filled ?a, length ?a)
         else if length ?a < PWL_MQ_MAX_RESP then tty_read_loop rs (filled ?a) (length ?a) else Inl Unterminated)"
      using False by (cases "has_result ?a"; cases "length ?a < PWL_MQ_MAX_RESP")
        (simp_all only: tty_read_loop.simps Let_def prod.case eqs if_True if_False cbind_Inr cbind_Inl)
    have "tty_read_loop rs (filled ?a) (length ?a) = cbind (assemble rs ?a) (\<lambda>a. Inr (filled a, length a))"
      if "length ?a < PWL_MQ_MAX_RESP"
      using Cons.IH [OF a(1) that] Cons.prems(3) by simp
    with step a(2) False show ?thesis by (auto simp: Let_def)
  qed simp
qed simp

lemma assemble_bound:
  "assemble rs acc = Inr a \<Longrightarrow> length acc \<le> PWL_MQ_MAX_RESP \<Longrightarrow> length a \<le> PWL_MQ_MAX_RESP"
  by (induction rs arbitrary: acc) (auto simp: Let_def split: if_splits)

lemma assemble_no_NUL:
  "assemble rs acc = Inr a \<Longrightarrow> NUL \<notin> set acc \<Longrightarrow> \<forall>b \<in> set rs. NUL \<notin> set b \<Longrightarrow> NUL \<notin> set a"
  by (induction rs arbitrary: acc) (auto simp: Let_def split: if_splits dest!: in_set_takeD)

section \<open>The port buffer\<close>

definition atch_inv :: "atch \<Rightarrow> bool" where
  "atch_inv s \<longleftrightarrow> length (g_port s) = 20 \<and> g_port s ! 19 = NUL"

lemma atch_inv_cstr: "atch_inv s \<Longrightarrow> \<exists>p. cstr (g_port s) = Inr p"
  unfolding atch_inv_def cstr_def using nth_mem [of 19 "g_port s"] by auto

lemma send_at_frame: "send_at env port cmd s = Inr (r, x, s') \<Longrightarrow> g_port s' = g_port s"
  by (auto simp: send_at_def)

lemma try_ports_inv:
  "try_ports env ls s = Inr (found, s') \<Longrightarrow> atch_inv s \<Longrightarrow> \<forall>l \<in> set ls. length l < 20 \<Longrightarrow> atch_inv s'"
proof (induction ls arbitrary: s)
  case (Cons l ls)
  let ?p = "cut_at l [NL]"
  have len: "length ?p < 20" using length_cut_at [of l "[NL]"] Cons.prems(3) by simp
  from Cons.prems(1) obtain r1 x1 s1 where s1: "send_at env ?p ''AT'' s = Inr (r1, x1, s1)"
    by (cases "send_at env ?p ''AT'' s") (auto simp: Let_def)
  with Cons.prems(1) obtain r2 x2 s2 where
    s2: "(if \<not> r1 then send_at env ?p ''AT'' s1 else Inr (r1, x1, s1)) = Inr (r2, x2, s2)"
    by (cases "if \<not> r1 then send_at env ?p ''AT'' s1 else Inr (r1, x1, s1)") (auto simp: Let_def)
  have "g_port s2 = g_port s"
    using send_at_frame [OF s1] s2 send_at_frame [of env ?p "''AT''" s1 r2 x2 s2] by (auto split: if_splits)
  with Cons.prems(2) have inv2: "atch_inv s2" by (simp add: atch_inv_def)
  show ?case
  proof (cases "port_answers x2")
    case True
    with Cons.prems(1) s1 s2 have "s' = s2\<lparr>g_port := ?p @ drop (length ?p) (g_port s2)\<rparr>"
      by (auto simp: Let_def buf_strncpy_def split: if_splits)
    with inv2 len show ?thesis by (simp add: atch_inv_def nth_append)
  next
    case False
    with Cons.prems s1 s2 Cons.IH [of s2] inv2 show ?thesis by (simp add: Let_def)
  qed
qed simp

lemma find_at_port_inv:
  assumes "pwl_atchannel_find_at_port env s = Inr (found, s')" "atch_inv s"
  shows "atch_inv s'"
proof -
  obtain sh junk where e: "env_shell env (at_clock s) = (sh, junk)" by (cases "env_shell env (at_clock s)")
  with assms(1) obtain ty d where td: "pwl_get_device_type sh junk (at_dev s) = Inr (ty, d)"
    by (cases "pwl_get_device_type sh junk (at_dev s)") (auto simp: pwl_atchannel_find_at_port_def Let_def)
  let ?s1 = "s\<lparr>at_dev := d, at_clock := Suc (at_clock s)\<rparr>"
  have "atch_inv ?s1" using assms(2) by (simp add: atch_inv_def)
  moreover have "\<forall>l \<in> set (fgets_lines 20 out). length l < 20" for out
    using fgets_lines_bound [of 20] by simp
  ultimately show ?thesis
    using assms(1) e td try_ports_inv [of env _ ?s1 found s']
    by (auto simp: pwl_atchannel_find_at_port_def Let_def split: option.splits)
qed

lemma at_req_inv:
  assumes "pwl_atchannel_at_req env cmd s = Inr (r, x, s')" "atch_inv s"
  shows "atch_inv s'"
proof -
  obtain p where p: "cstr (g_port s) = Inr p" using atch_inv_cstr [OF assms(2)] by blast
  with assms(1) obtain f s1 where s1: "(if p = [] then pwl_atchannel_find_at_port env s else Inr (True, s)) = Inr (f, s1)"
    by (cases "if p = [] then pwl_atchannel_find_at_port env s else Inr (True, s)")
      (auto simp: pwl_atchannel_at_req_def)
  have inv1: "atch_inv s1" using s1 assms(2) find_at_port_inv by (auto split: if_splits)
  with assms(1) p s1 show ?thesis
    using send_at_frame by (fastforce simp: pwl_atchannel_at_req_def atch_inv_def split: if_splits)
qed

section \<open>Bounds of a response\<close>

lemma send_at_cmd_post:
  "cpost (\<lambda>(ret, rsp). ret = (rsp \<noteq> None) \<and> (\<forall>r. rsp = Some r \<longrightarrow> length r \<le> 500)) (send_at_cmd t)"
proof (cases "tty_read_loop (tty_reads t) (zeroed PWL_MQ_MAX_RESP) 0")
  case (Inr p)
  obtain b n where p: "p = (b, n)" by (cases p)
  have "resp_inv (zeroed PWL_MQ_MAX_RESP, 0)" by (simp add: resp_inv_def zeroed_def)
  from tty_read_loop_inv [OF Inr this] have "n \<le> 500" by (simp add: resp_inv_def p PWL_MQ_MAX_RESP_def)
  then have "length (takeWhile (\<lambda>c. c \<noteq> NUL) (take n b)) \<le> 500"
    by (intro order_trans [OF length_takeWhile_le]) simp
  with Inr p show ?thesis by (cases "cstr b") (auto simp: send_at_cmd_def)
qed (auto simp: send_at_cmd_def)

lemma tty_read_loop_error: "tty_read_loop rs b n = Inl e \<Longrightarrow> e = Unterminated"
  by (induction rs b n rule: tty_read_loop.induct)
    (auto simp: Let_def resp_complete_def buf_strstr_def cbind_eq_Inl_iff split: if_splits prod.splits)

lemma send_at_cmd_error: "send_at_cmd t = Inl e \<Longrightarrow> e = Unterminated"
  by (auto simp: send_at_cmd_def cbind_eq_Inl_iff cstr_def split: if_splits dest: tty_read_loop_error)

lemma at_req_post:
  "cpost (\<lambda>(ret, rsp, s'). ret = (rsp \<noteq> None) \<and> (\<forall>r. rsp = Some r \<longrightarrow> length r \<le> 500)) (pwl_atchannel_at_req env cmd s)"
  unfolding pwl_atchannel_at_req_def send_at_def
  by (auto intro!: cpost_cbind_any cpost_cbindI [OF send_at_cmd_post] split: if_splits)

lemma try_ports_dev: "cpost (\<lambda>(found, s'). at_dev s' = at_dev s) (try_ports env ls s)"
proof (induction ls arbitrary: s)
  case (Cons l ls)
  have at: "cpost (\<lambda>(r, x, s'). at_dev s' = at_dev s) (send_at env p cmd s)" for p cmd s
    by (auto simp: send_at_def intro!: cpost_cbind_any)
  have "cpost (\<lambda>(r, x, s2). at_dev s2 = at_dev s1)
      (if \<not> b then send_at env p ''AT'' s1 else Inr (b, x1, s1))" for b p x1 s1
    using at by auto
  note second = this
  show ?case
    unfolding try_ports.simps Let_def
    by (rule cpost_cbindI [OF at], clarify, rule cpost_cbindI [OF second])
      (auto intro!: cpost_cbind_any cpost_weaken [OF Cons.IH])
qed simp

lemma at_req_dev_inv:
  assumes "dev_inv (at_dev s)"
  shows "cpost (\<lambda>(ret, rsp, s'). dev_inv (at_dev s')) (pwl_atchannel_at_req env cmd s)"
proof -
  have "cpost (\<lambda>(found, s'). dev_inv (at_dev s')) (pwl_atchannel_find_at_port env s)"
    unfolding pwl_atchannel_find_at_port_def
    by (cases "env_shell env (at_clock s)")
      (auto intro!: cpost_cbind_any cpost_weaken [OF try_ports_dev] simp: Let_def
        dest!: get_device_type_inv [OF _ assms] split: option.splits)
  then have "cpost (\<lambda>(found, s'). dev_inv (at_dev s'))
      (if p = [] then pwl_atchannel_find_at_port env s else Inr (True, s))" for p
    using assms by simp
  note find = this
  show ?thesis
    unfolding pwl_atchannel_at_req_def send_at_def
    by (rule cpost_cbind_any, rule cpost_cbindI [OF find]) (auto intro!: cpost_cbind_any)
qed

section \<open>Properties\<close>

text \<open>C35: for pieces without NUL bytes the assembly in the fixed array returns what joining the
  pieces gives: they are collected until \<^verbatim>\<open>OK\<close> or \<^verbatim>\<open>ERROR\<close> appears or the port falls silent. An
  empty response is a failure, one of fewer than 500 bytes is returned as it was joined. A response
  that fills the array of 500 bytes is never returned: without \<^verbatim>\<open>OK\<close> the search for it, with
  \<^verbatim>\<open>OK\<close> the \<^verbatim>\<open>strlen\<close> behind the loop runs off the array, which has no terminator.\<close>

theorem send_at_cmd_assembles:
  assumes "tty_open t" "tty_getattr t" "tty_setattr t" "tty_write t"
    and "\<forall>b \<in> set (tty_reads t). NUL \<notin> set b \<and> length b \<le> PWL_MQ_MAX_RESP"
  shows "send_at_cmd t =
    (case assemble (tty_reads t) [] of
       Inl e \<Rightarrow> Inl e
     | Inr a \<Rightarrow> if a = [] then Inr (False, None)
               else if length a < PWL_MQ_MAX_RESP then Inr (True, Some a) else Inl Unterminated)"
proof -
  have "filled [] = zeroed PWL_MQ_MAX_RESP" by (simp add: filled_def zeroed_def)
  then have loop: "tty_read_loop (tty_reads t) (zeroed PWL_MQ_MAX_RESP) 0
      = cbind (assemble (tty_reads t) []) (\<lambda>a. Inr (filled a, length a))"
    using tty_read_loop_assemble [of "[]" "tty_reads t"] assms(5) by (simp add: PWL_MQ_MAX_RESP_def)
  show ?thesis
  proof (cases "assemble (tty_reads t) []")
    case (Inl e)
    with loop assms show ?thesis by (simp add: send_at_cmd_def)
  next
    case (Inr a)
    have a: "NUL \<notin> set a" "length a \<le> PWL_MQ_MAX_RESP"
      using assemble_no_NUL [OF Inr] assemble_bound [OF Inr] assms(5) by auto
    have full: "a \<noteq> []" if "length a = PWL_MQ_MAX_RESP" using that by (auto simp: PWL_MQ_MAX_RESP_def)
    have "takeWhile (\<lambda>c. c \<noteq> NUL) (take (length a) (filled a)) = a"
      using a(1) by (auto simp: filled_def intro: takeWhile_all)
    then show ?thesis using Inr loop assms a(2) full by (auto simp: send_at_cmd_def cstr_filled [OF a])
  qed
qed

definition example_tty :: "string list \<Rightarrow> tty_env" where
  "example_tty rs = \<lparr>tty_open = True, tty_getattr = True, tty_setattr = True, tty_write = True, tty_reads = rs\<rparr>"

lemma assemble_full:
  assumes "length s = 498"
  shows "assemble [s @ ''OK''] [] = Inr (s @ ''OK'')"
proof -
  have "strstr (s @ ''OK'') ''OK'' \<noteq> None"
    unfolding strstr_eq_None_iff using sublist_appendI [of "''OK''" s "[]"] by simp
  with assms show ?thesis by (simp add: PWL_MQ_MAX_RESP_def has_result_def)
qed

theorem send_at_cmd_assembles_witness:
  "send_at_cmd (example_tty [''+CSQ: '', ''17'', ''OK'', ''rest'']) = Inr (True, Some ''+CSQ: 17OK'')
   \<and> send_at_cmd (example_tty [replicate 498 (CHR ''A'') @ ''OK'']) = Inl Unterminated"
proof
  have "assemble [''+CSQ: '', ''17'', ''OK'', ''rest''] [] = Inr ''+CSQ: 17OK''" by code_simp
  then show "send_at_cmd (example_tty [''+CSQ: '', ''17'', ''OK'', ''rest'']) = Inr (True, Some ''+CSQ: 17OK'')"
    using send_at_cmd_assembles [of "example_tty [''+CSQ: '', ''17'', ''OK'', ''rest'']"]
    by (simp add: example_tty_def PWL_MQ_MAX_RESP_def)
  have "NUL \<notin> set (replicate 498 (CHR ''A'') @ ''OK'')" by simp
  then show "send_at_cmd (example_tty [replicate 498 (CHR ''A'') @ ''OK'']) = Inl Unterminated"
    using send_at_cmd_assembles [of "example_tty [replicate 498 (CHR ''A'') @ ''OK'']"]
      assemble_full [of "replicate 498 (CHR ''A'')"]
    by (simp add: example_tty_def PWL_MQ_MAX_RESP_def)
qed

text \<open>Whatever bytes the port delivers, no write leaves the response array; a response that
  is returned has at most 500 characters, and it is returned exactly when the call succeeds.\<close>

theorem send_at_cmd_safe:
  "case send_at_cmd t of
     Inl e \<Rightarrow> e = Unterminated
   | Inr (ret, rsp) \<Rightarrow> (ret = (rsp \<noteq> None)) \<and> length (case rsp of None \<Rightarrow> [] | Some r \<Rightarrow> r) \<le> 500"
  using send_at_cmd_post [of t] send_at_cmd_error [of t]
  by (cases "send_at_cmd t") (auto split: option.splits)

text \<open>Two adjacent NUL bytes defeat the removal loop, which steps over the second one: a
  response that carries \<^verbatim>\<open>OK\<close> behind them is reported as a failure.\<close>

theorem send_at_cmd_double_nul:
  "send_at_cmd (example_tty [[NUL, NUL] @ ''OK'']) = Inr (False, None)"
proof -
  have 1: "store_piece (zeroed 500) 0 ([NUL, NUL] @ ''OK'') = ([NUL, NUL, CHR ''O'', CHR ''K''] @ zeroed 496, 4)"
    by code_simp
  have 2: "remove_nulls ([NUL, NUL, CHR ''O'', CHR ''K''] @ zeroed 496) 4 0
      = ([NUL, CHR ''O'', CHR ''K'', CHR ''K''] @ zeroed 496, 3)"
    by code_simp
  have 3: "resp_complete ([NUL, CHR ''O'', CHR ''K'', CHR ''K''] @ zeroed 496) = Inr False"
    by (simp add: resp_complete_def buf_strstr_def)
  have 4: "take 500 ([NUL, NUL] @ ''OK'') = [NUL, NUL] @ ''OK''" by simp
  have "tty_read_loop [[NUL, NUL] @ ''OK''] (zeroed 500) 0 = Inr ([NUL, CHR ''O'', CHR ''K'', CHR ''K''] @ zeroed 496, 3)"
    by (simp only: tty_read_loop.simps PWL_MQ_MAX_RESP_def Let_def 1 2 3 4 prod.case cbind_Inr if_False) simp
  then show ?thesis by (simp add: send_at_cmd_def example_tty_def PWL_MQ_MAX_RESP_def cstr_def)
qed

text \<open>The remembered port name always fits its 20-byte buffer with its terminator, through
  every search for a port and every request.\<close>

theorem pwl_atchannel_at_req_port_inv:
  assumes "atch_inv s" "pwl_atchannel_at_req env command s = Inr (ret, rsp, s')"
  shows "atch_inv s' \<and> (\<exists>p. cstr (g_port s') = Inr p \<and> length p < 20)"
proof -
  have inv: "atch_inv s'" using at_req_inv [OF assms(2,1)] .
  obtain p where p: "cstr (g_port s') = Inr p" using atch_inv_cstr [OF inv] by blast
  then have "NUL \<in> set (g_port s')" "p = takeWhile (\<lambda>c. c \<noteq> NUL) (g_port s')"
    by (auto simp: cstr_def split: if_splits)
  moreover from this have "length p < length (g_port s')"
    using length_takeWhile_less [of NUL "g_port s'" "\<lambda>c. c \<noteq> NUL"] by simp
  ultimately show ?thesis using inv p by (simp add: atch_inv_def)
qed

definition example_at_env :: at_env where
  "example_at_env = \<lparr>env_shell = \<lambda>_. (\<lambda>cmd. if prefix ''find'' cmd then Some (''/dev/ttyUSB0'' @ [NL]) else None, []),
                     env_tty = \<lambda>_ _. example_tty [''OK'']\<rparr>"

definition atch_fresh :: "dev \<Rightarrow> atch" where
  "atch_fresh d = \<lparr>g_port = zeroed 20, at_dev = d, at_clock = 0, at_log = []\<rparr>"

lemma example_tty_OK: "send_at_cmd (example_tty [''OK'']) = Inr (True, Some ''OK'')"
  by code_simp

lemma example_at_req:
  "\<exists>s'. pwl_atchannel_at_req example_at_env ''ATI'' (atch_fresh usb_module_dev) = Inr (True, Some ''OK'', s')"
  using example_tty_OK
  by (simp add: pwl_atchannel_at_req_def pwl_atchannel_find_at_port_def find_ports_output_def
      example_at_env_def atch_fresh_def usb_module_dev_def pwl_get_device_type_def fgets_lines_def cut_at_eq
      send_at_def port_answers_def buf_strncpy_def cstr_def zeroed_def numeral_eq_Suc)

theorem pwl_atchannel_at_req_port_inv_witness:
  "\<exists>s'. pwl_atchannel_at_req example_at_env ''ATI'' (atch_fresh usb_module_dev) = Inr (True, Some ''OK'', s')
     \<and> atch_inv s'"
proof -
  obtain s' where "pwl_atchannel_at_req example_at_env ''ATI'' (atch_fresh usb_module_dev) = Inr (True, Some ''OK'', s')"
    using example_at_req by blast
  moreover have "atch_inv (atch_fresh usb_module_dev)" by (simp add: atch_inv_def atch_fresh_def zeroed_def)
  ultimately show ?thesis using pwl_atchannel_at_req_port_inv by blast
qed

end
