(* ===== verification/Madpt.thy ===== *)
theory Madpt
  imports At_Channel Common_Status
begin

text \<open>
  The module adapter service, \<^verbatim>\<open>pwl-madpt/pwl_madpt.c\<close>, with the MBIM device adapter it drives,
  \<^verbatim>\<open>pwl-madpt/pwl_mbimdeviceadpt.c\<close>: it takes requests from its message queue, turns them into
  AT commands, sends them over the interface in use (the MBIM library, the \<^verbatim>\<open>mbimcli\<close> tool or the
  serial channel), waits for the answer and replies to the requester.

  The globals of the two files are the fields of the record \<open>madpt\<close>. The MBIM library answers
  through a callback on another thread: what happens while the code waits on its condition
  variable is the next entry of \<open>m_script\<close>, the responses delivered meanwhile and whether the
  wait was signalled; an empty script is a silent module. Ports, tools and terminals are the
  environment of \<open>At_Channel\<close>, read at the tick of the clock.
\<close>

section \<open>AT commands\<close>

datatype pwl_at_intf_t =
    PWL_AT_INTF_NONE | PWL_AT_OVER_MBIM_CONTROL_MSG | PWL_AT_OVER_MBIM_CLI
  | PWL_AT_OVER_MBIM_API | PWL_AT_CHANNEL

definition ATCMD_INDEX_MAP :: "nat \<Rightarrow> nat" where
  "ATCMD_INDEX_MAP cid =
     (if cid > cid_num PLW_CID_MAX_PREF \<and> cid < cid_num PLW_CID_MAX_MADPT
      then cid - cid_num PLW_CID_MAX_PREF - 1 else 1)"

definition at_cmd_map :: "string list" where
  "at_cmd_map =
    [''at+cimi'', ''ate'', ''ati'', ''at*bfwver'', ''at*bsku?'', ''at*bboothold'', ''at*bpriid?'',
     ''at*bimpref?'', ''at*bimpref='', ''at*mdpver='', ''at*mtunecodedel=1'',
     ''at+crsm=176,28589,0,0,4'', ''at*ucomp=1,1,1018'', ''at*breset'', ''at*mgetoempriinfo=1'',
     ''at*bjpfccautoreboot?'', ''at*bjpfccautoreboot=1'', ''at*boemprireset?'',
     ''at+productinfo=1'', ''at*capversion?'', ''at*copid?'', ''at*coemid?'', ''at*cdpvid?'',
     ''at+esbp?'', ''at*mresetoempri=1'', ''at+esimenable?'', ''at*bchktestprof?'',
     ''at*bdeltestprof=1'', ''at*msnrw='', ''at*mimei='']"

definition at_cmd_at :: "nat \<Rightarrow> string cres" where
  "at_cmd_at cid =
     (if ATCMD_INDEX_MAP cid < length at_cmd_map then Inr (at_cmd_map ! ATCMD_INDEX_MAP cid)
      else Inl OutOfBounds)"

section \<open>Parsing a response\<close>

text \<open>
  A pointer into the response is a suffix of it and its offset the number of characters before
  it; \<^verbatim>\<open>end\<close> is an offset, since it may point behind the string. \<^verbatim>\<open>buff_size\<close> is the length of
  the array.
\<close>

definition version_keyword :: "string \<Rightarrow> bool" where
  "version_keyword rsp \<longleftrightarrow>
     strstr rsp ''RMM-'' \<noteq> None \<or> strstr rsp ''OP.'' \<noteq> None \<or> strstr rsp ''OEM.'' \<noteq> None \<or>
     strstr rsp ''DPV'' \<noteq> None \<or> strstr rsp ''ESIM'' \<noteq> None"

definition copy_version :: "string \<Rightarrow> string \<Rightarrow> cbuf \<Rightarrow> (bool \<times> cbuf) cres" where
  "copy_version rsp start buff =
     (let from = (case strstr rsp ''ESIM'' of None \<Rightarrow> start | Some e \<Rightarrow> e)
      in cbind (strcpy_cap PWL_MQ_MAX_RESP from) (\<lambda>b.
           let pcie_buffer = cut_at b [NL]
           in cbind (buf_strncpy buff pcie_buffer (length pcie_buffer)) (\<lambda>buff'. Inr (False, buff'))))"

definition copy_response :: "string \<Rightarrow> int \<Rightarrow> cbuf \<Rightarrow> (bool \<times> cbuf) cres" where
  "copy_response start sz buff =
     (if length buff > length start
      then if sz = 0
           then cbind (buf_strncpy (zeroed (length buff)) start (length start)) (\<lambda>b. Inr (True, b))
           else if sz < 0 then Inl Overflow
           else cbind (buf_strncpy (zeroed (length buff)) start (nat sz)) (\<lambda>b. Inr (True, b))
      else cbind (buf_strncpy (zeroed (length buff)) start (length buff - 1)) (\<lambda>b. Inr (True, b)))"

definition response_start :: "string \<Rightarrow> string option" where
  "response_start rsp =
     map_option (dropWhile (\<lambda>c. c = NL))
       (if strncmp_eq rsp ''at+'' 3 \<or> strncmp_eq rsp ''at*'' 3 then strstr rsp [NL] else Some rsp)"

definition at_resp_parsing :: "string option \<Rightarrow> cbuf \<Rightarrow> (bool \<times> cbuf) cres" where
  "at_resp_parsing rsp0 buff =
     (case rsp0 of
        None \<Rightarrow> Inr (False, zeroed (length buff))
      | Some rsp \<Rightarrow>
          let start = response_start rsp;
              offset = (\<lambda>p. int (length rsp) - int (length p));
              finish = (\<lambda>end.
                case start of
                  None \<Rightarrow> Inr (False, buff)
                | Some st \<Rightarrow>
                    (case end of
                       None \<Rightarrow> if version_keyword rsp then copy_version rsp st buff else Inr (False, buff)
                     | Some e \<Rightarrow> copy_response st (e - offset st) buff))
          in case strstr rsp ([CR, NL, CR, NL] @ ''OK'') of
               Some e \<Rightarrow> finish (Some (offset e))
             | None \<Rightarrow>
                 if strstr rsp ''ERROR'' \<noteq> None then Inr (False, buff)
                 else finish (case strstr rsp ''OK'' of
                                Some e \<Rightarrow> Some (offset e)
                              | None \<Rightarrow> if length rsp = PWL_MQ_MAX_RESP
                                        then Some (offset (case start of None \<Rightarrow> [] | Some st \<Rightarrow> st)
                                                   + int PWL_MQ_MAX_RESP)
                                        else None))"

section \<open>State\<close>

record madpt =
  g_at_intf :: pwl_at_intf_t
  m_device_type :: pwl_device_type_t
  mbim_err_cnt :: "32 word"
  g_response :: cbuf
  g_oem_pri_state :: int
  g_exit_code :: int
  gp_loop :: bool
  g_device_opened :: bool
  g_ready_cb :: bool
  device_package_ver :: cbuf
  m_chan :: atch
  m_fs :: fs
  m_script :: "(string list \<times> bool) list"
  m_reqs :: "(bool \<times> string) list"
  m_out :: "sent list"
  m_ready :: nat
  m_gpio_reset :: nat
  m_exited :: bool
  m_blocked :: bool

definition PWL_MBIM_ERR_MAX :: "32 word" where "PWL_MBIM_ERR_MAX = 2"

section \<open>The MBIM device adapter\<close>

definition mbim_find_port :: "at_env \<Rightarrow> madpt \<Rightarrow> (bool \<times> madpt) cres" where
  "mbim_find_port env st =
     (let c = m_chan st; (sh, junk) = env_shell env (at_clock c)
      in cbind (pwl_find_mbim_port sh junk (zeroed 20) 20 (at_dev c)) (\<lambda>(found, port, d).
           Inr (found, st\<lparr>m_chan := c\<lparr>at_dev := d, at_clock := Suc (at_clock c)\<rparr>\<rparr>)))"

definition pwl_mbimdeviceadpt_init :: "at_env \<Rightarrow> bool \<Rightarrow> madpt \<Rightarrow> (bool \<times> madpt) cres" where
  "pwl_mbimdeviceadpt_init env cb st =
     cbind (mbim_find_port env st) (\<lambda>(found, st1).
       if \<not> found then Inr (False, st1)
       else Inr (True, st1\<lparr>g_device_opened := False, g_ready_cb := cb\<rparr>))"

definition pwl_mbimdeviceadpt_deinit :: "madpt \<Rightarrow> madpt" where
  "pwl_mbimdeviceadpt_deinit st = st\<lparr>g_ready_cb := False\<rparr>"

definition mbim_device_ready_cb :: "bool \<Rightarrow> madpt \<Rightarrow> madpt" where
  "mbim_device_ready_cb opened st = (if opened then st\<lparr>m_ready := Suc (m_ready st)\<rparr> else st)"

definition device_open_cb :: "bool \<Rightarrow> madpt \<Rightarrow> madpt" where
  "device_open_cb finish_ok st =
     (let st1 = st\<lparr>g_device_opened := finish_ok\<rparr>
      in if g_ready_cb st1 then mbim_device_ready_cb (g_device_opened st1) st1 else st1)"

fun mbim_port_wait :: "nat \<Rightarrow> at_env \<Rightarrow> madpt \<Rightarrow> (bool \<times> madpt) cres" where
  "mbim_port_wait 0 env st = Inr (False, st)"
| "mbim_port_wait (Suc n) env st =
     cbind (mbim_find_port env st) (\<lambda>(found, st1).
       if found then Inr (True, st1) else mbim_port_wait n env st1)"

definition pwl_mbimdeviceadpt_port_wait :: "at_env \<Rightarrow> madpt \<Rightarrow> (bool \<times> madpt) cres" where
  "pwl_mbimdeviceadpt_port_wait env st = mbim_port_wait 10 env st"

text \<open>A request: over the AT tunnel or the AT command service, with the line end appended.\<close>

definition pwl_mbimdeviceadpt_at_req :: "bool \<Rightarrow> string \<Rightarrow> madpt \<Rightarrow> madpt" where
  "pwl_mbimdeviceadpt_at_req tunnel command st =
     st\<lparr>m_reqs := m_reqs st @ [(tunnel, command @ [CR, NL])]\<rparr>"

text \<open>What the library callback hands on for a finished query: its text, or \<^verbatim>\<open>QUERY ERROR\<close>.\<close>

definition at_command_query_cb :: "string option \<Rightarrow> string" where
  "at_command_query_cb r = (case r of Some t \<Rightarrow> t | None \<Rightarrow> ''QUERY ERROR'')"

section \<open>Callbacks and waiting\<close>

definition mbim_at_resp_cb :: "string \<Rightarrow> madpt \<Rightarrow> madpt cres" where
  "mbim_at_resp_cb rsp st =
     (if rsp = ''ERROR'' then Inr (st\<lparr>mbim_err_cnt := PWL_MBIM_ERR_MAX\<rparr>)
      else if rsp = ''QUERY ERROR'' then Inr (st\<lparr>mbim_err_cnt := mbim_err_cnt st + 1\<rparr>)
      else cbind (at_resp_parsing (Some rsp) (g_response st)) (\<lambda>(_, b). Inr (st\<lparr>g_response := b\<rparr>)))"

fun deliver :: "string list \<Rightarrow> madpt \<Rightarrow> madpt cres" where
  "deliver [] st = Inr st"
| "deliver (r # rs) st = cbind (mbim_at_resp_cb r st) (deliver rs)"

definition wait_step :: "madpt \<Rightarrow> (bool \<times> madpt) cres" where
  "wait_step st =
     (case m_script st of
        [] \<Rightarrow> Inr (False, st)
      | (rs, signalled) # sc \<Rightarrow>
          cbind (deliver rs (st\<lparr>m_script := sc\<rparr>)) (\<lambda>st1. Inr (signalled, st1)))"

definition mbim_error_check :: "at_env \<Rightarrow> bool \<Rightarrow> madpt \<Rightarrow> madpt cres" where
  "mbim_error_check env cb st =
     (if g_at_intf st = PWL_AT_OVER_MBIM_API \<and> mbim_err_cnt st \<ge> PWL_MBIM_ERR_MAX
      then cbind (pwl_mbimdeviceadpt_init env cb (pwl_mbimdeviceadpt_deinit st)) (\<lambda>(_, st1).
             Inr (st1\<lparr>mbim_err_cnt := 0\<rparr>))
      else Inr st)"

section \<open>Sending a command\<close>

text \<open>The two transports that answer at once, over the state of the channel.\<close>

definition cli_req :: "at_env \<Rightarrow> string \<Rightarrow> atch \<Rightarrow> (bool \<times> string option \<times> atch) cres" where
  "cli_req env command c =
     (let (sh, junk) = env_shell env (at_clock c)
      in cbind (pwl_set_command sh junk command (at_dev c)) (\<lambda>(ok, r, d).
           Inr (ok, r, c\<lparr>at_dev := d, at_clock := Suc (at_clock c)\<rparr>)))"

definition direct_request ::
  "(string \<Rightarrow> atch \<Rightarrow> (bool \<times> string option \<times> atch) cres) \<Rightarrow> string \<Rightarrow> atch \<Rightarrow> cbuf
     \<Rightarrow> (pwl_cid_status_t \<times> atch \<times> cbuf) cres" where
  "direct_request req command c buff =
     cbind (req command c) (\<lambda>(res, rsp, c1).
       if res
       then cbind (at_resp_parsing rsp buff) (\<lambda>(parsed, b).
              Inr (if parsed \<and> rsp \<noteq> None then PWL_CID_STATUS_OK else PWL_CID_STATUS_ERROR, c1, b))
       else Inr (PWL_CID_STATUS_ERROR, c1, buff))"

definition at_cmd_request :: "at_env \<Rightarrow> string \<Rightarrow> madpt \<Rightarrow> (pwl_cid_status_t \<times> madpt) cres" where
  "at_cmd_request env command st =
     (if g_at_intf st = PWL_AT_OVER_MBIM_API
      then Inr (PWL_CID_STATUS_OK,
                pwl_mbimdeviceadpt_at_req (m_device_type st \<noteq> PWL_DEVICE_TYPE_USB) command st)
      else if g_at_intf st = PWL_AT_CHANNEL \<or> g_at_intf st = PWL_AT_OVER_MBIM_CLI
      then cbind (direct_request (if g_at_intf st = PWL_AT_OVER_MBIM_CLI then cli_req env
                                  else pwl_atchannel_at_req env)
                    command (m_chan st) (g_response st)) (\<lambda>(s, c, b).
             Inr (s, st\<lparr>m_chan := c, g_response := b\<rparr>))
      else Inr (PWL_CID_STATUS_ERROR, st))"

definition madpt_at_cmd_request :: "at_env \<Rightarrow> string \<Rightarrow> madpt \<Rightarrow> (pwl_cid_status_t \<times> madpt) cres" where
  "madpt_at_cmd_request env command st =
     cbind (at_cmd_request env command st) (\<lambda>(s, st1).
     cbind (if g_at_intf st1 = PWL_AT_OVER_MBIM_API then mbim_error_check env False st1 else Inr st1) (\<lambda>st2.
       Inr (s, st2)))"

definition request_cid :: "at_env \<Rightarrow> pwl_cid_t \<Rightarrow> madpt \<Rightarrow> madpt cres" where
  "request_cid env c st =
     cbind (at_cmd_at (cid_num c)) (\<lambda>cmd.
     cbind (madpt_at_cmd_request env cmd st) (\<lambda>(_, st1). Inr st1))"

section \<open>Starting, restarting\<close>

text \<open>
  \<^verbatim>\<open>mbim_init\<close> repeats the initialisation until it succeeds; \<open>tries\<close> bounds the attempts that
  are observed, and a call that is still waiting after them leaves the thread blocked.
\<close>

fun mbim_init_loop :: "nat \<Rightarrow> at_env \<Rightarrow> bool \<Rightarrow> madpt \<Rightarrow> madpt cres" where
  "mbim_init_loop 0 env cb st = Inr (st\<lparr>m_blocked := True\<rparr>)"
| "mbim_init_loop (Suc n) env cb st =
     cbind (pwl_mbimdeviceadpt_init env cb st) (\<lambda>(ok, st1).
       if ok then Inr st1 else mbim_init_loop n env cb st1)"

definition mbim_init :: "nat \<Rightarrow> at_env \<Rightarrow> bool \<Rightarrow> madpt \<Rightarrow> (bool \<times> madpt) cres" where
  "mbim_init tries env boot st =
     cbind (mbim_init_loop tries env boot (st\<lparr>mbim_err_cnt := 0\<rparr>)) (\<lambda>st1. Inr (True, st1))"

definition clean_up :: "madpt \<Rightarrow> madpt" where
  "clean_up st = (if g_at_intf st = PWL_AT_OVER_MBIM_API then pwl_mbimdeviceadpt_deinit st else st)"

definition restart :: "madpt \<Rightarrow> madpt" where
  "restart st =
     (let st1 = st\<lparr>g_exit_code := 1\<rparr>
      in if gp_loop st1 then (clean_up st1)\<lparr>m_exited := True\<rparr> else st1)"

section \<open>Waiting for the module\<close>

definition response_text :: "madpt \<Rightarrow> string cres" where
  "response_text st = cstr (g_response st)"

text \<open>\<^verbatim>\<open>enable_jp_fcc_auto_reboot\<close>: three rounds; \<open>state\<close> is the last state the module reported.\<close>

fun jp_fcc_rounds :: "nat \<Rightarrow> int \<Rightarrow> at_env \<Rightarrow> madpt \<Rightarrow> madpt cres" where
  "jp_fcc_rounds 0 state env st = Inr st"
| "jp_fcc_rounds (Suc n) state env st =
     cbind (request_cid env PWL_CID_GET_JP_FCC_AUTO_REBOOT st) (\<lambda>st1.
     cbind (wait_step st1) (\<lambda>(signalled, st2).
       if \<not> signalled then jp_fcc_rounds n state env st2
       else cbind (response_text st2) (\<lambda>r.
         let state' = (if r \<noteq> [] then atoi r else state)
         in if state' = 2 then jp_fcc_rounds n state' env st2
            else if state' = 0
            then cbind (request_cid env PWL_CID_ENABLE_JP_FCC_AUTO_REBOOT st2) (\<lambda>st3.
                 cbind (wait_step st3) (\<lambda>(_, st4). jp_fcc_rounds n state' env st4))
            else if state' = 1
            then cbind (set_fw_update_status_value JP_FCC_CONFIG_COUNT 0 (m_fs st2)) (\<lambda>(_, w).
                   Inr (st2\<lparr>m_fs := w\<rparr>))
            else jp_fcc_rounds n state' env st2)))"

definition enable_jp_fcc_auto_reboot :: "at_env \<Rightarrow> madpt \<Rightarrow> madpt cres" where
  "enable_jp_fcc_auto_reboot env st = jp_fcc_rounds 3 2 env st"

fun oem_reset_rounds :: "nat \<Rightarrow> int \<Rightarrow> at_env \<Rightarrow> madpt \<Rightarrow> madpt cres" where
  "oem_reset_rounds 0 reset_state env st = Inr st"
| "oem_reset_rounds (Suc n) reset_state env st =
     cbind (request_cid env PWL_CID_GET_OEM_PRI_RESET st) (\<lambda>st1.
     cbind (wait_step st1) (\<lambda>(signalled, st2).
       if \<not> signalled then oem_reset_rounds n reset_state env st2
       else cbind (response_text st2) (\<lambda>r.
         let reset_state' = (if r \<noteq> [] then atoi r else reset_state)
         in if reset_state' = 0 then oem_reset_rounds n reset_state' env st2
            else if reset_state' = 1 \<or> reset_state' = 2 \<or> reset_state' = 9 then Inr st2
            else oem_reset_rounds n reset_state' env st2)))"

definition wait_for_modem_oem_pri_reset :: "at_env \<Rightarrow> madpt \<Rightarrow> madpt cres" where
  "wait_for_modem_oem_pri_reset env st = oem_reset_rounds 20 0 env st"

text \<open>
  The loop of \<^verbatim>\<open>jp_fcc_config\<close> that polls the OEM PRI state; \<^verbatim>\<open>retry > 10\<close> ends it, so there are
  at most eleven rounds. The responses arrive while it sleeps.
\<close>

fun oem_info_rounds :: "nat \<Rightarrow> at_env \<Rightarrow> madpt \<Rightarrow> madpt cres" where
  "oem_info_rounds 0 env st = Inr st"
| "oem_info_rounds (Suc n) env st =
     (if g_oem_pri_state st = 3 then Inr st
      else cbind (request_cid env PWL_CID_GET_OEM_PRI_INFO st) (\<lambda>st1.
           cbind (wait_step st1) (\<lambda>(_, st2).
           cbind (response_text st2) (\<lambda>r.
             let st3 = st2\<lparr>g_oem_pri_state := atoi r\<rparr>
             in if g_oem_pri_state st3 = 2 then wait_for_modem_oem_pri_reset env st3
                else oem_info_rounds n env st3))))"

fun reset_rounds :: "nat \<Rightarrow> at_env \<Rightarrow> madpt \<Rightarrow> madpt cres" where
  "reset_rounds 0 env st = Inr st"
| "reset_rounds (Suc n) env st =
     cbind (request_cid env PWL_CID_RESET st) (\<lambda>st1.
     cbind (wait_step st1) (\<lambda>(signalled, st2).
       if signalled then Inr st2 else reset_rounds n env st2))"

fun port_gone_rounds :: "nat \<Rightarrow> at_env \<Rightarrow> madpt \<Rightarrow> madpt cres" where
  "port_gone_rounds 0 env st = Inr st"
| "port_gone_rounds (Suc n) env st =
     cbind (mbim_find_port env st) (\<lambda>(found, st1).
       if \<not> found then Inr st1 else port_gone_rounds n env st1)"

text \<open>
  The first loop of \<^verbatim>\<open>jp_fcc_config\<close> tries \<^verbatim>\<open>mbim_init\<close> up to fifty times; a blocked call stops
  everything behind it.
\<close>

fun mbim_ready_rounds :: "nat \<Rightarrow> nat \<Rightarrow> at_env \<Rightarrow> madpt \<Rightarrow> (bool \<times> madpt) cres" where
  "mbim_ready_rounds 0 tries env st = Inr (False, st)"
| "mbim_ready_rounds (Suc n) tries env st =
     cbind (mbim_init tries env False st) (\<lambda>(ok, st1).
       if ok then Inr (True, st1) else mbim_ready_rounds n tries env st1)"

text \<open>The flag \<open>efs_recovery_mode\<close> only adds a delay.\<close>

definition jp_fcc_config :: "nat \<Rightarrow> at_env \<Rightarrow> bool \<Rightarrow> bool \<Rightarrow> bool \<Rightarrow> madpt \<Rightarrow> madpt cres" where
  "jp_fcc_config tries env enable_jp_fcc has_flash_oem efs_recovery_mode st =
     cbind (mbim_ready_rounds 50 tries env st) (\<lambda>(is_mbim_ready, st1).
       if m_blocked st1 then Inr st1
       else if \<not> is_mbim_ready then Inr (restart (st1\<lparr>m_gpio_reset := Suc (m_gpio_reset st1)\<rparr>))
       else cbind (if enable_jp_fcc then enable_jp_fcc_auto_reboot env st1 else Inr st1) (\<lambda>st2.
            cbind (if has_flash_oem
                   then cbind (oem_info_rounds 11 env st2) (\<lambda>st3.
                        cbind (reset_rounds 5 env st3) (\<lambda>st4.
                        cbind (port_gone_rounds 10 env st4) (\<lambda>st5.
                        cbind (pwl_mbimdeviceadpt_port_wait env st5) (\<lambda>(_, st6). Inr st6))))
                   else Inr st2) (\<lambda>st7.
              Inr (restart st7))))"

section \<open>One message\<close>

definition DPV_DEFAULT :: string where "DPV_DEFAULT = ''DPV00.00.00.01''"

text \<open>
  The first part of the loop body: the command for the message; the result is the status and
  whether the code waits for an answer.
\<close>

definition quoted_command :: "string \<Rightarrow> string \<Rightarrow> string" where
  "quoted_command cmd arg = cmd @ [CHR 0x22] @ arg @ [CHR 0x22]"

definition set_dpv :: "string \<Rightarrow> cbuf \<Rightarrow> cbuf cres" where
  "set_dpv txt buf = (if strstr txt ''DPV'' \<noteq> None then buf_strncpy buf txt 14 else buf_strcpy buf DPV_DEFAULT)"

definition madpt_issue :: "nat \<Rightarrow> at_env \<Rightarrow> msg_buffer_t \<Rightarrow> madpt \<Rightarrow> (pwl_cid_status_t \<times> bool \<times> madpt) cres" where
  "madpt_issue tries env m st =
     (let c = cid_of (pwl_cid m)
      in if c = Some PWL_CID_MADPT_RESTART
         then cbind (jp_fcc_config tries env False (content m = ''TRUE'' \<or> content m = ''RECOVERY'')
                       (content m = ''RECOVERY'') st) (\<lambda>st1.
                Inr (PWL_CID_STATUS_OK, False, st1))
         else if c = Some PWL_CID_SET_PREF_CARRIER
         then cbind (at_cmd_at (pwl_cid m)) (\<lambda>cmd.
              cbind (at_cmd_request env (cmd @ content m) st) (\<lambda>(s, st1). Inr (s, True, st1)))
         else if c = Some PWL_CID_SET_OEM_PRI_VERSION
         then cbind (set_dpv (content m) (device_package_ver st)) (\<lambda>dpv.
              cbind (cstr dpv) (\<lambda>ver.
              cbind (at_cmd_at (pwl_cid m)) (\<lambda>cmd.
              cbind (at_cmd_request env (quoted_command cmd ver) (st\<lparr>device_package_ver := dpv\<rparr>)) (\<lambda>(s, st1).
                Inr (s, True, st1)))))
         else if c = Some PWL_CID_SETUP_JP_FCC_CONFIG
         then cbind (enable_jp_fcc_auto_reboot env st) (\<lambda>st1. Inr (PWL_CID_STATUS_OK, False, st1))
         else if c = Some PWL_CID_RESTORE_SN \<or> c = Some PWL_CID_RESTORE_IMEI
         then cbind (at_cmd_at (pwl_cid m)) (\<lambda>cmd.
              cbind (at_cmd_request env (quoted_command cmd (content m)) st) (\<lambda>(s, st1). Inr (s, True, st1)))
         else cbind (at_cmd_at (pwl_cid m)) (\<lambda>cmd.
              cbind (at_cmd_request env cmd st) (\<lambda>(s, st1). Inr (s, True, st1))))"

text \<open>The second part: the wait for the answer, and the restart of the MBIM device after errors.\<close>

definition madpt_await :: "bool \<Rightarrow> pwl_cid_status_t \<Rightarrow> madpt \<Rightarrow> (pwl_cid_status_t \<times> madpt) cres" where
  "madpt_await timedwait s st =
     (if timedwait \<and> (g_at_intf st = PWL_AT_OVER_MBIM_CONTROL_MSG \<or> g_at_intf st = PWL_AT_OVER_MBIM_API)
      then cbind (wait_step st) (\<lambda>(signalled, st1).
             if \<not> signalled then Inr (PWL_CID_STATUS_TIMEOUT, st1\<lparr>mbim_err_cnt := mbim_err_cnt st1 + 1\<rparr>)
             else Inr (s, st1\<lparr>mbim_err_cnt := 0\<rparr>))
      else Inr (s, st))"

text \<open>The third part: the reply. The text and status it carries, \<open>None\<close> when there is no reply.\<close>

definition carrier_id_reply :: "pwl_cid_status_t \<Rightarrow> string \<Rightarrow> (pwl_cid_status_t \<times> string) cres" where
  "carrier_id_reply s r =
     (if length r > 0
      then if strstr r ''ESBP'' \<noteq> None
           then (case strtok_all '','' r of
                   [] \<Rightarrow> Inr (PWL_CID_STATUS_ERROR, [])
                 | [_] \<Rightarrow> Inl NullDeref
                 | _ # i # _ \<Rightarrow> Inr (s, i))
           else Inr (PWL_CID_STATUS_ERROR, [])
      else Inr (PWL_CID_STATUS_ERROR, []))"

definition plain_reply_cids :: "pwl_cid_t list" where
  "plain_reply_cids =
    [PWL_CID_GET_ATI, PWL_CID_GET_FW_VER, PWL_CID_GET_PCIE_DEVICE_VERSION, PWL_CID_GET_PCIE_AP_VERSION,
     PWL_CID_CHECK_OEM_PRI_VERSION, PWL_CID_GET_PREF_CARRIER, PWL_CID_DEL_TUNE_CODE,
     PWL_CID_SET_PREF_CARRIER, PWL_CID_SET_OEM_PRI_VERSION, PWL_CID_GET_CRSM, PWL_CID_GET_CIMI,
     PWL_CID_GET_PCIE_OP_VERSION, PWL_CID_GET_PCIE_OEM_VERSION, PWL_CID_GET_PCIE_DPV_VERSION,
     PWL_CID_GET_OEM_PRI_RESET_STATE, PWL_CID_GET_ESIM_STATE, PWL_CID_CHECK_ESIM_TEST_PROF,
     PWL_CID_DELETE_ESIM_TEST_PROF, PWL_CID_RESTORE_SN, PWL_CID_RESTORE_IMEI]"

definition reply_for :: "pwl_cid_t option \<Rightarrow> pwl_cid_status_t \<Rightarrow> string \<Rightarrow> (pwl_cid_status_t \<times> string) option cres" where
  "reply_for c0 s r =
     (case c0 of
        None \<Rightarrow> Inr None
      | Some c \<Rightarrow>
          if c = PWL_CID_GET_ATE then Inr (Some (s, ''OK''))
          else if c = PWL_CID_SWITCH_TO_FASTBOOT then Inr (Some (s, ''Switch to fastboot cmd done''))
          else if c \<in> set plain_reply_cids then Inr (Some (s, r))
          else if c = PWL_CID_GET_CARRIER_ID then cbind (carrier_id_reply s r) (\<lambda>p. Inr (Some p))
          else if c = PWL_CID_GET_MODULE_SKU_ID
          then Inr (Some (if length r > 0 then s else PWL_CID_STATUS_ERROR, r))
          else if c = PWL_CID_SETUP_JP_FCC_CONFIG then Inr (Some (s, []))
          else Inr None)"

definition madpt_reply :: "string \<Rightarrow> msg_buffer_t \<Rightarrow> pwl_cid_status_t \<Rightarrow> madpt \<Rightarrow> madpt cres" where
  "madpt_reply junk m s st =
     cbind (response_text st) (\<lambda>r.
     cbind (reply_for (cid_of (pwl_cid m)) s r) (\<lambda>rep.
       case rep of
         None \<Rightarrow> Inr st
       | Some (s', txt) \<Rightarrow>
           cbind (send_message_reply junk (pwl_cid m) PWL_MQ_ID_MADPT (sender_id m) s' txt) (\<lambda>x.
             Inr (st\<lparr>m_out := m_out st @ [x]\<rparr>))))"

text \<open>
  One turn of \<^verbatim>\<open>msg_queue_thread_func\<close>. After a restart of the process, or while \<^verbatim>\<open>mbim_init\<close>
  blocks, the rest of the turn does not happen.
\<close>

definition madpt_handle :: "nat \<Rightarrow> at_env \<Rightarrow> string \<Rightarrow> msg_buffer_t \<Rightarrow> madpt \<Rightarrow> madpt cres" where
  "madpt_handle tries env junk m st =
     cbind (print_message_info m) (\<lambda>_.
     cbind (madpt_issue tries env m (st\<lparr>g_response := zeroed PWL_MQ_MAX_RESP\<rparr>)) (\<lambda>(s, timedwait, st1).
       if m_exited st1 \<or> m_blocked st1 then Inr st1
       else cbind (madpt_await timedwait s st1) (\<lambda>(s', st2).
            cbind (mbim_error_check env True st2) (\<lambda>st3.
              madpt_reply junk m s' st3))))"

section \<open>Other threads and start-up\<close>

definition jp_fcc_thread_func :: "nat \<Rightarrow> at_env \<Rightarrow> string \<Rightarrow> cbuf \<Rightarrow> madpt \<Rightarrow> madpt cres" where
  "jp_fcc_thread_func tries env junk stack st =
     cbind (get_fw_update_status_value stack JP_FCC_CONFIG_COUNT (m_fs st)) (\<lambda>(_, v).
       let retry = (case v of None \<Rightarrow> 0 | Some n \<Rightarrow> n)
       in cbind (if retry > 0 \<and> retry < 3
                 then cbind (set_fw_update_status_value JP_FCC_CONFIG_COUNT (retry + 1) (m_fs st)) (\<lambda>(_, w).
                        jp_fcc_config tries env True False False (st\<lparr>m_fs := w\<rparr>))
                 else Inr st) (\<lambda>st1.
            if m_exited st1 \<or> m_blocked st1 then Inr st1
            else cbind (send_message_reply junk (cid_num PWL_CID_MADPT_RESTART) PWL_MQ_ID_MADPT
                          PWL_MQ_ID_FWUPDATE PWL_CID_STATUS_OK ''Madpt started'') (\<lambda>x.
                   Inr (st1\<lparr>m_out := m_out st1 @ [x]\<rparr>))))"

definition recovery_wait_thread_func :: "string \<Rightarrow> madpt \<Rightarrow> madpt cres" where
  "recovery_wait_thread_func junk st =
     cbind (wait_step st) (\<lambda>(_, st1).
     cbind (send_message_reply junk (cid_num PWL_CID_MADPT_RESTART) PWL_MQ_ID_MADPT
              PWL_MQ_ID_FWUPDATE PWL_CID_STATUS_OK ''Madpt started'') (\<lambda>x.
       Inr (st1\<lparr>m_ready := Suc (m_ready st1), m_out := m_out st1 @ [x]\<rparr>)))"

text \<open>The message \<^verbatim>\<open>send_message_queue\<close> sends; its two arrays are never written.\<close>

definition send_message_queue :: "string \<Rightarrow> string \<Rightarrow> nat \<Rightarrow> sent" where
  "send_message_queue junk_response junk_content cid =
     (CID_DESTINATION cid, \<lparr>sender_id = PWL_MQ_ID_MADPT, pwl_cid = cid, status = PWL_CID_STATUS_NONE,
        response = junk_response, content = junk_content\<rparr>)"

text \<open>The library and its two functions: \<open>lib\<close> whether one of the two names opens.\<close>

definition check_if_mbim_api_exist :: "bool \<Rightarrow> bool \<Rightarrow> bool \<Rightarrow> madpt \<Rightarrow> int \<times> madpt" where
  "check_if_mbim_api_exist lib set_new_func parse_func st =
     (if \<not> lib then (-1, st\<lparr>g_at_intf := PWL_AT_CHANNEL\<rparr>)
      else if set_new_func \<and> parse_func then (0, st\<lparr>g_at_intf := PWL_AT_OVER_MBIM_API\<rparr>)
      else (0, st\<lparr>g_at_intf := PWL_AT_CHANNEL\<rparr>))"

text \<open>\<^verbatim>\<open>main\<close> up to the threads; \<open>None\<close> for an unsupported device.\<close>

definition madpt_main ::
  "nat \<Rightarrow> at_env \<Rightarrow> (nat \<Rightarrow> shell \<times> string) \<Rightarrow> bool \<times> bool \<times> bool \<Rightarrow> queues \<Rightarrow> madpt
     \<Rightarrow> (queues \<times> madpt) option cres" where
  "madpt_main tries env boot_env api qs st =
     cbind (pwl_get_device_type_await boot_env (at_dev (m_chan st))) (\<lambda>(ty, d).
       if ty = PWL_DEVICE_TYPE_UNKNOWN then Inr None
       else let st1 = st\<lparr>m_device_type := ty, m_chan := (m_chan st)\<lparr>at_dev := d\<rparr>\<rparr>;
                qs1 = snd (pwl_discard_old_messages PWL_MQ_PATH_MADPT qs);
                (lib, f1, f2) = api;
                st2 = (if ty = PWL_DEVICE_TYPE_PCIE then snd (check_if_mbim_api_exist lib f1 f2 st1) else st1)
            in cbind (if g_at_intf st2 = PWL_AT_OVER_MBIM_API
                      then cbind (mbim_init tries env (ty = PWL_DEVICE_TYPE_USB) st2) (\<lambda>(_, st3). Inr st3)
                      else Inr st2) (\<lambda>st4.
                 Inr (Some (qs1, st4))))"

section \<open>Parsing: lemmas\<close>

definition resp_ok :: "cbuf \<Rightarrow> bool" where
  "resp_ok b \<longleftrightarrow> length b = PWL_MQ_MAX_RESP \<and> b ! (PWL_MQ_MAX_RESP - 1) = NUL"

lemma resp_ok_cstr: "resp_ok b \<Longrightarrow> \<exists>r. cstr b = Inr r \<and> length r < PWL_MQ_MAX_RESP"
proof -
  assume b: "resp_ok b"
  then have nul: "NUL \<in> set b"
    using nth_mem [of "PWL_MQ_MAX_RESP - 1" b] by (simp add: resp_ok_def PWL_MQ_MAX_RESP_def)
  moreover have "length (takeWhile (\<lambda>c. c \<noteq> NUL) b) < PWL_MQ_MAX_RESP"
    using length_takeWhile_less [of NUL b "\<lambda>c. c \<noteq> NUL"] nul b by (simp add: resp_ok_def)
  ultimately show ?thesis by (simp add: cstr_def)
qed

lemma resp_ok_zeroed: "resp_ok (zeroed PWL_MQ_MAX_RESP)"
  by (simp add: resp_ok_def zeroed_def PWL_MQ_MAX_RESP_def)

lemma resp_ok_strncpy:
  "buf_strncpy b t n = Inr b' \<Longrightarrow> resp_ok b \<Longrightarrow> n < PWL_MQ_MAX_RESP \<or> length t < PWL_MQ_MAX_RESP \<Longrightarrow> resp_ok b'"
proof -
  assume cp: "buf_strncpy b t n = Inr b'" and b: "resp_ok b"
    and n: "n < PWL_MQ_MAX_RESP \<or> length t < PWL_MQ_MAX_RESP"
  define pre where "pre = take n (t @ replicate n NUL)"
  have pre: "length pre = n" by (simp add: pre_def)
  have b': "b' = pre @ drop n b" "n \<le> 500"
    using cp b by (auto simp: buf_strncpy_def resp_ok_def pre_def PWL_MQ_MAX_RESP_def split: if_splits)
  have "b' ! 499 = NUL"
  proof (cases "n \<le> 499")
    case True
    then show ?thesis using b pre by (simp add: b'(1) nth_append resp_ok_def PWL_MQ_MAX_RESP_def)
  next
    case False
    then have "pre ! 499 = NUL" using n b'(2) by (simp add: pre_def nth_append PWL_MQ_MAX_RESP_def)
    with False pre show ?thesis by (simp add: b'(1) nth_append)
  qed
  then show ?thesis using b b' pre by (simp add: resp_ok_def PWL_MQ_MAX_RESP_def)
qed

lemma length_strcpy_cap_cut: "strcpy_cap n t = Inr u \<Longrightarrow> length (cut_at u r) < n"
  using length_cut_at [of u r] by (auto simp: strcpy_cap_def split: if_splits)

lemma copy_response_resp_ok:
  assumes "resp_ok b"
  shows "cpost (\<lambda>(p, b'). resp_ok b') (copy_response t e b)"
proof -
  have len: "length b = PWL_MQ_MAX_RESP" using assms by (simp add: resp_ok_def)
  show ?thesis
    unfolding copy_response_def len
    using resp_ok_strncpy [OF _ resp_ok_zeroed]
    by (auto intro!: cpost_cbind_any simp: PWL_MQ_MAX_RESP_def)
qed

lemma copy_version_resp_ok:
  assumes "resp_ok b"
  shows "cpost (\<lambda>(p, b'). resp_ok b') (copy_version rsp t b)"
  unfolding copy_version_def Let_def
  by (auto intro!: cpost_cbind_any dest: length_strcpy_cap_cut [where r = "[NL]"] elim!: resp_ok_strncpy [OF _ assms])

lemma at_resp_parsing_resp_ok:
  assumes "resp_ok b"
  shows "cpost (\<lambda>(p, b'). resp_ok b') (at_resp_parsing r b)"
proof (cases r)
  case None
  then show ?thesis using assms resp_ok_zeroed by (simp add: at_resp_parsing_def resp_ok_def)
next
  case (Some rsp)
  show ?thesis
    unfolding at_resp_parsing_def Some
    using copy_response_resp_ok [OF assms] copy_version_resp_ok [OF assms] assms
    by (auto simp: Let_def split: option.splits)
qed

section \<open>The transports\<close>

definition chan_inv :: "atch \<Rightarrow> bool" where
  "chan_inv c \<longleftrightarrow> atch_inv c \<and> dev_inv (at_dev c)"

text \<open>
  What \<^verbatim>\<open>at_cmd_request\<close> relies on: a request that comes back keeps the state of the channel well
  formed, and delivers a text exactly when it reports success.
\<close>

locale at_transport =
  fixes req :: "string \<Rightarrow> atch \<Rightarrow> (bool \<times> string option \<times> atch) cres"
  assumes req_inv: "chan_inv c \<Longrightarrow> cpost (\<lambda>(ok, r, c'). chan_inv c') (req cmd c)"
    and req_text: "chan_inv c \<Longrightarrow> cpost (\<lambda>(ok, r, c'). ok = (r \<noteq> None) \<and> (\<forall>t. r = Some t \<longrightarrow> length t \<le> PWL_MQ_MAX_RESP)) (req cmd c)"
begin

lemma direct_request_inv:
  assumes "chan_inv c" "resp_ok b"
  shows "cpost (\<lambda>(s, c', b'). chan_inv c' \<and> resp_ok b') (direct_request req cmd c b)"
  unfolding direct_request_def
  using assms(2)
  by (auto intro!: cpost_cbindI [OF req_inv [OF assms(1)]]
      cpost_cbindI [OF at_resp_parsing_resp_ok [OF assms(2)]])

lemma direct_request_status:
  assumes "chan_inv c" "direct_request req cmd c b = Inr (s, c', b')"
  shows "s = PWL_CID_STATUS_OK \<longleftrightarrow> (\<exists>t. req cmd c = Inr (True, Some t, c') \<and> at_resp_parsing (Some t) b = Inr (True, b'))"
proof -
  obtain ok r c1 where req: "req cmd c = Inr (ok, r, c1)"
    using assms(2) by (cases "req cmd c") (auto simp: direct_request_def)
  have ok: "ok = (r \<noteq> None)" using req_text [OF assms(1), of cmd] by (simp add: req)
  show ?thesis using assms(2) ok by (cases r) (auto simp: direct_request_def req split: if_splits)
qed

end

lemma cli_transport: "at_transport (cli_req env)"
proof
  fix c cmd assume c: "chan_inv c"
  obtain sh junk where e: "env_shell env (at_clock c) = (sh, junk)" by fastforce
  have "cpost (\<lambda>(ok, r, d). dev_inv d \<and> ok = (r \<noteq> None) \<and> (\<forall>t. r = Some t \<longrightarrow> length t < 500))
      (pwl_set_command sh junk cmd (at_dev c))"
    using c by (intro cpostI) (auto dest!: set_command_inv simp: chan_inv_def)
  then have "cpost (\<lambda>(ok, r, c'). chan_inv c' \<and> ok = (r \<noteq> None) \<and> (\<forall>t. r = Some t \<longrightarrow> length t < 500)) (cli_req env cmd c)"
    unfolding cli_req_def e Let_def prod.case
    by (rule cpost_cbindI) (use c in \<open>auto simp: chan_inv_def atch_inv_def\<close>)
  then show "cpost (\<lambda>(ok, r, c'). chan_inv c') (cli_req env cmd c)"
    and "cpost (\<lambda>(ok, r, c'). ok = (r \<noteq> None) \<and> (\<forall>t. r = Some t \<longrightarrow> length t \<le> PWL_MQ_MAX_RESP)) (cli_req env cmd c)"
    by (auto elim!: cpost_weaken simp: PWL_MQ_MAX_RESP_def)
qed

lemma channel_transport: "at_transport (pwl_atchannel_at_req env)"
proof
  fix c cmd assume c: "chan_inv c"
  show "cpost (\<lambda>(ok, r, c'). chan_inv c') (pwl_atchannel_at_req env cmd c)"
    using at_req_inv [of env cmd c] cpostD [OF at_req_dev_inv, of c env cmd] c
    by (intro cpostI) (fastforce simp: chan_inv_def)
  show "cpost (\<lambda>(ok, r, c'). ok = (r \<noteq> None) \<and> (\<forall>t. r = Some t \<longrightarrow> length t \<le> PWL_MQ_MAX_RESP)) (pwl_atchannel_at_req env cmd c)"
    using at_req_post by (simp add: PWL_MQ_MAX_RESP_def)
qed

interpretation cli: at_transport "cli_req env" for env
  by (rule cli_transport)

interpretation channel: at_transport "pwl_atchannel_at_req env" for env
  by (rule channel_transport)

section \<open>What every operation keeps\<close>

definition madpt_inv :: "madpt \<Rightarrow> bool" where
  "madpt_inv st \<longleftrightarrow> resp_ok (g_response st) \<and> chan_inv (m_chan st) \<and> length (device_package_ver st) = 15"

text \<open>\<open>good st0 st\<close>: the invariant holds in \<open>st\<close>, and since \<open>st0\<close> nothing was sent, the
  interface did not change and no hardware reset was requested.\<close>

definition good :: "madpt \<Rightarrow> madpt \<Rightarrow> bool" where
  "good st0 st \<longleftrightarrow> madpt_inv st \<and> m_out st = m_out st0 \<and> g_at_intf st = g_at_intf st0
     \<and> m_gpio_reset st = m_gpio_reset st0"

lemmas good_defs = good_def madpt_inv_def

lemma mbim_find_port_good:
  assumes "good st0 st"
  shows "cpost (\<lambda>(_, st'). good st0 st' \<and> mbim_err_cnt st' = mbim_err_cnt st) (mbim_find_port env st)"
proof -
  have dev: "dev_inv (at_dev (m_chan st))" using assms by (simp add: good_defs chan_inv_def)
  show ?thesis
    using assms unfolding mbim_find_port_def
    by (cases "env_shell env (at_clock (m_chan st))")
      (auto intro!: cpost_cbind_any dest!: find_mbim_port_inv [OF _ dev]
        simp: good_defs chan_inv_def atch_inv_def Let_def)
qed

lemma mbim_adpt_init_good:
  "good st0 st \<Longrightarrow> cpost (\<lambda>(_, st'). good st0 st') (pwl_mbimdeviceadpt_init env cb st)"
  unfolding pwl_mbimdeviceadpt_init_def
  by (rule cpost_cbindI [OF mbim_find_port_good]) (auto simp: good_defs)

lemma mbim_deinit_good: "good st0 st \<Longrightarrow> good st0 (pwl_mbimdeviceadpt_deinit st)"
  by (simp add: pwl_mbimdeviceadpt_deinit_def good_defs)

lemma mbim_port_wait_good: "good st0 st \<Longrightarrow> cpost (\<lambda>(_, st'). good st0 st') (mbim_port_wait n env st)"
proof (induction n arbitrary: st)
  case (Suc n)
  show ?case unfolding mbim_port_wait.simps
    by (rule cpost_cbindI [OF mbim_find_port_good [OF Suc.prems]]) (auto simp: Suc.IH)
qed simp

lemma mbim_at_resp_cb_good: "good st0 st \<Longrightarrow> cpost (good st0) (mbim_at_resp_cb r st)"
  unfolding mbim_at_resp_cb_def
  by (auto simp: good_defs intro!: cpost_cbindI [OF at_resp_parsing_resp_ok])

lemma deliver_good: "good st0 st \<Longrightarrow> cpost (good st0) (deliver rs st)"
proof (induction rs arbitrary: st)
  case (Cons r rs)
  show ?case unfolding deliver.simps
    by (rule cpost_cbindI [OF mbim_at_resp_cb_good [OF Cons.prems]]) (rule Cons.IH)
qed simp

lemma wait_step_good: "good st0 st \<Longrightarrow> cpost (\<lambda>(_, st'). good st0 st') (wait_step st)"
  unfolding wait_step_def
  by (auto split: list.splits intro!: cpost_cbindI [OF deliver_good] simp: good_defs)

lemma mbim_error_check_good:
  assumes "good st0 st"
  shows "cpost (good st0) (mbim_error_check env cb st)"
  unfolding mbim_error_check_def using assms
  by (auto intro!: cpost_cbindI [OF mbim_adpt_init_good [OF mbim_deinit_good [OF assms]]] simp: good_defs)

lemma mbim_error_check_bound:
  assumes "good st0 st" "g_at_intf st0 = PWL_AT_OVER_MBIM_API"
  shows "cpost (\<lambda>st'. mbim_err_cnt st' < PWL_MBIM_ERR_MAX) (mbim_error_check env cb st)"
  unfolding mbim_error_check_def using assms
  by (auto intro!: cpost_cbind_any simp: good_defs PWL_MBIM_ERR_MAX_def not_le)

lemma at_cmd_request_good:
  assumes "good st0 st"
  shows "cpost (\<lambda>(_, st'). good st0 st') (at_cmd_request env cmd st)"
proof -
  have c: "chan_inv (m_chan st)" and b: "resp_ok (g_response st)" using assms by (simp_all add: good_defs)
  show ?thesis
    unfolding at_cmd_request_def using assms
    by (auto intro!: cpost_cbindI [OF cli.direct_request_inv [OF c b]]
        cpost_cbindI [OF channel.direct_request_inv [OF c b]]
        simp: good_defs pwl_mbimdeviceadpt_at_req_def)
qed

lemma madpt_at_cmd_request_good:
  assumes "good st0 st"
  shows "cpost (\<lambda>(_, st'). good st0 st') (madpt_at_cmd_request env cmd st)"
proof -
  have "good st0 st1 \<Longrightarrow> cpost (good st0)
      (if g_at_intf st1 = PWL_AT_OVER_MBIM_API then mbim_error_check env False st1 else Inr st1)" for st1
    using mbim_error_check_good by auto
  note check = this
  show ?thesis
    unfolding madpt_at_cmd_request_def
    by (rule cpost_cbindI [OF at_cmd_request_good [OF assms]]) (auto intro!: cpost_cbindI [OF check])
qed

lemma request_cid_good:
  assumes "good st0 st"
  shows "cpost (good st0) (request_cid env c st)"
  unfolding request_cid_def
  by (rule cpost_cbind_any, rule cpost_cbindI [OF madpt_at_cmd_request_good [OF assms]]) auto

lemma good_fields [simp]:
  "good st0 (st\<lparr>m_fs := w\<rparr>) = good st0 st"
  "good st0 (st\<lparr>g_oem_pri_state := i\<rparr>) = good st0 st"
  "good st0 (st\<lparr>mbim_err_cnt := n\<rparr>) = good st0 st"
  "good st0 (st\<lparr>m_blocked := b\<rparr>) = good st0 st"
  "good st0 (st\<lparr>m_ready := k\<rparr>) = good st0 st"
  "good st0 (st\<lparr>g_exit_code := i\<rparr>) = good st0 st"
  "good st0 (st\<lparr>m_exited := b\<rparr>) = good st0 st"
  by (simp_all add: good_defs)

lemma jp_fcc_rounds_good: "good st0 st \<Longrightarrow> cpost (good st0) (jp_fcc_rounds n state env st)"
proof (induction n arbitrary: st state)
  case (Suc n)
  have tail: "cpost (good st0) (cbind (request_cid env c st2) (\<lambda>st3. cbind (wait_step st3) (\<lambda>(_, st4). jp_fcc_rounds n k env st4)))"
    if "good st0 st2" for c st2 k
    by (rule cpost_cbindI [OF request_cid_good [OF that]], rule cpost_cbindI [OF wait_step_good], assumption)
      (auto simp: Suc.IH)
  show ?case unfolding jp_fcc_rounds.simps Let_def
    by (rule cpost_cbindI [OF request_cid_good [OF Suc.prems]], rule cpost_cbindI [OF wait_step_good], assumption)
      (auto simp: Suc.IH tail intro!: cpost_cbind_any)
qed simp

lemma enable_jp_fcc_good: "good st0 st \<Longrightarrow> cpost (good st0) (enable_jp_fcc_auto_reboot env st)"
  unfolding enable_jp_fcc_auto_reboot_def by (rule jp_fcc_rounds_good)

lemma oem_reset_rounds_good: "good st0 st \<Longrightarrow> cpost (good st0) (oem_reset_rounds n state env st)"
proof (induction n arbitrary: st state)
  case (Suc n)
  show ?case unfolding oem_reset_rounds.simps Let_def
    by (rule cpost_cbindI [OF request_cid_good [OF Suc.prems]], rule cpost_cbindI [OF wait_step_good], assumption)
      (auto simp: Suc.IH intro!: cpost_cbind_any)
qed simp

lemma oem_info_rounds_good: "good st0 st \<Longrightarrow> cpost (good st0) (oem_info_rounds n env st)"
proof (induction n arbitrary: st)
  case (Suc n)
  show ?case
  proof (cases "g_oem_pri_state st = 3")
    case False
    have "cpost (good st0) (cbind (request_cid env PWL_CID_GET_OEM_PRI_INFO st) (\<lambda>st1.
        cbind (wait_step st1) (\<lambda>(_, st2). cbind (response_text st2) (\<lambda>r.
          if atoi r = 2 then wait_for_modem_oem_pri_reset env (st2\<lparr>g_oem_pri_state := atoi r\<rparr>)
          else oem_info_rounds n env (st2\<lparr>g_oem_pri_state := atoi r\<rparr>)))))"
      by (rule cpost_cbindI [OF request_cid_good [OF Suc.prems]], rule cpost_cbindI [OF wait_step_good], assumption)
        (auto simp: Suc.IH oem_reset_rounds_good wait_for_modem_oem_pri_reset_def intro!: cpost_cbind_any)
    with False show ?thesis by (simp add: Let_def)
  qed (use Suc.prems in simp)
qed simp

lemma reset_rounds_good: "good st0 st \<Longrightarrow> cpost (good st0) (reset_rounds n env st)"
proof (induction n arbitrary: st)
  case (Suc n)
  show ?case unfolding reset_rounds.simps
    by (rule cpost_cbindI [OF request_cid_good [OF Suc.prems]], rule cpost_cbindI [OF wait_step_good], assumption)
      (auto simp: Suc.IH)
qed simp

lemma port_gone_rounds_good: "good st0 st \<Longrightarrow> cpost (good st0) (port_gone_rounds n env st)"
proof (induction n arbitrary: st)
  case (Suc n)
  show ?case unfolding port_gone_rounds.simps
    by (rule cpost_cbindI [OF mbim_find_port_good [OF Suc.prems]]) (auto simp: Suc.IH)
qed simp

lemma mbim_init_loop_good: "good st0 st \<Longrightarrow> cpost (good st0) (mbim_init_loop n env cb st)"
proof (induction n arbitrary: st)
  case (Suc n)
  show ?case unfolding mbim_init_loop.simps
    by (rule cpost_cbindI [OF mbim_adpt_init_good [OF Suc.prems]]) (auto simp: Suc.IH)
qed simp

lemma mbim_init_good: "good st0 st \<Longrightarrow> cpost (\<lambda>(ok, st'). ok \<and> good st0 st') (mbim_init tries env boot st)"
  unfolding mbim_init_def by (rule cpost_cbindI [OF mbim_init_loop_good]) simp_all

lemma mbim_ready_rounds_good:
  "good st0 st \<Longrightarrow> cpost (\<lambda>(ok, st'). ok \<and> good st0 st') (mbim_ready_rounds (Suc n) tries env st)"
  unfolding mbim_ready_rounds.simps by (rule cpost_cbindI [OF mbim_init_good]) auto

lemma restart_good: "good st0 st \<Longrightarrow> good st0 (restart st)"
  by (simp add: restart_def Let_def clean_up_def mbim_deinit_good)

lemma jp_fcc_config_good:
  assumes "good st0 st"
  shows "cpost (good st0) (jp_fcc_config tries env e h r st)"
proof -
  have enable: "cpost (good st0) (if e then enable_jp_fcc_auto_reboot env st1 else Inr st1)" if "good st0 st1" for st1
    using that by (simp add: enable_jp_fcc_auto_reboot_def jp_fcc_rounds_good)
  have flash: "cpost (good st0) (if h then cbind (oem_info_rounds 11 env st2) (\<lambda>st3.
      cbind (reset_rounds 5 env st3) (\<lambda>st4. cbind (port_gone_rounds 10 env st4) (\<lambda>st5.
      cbind (pwl_mbimdeviceadpt_port_wait env st5) (\<lambda>(_, st6). Inr st6)))) else Inr st2)"
    if "good st0 st2" for st2
    using that unfolding pwl_mbimdeviceadpt_port_wait_def
    by (auto intro!: cpost_cbindI [OF oem_info_rounds_good] cpost_cbindI [OF reset_rounds_good]
        cpost_cbindI [OF port_gone_rounds_good] cpost_cbindI [OF mbim_port_wait_good])
  show ?thesis
    unfolding jp_fcc_config_def
    by (rule cpost_cbindI [OF mbim_ready_rounds_good [OF assms, of 49, simplified]], clarify, intro cpost_ifI
        cpost_cbindI [OF enable] cpost_cbindI [OF flash])
      (simp_all add: restart_good)
qed

lemma set_dpv_length: "length buf = 15 \<Longrightarrow> cpost (\<lambda>b. length b = 15) (set_dpv txt buf)"
  using length_buf_strncpy length_buf_strcpy by (intro cpostI) (fastforce simp: set_dpv_def split: if_splits)

lemma madpt_issue_good:
  assumes "good st0 st"
  shows "cpost (\<lambda>(_, _, st'). good st0 st') (madpt_issue tries env m st)"
proof -
  have req: "cpost (\<lambda>(_, _, st'). good st0 st') (cbind (at_cmd_at cid) (\<lambda>cmd.
      cbind (at_cmd_request env (f cmd) st) (\<lambda>(s, st1). Inr (s, True, st1))))" for cid f
    by (rule cpost_cbind_any, rule cpost_cbindI [OF at_cmd_request_good [OF assms]]) auto
  have dpv: "cpost (\<lambda>(_, _, st'). good st0 st') (cbind (set_dpv (content m) (device_package_ver st)) (\<lambda>dpv.
      cbind (cstr dpv) (\<lambda>ver. cbind (at_cmd_at (pwl_cid m)) (\<lambda>cmd.
      cbind (at_cmd_request env (quoted_command cmd ver) (st\<lparr>device_package_ver := dpv\<rparr>)) (\<lambda>(s, st1).
        Inr (s, True, st1))))))"
  proof (rule cpost_cbindI [OF set_dpv_length])
    show "length (device_package_ver st) = 15" using assms by (simp add: good_defs)
    fix dpv :: cbuf assume "length dpv = 15"
    then have "good st0 (st\<lparr>device_package_ver := dpv\<rparr>)" using assms by (simp add: good_defs)
    then show "cpost (\<lambda>(_, _, st'). good st0 st') (cbind (cstr dpv) (\<lambda>ver. cbind (at_cmd_at (pwl_cid m)) (\<lambda>cmd.
      cbind (at_cmd_request env (quoted_command cmd ver) (st\<lparr>device_package_ver := dpv\<rparr>)) (\<lambda>(s, st1).
        Inr (s, True, st1)))))"
      by (intro cpost_cbind_any [of "cstr dpv"] cpost_cbind_any [of "at_cmd_at (pwl_cid m)"]
          cpost_cbindI [OF at_cmd_request_good]) auto
  qed
  show ?thesis
    unfolding madpt_issue_def Let_def
    by (intro cpost_ifI req dpv cpost_cbindI [OF jp_fcc_config_good [OF assms]]
        cpost_cbindI [OF enable_jp_fcc_good [OF assms]])
      simp_all
qed

lemma madpt_await_good:
  "good st0 st \<Longrightarrow> cpost (\<lambda>(_, st'). good st0 st') (madpt_await t s st)"
  unfolding madpt_await_def by (auto intro!: cpost_cbindI [OF wait_step_good])

definition answerable :: "pwl_cid_t option \<Rightarrow> bool" where
  "answerable c \<longleftrightarrow> (case c of None \<Rightarrow> False | Some c \<Rightarrow> c \<in> set (plain_reply_cids @
     [PWL_CID_GET_ATE, PWL_CID_SWITCH_TO_FASTBOOT, PWL_CID_GET_CARRIER_ID, PWL_CID_GET_MODULE_SKU_ID,
      PWL_CID_SETUP_JP_FCC_CONFIG]))"

lemma reply_for_answered: "reply_for c s r = Inr rep \<Longrightarrow> rep \<noteq> None \<longleftrightarrow> answerable c"
  by (auto simp: reply_for_def answerable_def split: option.splits if_splits)

lemma madpt_reply_sends:
  assumes "madpt_reply junk m s st = Inr st'"
  shows "if answerable (cid_of (pwl_cid m))
    then \<exists>s' txt. length txt < 500 \<and> st' = st\<lparr>m_out := m_out st @ [(PWL_MQ_PATH (sender_id m),
        \<lparr>sender_id = PWL_MQ_ID_MADPT, pwl_cid = pwl_cid m, status = s', response = txt, content = junk\<rparr>)]\<rparr>
    else st' = st"
proof -
  obtain r rep where r: "response_text st = Inr r" "reply_for (cid_of (pwl_cid m)) s r = Inr rep"
    using assms by (auto simp: madpt_reply_def)
  show ?thesis
    using assms reply_for_answered [OF r(2)] r
    by (auto simp: madpt_reply_def send_message_reply_eq_Inr_iff PWL_MQ_MAX_RESP_def split: option.splits) blast
qed

lemma madpt_handle_steps:
  assumes "madpt_inv st" "madpt_handle tries env junk m st = Inr st'" "\<not> m_exited st'" "\<not> m_blocked st'"
  obtains s st3 where "good st st3" "madpt_reply junk m s st3 = Inr st'"
    "g_at_intf st = PWL_AT_OVER_MBIM_API \<longrightarrow> mbim_err_cnt st3 < PWL_MBIM_ERR_MAX"
proof -
  let ?st0 = "st\<lparr>g_response := zeroed PWL_MQ_MAX_RESP\<rparr>"
  have g0: "good st ?st0" using assms(1) by (simp add: good_defs resp_ok_zeroed)
  obtain s1 t st1 where st1: "madpt_issue tries env m ?st0 = Inr (s1, t, st1)"
    using assms(2) by (cases "madpt_issue tries env m ?st0") (auto simp: madpt_handle_def)
  have g1: "good st st1" using cpostD [OF madpt_issue_good [OF g0] st1] by simp
  have alive: "\<not> (m_exited st1 \<or> m_blocked st1)" using assms st1 by (auto simp: madpt_handle_def)
  obtain s2 st2 where st2: "madpt_await t s1 st1 = Inr (s2, st2)"
    using assms(2) st1 alive by (cases "madpt_await t s1 st1") (auto simp: madpt_handle_def)
  have g2: "good st st2" using cpostD [OF madpt_await_good [OF g1] st2] by simp
  obtain st3 where st3: "mbim_error_check env True st2 = Inr st3" "madpt_reply junk m s2 st3 = Inr st'"
    using assms(2) st1 st2 alive by (cases "mbim_error_check env True st2") (auto simp: madpt_handle_def)
  show thesis
    using that [of st3 s2] st3 cpostD [OF mbim_error_check_good [OF g2] st3(1)]
      cpostD [OF mbim_error_check_bound [OF g2] st3(1)] by blast
qed

section \<open>Properties\<close>

text \<open>C29: a request is answered exactly once: when a turn of the message loop completes and the
  process does not restart, a request of a kind that has an answer makes the service send one
  message, to the queue of the sender and with the command of the request; any other message
  makes it send nothing. The invariant of the buffers is kept.\<close>

theorem madpt_replies_once:
  assumes "madpt_inv st" "madpt_handle tries env junk m st = Inr st'" "\<not> m_exited st'" "\<not> m_blocked st'"
  shows "madpt_inv st' \<and>
    (if answerable (cid_of (pwl_cid m))
     then \<exists>s txt. length txt < 500 \<and> m_out st' = m_out st @ [(PWL_MQ_PATH (sender_id m),
        \<lparr>sender_id = PWL_MQ_ID_MADPT, pwl_cid = pwl_cid m, status = s, response = txt, content = junk\<rparr>)]
     else m_out st' = m_out st)"
proof -
  obtain s st3 where g: "good st st3" "madpt_reply junk m s st3 = Inr st'"
    using madpt_handle_steps [OF assms] by blast
  from madpt_reply_sends [OF g(2)] g(1) show ?thesis by (auto simp: good_defs split: if_splits)
qed

definition madpt_start :: "pwl_at_intf_t \<Rightarrow> (string list \<times> bool) list \<Rightarrow> madpt" where
  "madpt_start intf script = \<lparr>g_at_intf = intf, m_device_type = PWL_DEVICE_TYPE_USB, mbim_err_cnt = 0,
     g_response = zeroed PWL_MQ_MAX_RESP, g_oem_pri_state = -1, g_exit_code = 0, gp_loop = True,
     g_device_opened = True, g_ready_cb = True, device_package_ver = zeroed 15,
     m_chan = atch_fresh usb_module_dev, m_fs = fw_fresh, m_script = script, m_reqs = [], m_out = [],
     m_ready = 0, m_gpio_reset = 0, m_exited = False, m_blocked = False\<rparr>"

lemma madpt_start_inv: "madpt_inv (madpt_start intf script)"
  by (simp add: madpt_inv_def madpt_start_def resp_ok_zeroed chan_inv_def atch_inv_def atch_fresh_def
      dev_inv_def usb_module_dev_def dev_init_def)

definition ati_request :: msg_buffer_t where
  "ati_request = \<lparr>sender_id = PWL_MQ_ID_FWUPDATE, pwl_cid = 18, status = PWL_CID_STATUS_NONE,
     response = [], content = []\<rparr>"

lemma cstr_zeroed: "0 < n \<Longrightarrow> cstr (zeroed n) = Inr []"
  by (cases n) (simp_all add: cstr_def zeroed_def)

lemma cid_18: "cid_of 18 = Some PWL_CID_GET_ATI" by code_simp
lemma at_cmd_18: "at_cmd_at 18 = Inr ''ati''" by code_simp

lemma err_below: "\<not> PWL_MBIM_ERR_MAX \<le> 1"
  by (simp add: PWL_MBIM_ERR_MAX_def word_le_nat_alt)

lemma example_madpt_turn:
  "madpt_handle 1 example_at_env [] ati_request (madpt_start PWL_AT_OVER_MBIM_API []) =
     Inr ((madpt_start PWL_AT_OVER_MBIM_API [])\<lparr>mbim_err_cnt := 1, m_reqs := [(False, ''ati'' @ [CR, NL])],
       m_out := [(''/pwl_fwupdate'', \<lparr>sender_id = PWL_MQ_ID_MADPT, pwl_cid = 18,
         status = PWL_CID_STATUS_TIMEOUT, response = [], content = []\<rparr>)]\<rparr>)"
  by (simp add: madpt_handle_def ati_request_def print_message_info_def cid_name_at_ok madpt_issue_def
      cid_18 at_cmd_18 at_cmd_request_def madpt_start_def pwl_mbimdeviceadpt_at_req_def madpt_await_def
      wait_step_def mbim_error_check_def err_below madpt_reply_def response_text_def
      cstr_zeroed reply_for_def plain_reply_cids_def send_message_reply_def strcpy_cap_def
      PWL_MQ_MAX_RESP_def PWL_MQ_PATH_def PWL_MQ_PATH_FWUPDATE_def)

theorem madpt_replies_once_witness:
  "answerable (Some PWL_CID_GET_ATI) \<and> (\<exists>st'. madpt_handle 1 example_at_env [] ati_request
      (madpt_start PWL_AT_OVER_MBIM_API []) = Inr st' \<and> madpt_inv st' \<and> length (m_out st') = 1)"
  using madpt_replies_once [OF madpt_start_inv example_madpt_turn] example_madpt_turn
  by (simp add: madpt_start_def answerable_def plain_reply_cids_def)

text \<open>With the MBIM interface the error counter is below its limit whenever a turn of the
  message loop ends, whatever the callbacks reported during it.\<close>

theorem madpt_error_count_bounded:
  assumes "madpt_inv st" "madpt_handle tries env junk m st = Inr st'" "\<not> m_exited st'" "\<not> m_blocked st'"
    and "g_at_intf st = PWL_AT_OVER_MBIM_API"
  shows "mbim_err_cnt st' < PWL_MBIM_ERR_MAX"
proof -
  obtain s st3 where g: "madpt_reply junk m s st3 = Inr st'" "mbim_err_cnt st3 < PWL_MBIM_ERR_MAX"
    using madpt_handle_steps [OF assms(1-4)] assms(5) by blast
  from madpt_reply_sends [OF g(1)] g(2) show ?thesis by (auto split: if_splits)
qed

theorem madpt_error_count_bounded_witness:
  "\<exists>st'. madpt_handle 1 example_at_env [] ati_request (madpt_start PWL_AT_OVER_MBIM_API []) = Inr st'
     \<and> mbim_err_cnt st' < PWL_MBIM_ERR_MAX"
  using madpt_error_count_bounded [OF madpt_start_inv example_madpt_turn] example_madpt_turn
  by (simp add: madpt_start_def)

text \<open>The table of AT commands is aligned with the numbers of the requests: each request of
  the module group selects its own command, and only the two requests that are handled without
  a command of their own lie behind the end of the table.\<close>

theorem at_cmd_map_aligned:
  "at_cmd_at (cid_num PWL_CID_GET_CIMI) = Inr ''at+cimi''
   \<and> at_cmd_at (cid_num PWL_CID_SWITCH_TO_FASTBOOT) = Inr ''at*bboothold''
   \<and> at_cmd_at (cid_num PWL_CID_SET_PREF_CARRIER) = Inr ''at*bimpref=''
   \<and> at_cmd_at (cid_num PWL_CID_SET_OEM_PRI_VERSION) = Inr ''at*mdpver=''
   \<and> at_cmd_at (cid_num PWL_CID_GET_CARRIER_ID) = Inr ''at+esbp?''
   \<and> at_cmd_at (cid_num PWL_CID_RESTORE_SN) = Inr ''at*msnrw=''
   \<and> at_cmd_at (cid_num PWL_CID_RESTORE_IMEI) = Inr ''at*mimei=''
   \<and> (at_cmd_at (cid_num c) = Inl OutOfBounds \<longleftrightarrow> c = PWL_CID_MADPT_RESTART \<or> c = PWL_CID_SETUP_JP_FCC_CONFIG)"
proof -
  have "list_all (\<lambda>c. (ATCMD_INDEX_MAP (cid_num c) < 30) \<longleftrightarrow>
      c \<noteq> PWL_CID_MADPT_RESTART \<and> c \<noteq> PWL_CID_SETUP_JP_FCC_CONFIG) cid_enum" by code_simp
  moreover have "length at_cmd_map = 30" by (simp add: at_cmd_map_def)
  ultimately have "at_cmd_at (cid_num c) = Inl OutOfBounds \<longleftrightarrow>
      c = PWL_CID_MADPT_RESTART \<or> c = PWL_CID_SETUP_JP_FCC_CONFIG"
    using cid_enum_complete [of c] by (auto simp: at_cmd_at_def list_all_iff)
  moreover have "at_cmd_at (cid_num PWL_CID_GET_CIMI) = Inr ''at+cimi''"
    "at_cmd_at (cid_num PWL_CID_SWITCH_TO_FASTBOOT) = Inr ''at*bboothold''"
    "at_cmd_at (cid_num PWL_CID_SET_PREF_CARRIER) = Inr ''at*bimpref=''"
    "at_cmd_at (cid_num PWL_CID_SET_OEM_PRI_VERSION) = Inr ''at*mdpver=''"
    "at_cmd_at (cid_num PWL_CID_GET_CARRIER_ID) = Inr ''at+esbp?''"
    "at_cmd_at (cid_num PWL_CID_RESTORE_SN) = Inr ''at*msnrw=''"
    "at_cmd_at (cid_num PWL_CID_RESTORE_IMEI) = Inr ''at*mimei=''"
    by code_simp+
  ultimately show ?thesis by blast
qed

text \<open>The initialisation of the MBIM device never reports a failure, so the configuration
  after a flash never takes its fallback, the hardware reset, however many rounds it allows.\<close>

theorem jp_fcc_config_no_gpio_reset:
  assumes "madpt_inv st" "jp_fcc_config tries env enable_jp_fcc has_flash_oem efs_recovery_mode st = Inr st'"
  shows "m_gpio_reset st' = m_gpio_reset st \<and> m_out st' = m_out st \<and> madpt_inv st'"
proof -
  have "good st st" using assms(1) by (simp add: good_def)
  from cpostD [OF jp_fcc_config_good [OF this] assms(2)] show ?thesis by (simp add: good_def)
qed

definition silent_env :: at_env where
  "silent_env = \<lparr>env_shell = \<lambda>_. (\<lambda>_. None, []), env_tty = \<lambda>_ _. example_tty []\<rparr>"

lemma example_jp_fcc_config:
  "\<exists>st'. jp_fcc_config 3 silent_env False True False (madpt_start PWL_AT_OVER_MBIM_API []) = Inr st' \<and> m_blocked st'"
proof -
  have find: "mbim_find_port silent_env st = Inr (False, st\<lparr>m_chan := (m_chan st)\<lparr>at_clock := Suc (at_clock (m_chan st))\<rparr>\<rparr>)"
    if "at_dev (m_chan st) = usb_module_dev" for st
    using that by (simp add: mbim_find_port_def silent_env_def pwl_find_mbim_port_def
        pwl_get_device_type_def usb_module_dev_def Let_def)
  show ?thesis
    by (simp add: jp_fcc_config_def mbim_init_def pwl_mbimdeviceadpt_init_def find madpt_start_def
        atch_fresh_def numeral_eq_Suc)
qed

theorem jp_fcc_config_no_gpio_reset_witness:
  "\<exists>st'. jp_fcc_config 3 silent_env False True False (madpt_start PWL_AT_OVER_MBIM_API []) = Inr st'
     \<and> m_blocked st' \<and> m_gpio_reset st' = 0"
  using example_jp_fcc_config jp_fcc_config_no_gpio_reset [OF madpt_start_inv]
  by (fastforce simp: madpt_start_def)

text \<open>From a response made of an optional echo of the command, a body and the terminating
  empty line with \<^verbatim>\<open>OK\<close>, parsing leaves exactly the body in the zero-filled buffer.\<close>

theorem at_resp_parsing_body:
  assumes "rsp = echo @ body @ [CR, NL, CR, NL] @ ''OK'' @ rest"
    and "echo = [] \<and> \<not> prefix ''at+'' rsp \<and> \<not> prefix ''at*'' rsp
       \<or> (prefix ''at+'' echo \<or> prefix ''at*'' echo) \<and> last echo = NL \<and> NL \<notin> set (butlast echo)"
    and "body \<noteq> []" "hd body \<noteq> NL" "length rsp < length buff"
    and "\<not> sublist ([CR, NL, CR, NL] @ ''OK'') (echo @ body @ [CR, NL, CR, NL, CHR ''O''])"
  shows "at_resp_parsing (Some rsp) buff = Inr (True, body @ replicate (length buff - length body) NUL)"
proof -
  let ?t = "[CR, NL, CR, NL] @ ''OK''"
  have found: "strstr rsp ?t = Some (?t @ rest)"
    using strstr_append_skip [of ?t "echo @ body" rest] assms(6) by (simp add: assms(1))
  have cmp: "strncmp_eq rsp ''at+'' 3 \<longleftrightarrow> prefix ''at+'' rsp" "strncmp_eq rsp ''at*'' 3 \<longleftrightarrow> prefix ''at*'' rsp"
    using strncmp_eq_prefix [of rsp "''at+''"] strncmp_eq_prefix [of rsp "''at*''"] by (simp_all add: numeral_eq_Suc)
  have skip: "dropWhile (\<lambda>c. c = NL) (body @ xs) = body @ xs" for xs
    using assms(3,4) by (cases body) auto
  have start: "response_start rsp = Some (body @ ?t @ rest)"
  proof (cases "echo = []")
    case True
    with assms(1,2) cmp skip show ?thesis by (auto simp: response_start_def)
  next
    case False
    with assms(2) have e: "prefix ''at+'' echo \<or> prefix ''at*'' echo" "echo = butlast echo @ [NL]"
      "NL \<notin> set (butlast echo)"
      by (metis prefix_bot.extremum_unique list.distinct(1), metis append_butlast_last_id, blast)
    have line: "strstr (xs @ NL # ys) [NL] = Some (NL # ys)" if "NL \<notin> set xs" for xs ys
      using that by (induction xs) auto
    have "strstr rsp [NL] = Some (NL # body @ ?t @ rest)"
      using line [OF e(3), of "body @ ?t @ rest"] e(2) by (metis append.assoc append_Cons append_Nil assms(1))
    moreover have "prefix ''at+'' rsp \<or> prefix ''at*'' rsp"
      using e(1) by (auto simp: assms(1) intro: prefix_prefix)
    ultimately show ?thesis using cmp skip by (auto simp: response_start_def)
  qed
  have copy: "copy_response (body @ ?t @ rest) (int (length body)) buff
      = Inr (True, body @ replicate (length buff - length body) NUL)"
    using assms(1,3,5) by (simp add: copy_response_def buf_strncpy_def zeroed_def)
  have len: "int (length rsp) - int (length (?t @ rest)) - (int (length rsp) - int (length (body @ ?t @ rest)))
      = int (length body)" by simp
  show ?thesis by (simp only: at_resp_parsing_def found start Let_def option.case len copy)
qed

theorem at_resp_parsing_body_witness:
  "at_resp_parsing (Some (''at*bsku?'' @ [NL] @ ''4131002'' @ [CR, NL, CR, NL] @ ''OK'')) (zeroed 40)
    = Inr (True, ''4131002'' @ replicate 33 NUL)"
proof -
  have "\<not> sublist ([CR, NL, CR, NL] @ ''OK'')
      (''at*bsku?'' @ [NL] @ ''4131002'' @ [CR, NL, CR, NL, CHR ''O''])"
    by (simp add: strstr_eq_None_iff [symmetric])
  then show ?thesis
    using at_resp_parsing_body [of _ "''at*bsku?'' @ [NL]" "''4131002''" "[]" "zeroed 40"] by simp
qed

text \<open>When the echoed command line itself contains \<^verbatim>\<open>OK\<close> and no terminating empty line
  follows, the end of the response lies before its start: the length becomes negative and the
  copy leaves the buffer.\<close>

theorem at_resp_parsing_early_ok:
  assumes "rsp = echo @ [NL] @ body" "prefix ''at+'' echo \<or> prefix ''at*'' echo"
    and "NL \<notin> set echo" "strstr echo ''OK'' \<noteq> None" "strstr rsp ([CR, NL, CR, NL] @ ''OK'') = None"
    and "strstr rsp ''ERROR'' = None" "length rsp < length buff"
  shows "at_resp_parsing (Some rsp) buff = Inl Overflow"
proof -
  have cmp: "strncmp_eq rsp ''at+'' 3 \<longleftrightarrow> prefix ''at+'' rsp" "strncmp_eq rsp ''at*'' 3 \<longleftrightarrow> prefix ''at*'' rsp"
    using strncmp_eq_prefix [of rsp "''at+''"] strncmp_eq_prefix [of rsp "''at*''"] by (simp_all add: numeral_eq_Suc)
  have line: "strstr (xs @ NL # ys) [NL] = Some (NL # ys)" if "NL \<notin> set xs" for xs ys
    using that by (induction xs) auto
  let ?start = "dropWhile (\<lambda>c. c = NL) body"
  have start: "response_start rsp = Some ?start"
    using assms(1,2) cmp line [OF assms(3), of body] prefix_prefix by (auto simp: response_start_def)
  have early: "\<exists>u. strstr (xs @ ys) n = Some (u @ ys) \<and> length u \<le> length xs" if "strstr xs n \<noteq> None" for xs ys n
    using that
  proof (induction xs)
    case Nil
    then show ?case by (cases ys) (auto split: if_splits)
  next
    case (Cons x xs)
    show ?case
    proof (cases "prefix n (x # xs)")
      case True
      then have "prefix n ((x # xs) @ ys)" by (rule prefix_prefix)
      then show ?thesis by (intro exI [of _ "x # xs"]) simp
    next
      case False
      with Cons have "strstr xs n \<noteq> None" by simp
      with Cons.IH obtain u where u: "strstr (xs @ ys) n = Some (u @ ys)" "length u \<le> length xs" by blast
      show ?thesis
      proof (cases "prefix n (x # xs @ ys)")
        case True
        then show ?thesis by (intro exI [of _ "x # xs"]) simp
      qed (use u in \<open>auto intro!: exI [of _ u]\<close>)
    qed
  qed
  obtain u where u: "strstr rsp ''OK'' = Some (u @ NL # body)" "length u \<le> length echo"
    using early [OF assms(4), of "NL # body"] assms(1) by auto
  have "length ?start \<le> length body" by (rule dropWhile_length_le)
  then have "copy_response ?start (int (length rsp) - int (length (u @ NL # body))
      - (int (length rsp) - int (length ?start))) buff = Inl Overflow"
    using assms(7) by (auto simp: copy_response_def assms(1))
  then show ?thesis
    using assms(5,6) start u(1) by (simp add: at_resp_parsing_def Let_def)
qed

theorem at_resp_parsing_early_ok_witness:
  "at_resp_parsing (Some (''at*mdpver=BOOK'' @ [NL] @ ''done'')) (zeroed 40) = Inl Overflow"
  by (rule at_resp_parsing_early_ok [of _ "''at*mdpver=BOOK''" "''done''"]) simp_all

text \<open>A carrier answer that carries the keyword but no comma makes the service copy from a
  null pointer into the reply.\<close>

theorem carrier_id_reply_no_comma:
  assumes "strstr r ''ESBP'' \<noteq> None" "CHR '','' \<notin> set r"
  shows "carrier_id_reply s r = Inl NullDeref"
proof -
  have "r \<noteq> []" using assms(1) by auto
  then have "strtok_all '','' r = [r]" using assms(2) by (intro strtok_all_last) auto
  with assms(1) \<open>r \<noteq> []\<close> show ?thesis by (auto simp: carrier_id_reply_def)
qed

theorem carrier_id_reply_no_comma_witness: "carrier_id_reply PWL_CID_STATUS_OK ''+ESBP: 7'' = Inl NullDeref"
  by (rule carrier_id_reply_no_comma) simp_all

text \<open>After a restart the service attempts the JP FCC configuration only while the recorded
  count is 1 or 2, and records the next count before it starts, so at most two attempts follow
  one another; otherwise it only reports that it has started.\<close>

theorem jp_fcc_thread_func_retry:
  assumes "store_inv FW_UPDATE_STATUS_RECORD (m_fs st)"
    and "store_abs FW_UPDATE_STATUS_RECORD (m_fs st) JP_FCC_CONFIG_COUNT = Some v" "stack_ok stack"
    and "\<not> m_exited st" "\<not> m_blocked st"
  shows "if v = 1 \<or> v = 2
    then \<exists>w. store_inv FW_UPDATE_STATUS_RECORD w
      \<and> store_abs FW_UPDATE_STATUS_RECORD w = (store_abs FW_UPDATE_STATUS_RECORD (m_fs st))(JP_FCC_CONFIG_COUNT \<mapsto> v + 1)
      \<and> (\<forall>st1. jp_fcc_config tries env True False False (st\<lparr>m_fs := w\<rparr>) = Inr st1 \<and> m_exited st1
           \<longrightarrow> jp_fcc_thread_func tries env junk stack st = Inr st1)
    else jp_fcc_thread_func tries env junk stack st =
      Inr (st\<lparr>m_out := m_out st @ [(PWL_MQ_PATH_FWUPDATE, \<lparr>sender_id = PWL_MQ_ID_MADPT,
        pwl_cid = cid_num PWL_CID_MADPT_RESTART, status = PWL_CID_STATUS_OK,
        response = ''Madpt started'', content = junk\<rparr>)]\<rparr>)"
proof -
  note get = fw_status.get_abs [OF assms(1-3)]
  have cid: "cid_num PWL_CID_MADPT_RESTART < 48" by code_simp
  have reply: "send_message_reply junk (cid_num PWL_CID_MADPT_RESTART) PWL_MQ_ID_MADPT PWL_MQ_ID_FWUPDATE
      PWL_CID_STATUS_OK ''Madpt started'' = Inr (PWL_MQ_PATH_FWUPDATE, \<lparr>sender_id = PWL_MQ_ID_MADPT,
        pwl_cid = cid_num PWL_CID_MADPT_RESTART, status = PWL_CID_STATUS_OK,
        response = ''Madpt started'', content = junk\<rparr>)"
    using cid by (simp add: send_message_reply_eq_Inr_iff PWL_MQ_MAX_RESP_def PWL_MQ_PATH_def)
  show ?thesis
  proof (cases "v = 1 \<or> v = 2")
    case True
    then have "val_ok (v + 1)" by (auto simp: val_ok_def)
    then obtain w where w: "set_fw_update_status_value JP_FCC_CONFIG_COUNT (v + 1) (m_fs st) = Inr (0, w)"
      "store_inv FW_UPDATE_STATUS_RECORD w"
      "store_abs FW_UPDATE_STATUS_RECORD w = (store_abs FW_UPDATE_STATUS_RECORD (m_fs st))(JP_FCC_CONFIG_COUNT \<mapsto> v + 1)"
      using fw_status.set_abs [OF assms(1), of JP_FCC_CONFIG_COUNT "v + 1"] assms(2) by blast
    have "\<forall>st1. jp_fcc_config tries env True False False (st\<lparr>m_fs := w\<rparr>) = Inr st1 \<and> m_exited st1
        \<longrightarrow> jp_fcc_thread_func tries env junk stack st = Inr st1"
      using True by (auto simp: jp_fcc_thread_func_def get w(1))
    with True w show ?thesis by auto
  next
    case False
    then consider "v \<le> 0" | "3 \<le> v" by linarith
    then show ?thesis
      by cases (use False assms(4,5) reply in \<open>simp_all add: jp_fcc_thread_func_def get\<close>)
  qed
qed

theorem jp_fcc_thread_func_retry_witness:
  "jp_fcc_thread_func 1 silent_env [] (zeroed 5) (madpt_start PWL_AT_OVER_MBIM_API []) =
     Inr ((madpt_start PWL_AT_OVER_MBIM_API [])\<lparr>m_out := [(PWL_MQ_PATH_FWUPDATE, \<lparr>sender_id = PWL_MQ_ID_MADPT,
        pwl_cid = cid_num PWL_CID_MADPT_RESTART, status = PWL_CID_STATUS_OK,
        response = ''Madpt started'', content = []\<rparr>)]\<rparr>)"
  using jp_fcc_thread_func_retry [of "madpt_start PWL_AT_OVER_MBIM_API []" 0 "zeroed 5" 1 silent_env "[]"]
  by (simp add: madpt_start_def fw_fresh_inv fw_fresh_abs fw_init_kvs_def key_defs stack_ok_zeroed)

end
