(* ===== verification/Pref.thy ===== *)
theory Pref
  imports Common_Device Common_Status
begin

text \<open>
  The preference service, \<^verbatim>\<open>pwl-pref/pwl_pref.c\<close>: it keeps what the other services p_ask for
  (manufacturer, SKU, firmware versions, SIM carrier, backup of serial number and IMEI), obtains it
  from the module adapter and reacts to the signals of the core service.

  The globals of the file are the fields of the record \<open>pref\<close>. The message thread
  (\<open>pref_handle\<close>, one turn of \<^verbatim>\<open>msg_queue_thread_func\<close>) runs beside the signal callbacks: while a
  callback waits on the condition variable, the next entry of \<open>p_script\<close> says which messages the
  thread handles meanwhile and whether the wait is signalled; an empty script is a timeout. A
  version string that the code keeps in allocated memory is a pair of the allocated size and the
  string.
\<close>

section \<open>State\<close>

type_synonym vbuf = "(nat \<times> string) option"

record pref =
  p_device_type :: pwl_device_type_t
  g_main_fw_version :: vbuf
  g_ap_version :: vbuf
  g_carrier_version :: vbuf
  g_oem_version :: vbuf
  g_modem_version :: vbuf
  g_op_version :: vbuf
  g_dpv_version :: vbuf
  g_sn_imei :: string
  g_mnc_len :: int
  g_sim_carrier :: string
  g_pref_carrier :: cbuf
  g_is_get_cimi :: bool
  g_is_sim_insert :: bool
  g_set_pref_carrier_ret :: bool
  g_check_sim_carrier_on_going :: bool
  g_need_cxp_reboot :: bool
  g_sim_ready_state :: int
  g_pref_carrier_id :: int
  g_current_carrier_id :: int
  g_manufacturer :: string
  g_skuid :: string
  g_fwver :: string
  p_fs :: fs
  p_out :: "sent list"
  p_script :: "(msg_buffer_t list \<times> bool) list"
  p_update_checks :: nat

definition MAX_PATH :: nat where "MAX_PATH = 260"
definition MAX_PCIE_VERSION_LENGTH :: nat where "MAX_PCIE_VERSION_LENGTH = 512"
definition MAX_PCIE_AP_VERSION_LENGTH :: nat where "MAX_PCIE_AP_VERSION_LENGTH = 10"
definition SBP_ID_GENERIC :: int where "SBP_ID_GENERIC = 65535"
definition PREFERRED_CARRIER_ID_FILE :: string where
  "PREFERRED_CARRIER_ID_FILE = ''/opt/pwl/preferred_carrier_id''"
definition SN_IMEI_INFO_RECORD :: string where "SN_IMEI_INFO_RECORD = ''/opt/pwl/sn_imei_info''"
definition MCC_MNC_LIST :: string where "MCC_MNC_LIST = ''/opt/pwl/mcc_mnc_list.csv''"

text \<open>\<^verbatim>\<open>g_cxp_carrier_list\<close>: ATT, TMO, Verizon, Sprint, USCC, CMCC, CU, CT, DOCOMO, SoftBank, KDDI,
  KT, SKT, UPlus, FirstNet.\<close>

definition g_cxp_carrier_list :: "int list" where
  "g_cxp_carrier_list = [7, 8, 12, 20, 236, 1, 2, 9, 17, 50, 129, 114, 115, 116, 196]"

text \<open>
  The parts of the environment that C leaves open: the unwritten arrays of an outgoing message, the
  bytes behind a short response, the initial value of the row counter.
\<close>

record pjunk =
  j_response :: string
  j_content :: string
  j_tail :: string
  j_line :: int

section \<open>Versions\<close>

text \<open>\<^verbatim>\<open>strcpy\<close> into an allocated version string, cut at the newline.\<close>

definition vbuf_store :: "vbuf \<Rightarrow> string \<Rightarrow> vbuf cres" where
  "vbuf_store v s =
     (case v of
        None \<Rightarrow> Inl NullDeref
      | Some (n, _) \<Rightarrow> cbind (strcpy_cap n s) (\<lambda>t. Inr (Some (n, cut_at t [NL]))))"

definition vbuf_alloc :: "nat \<Rightarrow> vbuf" where
  "vbuf_alloc n = Some (n, [])"

definition vbuf_filled :: "vbuf \<Rightarrow> bool" where
  "vbuf_filled v \<longleftrightarrow> (case v of None \<Rightarrow> False | Some (_, s) \<Rightarrow> length s > 0)"

definition split_pcie_device_versions :: "string \<Rightarrow> pref \<Rightarrow> pref cres" where
  "split_pcie_device_versions sw_version st =
     (if length sw_version \<le> 0 then Inr st
      else case strstr sw_version ''RMM'' of
             None \<Rightarrow> Inr st
           | Some temp \<Rightarrow>
               cbind (strcpy_cap MAX_PCIE_VERSION_LENGTH temp) (\<lambda>full_version.
               case strtok_all ''_'' full_version of
                 [] \<Rightarrow> Inr st
               | md # ts \<Rightarrow>
                   (case g_modem_version st of
                      None \<Rightarrow> Inl NullDeref
                    | Some (n, _) \<Rightarrow>
                        cbind (strcpy_cap n md) (\<lambda>md'.
                        let st1 = st\<lparr>g_modem_version := Some (n, md')\<rparr>
                        in case ts of
                             [] \<Rightarrow> Inr st1
                           | ap # _ \<Rightarrow>
                               (case g_ap_version st1 of
                                  None \<Rightarrow> Inl NullDeref
                                | Some (k, cur) \<Rightarrow>
                                    if length cur = 0
                                    then cbind (vbuf_store (g_ap_version st1) ap) (\<lambda>v. Inr (st1\<lparr>g_ap_version := v\<rparr>))
                                    else Inr st1)))))"

definition vbuf_dup :: "string \<Rightarrow> vbuf" where
  "vbuf_dup s = Some (length s + 1, s)"

definition split_fw_versions :: "string \<Rightarrow> pref \<Rightarrow> pref" where
  "split_fw_versions fw_version st =
     (let st0 = st\<lparr>g_main_fw_version := None, g_ap_version := None, g_carrier_version := None, g_oem_version := None\<rparr>
      in case strtok_all ''_'' fw_version of
           v0 # v1 # v2 # v3 # _ \<Rightarrow>
             st0\<lparr>g_main_fw_version := vbuf_dup v0, g_ap_version := vbuf_dup v1,
                 g_carrier_version := vbuf_dup v2, g_oem_version := vbuf_dup v3\<rparr>
         | _ \<Rightarrow> st0)"

section \<open>Carriers\<close>

text \<open>The preferred carrier id: the last line of the file decides; an empty file changes nothing.\<close>

definition get_preferred_carrier_id :: "pref \<Rightarrow> pref" where
  "get_preferred_carrier_id st =
     (case fopen_r (p_fs st) PREFERRED_CARRIER_ID_FILE of
        None \<Rightarrow> st\<lparr>g_pref_carrier_id := SBP_ID_GENERIC\<rparr>
      | Some txt \<Rightarrow>
          fold (\<lambda>l s. s\<lparr>g_pref_carrier_id := (if length l > 0 then atoi l else SBP_ID_GENERIC)\<rparr>)
            (fgets_lines 255 txt) st)"

definition set_preferred_carrier_id :: "int \<Rightarrow> pref \<Rightarrow> int \<times> pref" where
  "set_preferred_carrier_id carrier_id st =
     (if can_write (p_fs st) PREFERRED_CARRIER_ID_FILE
      then (0, st\<lparr>p_fs := write_file PREFERRED_CARRIER_ID_FILE (show_int carrier_id) (p_fs st)\<rparr>)
      else (-1, st))"

definition is_cxp_carrier :: "int \<Rightarrow> bool" where
  "is_cxp_carrier carrier_id \<longleftrightarrow> list_ex (\<lambda>c. carrier_id = c) g_cxp_carrier_list"

definition is_need_cxp_reboot :: "int \<Rightarrow> int \<Rightarrow> bool" where
  "is_need_cxp_reboot cur pre =
     (if cur = pre then False
      else if \<not> is_cxp_carrier cur \<and> \<not> is_cxp_carrier pre then False
      else if (\<not> is_cxp_carrier pre \<and> is_cxp_carrier cur) \<or> (is_cxp_carrier pre \<and> is_cxp_carrier cur)
              \<or> (is_cxp_carrier pre \<and> \<not> is_cxp_carrier cur) then True
      else False)"

text \<open>
  The search in the list of network codes. A row with more than four fields writes behind
  \<^verbatim>\<open>carrier_config[4]\<close>; a field that the row lacks is a pointer left from an earlier row, or
  none, and reading it ends the model with \<open>Uninitialised\<close>.
  The result is the carrier name of the first matching row.
\<close>

definition row_field :: "string list \<Rightarrow> nat \<Rightarrow> string cres" where
  "row_field ts i = (if i < length ts then Inr (ts ! i) else Inl Uninitialised)"

fun search_carrier :: "int \<Rightarrow> string \<Rightarrow> string \<Rightarrow> string list \<Rightarrow> string option cres" where
  "search_carrier line mcc mnc [] = Inr None"
| "search_carrier line mcc mnc (buffer # rows) =
     (if line + 1 = 1 then search_carrier (line + 1) mcc mnc rows
      else let ts = strtok_all '','' buffer
           in if length ts > 4 then Inl OutOfBounds
              else cbind (row_field ts 0) (\<lambda>c0.
                   if mcc \<noteq> c0 then search_carrier (line + 1) mcc mnc rows
                   else cbind (row_field ts 1) (\<lambda>c1.
                        if mnc \<noteq> c1 then search_carrier (line + 1) mcc mnc rows
                        else cbind (row_field ts 2) (\<lambda>c2.
                             cbind (strcpy_cap 15 c2) (\<lambda>nm. Inr (Some nm))))))"

definition get_carrier_from_sim :: "int \<Rightarrow> string \<Rightarrow> string \<Rightarrow> pref \<Rightarrow> pref cres" where
  "get_carrier_from_sim line mcc mnc st =
     (case fopen_r (p_fs st) MCC_MNC_LIST of
        None \<Rightarrow> Inr (st\<lparr>g_sim_carrier := PWL_UNKNOWN_SIM_CARRIER\<rparr>)
      | Some txt \<Rightarrow>
          cbind (search_carrier line mcc mnc (fgets_lines 255 txt)) (\<lambda>r.
            Inr (st\<lparr>g_sim_carrier := (case r of Some nm \<Rightarrow> nm | None \<Rightarrow> ''Generic'')\<rparr>)))"

section \<open>The backup of serial number and IMEI\<close>

definition backup_save :: "string \<Rightarrow> pref \<Rightarrow> int \<times> pref" where
  "backup_save input st =
     (if can_write (p_fs st) SN_IMEI_INFO_RECORD
      then (0, st\<lparr>p_fs := write_file SN_IMEI_INFO_RECORD (input @ [NL]) (p_fs st)\<rparr>)
      else (-1, st))"

definition backup_load :: "pref \<Rightarrow> int \<times> pref" where
  "backup_load st =
     (case fopen_r (p_fs st) SN_IMEI_INFO_RECORD of
        None \<Rightarrow> (-1, st)
      | Some txt \<Rightarrow>
          (case fgets 128 txt of
             None \<Rightarrow> (-1, st)
           | Some line \<Rightarrow> (0, st\<lparr>g_sn_imei := take (SN_MAX_LENGTH + IMEI_MAX_LENGTH - 1) (trim_string line)\<rparr>)))"

definition handle_sn_imei_backup_file :: "nat \<Rightarrow> string \<Rightarrow> pref \<Rightarrow> int \<times> pref" where
  "handle_sn_imei_backup_file action input st =
     (if action = 0 then backup_save input st
      else if action = 1 then backup_load st
      else (-1, st))"

section \<open>Sending\<close>

definition p_send_message_queue :: "pjunk \<Rightarrow> pwl_cid_t \<Rightarrow> pref \<Rightarrow> pref" where
  "p_send_message_queue j c st =
     st\<lparr>p_out := p_out st @ [(CID_DESTINATION (cid_num c), \<lparr>sender_id = PWL_MQ_ID_PREF, pwl_cid = cid_num c,
        status = PWL_CID_STATUS_NONE, response = j_response j, content = j_content j\<rparr>)]\<rparr>"

definition send_message_queue_with_content :: "pjunk \<Rightarrow> pwl_cid_t \<Rightarrow> string \<Rightarrow> pref \<Rightarrow> pref cres" where
  "send_message_queue_with_content j c txt st =
     cbind (strcpy_cap PWL_MQ_MAX_CONTENT_LEN txt) (\<lambda>t.
       Inr (st\<lparr>p_out := p_out st @ [(CID_DESTINATION (cid_num c), \<lparr>sender_id = PWL_MQ_ID_PREF, pwl_cid = cid_num c,
          status = PWL_CID_STATUS_NONE, response = j_response j, content = t\<rparr>)]\<rparr>))"

definition p_reply :: "pjunk \<Rightarrow> msg_buffer_t \<Rightarrow> pwl_cid_status_t \<Rightarrow> string \<Rightarrow> pref \<Rightarrow> pref cres" where
  "p_reply j m s txt st =
     cbind (send_message_reply (j_content j) (pwl_cid m) PWL_MQ_ID_PREF (sender_id m) s txt) (\<lambda>x.
       Inr (st\<lparr>p_out := p_out st @ [x]\<rparr>))"

definition reply_version :: "pjunk \<Rightarrow> msg_buffer_t \<Rightarrow> vbuf \<Rightarrow> pref \<Rightarrow> pref cres" where
  "reply_version j m v st =
     (case v of
        Some (_, s) \<Rightarrow> p_reply j m PWL_CID_STATUS_OK s st
      | None \<Rightarrow> p_reply j m PWL_CID_STATUS_ERROR [] st)"

section \<open>Answers of the module\<close>

definition handle_crsm :: "msg_buffer_t \<Rightarrow> pref \<Rightarrow> pref" where
  "handle_crsm m st =
     (let st0 = st\<lparr>g_mnc_len := 0\<rparr>
      in if status m = PWL_CID_STATUS_OK \<and> length (response m) > 0
            \<and> strncmp_eq ''+CRSM: '' (response m) (length ''+CRSM: '')
         then case strchr (response m) (CHR 0x22) of
                None \<Rightarrow> st0
              | Some q1 \<Rightarrow>
                  (case strchr (tl q1) (CHR 0x22) of
                     None \<Rightarrow> st0
                   | Some q2 \<Rightarrow>
                       let mnc_len_str = [response m ! (length (response m) - length q2 - 1)];
                           n = atoi mnc_len_str
                       in st0\<lparr>g_mnc_len := (if n > 3 then 0 else n)\<rparr>)
         else st0)"

definition handle_cimi :: "pjunk \<Rightarrow> msg_buffer_t \<Rightarrow> pref \<Rightarrow> pref cres" where
  "handle_cimi j m st =
     (if status m = PWL_CID_STATUS_OK
      then let r = response m;
               mnc_src = (if length r < 3 then j_tail j else drop 3 r)
           in cbind (buf_strncpy (zeroed 4) r 3) (\<lambda>mcc_buf.
              cbind (if g_mnc_len st < 0 then Inl Overflow
                     else buf_strncpy (zeroed 4) mnc_src (nat (g_mnc_len st))) (\<lambda>mnc_buf.
              cbind (cstr mcc_buf) (\<lambda>mcc.
              cbind (cstr mnc_buf) (\<lambda>mnc.
              cbind (get_carrier_from_sim (j_line j) mcc mnc st) (\<lambda>st1.
                Inr (st1\<lparr>g_is_get_cimi := True\<rparr>))))))
      else Inr st)"

text \<open>The second token, separated by \<open>d\<close>, of a version answer with the given keyword.\<close>

definition version_answer :: "string \<Rightarrow> string \<Rightarrow> msg_buffer_t \<Rightarrow> string option" where
  "version_answer d keyword m =
     (if (status m = PWL_CID_STATUS_OK \<or> status m = PWL_CID_STATUS_ERROR) \<and> length (response m) > 0
         \<and> strstr (response m) keyword \<noteq> None
      then (case strtok_all d (response m) of _ # t # _ \<Rightarrow> Some t | _ \<Rightarrow> None)
      else None)"

definition handle_pref_carrier :: "msg_buffer_t \<Rightarrow> pref \<Rightarrow> pref cres" where
  "handle_pref_carrier m st =
     (if status m = PWL_CID_STATUS_OK
      then case strstr (response m) ''preferred carrier name: '' of
             None \<Rightarrow> Inr st
           | Some sub \<Rightarrow>
               let start_pos = length (response m) - length sub + length ''preferred carrier name:  ''
               in (case strstr (response m) ''preferred config name'' of
                     None \<Rightarrow> Inl NullDeref
                   | Some sub2 \<Rightarrow>
                       let end_pos = length (response m) - length sub2;
                           sub_str_size = int end_pos - int start_pos - 2
                       in if sub_str_size < 0 then Inl Overflow
                          else cbind (buf_strncpy (g_pref_carrier st) (drop start_pos (response m)) (nat sub_str_size)) (\<lambda>b.
                                 Inr (st\<lparr>g_pref_carrier := b\<rparr>)))
      else Inr st)"

definition handle_fw_ver :: "msg_buffer_t \<Rightarrow> pref \<Rightarrow> pref cres" where
  "handle_fw_ver m st =
     (if status m = PWL_CID_STATUS_OK \<and> length (response m) > 0
      then cbind (strcpy_cap INFO_BUFFER_SIZE (response m)) (\<lambda>v.
             Inr (split_fw_versions (response m) (st\<lparr>g_fwver := v\<rparr>)))
      else Inr st)"

definition store_version ::
  "vbuf \<Rightarrow> string option \<Rightarrow> (vbuf \<Rightarrow> pref \<Rightarrow> pref) \<Rightarrow> pref \<Rightarrow> pref cres" where
  "store_version v ans upd st =
     (case ans of None \<Rightarrow> Inr st | Some t \<Rightarrow> cbind (vbuf_store v t) (\<lambda>v'. Inr (upd v' st)))"

section \<open>One message\<close>

text \<open>The requests of the other services.\<close>

definition pref_request :: "pjunk \<Rightarrow> pwl_cid_t \<Rightarrow> msg_buffer_t \<Rightarrow> pref \<Rightarrow> pref cres" where
  "pref_request j c m st =
     (if c = PWL_CID_GET_MFR then p_reply j m PWL_CID_STATUS_OK (g_manufacturer st) st
      else if c = PWL_CID_GET_SKUID then p_reply j m PWL_CID_STATUS_OK (g_skuid st) st
      else if c = PWL_CID_GET_MAIN_FW_VER then reply_version j m (g_main_fw_version st) st
      else if c = PWL_CID_GET_AP_VER then reply_version j m (g_ap_version st) st
      else if c = PWL_CID_GET_MD_VER then reply_version j m (g_modem_version st) st
      else if c = PWL_CID_GET_OP_VER then reply_version j m (g_op_version st) st
      else if c = PWL_CID_GET_OEM_VER then reply_version j m (g_oem_version st) st
      else if c = PWL_CID_GET_DPV_VER then reply_version j m (g_dpv_version st) st
      else if c = PWL_CID_GET_PREF_CARRIER_ID
      then let st1 = get_preferred_carrier_id st
           in cbind (strcpy_cap 10 (show_int (g_pref_carrier_id st1))) (\<lambda>t. p_reply j m PWL_CID_STATUS_OK t st1)
      else if c = PWL_CID_GET_CXP_REBOOT_FLAG
      then p_reply j m PWL_CID_STATUS_OK (if g_need_cxp_reboot st then ''1'' else ''0'') st
      else if c = PWL_CID_UPDATE_FW_VER then Inr (p_send_message_queue j PWL_CID_GET_FW_VER st)
      else if c = PWL_CID_GET_SIM_CARRIER
      then p_reply j m (if length (g_sim_carrier st) > 0 then PWL_CID_STATUS_OK else PWL_CID_STATUS_ERROR)
             (g_sim_carrier st) st
      else if c = PWL_CID_BACKUP_SN_IMEI
      then let (rc, st1) = (if length (content m) > 0 then handle_sn_imei_backup_file 0 (content m) st else (-1, st))
           in if rc = 0 then p_reply j m PWL_CID_STATUS_OK [] st1
              else p_reply j m PWL_CID_STATUS_ERROR ''Backup SN/IMEI Error'' st1
      else if c = PWL_CID_GET_BACKUP_SN_IMEI
      then let (rc, st1) = handle_sn_imei_backup_file 1 [] st
           in if rc \<noteq> 0 then p_reply j m PWL_CID_STATUS_ERROR ''Get backup sn/imei Error!'' st1
              else p_reply j m PWL_CID_STATUS_OK (g_sn_imei st1) st1
      else Inr st)"

text \<open>The answers to the service's own requests; each ends by signalling the condition variable.\<close>

definition pref_answer :: "pjunk \<Rightarrow> pwl_cid_t \<Rightarrow> msg_buffer_t \<Rightarrow> pref \<Rightarrow> pref cres" where
  "pref_answer j c m st =
     (let pcie = (p_device_type st = PWL_DEVICE_TYPE_PCIE)
      in if c = PWL_CID_GET_CRSM then Inr (handle_crsm m st)
         else if c = PWL_CID_GET_CIMI then handle_cimi j m st
         else if c = PWL_CID_GET_CARRIER_ID
         then Inr (if status m = PWL_CID_STATUS_OK \<and> length (response m) > 0
                   then st\<lparr>g_current_carrier_id := atoi (response m)\<rparr> else st)
         else if c = PWL_CID_GET_FW_VER then handle_fw_ver m st
         else if c = PWL_CID_GET_PCIE_DEVICE_VERSION
         then (if pcie \<and> (status m = PWL_CID_STATUS_OK \<or> status m = PWL_CID_STATUS_ERROR)
                  \<and> length (response m) > 0 \<and> strstr (response m) ''RMM'' \<noteq> None
               then split_pcie_device_versions (response m) st else Inr st)
         else if c = PWL_CID_GET_PCIE_AP_VERSION
         then (if pcie then store_version (g_ap_version st) (version_answer ''_'' ''APVERSION'' m)
                              (\<lambda>v s. s\<lparr>g_ap_version := v\<rparr>) st else Inr st)
         else if c = PWL_CID_GET_PCIE_OP_VERSION
         then (if pcie then store_version (g_op_version st) (version_answer '' '' ''OP.'' m)
                              (\<lambda>v s. s\<lparr>g_op_version := v\<rparr>) st else Inr st)
         else if c = PWL_CID_GET_PCIE_OEM_VERSION
         then (if pcie then store_version (g_oem_version st) (version_answer '' '' ''OEM.'' m)
                              (\<lambda>v s. s\<lparr>g_oem_version := v\<rparr>) st else Inr st)
         else if c = PWL_CID_GET_PCIE_DPV_VERSION
         then (if pcie then store_version (g_dpv_version st) (version_answer '' '' ''DPV'' m)
                              (\<lambda>v s. s\<lparr>g_dpv_version := v\<rparr>) st else Inr st)
         else if c = PWL_CID_GET_PREF_CARRIER then handle_pref_carrier m st
         else if c = PWL_CID_SET_PREF_CARRIER
         then Inr (if status m = PWL_CID_STATUS_OK then st\<lparr>g_set_pref_carrier_ret := True\<rparr> else st)
         else Inr st)"

definition is_request :: "pwl_cid_t \<Rightarrow> bool" where
  "is_request c \<longleftrightarrow> cid_num c < cid_num PLW_CID_MAX_PREF"

definition pref_handle :: "pjunk \<Rightarrow> msg_buffer_t \<Rightarrow> pref \<Rightarrow> pref cres" where
  "pref_handle j m st =
     cbind (print_message_info m) (\<lambda>_.
       case cid_of (pwl_cid m) of
         None \<Rightarrow> Inr st
       | Some c \<Rightarrow> if is_request c then pref_request j c m st else pref_answer j c m st)"

fun pref_run :: "pjunk \<Rightarrow> msg_buffer_t list \<Rightarrow> pref \<Rightarrow> pref cres" where
  "pref_run j [] st = Inr st"
| "pref_run j (m # ms) st = cbind (pref_handle j m st) (pref_run j ms)"

definition p_wait :: "pjunk \<Rightarrow> pref \<Rightarrow> (bool \<times> pref) cres" where
  "p_wait j st =
     (case p_script st of
        [] \<Rightarrow> Inr (False, st)
      | (ms, signalled) # sc \<Rightarrow> cbind (pref_run j ms (st\<lparr>p_script := sc\<rparr>)) (\<lambda>st1. Inr (signalled, st1)))"

section \<open>Asking the module\<close>

definition p_ask :: "pjunk \<Rightarrow> pwl_cid_t \<Rightarrow> pref \<Rightarrow> (bool \<times> pref) cres" where
  "p_ask j c st = p_wait j (p_send_message_queue j c st)"

text \<open>\<open>n\<close> rounds of asking, until \<open>ready\<close> holds.\<close>

fun ask_rounds :: "nat \<Rightarrow> pjunk \<Rightarrow> pwl_cid_t \<Rightarrow> (pref \<Rightarrow> bool) \<Rightarrow> pref \<Rightarrow> pref cres" where
  "ask_rounds 0 j c ready st = Inr st"
| "ask_rounds (Suc n) j c ready st =
     cbind (p_ask j c st) (\<lambda>(_, st1). if ready st1 then Inr st1 else ask_rounds n j c ready st1)"

fun pref_carrier_rounds :: "nat \<Rightarrow> pjunk \<Rightarrow> pref \<Rightarrow> (int \<times> pref) cres" where
  "pref_carrier_rounds 0 j st = Inr (-1, st)"
| "pref_carrier_rounds (Suc n) j st =
     cbind (p_ask j PWL_CID_GET_PREF_CARRIER st) (\<lambda>(ok, st1).
     cbind (cstr (g_pref_carrier st1)) (\<lambda>pc.
       if \<not> ok \<or> length pc = 0 then pref_carrier_rounds n j st1 else Inr (0, st1)))"

definition get_preferred_carrier :: "pjunk \<Rightarrow> pref \<Rightarrow> (int \<times> pref) cres" where
  "get_preferred_carrier j st = pref_carrier_rounds 3 j (st\<lparr>g_pref_carrier := zeroed MAX_PATH\<rparr>)"

text \<open>\<open>set_preferred_carrier\<close>; the first argument is the number of attempts.\<close>

fun set_preferred_carrier :: "nat \<Rightarrow> pjunk \<Rightarrow> string \<Rightarrow> pref \<Rightarrow> (int \<times> pref) cres" where
  "set_preferred_carrier 0 j carrier st = Inr (-1, st)"
| "set_preferred_carrier (Suc n) j carrier st =
     cbind (send_message_queue_with_content j PWL_CID_SET_PREF_CARRIER carrier
              (st\<lparr>g_set_pref_carrier_ret := False\<rparr>)) (\<lambda>st1.
     cbind (p_wait j st1) (\<lambda>(ok, st2).
       if \<not> ok \<or> \<not> g_set_pref_carrier_ret st2 then set_preferred_carrier n j carrier st2 else Inr (0, st2)))"

text \<open>
  The two loops of \<^verbatim>\<open>get_sim_carrier_info\<close> share the retry counter; the first argument is the
  number of attempts that are left. The first loop yields \<open>None\<close> when the SIM was taken out.
\<close>

fun crsm_rounds :: "nat \<Rightarrow> pjunk \<Rightarrow> pref \<Rightarrow> (nat option \<times> pref) cres" where
  "crsm_rounds 0 j st = Inr (Some 0, st)"
| "crsm_rounds (Suc n) j st =
     (if \<not> g_is_sim_insert st then Inr (None, st\<lparr>g_check_sim_carrier_on_going := False\<rparr>)
      else cbind (p_ask j PWL_CID_GET_CRSM (st\<lparr>g_is_get_cimi := False, g_mnc_len := 0\<rparr>)) (\<lambda>(ok, st1).
             if \<not> ok \<or> g_mnc_len st1 \<le> 0 then crsm_rounds n j st1 else Inr (Some (Suc n), st1)))"

fun cimi_rounds :: "nat \<Rightarrow> pjunk \<Rightarrow> pref \<Rightarrow> (int \<times> pref) cres" where
  "cimi_rounds 0 j st = Inr (-1, st\<lparr>g_check_sim_carrier_on_going := False\<rparr>)"
| "cimi_rounds (Suc n) j st =
     (if \<not> g_is_sim_insert st then Inr (-1, st\<lparr>g_check_sim_carrier_on_going := False\<rparr>)
      else cbind (p_ask j PWL_CID_GET_CIMI (st\<lparr>g_is_get_cimi := False\<rparr>)) (\<lambda>(ok, st1).
             if \<not> ok \<or> \<not> g_is_get_cimi st1 then cimi_rounds n j st1
             else Inr (0, st1\<lparr>g_check_sim_carrier_on_going := False\<rparr>)))"

definition get_sim_carrier_info :: "nat \<Rightarrow> pjunk \<Rightarrow> pref \<Rightarrow> (int \<times> pref) cres" where
  "get_sim_carrier_info retry_limit j st =
     cbind (crsm_rounds retry_limit j st) (\<lambda>(r, st1).
       case r of None \<Rightarrow> Inr (-1, st1) | Some n \<Rightarrow> cimi_rounds n j st1)"

section \<open>The signals of the core service\<close>

text \<open>Compare the SIM carrier with the preferred one and switch when they differ.\<close>

definition switch_carrier :: "nat \<Rightarrow> pjunk \<Rightarrow> pref \<Rightarrow> (bool \<times> pref) cres" where
  "switch_carrier n j st =
     cbind (get_preferred_carrier j st) (\<lambda>(rc, st1).
       if rc = 0
       then cbind (cstr (g_pref_carrier st1)) (\<lambda>pc.
              if \<not> strncasecmp_eq (g_sim_carrier st1) pc (length (g_sim_carrier st1))
              then cbind (set_preferred_carrier n j (g_sim_carrier st1) st1) (\<lambda>(_, st2). Inr (True, st2))
              else Inr (False, st1))
       else Inr (False, st1))"

text \<open>The PCIe versions: the buffer is allocated anew, then asked for in three rounds.\<close>

definition p_pcie_versions :: "pjunk \<Rightarrow> pref \<Rightarrow> pref cres" where
  "p_pcie_versions j st =
     cbind (ask_rounds 3 j PWL_CID_GET_PCIE_AP_VERSION (\<lambda>s. vbuf_filled (g_ap_version s))
              (st\<lparr>g_ap_version := vbuf_alloc MAX_PCIE_AP_VERSION_LENGTH\<rparr>)) (\<lambda>st1.
     cbind (ask_rounds 3 j PWL_CID_GET_PCIE_DEVICE_VERSION (\<lambda>s. vbuf_filled (g_modem_version s))
              (st1\<lparr>g_modem_version := vbuf_alloc MAX_PCIE_VERSION_LENGTH\<rparr>)) (\<lambda>st2.
     cbind (ask_rounds 3 j PWL_CID_GET_PCIE_OP_VERSION (\<lambda>s. vbuf_filled (g_op_version s))
              (st2\<lparr>g_op_version := vbuf_alloc MAX_PCIE_VERSION_LENGTH\<rparr>)) (\<lambda>st3.
     cbind (ask_rounds 3 j PWL_CID_GET_PCIE_OEM_VERSION (\<lambda>s. vbuf_filled (g_oem_version s))
              (st3\<lparr>g_oem_version := vbuf_alloc MAX_PCIE_VERSION_LENGTH\<rparr>)) (\<lambda>st4.
       ask_rounds 3 j PWL_CID_GET_PCIE_DPV_VERSION (\<lambda>s. vbuf_filled (g_dpv_version s))
              (st4\<lparr>g_dpv_version := vbuf_alloc MAX_PCIE_VERSION_LENGTH\<rparr>)))))"

text \<open>The carrier id and the reboot decision, when the SIM is ready.\<close>

definition carrier_id_check :: "pjunk \<Rightarrow> pref \<Rightarrow> pref cres" where
  "carrier_id_check j st =
     (if g_sim_ready_state st = 2
      then cbind (ask_rounds 3 j PWL_CID_GET_CARRIER_ID (\<lambda>s. g_current_carrier_id s \<noteq> -1)
                    ((get_preferred_carrier_id st)\<lparr>g_current_carrier_id := -1\<rparr>)) (\<lambda>st1.
             if g_current_carrier_id st1 \<noteq> -1
             then Inr (snd (set_preferred_carrier_id (g_current_carrier_id st1)
                    (st1\<lparr>g_need_cxp_reboot := is_need_cxp_reboot (g_current_carrier_id st1) (g_pref_carrier_id st1)\<rparr>)))
             else Inr st1)
      else Inr st)"

fun fw_cimi_rounds :: "nat \<Rightarrow> pjunk \<Rightarrow> pref \<Rightarrow> pref cres" where
  "fw_cimi_rounds 0 j st = Inr st"
| "fw_cimi_rounds (Suc n) j st =
     cbind (p_ask j PWL_CID_GET_CIMI st) (\<lambda>(_, st1).
       if length (g_sim_carrier st1) > 0
       then cbind (if p_device_type st1 = PWL_DEVICE_TYPE_USB
                   then cbind (switch_carrier 3 j st1) (\<lambda>(_, st2). Inr st2) else Inr st1) (\<lambda>st3.
              Inr (st3\<lparr>g_check_sim_carrier_on_going := False\<rparr>))
       else fw_cimi_rounds n j st1)"

fun fw_crsm_rounds :: "nat \<Rightarrow> pjunk \<Rightarrow> pref \<Rightarrow> pref cres" where
  "fw_crsm_rounds 0 j st = Inr st"
| "fw_crsm_rounds (Suc n) j st =
     cbind (p_ask j PWL_CID_GET_CRSM st) (\<lambda>(_, st1).
       if g_mnc_len st1 = 0 then fw_crsm_rounds n j st1
       else cbind (fw_cimi_rounds 3 j st1) (\<lambda>st2. Inr (st2\<lparr>g_check_sim_carrier_on_going := False\<rparr>)))"

definition signal_callback_get_fw_version :: "pjunk \<Rightarrow> pref \<Rightarrow> pref cres" where
  "signal_callback_get_fw_version j st =
     (let st0 = st\<lparr>g_check_sim_carrier_on_going := True\<rparr>
      in cbind (if p_device_type st0 = PWL_DEVICE_TYPE_USB
                then ask_rounds 3 j PWL_CID_GET_FW_VER (\<lambda>s. vbuf_filled (g_main_fw_version s)) st0
                else if p_device_type st0 = PWL_DEVICE_TYPE_PCIE then p_pcie_versions j st0
                else Inr st0) (\<lambda>st1.
         cbind (carrier_id_check j st1) (\<lambda>st2.
         cbind (fw_crsm_rounds 3 j st2) (\<lambda>st3.
           Inr (st3\<lparr>g_check_sim_carrier_on_going := False\<rparr>)))))"

definition signal_callback_sim_state_change :: "pjunk \<Rightarrow> int \<Rightarrow> pref \<Rightarrow> pref cres" where
  "signal_callback_sim_state_change j ready_state st =
     (if p_device_type st = PWL_DEVICE_TYPE_USB
      then if ready_state = 2
           then let st1 = st\<lparr>g_is_sim_insert := True\<rparr>
                in if \<not> g_check_sim_carrier_on_going st1
                   then cbind (get_sim_carrier_info 12 j (st1\<lparr>g_check_sim_carrier_on_going := True\<rparr>)) (\<lambda>(rc, st2).
                          if rc = 0
                          then cbind (switch_carrier 3 j st2) (\<lambda>(switched, st3).
                                 Inr (if switched then st3\<lparr>g_check_sim_carrier_on_going := False\<rparr> else st3))
                          else Inr st2)
                   else Inr st1
           else if ready_state = 1
           then Inr (st\<lparr>g_is_sim_insert := False, g_check_sim_carrier_on_going := False\<rparr>)
           else Inr st
      else if p_device_type st = PWL_DEVICE_TYPE_PCIE
      then let st1 = st\<lparr>g_sim_ready_state := ready_state\<rparr>
           in if ready_state = 2 then Inr (st1\<lparr>p_update_checks := Suc (p_update_checks st1)\<rparr>)
              else if ready_state = 1
              then Inr (st1\<lparr>g_is_sim_insert := False, g_check_sim_carrier_on_going := False\<rparr>)
              else Inr st1
      else Inr st)"

text \<open>\<^verbatim>\<open>main\<close> up to the main loop; \<open>None\<close> for an unsupported device.\<close>

definition pref_main ::
  "(nat \<Rightarrow> shell \<times> string) \<Rightarrow> shell \<times> string \<Rightarrow> dev \<Rightarrow> queues \<Rightarrow> pref \<Rightarrow> (queues \<times> pref) option cres" where
  "pref_main boot_env host d qs st =
     cbind (pwl_get_device_type_await boot_env d) (\<lambda>(ty, _).
       if ty = PWL_DEVICE_TYPE_UNKNOWN then Inr None
       else Inr (Some (snd (pwl_discard_old_messages PWL_MQ_PATH_PREF qs),
              st\<lparr>p_device_type := ty,
                 g_manufacturer := pwl_get_manufacturer (fst host) (snd host) PWL_MAX_MFR_SIZE,
                 g_skuid := pwl_get_skuid (fst host) (snd host) PWL_MAX_SKUID_SIZE\<rparr>)))"

section \<open>The invariant\<close>

definition msg_ok :: "msg_buffer_t \<Rightarrow> bool" where
  "msg_ok m \<longleftrightarrow> length (response m) < PWL_MQ_MAX_RESP \<and> length (content m) < PWL_MQ_MAX_CONTENT_LEN"

definition vbuf_ok :: "vbuf \<Rightarrow> bool" where
  "vbuf_ok v \<longleftrightarrow> (case v of None \<Rightarrow> True | Some (n, s) \<Rightarrow> length s < n \<and> length s < PWL_MQ_MAX_RESP)"

text \<open>
  Every string fits its array and can be sent in a reply, the length of the network code is
  between 0 and 3, and the messages the thread will receive come from message arrays.
\<close>

definition pref_inv :: "pref \<Rightarrow> bool" where
  "pref_inv st \<longleftrightarrow> 0 \<le> g_mnc_len st \<and> g_mnc_len st \<le> 3 \<and> length (g_sim_carrier st) < 15
     \<and> length (g_sn_imei st) < 64 \<and> length (g_pref_carrier st) = MAX_PATH
     \<and> length (g_manufacturer st) < PWL_MAX_MFR_SIZE \<and> length (g_skuid st) < PWL_MAX_SKUID_SIZE
     \<and> length (g_fwver st) < INFO_BUFFER_SIZE
     \<and> vbuf_ok (g_main_fw_version st) \<and> vbuf_ok (g_ap_version st) \<and> vbuf_ok (g_carrier_version st)
     \<and> vbuf_ok (g_oem_version st) \<and> vbuf_ok (g_modem_version st) \<and> vbuf_ok (g_op_version st)
     \<and> vbuf_ok (g_dpv_version st) \<and> (\<forall>e \<in> set (p_script st). \<forall>m \<in> set (fst e). msg_ok m)"

text \<open>The invariant together with the value of the flag that marks a running carrier check.\<close>

definition pgood :: "bool \<Rightarrow> pref \<Rightarrow> bool" where
  "pgood b st \<longleftrightarrow> pref_inv st \<and> g_check_sim_carrier_on_going st = b"

lemmas pgood_defs = pgood_def pref_inv_def

lemma pgood_fields [simp]:
  "pgood b (st\<lparr>g_pref_carrier_id := i\<rparr>) = pgood b st"
  "pgood b (st\<lparr>g_current_carrier_id := i\<rparr>) = pgood b st"
  "pgood b (st\<lparr>g_set_pref_carrier_ret := x\<rparr>) = pgood b st"
  "pgood b (st\<lparr>g_is_get_cimi := x\<rparr>) = pgood b st"
  "pgood b (st\<lparr>g_is_sim_insert := x\<rparr>) = pgood b st"
  "pgood b (st\<lparr>g_need_cxp_reboot := x\<rparr>) = pgood b st"
  "pgood b (st\<lparr>g_sim_ready_state := i\<rparr>) = pgood b st"
  "pgood b (st\<lparr>p_update_checks := k\<rparr>) = pgood b st"
  "pgood b (st\<lparr>p_fs := w\<rparr>) = pgood b st"
  "pgood b (st\<lparr>p_out := ms\<rparr>) = pgood b st"
  by (simp_all add: pgood_defs)

lemma pgood_flag: "pgood b st \<Longrightarrow> pgood c (st\<lparr>g_check_sim_carrier_on_going := c\<rparr>)"
  by (simp add: pgood_defs)

lemma vbuf_store_ok: "vbuf_ok v \<Longrightarrow> length t < PWL_MQ_MAX_RESP \<Longrightarrow> cpost vbuf_ok (vbuf_store v t)"
  using length_cut_at [of t "[NL]"]
  by (auto simp: vbuf_store_def vbuf_ok_def strcpy_cap_def split: option.splits)

lemma vbuf_dup_ok: "length s < PWL_MQ_MAX_RESP \<Longrightarrow> vbuf_ok (vbuf_dup s)"
  by (simp add: vbuf_ok_def vbuf_dup_def)

lemma token_bound: "t \<in> set (strtok_all d s) \<Longrightarrow> length s < n \<Longrightarrow> length t < n"
  using strtok_all_length [of t d s] by simp

lemma split_fw_versions_pgood:
  assumes "pgood b st" "length v < PWL_MQ_MAX_RESP"
  shows "pgood b (split_fw_versions v st)"
proof -
  have "vbuf_ok (vbuf_dup t)" if "t \<in> set (strtok_all ''_'' v)" for t
    using token_bound [OF that assms(2)] by (rule vbuf_dup_ok)
  then show ?thesis using assms(1)
    by (auto simp: split_fw_versions_def Let_def pgood_defs vbuf_ok_def [of None] split: list.splits)
qed

lemma split_pcie_pgood:
  assumes "pgood b st" "length v < PWL_MQ_MAX_RESP"
  shows "cpost (pgood b) (split_pcie_device_versions v st)"
proof (cases "strstr v ''RMM''")
  case (Some temp)
  have temp: "length temp < PWL_MQ_MAX_RESP" using strstr_length [OF Some] assms(2) by simp
  have tok: "t \<in> set (strtok_all ''_'' temp) \<Longrightarrow> length t < PWL_MQ_MAX_RESP" for t
    using token_bound temp by blast
  show ?thesis
    using assms(1) tok unfolding split_pcie_device_versions_def Some
    by (auto simp: strcpy_cap_def pgood_defs Let_def vbuf_ok_def [of "Some _"]
        intro!: cpost_cbindI [OF vbuf_store_ok] split: list.splits option.splits)
qed (use assms in \<open>simp add: split_pcie_device_versions_def\<close>)

lemma get_preferred_carrier_id_other:
  "get_preferred_carrier_id st = st\<lparr>g_pref_carrier_id := g_pref_carrier_id (get_preferred_carrier_id st)\<rparr>"
proof -
  have "fold (\<lambda>l s. s\<lparr>g_pref_carrier_id := (if length l > 0 then atoi l else SBP_ID_GENERIC)\<rparr>) ls s
    = s\<lparr>g_pref_carrier_id := g_pref_carrier_id (fold (\<lambda>l s. s\<lparr>g_pref_carrier_id := (if length l > 0 then atoi l else SBP_ID_GENERIC)\<rparr>) ls s)\<rparr>"
    for ls and s :: pref
  proof (induction ls arbitrary: s)
    case (Cons l ls)
    show ?case
      unfolding fold_Cons comp_def by (subst (1) Cons.IH) simp
  qed simp
  then show ?thesis by (simp add: get_preferred_carrier_id_def split: option.splits)
qed

lemma get_preferred_carrier_id_fields [simp]:
  "p_script (get_preferred_carrier_id st) = p_script st" "p_fs (get_preferred_carrier_id st) = p_fs st"
  "p_out (get_preferred_carrier_id st) = p_out st"
  by (subst get_preferred_carrier_id_other, simp)+

lemma get_preferred_carrier_id_pgood: "pgood b st \<Longrightarrow> pgood b (get_preferred_carrier_id st)"
  by (subst get_preferred_carrier_id_other) simp

lemma search_carrier_bound:
  "cpost (\<lambda>r. \<forall>nm. r = Some nm \<longrightarrow> length nm < 15) (search_carrier line mcc mnc rows)"
  by (induction line mcc mnc rows rule: search_carrier.induct)
    (auto simp: Let_def strcpy_cap_def row_field_def)

lemma get_carrier_from_sim_pgood:
  assumes "pgood b st"
  shows "cpost (pgood b) (get_carrier_from_sim line mcc mnc st)"
  unfolding get_carrier_from_sim_def using assms
  by (auto intro!: cpost_cbindI [OF search_carrier_bound] simp: pgood_defs PWL_UNKNOWN_SIM_CARRIER_def split: option.splits)

lemma atoi_char: "0 \<le> atoi [c] \<and> atoi [c] \<le> 9"
proof -
  have "digits_val 0 [c] \<le> 9" by (auto simp: isdigit_def digit_val_def)
  then show ?thesis
    by (auto simp: atoi_def strtol10_def clamp_long_def to_int32_def)
qed

lemma handle_crsm_pgood: "pgood b st \<Longrightarrow> pgood b (handle_crsm m st)"
  using atoi_char by (auto simp: handle_crsm_def pgood_defs Let_def not_less split: option.splits)

lemma handle_cimi_pgood: "pgood b st \<Longrightarrow> cpost (pgood b) (handle_cimi j m st)"
  unfolding handle_cimi_def Let_def
  by (auto intro!: cpost_cbind_any [of "buf_strncpy _ _ _"] cpost_cbind_any [of "cstr _"] cpost_cbind_any [of "if _ then _ else _"]
      cpost_cbindI [OF get_carrier_from_sim_pgood] simp: pgood_defs)

lemma handle_pref_carrier_pgood: "pgood b st \<Longrightarrow> cpost (pgood b) (handle_pref_carrier m st)"
  unfolding handle_pref_carrier_def Let_def
  by (auto intro!: cpost_cbind_any simp: pgood_defs dest: length_buf_strncpy split: option.splits)

lemma handle_fw_ver_pgood: "pgood b st \<Longrightarrow> msg_ok m \<Longrightarrow> cpost (pgood b) (handle_fw_ver m st)"
  unfolding handle_fw_ver_def
  by (auto intro!: split_fw_versions_pgood simp: strcpy_cap_def msg_ok_def) (simp add: pgood_defs)

lemma version_answer_bound: "msg_ok m \<Longrightarrow> version_answer d k m = Some t \<Longrightarrow> length t < PWL_MQ_MAX_RESP"
  by (auto simp: version_answer_def msg_ok_def split: if_splits list.splits intro!: token_bound [of t d "response m"])

lemma store_version_pgood:
  assumes "pgood b st" "msg_ok m" "vbuf_ok v" "\<And>v'. vbuf_ok v' \<Longrightarrow> pgood b (upd v' st)"
  shows "cpost (pgood b) (store_version v (version_answer d k m) upd st)"
  unfolding store_version_def using assms version_answer_bound [OF assms(2)]
  by (auto split: option.splits intro!: cpost_cbindI [OF vbuf_store_ok])

lemma pref_answer_pgood:
  assumes "pgood b st" "msg_ok m"
  shows "cpost (pgood b) (pref_answer j c m st)"
proof -
  have resp: "length (response m) < PWL_MQ_MAX_RESP" using assms(2) by (simp add: msg_ok_def)
  have upd: "pgood b (st\<lparr>g_current_carrier_id := i\<rparr>)" "pgood b (st\<lparr>g_set_pref_carrier_ret := x\<rparr>)" for i x
    using assms(1) by (simp_all add: pgood_defs)
  have ver: "cpost (pgood b) (store_version (g_ap_version st) (version_answer d k m) (\<lambda>v s. s\<lparr>g_ap_version := v\<rparr>) st)"
    "cpost (pgood b) (store_version (g_op_version st) (version_answer d k m) (\<lambda>v s. s\<lparr>g_op_version := v\<rparr>) st)"
    "cpost (pgood b) (store_version (g_oem_version st) (version_answer d k m) (\<lambda>v s. s\<lparr>g_oem_version := v\<rparr>) st)"
    "cpost (pgood b) (store_version (g_dpv_version st) (version_answer d k m) (\<lambda>v s. s\<lparr>g_dpv_version := v\<rparr>) st)" for d k
    using assms by (auto intro!: store_version_pgood simp: pgood_defs)
  show ?thesis
    unfolding pref_answer_def Let_def
    by (intro cpost_ifI ver handle_cimi_pgood [OF assms(1)] handle_fw_ver_pgood [OF assms]
        split_pcie_pgood [OF assms(1) resp] handle_pref_carrier_pgood [OF assms(1)])
      (simp_all add: assms upd handle_crsm_pgood)
qed

lemma p_reply_pgood: "pgood b st \<Longrightarrow> cpost (pgood b) (p_reply j m s txt st)"
  unfolding p_reply_def by (auto intro!: cpost_cbind_any)

lemma reply_version_pgood: "pgood b st \<Longrightarrow> cpost (pgood b) (reply_version j m v st)"
  unfolding reply_version_def by (auto intro!: p_reply_pgood split: option.splits)

lemma p_send_pgood [simp]: "pgood b (p_send_message_queue j c st) = pgood b st"
  by (simp add: p_send_message_queue_def)

lemma backup_pgood: "pgood b st \<Longrightarrow> pgood b (snd (handle_sn_imei_backup_file a x st))"
  by (auto simp: handle_sn_imei_backup_file_def backup_save_def backup_load_def SN_MAX_LENGTH_def
      IMEI_MAX_LENGTH_def split: option.splits) (simp_all add: pgood_defs)

lemma pref_request_pgood:
  assumes "pgood b st"
  shows "cpost (pgood b) (pref_request j c m st)"
proof -
  have backup: "pgood b (snd (if length (content m) > 0 then handle_sn_imei_backup_file 0 (content m) st else (-1, st)))"
    "pgood b (snd (handle_sn_imei_backup_file 1 [] st))"
    using backup_pgood [OF assms] assms by auto
  show ?thesis
    unfolding pref_request_def Let_def case_prod_beta
    by (intro cpost_ifI p_reply_pgood reply_version_pgood assms backup
        cpost_cbind_any [of "strcpy_cap _ _"] get_preferred_carrier_id_pgood) (simp_all add: assms)
qed

lemma pref_handle_pgood: "pgood b st \<Longrightarrow> msg_ok m \<Longrightarrow> cpost (pgood b) (pref_handle j m st)"
  unfolding pref_handle_def
  by (auto intro!: cpost_cbind_any [of "print_message_info _"] pref_request_pgood pref_answer_pgood split: option.splits)

lemma pref_run_pgood: "pgood b st \<Longrightarrow> \<forall>m \<in> set ms. msg_ok m \<Longrightarrow> cpost (pgood b) (pref_run j ms st)"
proof (induction ms arbitrary: st)
  case (Cons m ms)
  show ?case unfolding pref_run.simps
    by (rule cpost_cbindI [OF pref_handle_pgood]) (use Cons in auto)
qed simp

lemma p_wait_pgood:
  assumes "pgood b st"
  shows "cpost (\<lambda>(_, st'). pgood b st') (p_wait j st)"
proof (cases "p_script st")
  case (Cons e sc)
  obtain ms sig where e: "e = (ms, sig)" by (cases e)
  have ok: "pgood b (st\<lparr>p_script := sc\<rparr>)" "\<forall>m \<in> set ms. msg_ok m"
    using assms Cons e by (auto simp: pgood_defs)
  show ?thesis unfolding p_wait_def Cons e list.case prod.case
    by (rule cpost_cbindI [OF pref_run_pgood [OF ok]]) simp
qed (use assms in \<open>simp add: p_wait_def\<close>)

lemma ask_pgood: "pgood b st \<Longrightarrow> cpost (\<lambda>(_, st'). pgood b st') (p_ask j c st)"
  unfolding p_ask_def by (rule p_wait_pgood) simp

lemma ask_rounds_pgood: "pgood b st \<Longrightarrow> cpost (pgood b) (ask_rounds n j c r st)"
proof (induction n arbitrary: st)
  case (Suc n)
  show ?case unfolding ask_rounds.simps
    by (rule cpost_cbindI [OF ask_pgood [OF Suc.prems]]) (auto simp: Suc.IH)
qed simp

lemma pref_carrier_rounds_pgood: "pgood b st \<Longrightarrow> cpost (\<lambda>(_, st'). pgood b st') (pref_carrier_rounds n j st)"
proof (induction n arbitrary: st)
  case (Suc n)
  show ?case unfolding pref_carrier_rounds.simps
    by (rule cpost_cbindI [OF ask_pgood [OF Suc.prems]]) (auto simp: Suc.IH intro!: cpost_cbind_any)
qed simp

lemma get_preferred_carrier_pgood: "pgood b st \<Longrightarrow> cpost (\<lambda>(_, st'). pgood b st') (get_preferred_carrier j st)"
  unfolding get_preferred_carrier_def by (rule pref_carrier_rounds_pgood) (simp add: pgood_defs)

lemma set_preferred_carrier_pgood: "pgood b st \<Longrightarrow> cpost (\<lambda>(_, st'). pgood b st') (set_preferred_carrier n j c st)"
proof (induction n arbitrary: st)
  case (Suc n)
  have send: "cpost (pgood b) (send_message_queue_with_content j PWL_CID_SET_PREF_CARRIER c (st\<lparr>g_set_pref_carrier_ret := False\<rparr>))"
    unfolding send_message_queue_with_content_def using Suc.prems by (auto intro!: cpost_cbind_any)
  show ?case unfolding set_preferred_carrier.simps
    by (rule cpost_cbindI [OF send], rule cpost_cbindI [OF p_wait_pgood], assumption) (auto simp: Suc.IH)
qed simp

lemma switch_carrier_pgood:
  assumes "pgood b st"
  shows "cpost (\<lambda>(_, st'). pgood b st') (switch_carrier n j st)"
  unfolding switch_carrier_def
  by (rule cpost_cbindI [OF get_preferred_carrier_pgood [OF assms]])
    (auto intro!: cpost_cbind_any [of "cstr _"] cpost_cbindI [OF set_preferred_carrier_pgood])

lemma crsm_rounds_pgood:
  "pgood True st \<Longrightarrow> cpost (\<lambda>(r, st'). case r of None \<Rightarrow> pgood False st' | Some _ \<Rightarrow> pgood True st') (crsm_rounds n j st)"
proof (induction n arbitrary: st)
  case (Suc n)
  have start: "pgood True (st\<lparr>g_is_get_cimi := False, g_mnc_len := 0\<rparr>)" using Suc.prems by (simp add: pgood_defs)
  have step: "cpost (\<lambda>(r, st'). case r of None \<Rightarrow> pgood False st' | Some _ \<Rightarrow> pgood True st')
      (cbind (p_ask j PWL_CID_GET_CRSM (st\<lparr>g_is_get_cimi := False, g_mnc_len := 0\<rparr>)) (\<lambda>(ok, st1).
         if \<not> ok \<or> g_mnc_len st1 \<le> 0 then crsm_rounds n j st1 else Inr (Some (Suc n), st1)))"
    by (rule cpost_cbindI [OF ask_pgood [OF start]]) (auto simp: Suc.IH)
  show ?case using Suc.prems step by (simp add: pgood_flag)
qed simp

lemma cimi_rounds_pgood: "pgood True st \<Longrightarrow> cpost (\<lambda>(_, st'). pgood False st') (cimi_rounds n j st)"
proof (induction n arbitrary: st)
  case (Suc n)
  have start: "pgood True (st\<lparr>g_is_get_cimi := False\<rparr>)" using Suc.prems by simp
  have step: "cpost (\<lambda>(_, st'). pgood False st')
      (cbind (p_ask j PWL_CID_GET_CIMI (st\<lparr>g_is_get_cimi := False\<rparr>)) (\<lambda>(ok, st1).
         if \<not> ok \<or> \<not> g_is_get_cimi st1 then cimi_rounds n j st1
         else Inr (0, st1\<lparr>g_check_sim_carrier_on_going := False\<rparr>)))"
    by (rule cpost_cbindI [OF ask_pgood [OF start]]) (auto simp: Suc.IH pgood_flag)
  show ?case using Suc.prems step by (simp add: pgood_flag)
qed (simp add: pgood_flag)

lemma get_sim_carrier_info_pgood: "pgood True st \<Longrightarrow> cpost (\<lambda>(_, st'). pgood False st') (get_sim_carrier_info n j st)"
  unfolding get_sim_carrier_info_def
  by (rule cpost_cbindI [OF crsm_rounds_pgood]) (auto intro!: cimi_rounds_pgood split: option.splits)

lemma pref_inv_pgood: "pref_inv st \<Longrightarrow> pgood (g_check_sim_carrier_on_going st) st"
  by (simp add: pgood_def)

section \<open>Replies\<close>

lemma p_reply_ok:
  assumes "length txt < PWL_MQ_MAX_RESP" "pwl_cid m < 48"
  shows "p_reply j m s txt st = Inr (st\<lparr>p_out := p_out st @ [(PWL_MQ_PATH (sender_id m),
    \<lparr>sender_id = PWL_MQ_ID_PREF, pwl_cid = pwl_cid m, status = s, response = txt, content = j_content j\<rparr>)]\<rparr>)"
  using assms by (simp add: p_reply_def send_message_reply_eq_Inr_iff [THEN iffD2])

definition replied :: "pjunk \<Rightarrow> msg_buffer_t \<Rightarrow> pref \<Rightarrow> pref cres \<Rightarrow> bool" where
  "replied j m st r \<longleftrightarrow> (\<exists>st' s txt. r = Inr st' \<and> length txt < PWL_MQ_MAX_RESP
     \<and> p_out st' = p_out st @ [(PWL_MQ_PATH (sender_id m), \<lparr>sender_id = PWL_MQ_ID_PREF,
          pwl_cid = pwl_cid m, status = s, response = txt, content = j_content j\<rparr>)])"

lemma p_reply_replied:
  "length txt < PWL_MQ_MAX_RESP \<Longrightarrow> pwl_cid m < 48 \<Longrightarrow> p_out st1 = p_out st \<Longrightarrow> replied j m st (p_reply j m s txt st1)"
  by (auto simp: replied_def p_reply_ok)

lemma reply_version_replied:
  "vbuf_ok v \<Longrightarrow> pwl_cid m < 48 \<Longrightarrow> replied j m st (reply_version j m v st)"
  by (auto simp: reply_version_def vbuf_ok_def PWL_MQ_MAX_RESP_def intro!: p_reply_replied split: option.splits)

lemma backup_out: "p_out (snd (handle_sn_imei_backup_file a x st)) = p_out st"
  by (auto simp: handle_sn_imei_backup_file_def backup_save_def backup_load_def split: option.splits)

definition silent_requests :: "pwl_cid_t list" where
  "silent_requests = [PWL_CID_GET_CARRIER_VER, PWL_CID_UPDATE_FW_VER]"

lemma pref_request_replied:
  assumes "pref_inv st" "pwl_cid m < 48" "is_request c" "c \<notin> set silent_requests" "c \<noteq> PWL_CID_GET_PREF_CARRIER_ID"
  shows "replied j m st (pref_request j c m st)"
proof -
  have c: "c \<in> set [PWL_CID_GET_MFR, PWL_CID_GET_SKUID, PWL_CID_GET_MAIN_FW_VER, PWL_CID_GET_AP_VER,
      PWL_CID_GET_OEM_VER, PWL_CID_GET_SIM_CARRIER, PWL_CID_GET_MD_VER, PWL_CID_GET_OP_VER, PWL_CID_GET_DPV_VER,
      PWL_CID_GET_CXP_REBOOT_FLAG, PWL_CID_BACKUP_SN_IMEI, PWL_CID_GET_BACKUP_SN_IMEI]"
  proof -
    have "list_all (\<lambda>c. is_request c \<and> c \<notin> set silent_requests \<and> c \<noteq> PWL_CID_GET_PREF_CARRIER_ID \<longrightarrow>
      c \<in> set [PWL_CID_GET_MFR, PWL_CID_GET_SKUID, PWL_CID_GET_MAIN_FW_VER, PWL_CID_GET_AP_VER,
      PWL_CID_GET_OEM_VER, PWL_CID_GET_SIM_CARRIER, PWL_CID_GET_MD_VER, PWL_CID_GET_OP_VER, PWL_CID_GET_DPV_VER,
      PWL_CID_GET_CXP_REBOOT_FLAG, PWL_CID_BACKUP_SN_IMEI, PWL_CID_GET_BACKUP_SN_IMEI]) cid_enum" by code_simp
    with cid_enum_complete [of c] assms(3-5) show ?thesis by (simp only: list_all_iff) blast
  qed
  have inv: "vbuf_ok (g_main_fw_version st)" "vbuf_ok (g_ap_version st)" "vbuf_ok (g_oem_version st)"
    "vbuf_ok (g_modem_version st)" "vbuf_ok (g_op_version st)" "vbuf_ok (g_dpv_version st)"
    "length (g_sim_carrier st) < 500" "length (g_manufacturer st) < 500" "length (g_skuid st) < 500"
    using assms(1) by (auto simp: pref_inv_def PWL_MAX_MFR_SIZE_def PWL_MAX_SKUID_SIZE_def)
  have load: "length (g_sn_imei (snd (handle_sn_imei_backup_file 1 [] st))) < 500"
    using backup_pgood [OF pref_inv_pgood [OF assms(1)], of 1 "[]"] by (auto simp: pgood_defs)
  from c show ?thesis
    unfolding pref_request_def Let_def case_prod_beta
    using inv load assms(2)
    by (auto intro!: p_reply_replied reply_version_replied simp: PWL_MQ_MAX_RESP_def backup_out)
qed

lemma pref_carrier_id_replied:
  assumes "pwl_cid m < 48" "length (show_int (g_pref_carrier_id (get_preferred_carrier_id st))) < 10"
  shows "replied j m st (pref_request j PWL_CID_GET_PREF_CARRIER_ID m st)"
  unfolding pref_request_def using assms
  by (auto simp: Let_def strcpy_cap_def PWL_MQ_MAX_RESP_def intro!: p_reply_replied)

section \<open>Answers that fit\<close>

text \<open>What the answers of the module must look like for the handlers to stay within their arrays, one
  condition per kind of answer. The handlers themselves check none of them.\<close>

definition holds_version :: "vbuf \<Rightarrow> string \<Rightarrow> bool" where
  "holds_version v t \<longleftrightarrow> (case v of None \<Rightarrow> False | Some (n, _) \<Rightarrow> length t < n)"

text \<open>\<^verbatim>\<open>RMM...\<close>: its first token goes to the modem version, its second one to an AP version that is still empty.\<close>

definition device_version_fits :: "string \<Rightarrow> pref \<Rightarrow> bool" where
  "device_version_fits r st \<longleftrightarrow>
     (case strstr r ''RMM'' of
        None \<Rightarrow> True
      | Some temp \<Rightarrow>
          (case strtok_all ''_'' temp of
             [] \<Rightarrow> True
           | md # ts \<Rightarrow> holds_version (g_modem_version st) md
               \<and> (ts \<noteq> [] \<longrightarrow> vbuf_filled (g_ap_version st) \<or> holds_version (g_ap_version st) (hd ts))))"

text \<open>The name stands between the two keywords, in this order, and fits its array.\<close>

definition carrier_name_fits :: "string \<Rightarrow> bool" where
  "carrier_name_fits r \<longleftrightarrow>
     (case (strstr r ''preferred carrier name: '', strstr r ''preferred config name'') of
        (None, _) \<Rightarrow> True
      | (Some sub, None) \<Rightarrow> False
      | (Some sub, Some sub2) \<Rightarrow> length sub2 + 27 \<le> length sub \<and> length sub \<le> length sub2 + 27 + MAX_PATH)"

text \<open>Every row of the list of network codes has three or four fields and a short name.\<close>

definition carrier_list_ok :: "pref \<Rightarrow> bool" where
  "carrier_list_ok st \<longleftrightarrow>
     (case fopen_r (p_fs st) MCC_MNC_LIST of
        None \<Rightarrow> True
      | Some t \<Rightarrow> \<forall>l \<in> set (fgets_lines 255 t). let ts = strtok_all '','' l
                    in 3 \<le> length ts \<and> length ts \<le> 4 \<and> length (ts ! 2) < 15)"

definition version_fits :: "vbuf \<Rightarrow> string option \<Rightarrow> bool" where
  "version_fits v ans \<longleftrightarrow> (\<forall>t. ans = Some t \<longrightarrow> holds_version v t)"

definition pcie_answer_fits :: "pwl_cid_t \<Rightarrow> msg_buffer_t \<Rightarrow> pref \<Rightarrow> bool" where
  "pcie_answer_fits c m st \<longleftrightarrow>
     (c = PWL_CID_GET_PCIE_DEVICE_VERSION \<and> (status m = PWL_CID_STATUS_OK \<or> status m = PWL_CID_STATUS_ERROR)
        \<longrightarrow> device_version_fits (response m) st)
     \<and> (c = PWL_CID_GET_PCIE_AP_VERSION \<longrightarrow> version_fits (g_ap_version st) (version_answer ''_'' ''APVERSION'' m))
     \<and> (c = PWL_CID_GET_PCIE_OP_VERSION \<longrightarrow> version_fits (g_op_version st) (version_answer '' '' ''OP.'' m))
     \<and> (c = PWL_CID_GET_PCIE_OEM_VERSION \<longrightarrow> version_fits (g_oem_version st) (version_answer '' '' ''OEM.'' m))
     \<and> (c = PWL_CID_GET_PCIE_DPV_VERSION \<longrightarrow> version_fits (g_dpv_version st) (version_answer '' '' ''DPV'' m))"

definition answer_fits :: "pwl_cid_t \<Rightarrow> msg_buffer_t \<Rightarrow> pref \<Rightarrow> bool" where
  "answer_fits c m st \<longleftrightarrow>
     (c = PWL_CID_GET_PREF_CARRIER_ID \<longrightarrow> length (show_int (g_pref_carrier_id (get_preferred_carrier_id st))) < 10)
     \<and> (c = PWL_CID_GET_CIMI \<and> status m = PWL_CID_STATUS_OK \<longrightarrow> carrier_list_ok st)
     \<and> (c = PWL_CID_GET_FW_VER \<and> status m = PWL_CID_STATUS_OK \<longrightarrow> length (response m) < INFO_BUFFER_SIZE)
     \<and> (c = PWL_CID_GET_PREF_CARRIER \<and> status m = PWL_CID_STATUS_OK \<longrightarrow> carrier_name_fits (response m))
     \<and> (p_device_type st = PWL_DEVICE_TYPE_PCIE \<longrightarrow> pcie_answer_fits c m st)"

abbreviation completes :: "pref cres \<Rightarrow> bool" where
  "completes r \<equiv> \<exists>st'. r = Inr st'"

lemma completes_ifI:
  "(b \<Longrightarrow> completes x) \<Longrightarrow> (\<not> b \<Longrightarrow> completes y) \<Longrightarrow> completes (if b then x else y)"
  by simp

lemma search_carrier_completes:
  "\<forall>l \<in> set rows. let ts = strtok_all '','' l in 3 \<le> length ts \<and> length ts \<le> 4 \<and> length (ts ! 2) < 15
   \<Longrightarrow> \<exists>r. search_carrier line mcc mnc rows = Inr r"
  by (induction line mcc mnc rows rule: search_carrier.induct)
    (auto simp: Let_def row_field_def strcpy_cap_def)

lemma handle_cimi_completes:
  assumes "pref_inv st" "status m = PWL_CID_STATUS_OK \<longrightarrow> carrier_list_ok st"
  shows "completes (handle_cimi j m st)"
proof -
  have copy: "\<exists>b s. buf_strncpy (zeroed 4) src n = Inr b \<and> cstr b = Inr s" if "n \<le> 3" for src n
  proof -
    have "NUL \<in> set (drop n (zeroed 4))" using that by (simp add: zeroed_def)
    then show ?thesis using that by (simp add: buf_strncpy_def cstr_def zeroed_def)
  qed
  have n: "0 \<le> g_mnc_len st" "nat (g_mnc_len st) \<le> 3" using assms(1) by (auto simp: pref_inv_def)
  obtain b s where mcc: "buf_strncpy (zeroed 4) (response m) 3 = Inr b" "cstr b = Inr s" using copy by blast
  obtain b' s' where mnc: "buf_strncpy (zeroed 4) (if length (response m) < 3 then j_tail j else drop 3 (response m))
      (nat (g_mnc_len st)) = Inr b'" "cstr b' = Inr s'" using copy [OF n(2)] by blast
  have "completes (get_carrier_from_sim (j_line j) s s' st)" if "carrier_list_ok st"
  proof (cases "fopen_r (p_fs st) MCC_MNC_LIST")
    case (Some t)
    with that have "\<forall>l \<in> set (fgets_lines 255 t). let ts = strtok_all '','' l
        in 3 \<le> length ts \<and> length ts \<le> 4 \<and> length (ts ! 2) < 15" by (simp add: carrier_list_ok_def)
    then obtain r where "search_carrier (j_line j) s s' (fgets_lines 255 t) = Inr r"
      using search_carrier_completes [of "fgets_lines 255 t" "j_line j" s s'] by blast
    then show ?thesis by (simp add: get_carrier_from_sim_def Some)
  qed (simp add: get_carrier_from_sim_def)
  then show ?thesis using assms(2) mcc mnc n(1) by (auto simp: handle_cimi_def Let_def)
qed

lemma split_pcie_completes:
  assumes "length r < PWL_MQ_MAX_RESP" "device_version_fits r st"
  shows "completes (split_pcie_device_versions r st)"
proof (cases "strstr r ''RMM''")
  case (Some temp)
  have "length temp < MAX_PCIE_VERSION_LENGTH"
    using strstr_length [OF Some] assms(1) by (simp add: PWL_MQ_MAX_RESP_def MAX_PCIE_VERSION_LENGTH_def)
  then show ?thesis using assms(2)
    by (auto simp: split_pcie_device_versions_def device_version_fits_def Some strcpy_cap_def Let_def holds_version_def
        vbuf_filled_def vbuf_store_def split: list.splits option.splits)
qed (simp add: split_pcie_device_versions_def)

lemma handle_pref_carrier_completes:
  assumes "pref_inv st" "status m = PWL_CID_STATUS_OK \<longrightarrow> carrier_name_fits (response m)"
  shows "completes (handle_pref_carrier m st)"
proof (cases "status m = PWL_CID_STATUS_OK \<and> strstr (response m) ''preferred carrier name: '' \<noteq> None")
  case True
  with assms(2) obtain sub sub2 where s: "strstr (response m) ''preferred carrier name: '' = Some sub"
    "strstr (response m) ''preferred config name'' = Some sub2" "length sub2 + 27 \<le> length sub"
    "length sub \<le> length sub2 + 27 + MAX_PATH"
    by (auto simp: carrier_name_fits_def split: option.splits)
  have "length sub \<le> length (response m)" "length sub2 \<le> length (response m)" "length (g_pref_carrier st) = MAX_PATH"
    using strstr_length s(1,2) assms(1) by (auto simp: pref_inv_def)
  with True s show ?thesis
    by (auto simp: handle_pref_carrier_def Let_def buf_strncpy_def of_nat_diff)
qed (auto simp: handle_pref_carrier_def)

lemma store_version_completes: "version_fits v ans \<Longrightarrow> completes (store_version v ans upd st)"
  by (auto simp: store_version_def version_fits_def holds_version_def vbuf_store_def strcpy_cap_def split: option.splits)

lemma pref_answer_completes:
  assumes "pref_inv st" "msg_ok m" "answer_fits c m st"
  shows "completes (pref_answer j c m st)"
proof -
  have resp: "length (response m) < PWL_MQ_MAX_RESP" using assms(2) by (simp add: msg_ok_def)
  have ver: "completes (handle_fw_ver m st)" if "status m = PWL_CID_STATUS_OK \<longrightarrow> length (response m) < INFO_BUFFER_SIZE"
    using that by (auto simp: handle_fw_ver_def strcpy_cap_def)
  have pcie: "pcie_answer_fits c m st" if "p_device_type st = PWL_DEVICE_TYPE_PCIE"
    using that assms(3) by (simp add: answer_fits_def)
  show ?thesis
    unfolding pref_answer_def Let_def
    by (intro completes_ifI)
      (((rule handle_cimi_completes [OF assms(1)] | rule ver | rule split_pcie_completes [OF resp]
        | rule handle_pref_carrier_completes [OF assms(1)] | rule store_version_completes)?,
        use assms(3) pcie in \<open>simp add: answer_fits_def pcie_answer_fits_def\<close>)+)
qed

lemma pref_request_completes:
  assumes "pref_inv st" "pwl_cid m < 48" "is_request c" "answer_fits c m st"
  shows "completes (pref_request j c m st)"
proof (cases "c \<in> set silent_requests")
  case True
  then show ?thesis by (auto simp: silent_requests_def pref_request_def)
next
  case False
  have "completes r" if "replied j m st r" for r using that by (auto simp: replied_def)
  then show ?thesis
    using pref_request_replied [OF assms(1-3) False] pref_carrier_id_replied [OF assms(2)] assms(4)
    unfolding answer_fits_def by (cases "c = PWL_CID_GET_PREF_CARRIER_ID") blast+
qed

section \<open>Carrier list\<close>

definition row_line :: "string \<times> string \<times> string \<times> string \<Rightarrow> string" where
  "row_line r = (case r of (a, b, c, d) \<Rightarrow> a @ '','' @ b @ '','' @ c @ '','' @ d @ [NL])"

definition field_ok :: "string \<Rightarrow> bool" where
  "field_ok s \<longleftrightarrow> s \<noteq> [] \<and> CHR '','' \<notin> set s \<and> NL \<notin> set s"

definition row_ok :: "string \<times> string \<times> string \<times> string \<Rightarrow> bool" where
  "row_ok r \<longleftrightarrow> (case r of (a, b, c, d) \<Rightarrow> field_ok a \<and> field_ok b \<and> field_ok c \<and> field_ok d
     \<and> length c < 15 \<and> length (row_line r) < 255)"

lemma strtok_row: "row_ok (a, b, c, d) \<Longrightarrow> strtok_all '','' (row_line (a, b, c, d)) = [a, b, c, d @ [NL]]"
proof -
  assume ok: "row_ok (a, b, c, d)"
  have step: "strtok_all '','' (xs @ CHR '','' # ys) = xs # strtok_all '','' ys" if "field_ok xs" for xs ys
    using that by (intro strtok_all_Cons) (auto simp: field_ok_def)
  have "strtok_all '','' (d @ [NL]) = [d @ [NL]]"
    using ok by (intro strtok_all_last) (auto simp: row_ok_def field_ok_def)
  with ok step show ?thesis by (simp add: row_line_def row_ok_def)
qed

definition carrier_of :: "string \<Rightarrow> string \<Rightarrow> (string \<times> string \<times> string \<times> string) list \<Rightarrow> string option" where
  "carrier_of mcc mnc rs = map_option (\<lambda>(a, b, c, d). c) (find (\<lambda>(a, b, c, d). a = mcc \<and> b = mnc) rs)"

lemma search_carrier_rows:
  assumes "line \<ge> 1" "\<forall>r \<in> set rs. row_ok r"
  shows "search_carrier line mcc mnc (map row_line rs) = Inr (carrier_of mcc mnc rs)"
  using assms
proof (induction rs arbitrary: line)
  case (Cons r rs)
  obtain a b c d where r: "r = (a, b, c, d)" by (cases r)
  have ok: "row_ok (a, b, c, d)" using Cons.prems(2) r by simp
  have "search_carrier (line + 1) mcc mnc (map row_line rs) = Inr (carrier_of mcc mnc rs)"
    using Cons.IH [of "line + 1"] Cons.prems by simp
  moreover have "length c < 15" using ok by (simp add: row_ok_def)
  ultimately show ?case
    using Cons.prems(1) by (auto simp: r strtok_row [OF ok] Let_def row_field_def strcpy_cap_def carrier_of_def)
qed (simp add: carrier_of_def)

lemma fgets_rows:
  assumes "\<forall>r \<in> set rs. row_ok r"
  shows "fgets_lines 255 (concat (map row_line rs)) = map row_line rs"
  using assms
proof (induction rs)
  case (Cons r rs)
  obtain a b c d where r: "r = (a, b, c, d)" by (cases r)
  let ?x = "a @ '','' @ b @ '','' @ c @ '','' @ d"
  have "fgets_lines 255 (?x @ NL # concat (map row_line rs)) = (?x @ [NL]) # fgets_lines 255 (concat (map row_line rs))"
    using Cons.prems by (intro fgets_lines_Cons) (auto simp: r row_ok_def field_ok_def row_line_def)
  with Cons show ?case by (simp add: r row_line_def [of "(a, b, c, d)"])
qed simp

section \<open>The carrier id\<close>

text \<open>A reboot for the carrier change is needed exactly when the carrier differs from the recorded
  one and at least one of the two is a CXP carrier.\<close>

lemma is_need_cxp_reboot_iff:
  "is_need_cxp_reboot cur pre \<longleftrightarrow> cur \<noteq> pre \<and> (is_cxp_carrier cur \<or> is_cxp_carrier pre)"
  by (auto simp: is_need_cxp_reboot_def)

lemma atoi_int32: "- (2 ^ 31) \<le> atoi s \<and> atoi s < 2 ^ 31"
  unfolding atoi_def by (rule to_int32_range)

text \<open>The id that was written is the id that is read.\<close>

lemma carrier_id_recorded:
  assumes "atoi (show_int n) = n" "length (show_int n) \<le> 11" "can_read (p_fs st) PREFERRED_CARRIER_ID_FILE"
    and "p_fs st' = write_file PREFERRED_CARRIER_ID_FILE (show_int n) (p_fs st)"
  shows "g_pref_carrier_id (get_preferred_carrier_id st') = n"
proof -
  have "NL \<notin> set (show_int n)" using show_int_chars [of NL n] by (auto simp: isdigit_def)
  then have "fgets_lines 255 (show_int n) = [show_int n]" using assms(2) by (intro fgets_lines_last) simp_all
  with assms show ?thesis
    by (simp add: get_preferred_carrier_id_def fopen_r_def write_file_def)
qed

lemma pref_handle_carrier_id:
  assumes "pwl_cid m = cid_num PWL_CID_GET_CARRIER_ID" "status m = PWL_CID_STATUS_OK" "response m \<noteq> []"
  shows "pref_handle j m st = Inr (st\<lparr>g_current_carrier_id := atoi (response m)\<rparr>)"
proof -
  have c: "cid_of (cid_num PWL_CID_GET_CARRIER_ID) = Some PWL_CID_GET_CARRIER_ID"
    "\<not> is_request PWL_CID_GET_CARRIER_ID" "cid_num PWL_CID_GET_CARRIER_ID < 48" by code_simp+
  obtain l where "print_message_info m = Inr l" using print_message_info_ok [of m] c(3) assms(1) by auto
  with c assms show ?thesis by (simp add: pref_handle_def pref_answer_def)
qed

section \<open>The files\<close>

text \<open>Of the messages, only the backup request writes a file.\<close>

abbreviation keeps_fs :: "fs \<Rightarrow> pref cres \<Rightarrow> bool" where
  "keeps_fs w \<equiv> cpost (\<lambda>s. p_fs s = w)"

lemma p_reply_fs: "p_fs st = w \<Longrightarrow> keeps_fs w (p_reply j m s txt st)"
  by (auto simp: p_reply_def intro!: cpost_cbind_any)

lemma reply_version_fs: "p_fs st = w \<Longrightarrow> keeps_fs w (reply_version j m v st)"
  by (auto simp: reply_version_def intro!: p_reply_fs split: option.splits)

lemma get_carrier_fs: "keeps_fs (p_fs st) (get_carrier_from_sim line mcc mnc st)"
  by (auto simp: get_carrier_from_sim_def intro!: cpost_cbind_any split: option.splits)

lemma handle_cimi_fs: "keeps_fs (p_fs st) (handle_cimi j m st)"
  unfolding handle_cimi_def Let_def
  by (intro cpost_ifI cpost_cbind_any [of "buf_strncpy _ _ _"] cpost_cbind_any [of "cstr _"]
      cpost_cbind_any [of "if _ then _ else _"] cpost_cbindI [OF get_carrier_fs]) simp_all

lemma answers_fs:
  "keeps_fs (p_fs st) (handle_pref_carrier m st)" "keeps_fs (p_fs st) (handle_fw_ver m st)"
  "keeps_fs (p_fs st) (split_pcie_device_versions v st)" "p_fs (handle_crsm m st) = p_fs st"
  by (auto simp: handle_pref_carrier_def handle_fw_ver_def split_pcie_device_versions_def handle_crsm_def
      split_fw_versions_def Let_def intro!: cpost_cbind_any split: option.splits list.splits)

lemma store_version_fs: "(\<And>v'. p_fs (upd v' st) = p_fs st) \<Longrightarrow> keeps_fs (p_fs st) (store_version v a upd st)"
  by (auto simp: store_version_def intro!: cpost_cbind_any split: option.splits)

lemma pref_answer_fs: "keeps_fs (p_fs st) (pref_answer j c m st)"
  unfolding pref_answer_def Let_def
  by (intro cpost_ifI handle_cimi_fs answers_fs store_version_fs) (simp_all add: answers_fs)

lemma pref_request_fs: "c \<noteq> PWL_CID_BACKUP_SN_IMEI \<Longrightarrow> keeps_fs (p_fs st) (pref_request j c m st)"
  unfolding pref_request_def Let_def case_prod_beta
  by (intro cpost_ifI p_reply_fs reply_version_fs cpost_cbind_any [of "strcpy_cap _ _"])
    (simp_all add: p_send_message_queue_def handle_sn_imei_backup_file_def backup_load_def split: option.splits)

lemma pref_handle_fs:
  assumes "pwl_cid m \<noteq> cid_num PWL_CID_BACKUP_SN_IMEI"
  shows "keeps_fs (p_fs st) (pref_handle j m st)"
  unfolding pref_handle_def using assms
  by (intro cpost_cbind_any) (auto simp: cid_of_eq_Some_iff intro!: pref_request_fs pref_answer_fs split: option.splits)

lemma pref_run_fs:
  "\<forall>m \<in> set ms. pwl_cid m \<noteq> cid_num PWL_CID_BACKUP_SN_IMEI \<Longrightarrow> keeps_fs (p_fs st) (pref_run j ms st)"
proof (induction ms arbitrary: st)
  case (Cons m ms)
  have "keeps_fs (p_fs st) (pref_run j ms a)" if "p_fs a = p_fs st" for a
    using Cons.IH [of a] Cons.prems that by simp
  with Cons.prems show ?case by (auto intro!: cpost_cbindI [OF pref_handle_fs])
qed simp

lemma trim_line:
  assumes "trim s = s"
  shows "trim (s @ [NL]) = s"
proof (cases "s = []")
  case False
  then have "\<not> isspace (hd s)" "\<not> isspace (hd (rev s))" using trim_ends [of s] assms by (auto simp: hd_rev)
  with False have "dropWhile isspace (s @ [NL]) = s @ [NL]" "dropWhile isspace (rev s) = rev s"
    by (simp_all add: dropWhile_eq_self_iff)
  then show ?thesis by (simp add: trim_def isspace_def)
qed (simp add: trim_def isspace_def)

text \<open>What is read back from the file that a backup has written.\<close>

lemma backup_load_saved:
  assumes "trim input = input" "NL \<notin> set input" "length input < 64" "can_read (p_fs st) SN_IMEI_INFO_RECORD"
    and "files (p_fs st) SN_IMEI_INFO_RECORD = Some (input @ [NL])"
  shows "handle_sn_imei_backup_file 1 x st = (0, st\<lparr>g_sn_imei := input\<rparr>)"
proof -
  have "fgets 128 (input @ [NL]) = Some (input @ [NL])"
    using fgets_lines_Cons [of input 128 "[]"] assms(2,3) by (simp add: fgets_def)
  with assms show ?thesis
    by (simp add: handle_sn_imei_backup_file_def backup_load_def fopen_r_def trim_string_trim trim_line
        SN_MAX_LENGTH_def IMEI_MAX_LENGTH_def)
qed

section \<open>Properties\<close>

text \<open>C33: every request of another service is answered: for each request but two, and for the
  carrier id whenever it prints in less than ten characters, the turn completes without leaving
  defined behaviour and sends exactly one message, to the queue of the requester and with the
  command of the request. (The two are the carrier version, which nobody answers, and the request
  to read the firmware versions again.)\<close>

theorem pref_handle_replies:
  assumes "pref_inv st" "cid_of (pwl_cid m) = Some c" "is_request c" "c \<notin> set silent_requests"
    and "c = PWL_CID_GET_PREF_CARRIER_ID \<longrightarrow> length (show_int (g_pref_carrier_id (get_preferred_carrier_id st))) < 10"
  shows "replied j m st (pref_handle j m st)"
proof -
  have num: "pwl_cid m = cid_num c" using assms(2) by (simp add: cid_of_eq_Some_iff)
  have "cid_num PLW_CID_MAX_PREF = 15" by code_simp
  with assms(3) num have cid: "pwl_cid m < 48" by (simp add: is_request_def)
  obtain l where "print_message_info m = Inr l" using print_message_info_ok [OF cid] by blast
  then have "pref_handle j m st = pref_request j c m st" using assms(2,3) by (simp add: pref_handle_def)
  then show ?thesis
    using pref_request_replied [OF assms(1) cid assms(3,4)] pref_carrier_id_replied [OF cid] assms(5)
    by (cases "c = PWL_CID_GET_PREF_CARRIER_ID") auto
qed

definition pref_start :: "pwl_device_type_t \<Rightarrow> fs \<Rightarrow> (msg_buffer_t list \<times> bool) list \<Rightarrow> pref" where
  "pref_start ty w script = \<lparr>p_device_type = ty, g_main_fw_version = None, g_ap_version = None,
     g_carrier_version = None, g_oem_version = None, g_modem_version = None, g_op_version = None,
     g_dpv_version = None, g_sn_imei = [], g_mnc_len = 0, g_sim_carrier = [], g_pref_carrier = zeroed MAX_PATH,
     g_is_get_cimi = False, g_is_sim_insert = False, g_set_pref_carrier_ret = False,
     g_check_sim_carrier_on_going = False, g_need_cxp_reboot = False, g_sim_ready_state = -1,
     g_pref_carrier_id = SBP_ID_GENERIC, g_current_carrier_id = SBP_ID_GENERIC, g_manufacturer = ''Dell'',
     g_skuid = ''0CBD'', g_fwver = [], p_fs = w, p_out = [], p_script = script, p_update_checks = 0\<rparr>"

definition pjunk0 :: pjunk where
  "pjunk0 = \<lparr>j_response = [], j_content = [], j_tail = [], j_line = 0\<rparr>"

lemma pref_start_inv: "\<forall>e \<in> set script. \<forall>m \<in> set (fst e). msg_ok m \<Longrightarrow> pref_inv (pref_start ty w script)"
  by (simp add: pref_inv_def pref_start_def vbuf_ok_def PWL_MAX_MFR_SIZE_def PWL_MAX_SKUID_SIZE_def INFO_BUFFER_SIZE_def)

definition request_msg :: "nat \<Rightarrow> nat \<Rightarrow> string \<Rightarrow> msg_buffer_t" where
  "request_msg from cid txt = \<lparr>sender_id = from, pwl_cid = cid, status = PWL_CID_STATUS_NONE, response = [], content = txt\<rparr>"

theorem pref_handle_replies_witness:
  "replied pjunk0 (request_msg 4 1 []) (pref_start PWL_DEVICE_TYPE_USB fs0 [])
     (pref_handle pjunk0 (request_msg 4 1 []) (pref_start PWL_DEVICE_TYPE_USB fs0 []))"
proof (rule pref_handle_replies)
  show "pref_inv (pref_start PWL_DEVICE_TYPE_USB fs0 [])" by (rule pref_start_inv) simp
  show "cid_of (pwl_cid (request_msg 4 1 [])) = Some PWL_CID_GET_SKUID" by code_simp
  show "is_request PWL_CID_GET_SKUID" by code_simp
qed (simp_all add: silent_requests_def)

text \<open>C34: from a consistent state the message thread handles every message from a message array,
  whatever its command below 48, without leaving defined behaviour, and leaves a consistent state and
  the flag of the running carrier check as it was: the length of the network code is between 0 and 3,
  so that the copy of the code into its four bytes stays inside, and every string fits its array and a
  reply. The conditions are those no handler checks: a version answer of at most 99 characters, the
  carrier name between its two keywords in at most 260 bytes, an allocated version buffer with room
  for the token, a list of network codes whose rows have three or four fields with a name below 15
  characters, and a carrier id that prints in less than ten. The next message again starts from a
  consistent state.\<close>

theorem pref_handle_inv:
  assumes "pref_inv st" "msg_ok m" "pwl_cid m < 48" "\<forall>c. cid_of (pwl_cid m) = Some c \<longrightarrow> answer_fits c m st"
  shows "\<exists>st'. pref_handle j m st = Inr st' \<and> pref_inv st'
    \<and> g_check_sim_carrier_on_going st' = g_check_sim_carrier_on_going st"
proof -
  obtain l where l: "print_message_info m = Inr l" using print_message_info_ok [OF assms(3)] by blast
  have "completes (pref_handle j m st)"
    using assms(4) pref_request_completes [OF assms(1,3)] pref_answer_completes [OF assms(1,2)]
    by (auto simp: pref_handle_def l split: option.splits)
  then obtain st' where st': "pref_handle j m st = Inr st'" by blast
  show ?thesis
    using st' cpostD [OF pref_handle_pgood [OF pref_inv_pgood [OF assms(1)] assms(2)] st'] by (simp add: pgood_def)
qed

definition crsm_answer :: msg_buffer_t where
  "crsm_answer = \<lparr>sender_id = 2, pwl_cid = 27, status = PWL_CID_STATUS_OK,
     response = ''+CRSM: 144,0,'' @ [CHR 0x22] @ ''00000002'' @ [CHR 0x22], content = []\<rparr>"

lemma handle_crsm_answer: "pref_handle j crsm_answer st = Inr (st\<lparr>g_mnc_len := 2\<rparr>)"
proof -
  have "cid_of 27 = Some PWL_CID_GET_CRSM" "\<not> is_request PWL_CID_GET_CRSM" by code_simp+
  moreover have "handle_crsm crsm_answer st = st\<lparr>g_mnc_len := 2\<rparr>"
    by (simp add: handle_crsm_def crsm_answer_def strncmp_eq_def atoi_def strtol10_def isspace_def isdigit_def
        digit_val_def clamp_long_def to_int32_def Let_def)
  ultimately show ?thesis
    by (simp add: pref_handle_def print_message_info_def cid_name_at_ok pref_answer_def crsm_answer_def)
qed

definition carrier_name_answer :: msg_buffer_t where
  "carrier_name_answer = \<lparr>sender_id = 2, pwl_cid = cid_num PWL_CID_GET_PREF_CARRIER, status = PWL_CID_STATUS_OK,
     response = ''preferred carrier name:  ATT, preferred config name: ATT'', content = []\<rparr>"

theorem pref_handle_inv_witness:
  "(\<exists>st'. pref_handle pjunk0 crsm_answer (pref_start PWL_DEVICE_TYPE_USB fs0 []) = Inr st' \<and> g_mnc_len st' = 2 \<and> pref_inv st')
   \<and> (\<exists>st'. pref_handle pjunk0 carrier_name_answer (pref_start PWL_DEVICE_TYPE_USB fs0 []) = Inr st' \<and> pref_inv st')"
proof -
  let ?st = "pref_start PWL_DEVICE_TYPE_USB fs0 []"
  have inv: "pref_inv ?st" by (rule pref_start_inv) simp
  have "msg_ok crsm_answer" "pwl_cid crsm_answer < 48" "msg_ok carrier_name_answer" "pwl_cid carrier_name_answer < 48"
    "cid_of (pwl_cid crsm_answer) = Some PWL_CID_GET_CRSM"
    "cid_of (pwl_cid carrier_name_answer) = Some PWL_CID_GET_PREF_CARRIER"
    "carrier_name_fits (response carrier_name_answer)" by code_simp+
  moreover from this(7) have "answer_fits PWL_CID_GET_CRSM crsm_answer ?st"
    "answer_fits PWL_CID_GET_PREF_CARRIER carrier_name_answer ?st"
    by (simp_all add: answer_fits_def pref_start_def)
  ultimately show ?thesis
    using pref_handle_inv [OF inv, of crsm_answer pjunk0] pref_handle_inv [OF inv, of carrier_name_answer pjunk0]
      handle_crsm_answer by auto
qed

text \<open>C36: when a SIM becomes ready on a USB module and no carrier check is running, the callback
  runs one and leaves the flag of a running check cleared however the check ends (SIM taken out,
  timeouts, carrier already right, carrier switched); a later signal is not blocked.\<close>

theorem sim_state_change_clears_flag:
  assumes "pref_inv st" "p_device_type st = PWL_DEVICE_TYPE_USB" "\<not> g_check_sim_carrier_on_going st"
    and "signal_callback_sim_state_change j 2 st = Inr st'"
  shows "pref_inv st' \<and> \<not> g_check_sim_carrier_on_going st'"
proof -
  let ?st1 = "st\<lparr>g_is_sim_insert := True, g_check_sim_carrier_on_going := True\<rparr>"
  have start: "pgood True ?st1" using assms(1) by (intro pgood_flag [of False]) (simp add: pgood_defs assms(3))
  have "cpost (pgood False) (cbind (get_sim_carrier_info 12 j ?st1) (\<lambda>(rc, st2).
      if rc = 0 then cbind (switch_carrier 3 j st2) (\<lambda>(switched, st3).
        Inr (if switched then st3\<lparr>g_check_sim_carrier_on_going := False\<rparr> else st3)) else Inr st2))"
    by (rule cpost_cbindI [OF get_sim_carrier_info_pgood [OF start]])
      (auto intro!: cpost_cbindI [OF switch_carrier_pgood] pgood_flag)
  with assms(2-4) show ?thesis
    by (auto simp: signal_callback_sim_state_change_def pgood_def dest: cpostD)
qed

theorem sim_state_change_clears_flag_witness:
  "\<exists>st'. signal_callback_sim_state_change pjunk0 2 (pref_start PWL_DEVICE_TYPE_USB fs0 []) = Inr st'
     \<and> length (p_out st') = 12 \<and> \<not> g_check_sim_carrier_on_going st'"
proof -
  have "\<exists>st'. signal_callback_sim_state_change pjunk0 2 (pref_start PWL_DEVICE_TYPE_USB fs0 []) = Inr st'
      \<and> length (p_out st') = 12"
    by (simp add: signal_callback_sim_state_change_def pref_start_def get_sim_carrier_info_def p_ask_def
        p_send_message_queue_def p_wait_def numeral_eq_Suc)
  moreover have "pref_inv (pref_start PWL_DEVICE_TYPE_USB fs0 [])" by (rule pref_start_inv) simp
  ultimately show ?thesis
    using sim_state_change_clears_flag [of "pref_start PWL_DEVICE_TYPE_USB fs0 []" pjunk0]
    by (auto simp: pref_start_def)
qed

definition carrier_answer :: msg_buffer_t where
  "carrier_answer = \<lparr>sender_id = 2, pwl_cid = cid_num PWL_CID_GET_CARRIER_ID, status = PWL_CID_STATUS_OK,
     response = ''12'', content = []\<rparr>"

text \<open>When the SIM is ready and the module answers the question for its carrier id, the check
  records that id in its file and asks for a reboot exactly when the id differs from the one
  recorded before and one of the two belongs to a CXP carrier; what a later check reads back from
  the file is the id, so the same answer never asks for a second reboot.\<close>

theorem carrier_id_check_settles:
  assumes ready: "g_sim_ready_state st = 2"
    and script: "p_script st = ([m], signalled) # sc"
    and answer: "pwl_cid m = cid_num PWL_CID_GET_CARRIER_ID" "status m = PWL_CID_STATUS_OK" "response m \<noteq> []"
    and n: "atoi (response m) = n" "n \<noteq> -1"
    and io: "can_write (p_fs st) PREFERRED_CARRIER_ID_FILE" "can_read (p_fs st) PREFERRED_CARRIER_ID_FILE"
    and old: "g_pref_carrier_id (get_preferred_carrier_id st) = pre"
  shows "\<exists>st'. carrier_id_check j st = Inr st' \<and> g_current_carrier_id st' = n
    \<and> (g_need_cxp_reboot st' \<longleftrightarrow> n \<noteq> pre \<and> (is_cxp_carrier n \<or> is_cxp_carrier pre))
    \<and> g_pref_carrier_id (get_preferred_carrier_id st') = n \<and> p_script st' = sc"
proof -
  let ?s0 = "p_send_message_queue j PWL_CID_GET_CARRIER_ID ((get_preferred_carrier_id st)\<lparr>g_current_carrier_id := -1\<rparr>)"
  let ?s1 = "?s0\<lparr>p_script := sc, g_current_carrier_id := n\<rparr>"
  have "ask_rounds 3 j PWL_CID_GET_CARRIER_ID (\<lambda>s. g_current_carrier_id s \<noteq> -1)
      ((get_preferred_carrier_id st)\<lparr>g_current_carrier_id := -1\<rparr>) = Inr ?s1"
    using pref_handle_carrier_id [OF answer] script n
    by (simp add: numeral_3_eq_3 p_ask_def p_wait_def p_send_message_queue_def)
  then have "carrier_id_check j st = Inr (snd (set_preferred_carrier_id n (?s1\<lparr>g_need_cxp_reboot := is_need_cxp_reboot n pre\<rparr>)))"
    using ready n(2) old by (simp add: carrier_id_check_def p_send_message_queue_def)
  moreover have "p_fs ?s1 = p_fs st"
    by (simp add: p_send_message_queue_def)
  moreover have "atoi (show_int n) = n" "length (show_int n) \<le> 11"
    using atoi_int32 [of "response m"] atoi_show_int [of n "[]"] n(1)
    by (auto intro: length_show_int_int32 simp: int32_def)
  ultimately show ?thesis
    using io by (auto simp: set_preferred_carrier_id_def is_need_cxp_reboot_iff carrier_id_recorded)
qed

theorem carrier_id_check_settles_witness:
  "\<exists>st'. carrier_id_check pjunk0 ((pref_start PWL_DEVICE_TYPE_PCIE fs0 [([carrier_answer], True)])\<lparr>g_sim_ready_state := 2\<rparr>) = Inr st'
     \<and> g_need_cxp_reboot st' \<and> g_pref_carrier_id (get_preferred_carrier_id st') = 12"
proof -
  let ?st = "(pref_start PWL_DEVICE_TYPE_PCIE fs0 [([carrier_answer], True)])\<lparr>g_sim_ready_state := 2\<rparr>"
  have "atoi ''12'' = 12" by code_simp
  moreover have "g_pref_carrier_id (get_preferred_carrier_id ?st) = 65535"
    by (simp add: get_preferred_carrier_id_def pref_start_def fs0_def fopen_r_def SBP_ID_GENERIC_def)
  ultimately show ?thesis
    using carrier_id_check_settles [of ?st carrier_answer True "[]" 12 65535 pjunk0]
    by (auto simp: pref_start_def carrier_answer_def fs0_def is_cxp_carrier_def g_cxp_carrier_list_def)
qed

text \<open>With a well-formed list of network codes, a row counter that starts at zero and any header
  line, the SIM carrier becomes the name in the first row that has both codes, and
  \<^verbatim>\<open>Generic\<close> when there is none.\<close>

theorem get_carrier_from_sim_correct:
  assumes "fopen_r (p_fs st) MCC_MNC_LIST = Some (concat (map row_line (header # rs)))"
    and "\<forall>r \<in> set (header # rs). row_ok r"
  shows "get_carrier_from_sim 0 mcc mnc st =
    Inr (st\<lparr>g_sim_carrier := (case carrier_of mcc mnc rs of Some nm \<Rightarrow> nm | None \<Rightarrow> ''Generic'')\<rparr>)"
proof -
  have "fgets_lines 255 (concat (map row_line (header # rs))) = row_line header # map row_line rs"
    using fgets_rows [OF assms(2)] by simp
  moreover have "search_carrier 1 mcc mnc (map row_line rs) = Inr (carrier_of mcc mnc rs)"
    using assms(2) by (intro search_carrier_rows) simp_all
  ultimately show ?thesis by (simp add: get_carrier_from_sim_def assms(1))
qed

definition example_list :: "(string \<times> string \<times> string \<times> string) list" where
  "example_list = [(''MCC'', ''MNC'', ''Carrier'', ''Index''), (''310'', ''30'', ''ATT'', ''0''), (''311'', ''480'', ''VERIZON'', ''1'')]"

definition list_fs :: fs where
  "list_fs = write_file MCC_MNC_LIST (concat (map row_line example_list)) fs0"

theorem get_carrier_from_sim_correct_witness:
  "get_carrier_from_sim 0 ''311'' ''480'' (pref_start PWL_DEVICE_TYPE_USB list_fs [])
    = Inr ((pref_start PWL_DEVICE_TYPE_USB list_fs [])\<lparr>g_sim_carrier := ''VERIZON''\<rparr>)"
  using get_carrier_from_sim_correct [of "pref_start PWL_DEVICE_TYPE_USB list_fs []"
      "(''MCC'', ''MNC'', ''Carrier'', ''Index'')" "tl example_list" "''311''" "''480''"]
  by (simp add: pref_start_def list_fs_def write_file_def fopen_r_def fs0_def example_list_def
      row_ok_def field_ok_def row_line_def carrier_of_def)

text \<open>The row counter is not initialised; when it happens to start at minus one, the first
  carrier of the list is skipped in place of the header and is not found.\<close>

theorem get_carrier_from_sim_counter:
  "get_carrier_from_sim (-1) ''310'' ''30'' (pref_start PWL_DEVICE_TYPE_USB list_fs [])
    = Inr ((pref_start PWL_DEVICE_TYPE_USB list_fs [])\<lparr>g_sim_carrier := ''Generic''\<rparr>)"
proof -
  have rows: "\<forall>r \<in> set example_list. row_ok r"
    by (simp add: example_list_def row_ok_def field_ok_def row_line_def)
  have header: "strtok_all '','' (row_line (''MCC'', ''MNC'', ''Carrier'', ''Index'')) = [''MCC'', ''MNC'', ''Carrier'', ''Index'' @ [NL]]"
    using rows by (intro strtok_row) (simp add: example_list_def)
  have "search_carrier 1 ''310'' ''30'' (map row_line [(''311'', ''480'', ''VERIZON'', ''1'')]) = Inr None"
    using search_carrier_rows [of 1 "[(''311'', ''480'', ''VERIZON'', ''1'')]" "''310''" "''30''"] rows
    by (simp add: example_list_def carrier_of_def)
  then have "search_carrier (-1) ''310'' ''30'' (map row_line example_list) = Inr None"
    using header by (simp add: example_list_def Let_def row_field_def)
  with fgets_rows [OF rows] show ?thesis
    by (simp add: get_carrier_from_sim_def pref_start_def list_fs_def write_file_def fopen_r_def fs0_def)
qed
end
