(* ===== verification/Fw_Requests.thy ===== *)
theory Fw_Requests
  imports Common_Device Common_Status
begin

text \<open>
  The updater, \<^verbatim>\<open>pwl-fwupdate/pwl_fwupdate.c\<close>, part one: its globals, its message thread and the
  requests it sends to the other services.

  The globals of the file are the fields of the record \<open>fwu\<close>. A request sends a message and then
  waits on the condition variable \<^verbatim>\<open>g_cond\<close>, which the message thread (\<open>u_handle\<close>, one turn of
  \<^verbatim>\<open>msg_queue_thread_func\<close>) signals when it has handled the answer. The field \<open>u_script\<close> says what the
  message thread does at each wait: the messages it handles before the wait begins, whose signals are
  lost, the messages it handles during the wait, and whether the wait wakes up without a signal. An
  empty script is a timeout. The field \<open>u_mutex\<close> says whether the requesting thread holds \<^verbatim>\<open>g_mutex\<close>
  outside a wait: \<^verbatim>\<open>cond_wait\<close> keeps it locked when it fails, and a second \<^verbatim>\<open>pthread_mutex_lock\<close> by the
  same thread is a deadlock.
\<close>

section \<open>State\<close>

datatype ucond = G_COND | G_MADPT_WAIT_COND

record fwu =
  u_device_type :: pwl_device_type_t
  u_cid_map :: "pwl_cid_record_t list"
  u_image_file_fw_list :: "string list"
  u_image_file_carrier_list :: "string list"
  u_image_file_oem_list :: "string list"
  u_image_file_list :: "string list"
  u_diag_modem_port :: string
  u_authenticate_key_file_name :: string
  u_pref_carrier :: cbuf
  u_skuid :: string
  u_module_sku_id :: string
  u_oem_sku_id :: string
  u_device_package_ver :: string
  u_current_fw_ver :: string
  u_oem_pri_ver :: string
  u_carrier_id :: string
  u_ati_info :: string
  u_sn :: string
  u_imei :: string
  u_need_cxp_reboot :: bool
  u_del_tune_code_ret :: bool
  u_set_oem_pri_ver_ret :: bool
  u_set_pref_carrier_ret :: bool
  u_is_get_fw_ver :: bool
  u_retry_fw_update :: bool
  u_has_update_include_fw_img :: bool
  u_has_update_include_oem_img :: bool
  u_only_flash_oem_image :: bool
  u_pref_carrier_id :: int
  u_fw_image_file_count :: int
  u_image_file_count :: int
  u_oem_pri_reset_state :: int
  u_is_fastboot_cmd_error :: bool
  u_do_hw_reset_count :: int
  u_fw_update_retry_count :: int
  u_need_retry_fw_update :: int
  u_testprofile_delete_counter :: int
  u_testprofile_delete_done :: int
  u_esim_profile_chk_result :: int
  u_current_md_ver :: string
  u_current_op_ver :: string
  u_current_oem_ver :: string
  u_current_dpv_ver :: string
  u_esim_enable :: bool
  u_dev :: dev
  u_fs :: fs
  u_dirs :: "string \<Rightarrow> string list option"
  u_out :: "sent list"
  u_signals :: "ucond list"
  u_mutex :: bool
  u_exited :: bool
  u_gpio_resets :: nat
  u_script :: "(msg_buffer_t list \<times> msg_buffer_t list \<times> bool) list"

definition FDTL_MAX_PATH :: nat where "FDTL_MAX_PATH = 260"
definition FW_VERSION_LENGTH :: nat where "FW_VERSION_LENGTH = 12"
definition OEM_PRI_VERSION_LENGTH :: nat where "OEM_PRI_VERSION_LENGTH = 12"
definition OTHER_VERSION_LENGTH :: nat where "OTHER_VERSION_LENGTH = 36"
definition MAX_COMMAND_LEN :: nat where "MAX_COMMAND_LEN = 256"
definition DEVICE_PACKAGE_VERSION_LENGTH :: nat where "DEVICE_PACKAGE_VERSION_LENGTH = 15"
definition PWL_FW_UPDATE_RETRY_LIMIT :: nat where "PWL_FW_UPDATE_RETRY_LIMIT = 3"
definition ESIM_PROFILE_DELETE_SUCCESS :: int where "ESIM_PROFILE_DELETE_SUCCESS = 1"

lemmas fw_lengths = FDTL_MAX_PATH_def FW_VERSION_LENGTH_def OEM_PRI_VERSION_LENGTH_def
  OTHER_VERSION_LENGTH_def MAX_COMMAND_LEN_def DEVICE_PACKAGE_VERSION_LENGTH_def

definition g_preferred_carriers :: "string list" where
  "g_preferred_carriers =
    [''ATT'', ''DOCOMO'', ''DT'', ''EE'', ''GENERIC'', ''KDDI'', ''Optus'', ''SBM'', ''Swisscom'',
     ''Telefonica'', ''TELSTRA'', ''TMO'', ''VERIZON'', ''VODAFONE'', ''Rakuten'']"

text \<open>
  What C leaves open: the unwritten arrays of an outgoing message and the bytes of the local array
  in \<^verbatim>\<open>get_fw_update_status_value\<close> and its sibling.
\<close>

record ujunk =
  uj_response :: string
  uj_content :: string
  uj_stack :: cbuf

section \<open>Sending\<close>

definition u_send_message_queue :: "ujunk \<Rightarrow> pwl_cid_t \<Rightarrow> fwu \<Rightarrow> fwu" where
  "u_send_message_queue j c st =
     st\<lparr>u_out := u_out st @ [(CID_DESTINATION (cid_num c), \<lparr>sender_id = PWL_MQ_ID_FWUPDATE, pwl_cid = cid_num c,
        status = PWL_CID_STATUS_NONE, response = uj_response j, content = uj_content j\<rparr>)]\<rparr>"

definition u_send_message_queue_with_content :: "ujunk \<Rightarrow> pwl_cid_t \<Rightarrow> string \<Rightarrow> fwu \<Rightarrow> fwu cres" where
  "u_send_message_queue_with_content j c txt st =
     cbind (strcpy_cap PWL_MQ_MAX_CONTENT_LEN txt) (\<lambda>t.
       Inr (st\<lparr>u_out := u_out st @ [(CID_DESTINATION (cid_num c), \<lparr>sender_id = PWL_MQ_ID_FWUPDATE, pwl_cid = cid_num c,
          status = PWL_CID_STATUS_NONE, response = uj_response j, content = t\<rparr>)]\<rparr>))"

section \<open>Handling of answers\<close>

definition cond_signal :: "ucond \<Rightarrow> fwu \<Rightarrow> fwu" where
  "cond_signal c st = st\<lparr>u_signals := c # u_signals st\<rparr>"

definition handle_ap_ver :: "string \<Rightarrow> fwu \<Rightarrow> fwu cres" where
  "handle_ap_ver resp st =
     (case u_device_type st of
        PWL_DEVICE_TYPE_USB \<Rightarrow>
          (if length resp > 3
           then if strncmp_eq resp ''00.'' 3
                then cbind (strcpy_cap FW_VERSION_LENGTH resp) (\<lambda>v.
                       Inr (st\<lparr>u_current_fw_ver := v, u_is_get_fw_ver := True\<rparr>))
                else Inr (st\<lparr>u_is_get_fw_ver := False\<rparr>)
           else Inr (st\<lparr>u_is_get_fw_ver := False\<rparr>))
      | PWL_DEVICE_TYPE_PCIE \<Rightarrow>
          (if length resp > 3
           then cbind (strcpy_cap FW_VERSION_LENGTH resp) (\<lambda>v.
                  Inr (st\<lparr>u_current_fw_ver := v, u_is_get_fw_ver := True\<rparr>))
           else Inr (st\<lparr>u_is_get_fw_ver := False\<rparr>))
      | PWL_DEVICE_TYPE_UNKNOWN \<Rightarrow> Inr (st\<lparr>u_is_get_fw_ver := False\<rparr>))"

text \<open>The four cases that keep a version of a PCIe module behind a three-character tag.\<close>

definition handle_other_ver :: "string \<Rightarrow> (string \<Rightarrow> fwu \<Rightarrow> fwu) \<Rightarrow> string \<Rightarrow> fwu \<Rightarrow> fwu cres" where
  "handle_other_ver tag upd resp st =
     (if u_device_type st = PWL_DEVICE_TYPE_PCIE \<and> length resp > 3 \<and> strncmp_eq resp tag 3
      then cbind (strcpy_cap OTHER_VERSION_LENGTH resp) (\<lambda>v. Inr (upd v st))
      else Inr st)"

definition handle_switch_to_fastboot :: "msg_buffer_t \<Rightarrow> fwu \<Rightarrow> fwu cres" where
  "handle_switch_to_fastboot m st =
     (case cid_status_name (status m) of
        None \<Rightarrow> Inl NullDeref
      | Some nm \<Rightarrow> Inr (if nm = ''ERROR'' then st\<lparr>u_is_fastboot_cmd_error := True\<rparr> else st))"

definition handle_check_oem_pri_version :: "msg_buffer_t \<Rightarrow> fwu \<Rightarrow> fwu" where
  "handle_check_oem_pri_version m st =
     (if status m = PWL_CID_STATUS_OK
      then case strstr (response m) ''Revision: '' of
             Some found \<Rightarrow>
               st\<lparr>u_oem_pri_ver := take (OEM_PRI_VERSION_LENGTH - 1) (drop (length ''Revision: '') found)\<rparr>
           | None \<Rightarrow> st
      else st)"

text \<open>The loop over \<^verbatim>\<open>g_preferred_carriers\<close> that keeps the last matching index.\<close>

fun match_carrier :: "string \<Rightarrow> int \<Rightarrow> string list \<Rightarrow> int \<Rightarrow> int" where
  "match_carrier c n [] cur = cur"
| "match_carrier c n (p # ps) cur = match_carrier c (n + 1) ps (if strcasecmp_eq c p then n else cur)"

definition u_handle_pref_carrier :: "msg_buffer_t \<Rightarrow> fwu \<Rightarrow> fwu cres" where
  "u_handle_pref_carrier m st =
     (if status m = PWL_CID_STATUS_OK
      then case strstr (response m) ''preferred carrier name: '' of
             None \<Rightarrow> Inr st
           | Some sub \<Rightarrow>
               let start_pos = length (response m) - length sub + length ''preferred carrier name:  ''
               in (case strstr (response m) ''preferred config name'' of
                     None \<Rightarrow> Inl NullDeref
                   | Some sub2 \<Rightarrow>
                       let end_pos = length (response m) - length sub2;
                           sub_str_size = int end_pos - int start_pos - 2
                       in if sub_str_size < 0 then Inl Overflow
                          else cbind (buf_strncpy (u_pref_carrier st) (drop start_pos (response m)) (nat sub_str_size)) (\<lambda>b.
                               cbind (cstr b) (\<lambda>c.
                                 Inr (st\<lparr>u_pref_carrier := b,
                                         u_pref_carrier_id := match_carrier c 0 g_preferred_carriers (u_pref_carrier_id st)\<rparr>))))
      else Inr st)"

definition handle_skuid :: "msg_buffer_t \<Rightarrow> fwu \<Rightarrow> fwu cres" where
  "handle_skuid m st =
     (if status m = PWL_CID_STATUS_OK
      then cbind (strcpy_cap PWL_MAX_SKUID_SIZE (response m)) (\<lambda>s. Inr (st\<lparr>u_skuid := s\<rparr>))
      else Inr (st\<lparr>u_skuid := []\<rparr>))"

definition u_handle_sim_carrier :: "msg_buffer_t \<Rightarrow> fwu \<Rightarrow> fwu cres" where
  "u_handle_sim_carrier m st =
     (if status m = PWL_CID_STATUS_OK
      then cbind (buf_strcpy (u_pref_carrier st) (response m)) (\<lambda>b. Inr (st\<lparr>u_pref_carrier := b\<rparr>))
      else Inr st)"

text \<open>A value read from a status record through a pointer: kept when the record cannot be opened.\<close>

definition read_into :: "(int \<times> int option) cres \<Rightarrow> int \<Rightarrow> int cres" where
  "read_into r old = cbind r (\<lambda>(_, v). Inr (case v of None \<Rightarrow> old | Some x \<Rightarrow> x))"

definition handle_madpt_restart :: "ujunk \<Rightarrow> fwu \<Rightarrow> fwu cres" where
  "handle_madpt_restart j st0 =
     (let st = cond_signal G_MADPT_WAIT_COND st0
      in cbind (read_into (get_fw_update_status_value (uj_stack j) NEED_RETRY_FW_UPDATE (u_fs st)) (u_need_retry_fw_update st)) (\<lambda>v.
         let st1 = st\<lparr>u_need_retry_fw_update := v\<rparr>
         in if v = 1
            then cbind (set_fw_update_status_value NEED_RETRY_FW_UPDATE 0 (u_fs st1)) (\<lambda>(_, w).
                   Inr (st1\<lparr>u_fs := w, u_retry_fw_update := True\<rparr>))
            else Inr st1))"

definition handle_pref_carrier_id :: "string \<Rightarrow> fwu \<Rightarrow> fwu" where
  "handle_pref_carrier_id resp st = st\<lparr>u_carrier_id := (if length resp > 0 \<and> length resp < 10 then resp else [])\<rparr>"

definition handle_cxp_reboot_flag :: "string \<Rightarrow> fwu \<Rightarrow> fwu" where
  "handle_cxp_reboot_flag resp st =
     (if length resp > 0 then st\<lparr>u_need_cxp_reboot := strncmp_eq resp ''1'' 1\<rparr> else st)"

definition parse_sku_id :: "string \<Rightarrow> string \<Rightarrow> string cres" where
  "parse_sku_id resp module_sku_id =
     cbind (strcpy_cap PWL_MQ_MAX_RESP resp) (\<lambda>temp_resp.
       case strtok_all '':'' temp_resp of
         _ # token # _ \<Rightarrow> strcpy_cap PWL_MAX_SKUID_SIZE (trim_string token)
       | _ \<Rightarrow> Inr module_sku_id)"

definition get_oempri_reset_state :: "string \<Rightarrow> fwu \<Rightarrow> (int \<times> fwu) cres" where
  "get_oempri_reset_state resp st =
     cbind (strcpy_cap PWL_MQ_MAX_RESP resp) (\<lambda>temp_resp.
       case strtok_all '' '' temp_resp of
         token # _ \<Rightarrow> Inr (-1, st\<lparr>u_oem_pri_reset_state := atoi token\<rparr>)
       | [] \<Rightarrow> Inr (-1, st))"

fun esim_tokens :: "string list \<Rightarrow> fwu \<Rightarrow> fwu cres" where
  "esim_tokens [] st = Inr st"
| "esim_tokens (token # ts) st =
     (if token = ''0''
      then cbind (set_bootup_status_value ESIM_ENABLE_STATE 0 (u_fs st)) (\<lambda>(_, w).
             Inr (st\<lparr>u_esim_enable := False, u_fs := w\<rparr>))
      else if token = ''1''
      then cbind (set_bootup_status_value ESIM_ENABLE_STATE 1 (u_fs st)) (\<lambda>(_, w).
             Inr (st\<lparr>u_esim_enable := True, u_fs := w\<rparr>))
      else esim_tokens ts st)"

definition update_esim_enable_state :: "string \<Rightarrow> fwu \<Rightarrow> fwu cres" where
  "update_esim_enable_state esim_state st =
     cbind (strcpy_cap 50 esim_state) (\<lambda>temp_str. esim_tokens (strtok_all '' '' temp_str) st)"

definition handle_esim_test_prof :: "string \<Rightarrow> fwu \<Rightarrow> fwu" where
  "handle_esim_test_prof resp st =
     (if strstr resp ''BCHKTESTPROF'' \<noteq> None
      then case strchr resp (CHR '':'') of
             Some colon \<Rightarrow> st\<lparr>u_esim_profile_chk_result := atoi (tl colon)\<rparr>
           | None \<Rightarrow> st
      else st)"

definition handle_backup_sn_imei :: "msg_buffer_t \<Rightarrow> fwu \<Rightarrow> fwu cres" where
  "handle_backup_sn_imei m st =
     (if status m = PWL_CID_STATUS_OK \<and> length (response m) > 0
      then cbind (split_backup_sn_imei SN_MAX_LENGTH IMEI_MAX_LENGTH (response m)) (\<lambda>(_, sn, imei).
             Inr (st\<lparr>u_sn := sn, u_imei := imei\<rparr>))
      else Inr st)"

text \<open>
  The \<^verbatim>\<open>switch\<close>: what each case stores. \<open>u_answers_signal\<close> lists the cases that end with
  \<^verbatim>\<open>pthread_cond_signal(&g_cond)\<close>.
\<close>

definition u_answer :: "ujunk \<Rightarrow> pwl_cid_t \<Rightarrow> msg_buffer_t \<Rightarrow> fwu \<Rightarrow> fwu cres" where
  "u_answer j c m st =
     (let resp = response m; ok = (status m = PWL_CID_STATUS_OK)
      in case c of
           PWL_CID_GET_ATI \<Rightarrow> Inr (if ok then st\<lparr>u_ati_info := take (MAX_COMMAND_LEN - 1) resp\<rparr> else st)
         | PWL_CID_GET_AP_VER \<Rightarrow> handle_ap_ver resp st
         | PWL_CID_GET_MD_VER \<Rightarrow> handle_other_ver ''RMM'' (\<lambda>v s. s\<lparr>u_current_md_ver := v\<rparr>) resp st
         | PWL_CID_GET_OP_VER \<Rightarrow> handle_other_ver ''OP.'' (\<lambda>v s. s\<lparr>u_current_op_ver := v\<rparr>) resp st
         | PWL_CID_GET_OEM_VER \<Rightarrow> handle_other_ver ''OEM'' (\<lambda>v s. s\<lparr>u_current_oem_ver := v\<rparr>) resp st
         | PWL_CID_GET_DPV_VER \<Rightarrow> handle_other_ver ''DPV'' (\<lambda>v s. s\<lparr>u_current_dpv_ver := v\<rparr>) resp st
         | PWL_CID_SWITCH_TO_FASTBOOT \<Rightarrow> handle_switch_to_fastboot m st
         | PWL_CID_CHECK_OEM_PRI_VERSION \<Rightarrow> Inr (handle_check_oem_pri_version m st)
         | PWL_CID_GET_PREF_CARRIER \<Rightarrow> u_handle_pref_carrier m st
         | PWL_CID_GET_SKUID \<Rightarrow> handle_skuid m st
         | PWL_CID_DEL_TUNE_CODE \<Rightarrow> Inr (if ok then st\<lparr>u_del_tune_code_ret := True\<rparr> else st)
         | PWL_CID_SET_PREF_CARRIER \<Rightarrow> Inr (if ok then st\<lparr>u_set_pref_carrier_ret := True\<rparr> else st)
         | PWL_CID_SET_OEM_PRI_VERSION \<Rightarrow> Inr (if ok then st\<lparr>u_set_oem_pri_ver_ret := True\<rparr> else st)
         | PWL_CID_GET_SIM_CARRIER \<Rightarrow> u_handle_sim_carrier m st
         | PWL_CID_MADPT_RESTART \<Rightarrow> handle_madpt_restart j st
         | PWL_CID_GET_PREF_CARRIER_ID \<Rightarrow> Inr (handle_pref_carrier_id resp st)
         | PWL_CID_GET_CXP_REBOOT_FLAG \<Rightarrow> Inr (handle_cxp_reboot_flag resp st)
         | PWL_CID_GET_OEM_PRI_RESET_STATE \<Rightarrow>
             (if length resp > 0 then cbind (get_oempri_reset_state resp st) (\<lambda>(_, s). Inr s) else Inr st)
         | PWL_CID_GET_MODULE_SKU_ID \<Rightarrow>
             (if length resp > 0 \<and> strstr resp ''BSKU'' \<noteq> None
              then cbind (parse_sku_id resp (u_module_sku_id st)) (\<lambda>s. Inr (st\<lparr>u_module_sku_id := s\<rparr>))
              else Inr st)
         | PWL_CID_GET_ESIM_STATE \<Rightarrow> update_esim_enable_state resp st
         | PWL_CID_CHECK_ESIM_TEST_PROF \<Rightarrow> Inr (handle_esim_test_prof resp st)
         | PWL_CID_GET_BACKUP_SN_IMEI \<Rightarrow> handle_backup_sn_imei m st
         | _ \<Rightarrow> Inr st)"

definition u_answers_signal :: "pwl_cid_t list" where
  "u_answers_signal =
     [PWL_CID_GET_ATE, PWL_CID_GET_ATI, PWL_CID_GET_OEM_PRI_INFO, PWL_CID_GET_AP_VER, PWL_CID_GET_MD_VER,
      PWL_CID_GET_OP_VER, PWL_CID_GET_OEM_VER, PWL_CID_GET_DPV_VER, PWL_CID_CHECK_OEM_PRI_VERSION,
      PWL_CID_GET_PREF_CARRIER, PWL_CID_GET_SKUID, PWL_CID_DEL_TUNE_CODE, PWL_CID_SET_PREF_CARRIER,
      PWL_CID_SET_OEM_PRI_VERSION, PWL_CID_GET_SIM_CARRIER, PWL_CID_GET_PREF_CARRIER_ID,
      PWL_CID_GET_CXP_REBOOT_FLAG, PWL_CID_GET_OEM_PRI_RESET_STATE, PWL_CID_GET_MODULE_SKU_ID,
      PWL_CID_SETUP_JP_FCC_CONFIG, PWL_CID_GET_ESIM_STATE, PWL_CID_CHECK_ESIM_TEST_PROF,
      PWL_CID_DELETE_ESIM_TEST_PROF, PWL_CID_BACKUP_SN_IMEI, PWL_CID_GET_BACKUP_SN_IMEI,
      PWL_CID_RESTORE_SN, PWL_CID_RESTORE_IMEI]"

definition u_handle :: "ujunk \<Rightarrow> msg_buffer_t \<Rightarrow> fwu \<Rightarrow> fwu cres" where
  "u_handle j m st =
     cbind (print_message_info m) (\<lambda>_.
     cbind (update_cid_record (u_cid_map st) (pwl_cid m) (status m)) (\<lambda>t.
       case cid_of (pwl_cid m) of
         None \<Rightarrow> Inr (st\<lparr>u_cid_map := t\<rparr>)
       | Some c \<Rightarrow>
           cbind (u_answer j c m (st\<lparr>u_cid_map := t\<rparr>)) (\<lambda>s.
             Inr (if c \<in> set u_answers_signal then cond_signal G_COND s else s))))"

fun u_run :: "ujunk \<Rightarrow> msg_buffer_t list \<Rightarrow> fwu \<Rightarrow> fwu cres" where
  "u_run j [] st = Inr st"
| "u_run j (m # ms) st = cbind (u_handle j m st) (u_run j ms)"

section \<open>Start-up\<close>

text \<open>The globals with their static initialisers and the table that \<^verbatim>\<open>main\<close> fills first.\<close>

definition u_init :: "pwl_device_type_t \<Rightarrow> fs \<Rightarrow> (msg_buffer_t list \<times> msg_buffer_t list \<times> bool) list \<Rightarrow> fwu" where
  "u_init ty w sc =
     \<lparr>u_device_type = ty, u_cid_map = map (\<lambda>i. \<lparr>rec_cid = i, rec_status = PWL_CID_STATUS_NONE\<rparr>) [0..<49],
      u_image_file_fw_list = replicate 1 [], u_image_file_carrier_list = replicate 100 [],
      u_image_file_oem_list = replicate 100 [], u_image_file_list = replicate 201 [], u_diag_modem_port = [],
      u_authenticate_key_file_name = [], u_pref_carrier = zeroed FDTL_MAX_PATH, u_skuid = [], u_module_sku_id = [],
      u_oem_sku_id = [], u_device_package_ver = [], u_current_fw_ver = [], u_oem_pri_ver = [], u_carrier_id = [],
      u_ati_info = [], u_sn = [], u_imei = [], u_need_cxp_reboot = False, u_del_tune_code_ret = False,
      u_set_oem_pri_ver_ret = False, u_set_pref_carrier_ret = False, u_is_get_fw_ver = False,
      u_retry_fw_update = False, u_has_update_include_fw_img = False, u_has_update_include_oem_img = False,
      u_only_flash_oem_image = False, u_pref_carrier_id = 0, u_fw_image_file_count = 0, u_image_file_count = -1,
      u_oem_pri_reset_state = -1, u_is_fastboot_cmd_error = False, u_do_hw_reset_count = 0,
      u_fw_update_retry_count = 0, u_need_retry_fw_update = 0, u_testprofile_delete_counter = 0,
      u_testprofile_delete_done = 0, u_esim_profile_chk_result = -1, u_current_md_ver = [], u_current_op_ver = [],
      u_current_oem_ver = [], u_current_dpv_ver = [], u_esim_enable = True, u_dev = dev_init, u_fs = w,
      u_dirs = (\<lambda>_. None), u_out = [], u_signals = [], u_mutex = False, u_exited = False, u_gpio_resets = 0,
      u_script = sc\<rparr>"

section \<open>Waiting\<close>

definition u_timedwait :: "ujunk \<Rightarrow> ucond \<Rightarrow> fwu \<Rightarrow> (bool \<times> fwu) cres" where
  "u_timedwait j c st =
     (case u_script st of
        [] \<Rightarrow> Inr (False, st)
      | (before, during, spurious) # rest \<Rightarrow>
          cbind (u_run j before (st\<lparr>u_script := rest\<rparr>)) (\<lambda>s1.
          cbind (u_run j during (s1\<lparr>u_signals := []\<rparr>)) (\<lambda>s2.
            Inr (c \<in> set (u_signals s2) \<or> spurious, s2))))"

text \<open>
  The sequence of the request functions: lock, timed wait, unlock. It cannot go on when the thread
  still holds the mutex.
\<close>

definition locked_wait :: "ujunk \<Rightarrow> fwu \<Rightarrow> (bool \<times> fwu) cres" where
  "locked_wait j st = cbind (cassert (\<not> u_mutex st) SelfDeadlock) (\<lambda>_. u_timedwait j G_COND st)"

text \<open>\<^verbatim>\<open>cond_wait(&g_mutex, &g_cond, t)\<close>: it unlocks before it locks, and keeps the lock when it fails.\<close>

definition ETIMEDOUT :: int where "ETIMEDOUT = 110"

definition u_cond_wait :: "ujunk \<Rightarrow> fwu \<Rightarrow> (bool \<times> fwu) cres" where
  "u_cond_wait j st =
     cbind (u_timedwait j G_COND (st\<lparr>u_mutex := False\<rparr>)) (\<lambda>(ok, s).
       let (ret, held) = cond_wait (if ok then 0 else ETIMEDOUT)
       in Inr (ret, s\<lparr>u_mutex := held\<rparr>))"

text \<open>\<^verbatim>\<open>cond_wait\<close> on the other pair, \<^verbatim>\<open>g_madpt_wait_mutex\<close> and \<^verbatim>\<open>g_madpt_wait_cond\<close>.\<close>

definition u_madpt_wait :: "ujunk \<Rightarrow> fwu \<Rightarrow> (bool \<times> fwu) cres" where
  "u_madpt_wait j st = u_timedwait j G_MADPT_WAIT_COND st"

section \<open>Requests\<close>

text \<open>
  The loop all request functions share: send, wait, and leave when the wait was answered and the
  answer is usable; otherwise count one more attempt. The first argument is the number of attempts
  left; the result says whether the loop was left with an answer, and the attempts left then.
\<close>

fun request_loop ::
  "nat \<Rightarrow> (fwu \<Rightarrow> fwu cres) \<Rightarrow> (fwu \<Rightarrow> (bool \<times> fwu) cres) \<Rightarrow> (fwu \<Rightarrow> bool cres) \<Rightarrow> fwu \<Rightarrow> (bool \<times> nat \<times> fwu) cres"
where
  "request_loop 0 send wt usable st = Inr (False, 0, st)"
| "request_loop (Suc n) send wt usable st =
     cbind (send st) (\<lambda>s1.
     cbind (wt s1) (\<lambda>(ok, s2).
       if \<not> ok then request_loop n send wt usable s2
       else cbind (usable s2) (\<lambda>u.
              if u then Inr (True, Suc n, s2) else request_loop n send wt usable s2)))"

definition ask :: "ujunk \<Rightarrow> pwl_cid_t \<Rightarrow> fwu \<Rightarrow> fwu cres" where
  "ask j c st = Inr (u_send_message_queue j c st)"

text \<open>A whole request with the limit \<^verbatim>\<open>PWL_FW_UPDATE_RETRY_LIMIT\<close> and the two return values of the code.\<close>

definition request ::
  "(fwu \<Rightarrow> fwu cres) \<Rightarrow> (fwu \<Rightarrow> (bool \<times> fwu) cres) \<Rightarrow> (fwu \<Rightarrow> bool cres) \<Rightarrow> fwu \<Rightarrow> (int \<times> fwu) cres" where
  "request send wt usable st =
     cbind (request_loop PWL_FW_UPDATE_RETRY_LIMIT send wt usable st) (\<lambda>(answered, _, s).
       Inr (if answered then 0 else -1, s))"

definition carrier_known :: "fwu \<Rightarrow> bool cres" where
  "carrier_known st = cbind (cstr (u_pref_carrier st)) (\<lambda>c. Inr (length c \<noteq> 0))"

definition u_get_sim_carrier :: "ujunk \<Rightarrow> fwu \<Rightarrow> (int \<times> fwu) cres" where
  "u_get_sim_carrier j st =
     request (ask j PWL_CID_GET_SIM_CARRIER) (locked_wait j) carrier_known
       (st\<lparr>u_pref_carrier := zeroed FDTL_MAX_PATH\<rparr>)"

definition u_get_preferred_carrier :: "ujunk \<Rightarrow> fwu \<Rightarrow> (int \<times> fwu) cres" where
  "u_get_preferred_carrier j st =
     request (ask j PWL_CID_GET_PREF_CARRIER) (locked_wait j) carrier_known
       (st\<lparr>u_pref_carrier := zeroed FDTL_MAX_PATH\<rparr>)"

definition get_sku_id :: "ujunk \<Rightarrow> fwu \<Rightarrow> (int \<times> fwu) cres" where
  "get_sku_id j st =
     request (ask j PWL_CID_GET_SKUID) (locked_wait j) (\<lambda>s. Inr (length (u_skuid s) \<noteq> 0)) st"

text \<open>
  \<^verbatim>\<open>get_carrier_id\<close> and \<^verbatim>\<open>get_cxp_reboot_flag\<close> reach their closing brace without a \<^verbatim>\<open>return\<close> when the
  attempts are used up: the result is then \<open>None\<close>, no value that a caller could use.
\<close>

definition get_carrier_id :: "ujunk \<Rightarrow> fwu \<Rightarrow> (int option \<times> fwu) cres" where
  "get_carrier_id j st =
     cbind (request_loop PWL_FW_UPDATE_RETRY_LIMIT (ask j PWL_CID_GET_PREF_CARRIER_ID) (locked_wait j) (\<lambda>_. Inr True)
              (st\<lparr>u_carrier_id := []\<rparr>)) (\<lambda>(answered, _, s).
       Inr (if answered then Some 0 else None, s))"

definition get_cxp_reboot_flag :: "ujunk \<Rightarrow> fwu \<Rightarrow> (int option \<times> fwu) cres" where
  "get_cxp_reboot_flag j st =
     cbind (request_loop PWL_FW_UPDATE_RETRY_LIMIT (ask j PWL_CID_GET_CXP_REBOOT_FLAG) (locked_wait j) (\<lambda>_. Inr True)
              (st\<lparr>u_need_cxp_reboot := False\<rparr>)) (\<lambda>(answered, _, s).
       Inr (if answered then Some 0 else None, s))"

definition u_get_esim_enable_state :: "ujunk \<Rightarrow> fwu \<Rightarrow> (int \<times> fwu) cres" where
  "u_get_esim_enable_state j st =
     request (ask j PWL_CID_GET_ESIM_STATE) (u_cond_wait j) (\<lambda>_. Inr True) st"

text \<open>
  \<^verbatim>\<open>get_current_fw_version\<close>: the first loop returns at once for a USB module, and the counter
  \<^verbatim>\<open>retry\<close> runs on through all loops, so \<open>n\<close> attempts are left for the ones that follow. One stage of
  the versions of a PCIe module is a loop and the test of the string it should have filled.
\<close>

definition version_stage :: "ujunk \<Rightarrow> pwl_cid_t \<Rightarrow> (fwu \<Rightarrow> fwu) \<Rightarrow> (fwu \<Rightarrow> string) \<Rightarrow> nat \<Rightarrow> fwu
    \<Rightarrow> (bool \<times> nat \<times> fwu) cres" where
  "version_stage j c clear field n st =
     cbind (request_loop n (ask j c) (locked_wait j) (\<lambda>_. Inr True) (clear st)) (\<lambda>(_, n', s).
       Inr (length (field s) > 0, n', s))"

definition pcie_versions :: "ujunk \<Rightarrow> nat \<Rightarrow> fwu \<Rightarrow> (int \<times> fwu) cres" where
  "pcie_versions j n st =
     cbind (version_stage j PWL_CID_GET_MD_VER (\<lambda>s. s\<lparr>u_current_md_ver := []\<rparr>) u_current_md_ver n st) (\<lambda>(ok1, n1, s1).
     if \<not> ok1 then Inr (-1, s1)
     else cbind (version_stage j PWL_CID_GET_OP_VER (\<lambda>s. s\<lparr>u_current_op_ver := []\<rparr>) u_current_op_ver n1 s1) (\<lambda>(ok2, n2, s2).
     if \<not> ok2 then Inr (-1, s2)
     else cbind (version_stage j PWL_CID_GET_OEM_VER (\<lambda>s. s\<lparr>u_current_oem_ver := []\<rparr>) u_current_oem_ver n2 s2) (\<lambda>(ok3, n3, s3).
     if \<not> ok3 then Inr (-1, s3)
     else cbind (version_stage j PWL_CID_GET_DPV_VER (\<lambda>s. s\<lparr>u_current_dpv_ver := []\<rparr>) u_current_dpv_ver n3 s3) (\<lambda>(ok4, n4, s4).
     if \<not> ok4 then Inr (-1, s4)
     else cbind (u_get_esim_enable_state j s4) (\<lambda>(_, s5). Inr (0, s5))))))"

definition get_current_fw_version :: "ujunk \<Rightarrow> fwu \<Rightarrow> (int \<times> fwu) cres" where
  "get_current_fw_version j st =
     cbind (request_loop PWL_FW_UPDATE_RETRY_LIMIT (ask j PWL_CID_GET_AP_VER) (locked_wait j) (\<lambda>_. Inr True)
              (st\<lparr>u_current_fw_ver := []\<rparr>)) (\<lambda>(answered, n, s).
       if answered \<and> u_device_type s = PWL_DEVICE_TYPE_USB then Inr (0, s)
       else if answered \<and> u_device_type s \<noteq> PWL_DEVICE_TYPE_PCIE then Inr (-1, s)
       else if length (u_current_fw_ver s) \<le> 0 then Inr (-1, s)
       else if u_device_type s = PWL_DEVICE_TYPE_PCIE then pcie_versions j n s
       else Inr (-1, s))"

section \<open>Settings\<close>

text \<open>\<^verbatim>\<open>set_preferred_carrier\<close> looks the first matching name up; index 0 when none matches.\<close>

fun find_carrier :: "string \<Rightarrow> nat \<Rightarrow> string list \<Rightarrow> nat" where
  "find_carrier c i [] = 0"
| "find_carrier c i (p # ps) = (if strcasecmp_eq c p then i else find_carrier c (Suc i) ps)"

definition u_set_preferred_carrier :: "ujunk \<Rightarrow> fwu \<Rightarrow> (int \<times> fwu) cres" where
  "u_set_preferred_carrier j st =
     cbind (cstr (u_pref_carrier st)) (\<lambda>c.
     let carrier_index = find_carrier c 0 g_preferred_carriers
     in request (u_send_message_queue_with_content j PWL_CID_SET_PREF_CARRIER (g_preferred_carriers ! carrier_index))
          (locked_wait j) (\<lambda>s. Inr (u_set_pref_carrier_ret s)) (st\<lparr>u_set_pref_carrier_ret := False\<rparr>))"

definition del_tune_code :: "ujunk \<Rightarrow> fwu \<Rightarrow> (int \<times> fwu) cres" where
  "del_tune_code j st =
     request (ask j PWL_CID_DEL_TUNE_CODE) (locked_wait j) (\<lambda>s. Inr (u_del_tune_code_ret s))
       (st\<lparr>u_del_tune_code_ret := False\<rparr>)"

definition clean_oem_pri_version :: "ujunk \<Rightarrow> fwu \<Rightarrow> (int \<times> fwu) cres" where
  "clean_oem_pri_version j st =
     request (u_send_message_queue_with_content j PWL_CID_SET_OEM_PRI_VERSION ''DPV00.00.00.00'')
       (locked_wait j) (\<lambda>s. Inr (u_set_oem_pri_ver_ret s)) (st\<lparr>u_set_oem_pri_ver_ret := False\<rparr>)"

text \<open>The package version does not change while the loop runs, so the test inside it is made once.\<close>

definition set_oem_pri_version :: "ujunk \<Rightarrow> fwu \<Rightarrow> (int \<times> fwu) cres" where
  "set_oem_pri_version j st =
     (let st1 = st\<lparr>u_set_oem_pri_ver_ret := False\<rparr>
      in if strstr (u_device_package_ver st1) ''DPV'' \<noteq> None
         then request (\<lambda>s. u_send_message_queue_with_content j PWL_CID_SET_OEM_PRI_VERSION (u_device_package_ver s) s)
                (locked_wait j) (\<lambda>s. Inr (u_set_oem_pri_ver_ret s)) st1
         else Inr (0, st1))"

definition get_ati_info :: "ujunk \<Rightarrow> fwu \<Rightarrow> (int \<times> fwu) cres" where
  "get_ati_info j st = request (ask j PWL_CID_GET_ATI) (locked_wait j) (\<lambda>_. Inr True) st"

text \<open>The value behind a label of the ATI text, up to the end of its line, cut to its array.\<close>

definition ati_field :: "string \<Rightarrow> nat \<Rightarrow> string \<Rightarrow> string \<Rightarrow> string" where
  "ati_field label cap ati old =
     trim_string (case strstr ati label of
        None \<Rightarrow> old
      | Some p \<Rightarrow> let v = drop (length label) p; len = strcspn v [NL]
                 in take (if cap \<le> len then cap - 1 else len) v)"

definition get_sn_and_imei :: "fwu \<Rightarrow> int \<times> fwu" where
  "get_sn_and_imei st =
     (if length (u_ati_info st) > 0
      then (0, st\<lparr>u_imei := ati_field ''IMEI:'' IMEI_MAX_LENGTH (u_ati_info st) (u_imei st),
                  u_sn := ati_field ''CEI SN:'' SN_MAX_LENGTH (u_ati_info st) (u_sn st)\<rparr>)
      else (-1, st))"

definition get_oem_pri_version :: "ujunk \<Rightarrow> fwu \<Rightarrow> (bool \<times> fwu) cres" where
  "get_oem_pri_version j st =
     cbind (request (ask j PWL_CID_CHECK_OEM_PRI_VERSION) (u_cond_wait j) (\<lambda>s. Inr (length (u_oem_pri_ver s) \<noteq> 0))
              (st\<lparr>u_oem_pri_ver := []\<rparr>)) (\<lambda>(r, s). Inr (r = 0, s))"

definition get_module_sku_id :: "ujunk \<Rightarrow> fwu \<Rightarrow> (int \<times> fwu) cres" where
  "get_module_sku_id j st =
     request (ask j PWL_CID_GET_MODULE_SKU_ID) (locked_wait j) (\<lambda>s. Inr (length (u_module_sku_id s) \<noteq> 0))
       (st\<lparr>u_module_sku_id := []\<rparr>)"

definition check_oempri_reset_state :: "ujunk \<Rightarrow> fwu \<Rightarrow> (int \<times> fwu) cres" where
  "check_oempri_reset_state j st =
     cbind (request_loop PWL_FW_UPDATE_RETRY_LIMIT (ask j PWL_CID_GET_OEM_PRI_RESET_STATE) (locked_wait j)
              (\<lambda>s. Inr (u_oem_pri_reset_state s \<noteq> -1)) st) (\<lambda>(answered, _, s).
       Inr (if answered \<and> u_oem_pri_reset_state s \<in> {2, 3, 4, 5, 8} then -1 else 0, s))"

definition get_oem_sku_id :: "string \<Rightarrow> string" where
  "get_oem_sku_id ssid = (case map_of ssid_sku_table ssid of Some s \<Rightarrow> s | None \<Rightarrow> ''4131001'')"

section \<open>The eSIM test profile\<close>

definition store_esim :: "string \<Rightarrow> int \<Rightarrow> fwu \<Rightarrow> fwu cres" where
  "store_esim key v st =
     cbind (set_esim_profile_remove_status_value key v (u_fs st)) (\<lambda>(_, w). Inr (st\<lparr>u_fs := w\<rparr>))"

definition set_delete_counter :: "int \<Rightarrow> fwu \<Rightarrow> fwu cres" where
  "set_delete_counter v st = store_esim ESIM_TESTPROFILE_DELETE_COUNTER v (st\<lparr>u_testprofile_delete_counter := v\<rparr>)"

definition set_delete_done :: "int \<Rightarrow> fwu \<Rightarrow> fwu cres" where
  "set_delete_done v st = store_esim ESIM_TESTPROFILE_DELETE_DONE v (st\<lparr>u_testprofile_delete_done := v\<rparr>)"

definition do_esim_test_profile_remove_command :: "ujunk \<Rightarrow> fwu \<Rightarrow> (int \<times> fwu) cres" where
  "do_esim_test_profile_remove_command j st =
     cbind (request (ask j PWL_CID_DELETE_ESIM_TEST_PROF) (locked_wait j)
              (\<lambda>s. Inr (u_esim_profile_chk_result s \<noteq> -1)) st) (\<lambda>(r, s).
       if r = 0 then Inr (0, s)
       else cbind (set_delete_counter 0 s) (\<lambda>s1.
            cbind (set_delete_done 2 s1) (\<lambda>s2. Inr (-1, s2))))"

text \<open>\<^verbatim>\<open>restart_madpt_and_fwupdate_service\<close> ends the process.\<close>

definition restart_madpt_and_fwupdate_service :: "ujunk \<Rightarrow> fwu \<Rightarrow> fwu cres" where
  "restart_madpt_and_fwupdate_service j st =
     cbind (u_send_message_queue_with_content j PWL_CID_MADPT_RESTART ''FALSE'' st) (\<lambda>s. Inr (s\<lparr>u_exited := True\<rparr>))"

definition count_failed_removal :: "fwu \<Rightarrow> fwu cres" where
  "count_failed_removal st =
     (if u_testprofile_delete_counter st = 0 then set_delete_counter 2 st
      else cbind (set_delete_counter (u_testprofile_delete_counter st - 1) st) (\<lambda>s.
             if u_testprofile_delete_counter s = 0 then set_delete_done 2 s else Inr s))"

definition check_esim_test_profile_process :: "ujunk \<Rightarrow> fwu \<Rightarrow> (int \<times> fwu) cres" where
  "check_esim_test_profile_process j st =
     cbind (request (ask j PWL_CID_CHECK_ESIM_TEST_PROF) (locked_wait j)
              (\<lambda>s. Inr (u_esim_profile_chk_result s \<noteq> -1)) (st\<lparr>u_esim_profile_chk_result := -1\<rparr>)) (\<lambda>(_, s).
       if u_esim_profile_chk_result s = ESIM_PROFILE_DELETE_SUCCESS
       then cbind (set_delete_counter 0 (s\<lparr>u_testprofile_delete_done := 1\<rparr>)) (\<lambda>s1.
            cbind (set_delete_done 1 s1) (\<lambda>s2. Inr (0, s2)))
       else cbind (count_failed_removal s) (\<lambda>s1.
            cbind (do_esim_test_profile_remove_command j s1) (\<lambda>(r, s2).
              if r = 0 then cbind (restart_madpt_and_fwupdate_service j s2) (\<lambda>s3. Inr (0, s3))
              else Inr (0, s2))))"

section \<open>Serial number and IMEI\<close>

datatype mq_action = MESSAGE_QUEUE_ACTION_GET_ATI_INFO | MESSAGE_QUEUE_ACTION_BACKUP_SN_IMEI
  | MESSAGE_QUEUE_ACTION_GET_BACKUP_SN_IMEI | MESSAGE_QUEUE_ACTION_RESTORE_SN | MESSAGE_QUEUE_ACTION_RESTORE_IMEI

definition action_cid :: "mq_action \<Rightarrow> pwl_cid_t" where
  "action_cid a =
     (case a of
        MESSAGE_QUEUE_ACTION_GET_ATI_INFO \<Rightarrow> PWL_CID_GET_ATI
      | MESSAGE_QUEUE_ACTION_BACKUP_SN_IMEI \<Rightarrow> PWL_CID_BACKUP_SN_IMEI
      | MESSAGE_QUEUE_ACTION_GET_BACKUP_SN_IMEI \<Rightarrow> PWL_CID_GET_BACKUP_SN_IMEI
      | MESSAGE_QUEUE_ACTION_RESTORE_SN \<Rightarrow> PWL_CID_RESTORE_SN
      | MESSAGE_QUEUE_ACTION_RESTORE_IMEI \<Rightarrow> PWL_CID_RESTORE_IMEI)"

definition action_send :: "ujunk \<Rightarrow> mq_action \<Rightarrow> fwu \<Rightarrow> fwu cres" where
  "action_send j a st =
     (case a of
        MESSAGE_QUEUE_ACTION_BACKUP_SN_IMEI \<Rightarrow>
          u_send_message_queue_with_content j (action_cid a)
            (take (SN_MAX_LENGTH + IMEI_MAX_LENGTH - 1) (u_sn st @ '';'' @ u_imei st)) st
      | MESSAGE_QUEUE_ACTION_RESTORE_SN \<Rightarrow> u_send_message_queue_with_content j (action_cid a) (u_sn st) st
      | MESSAGE_QUEUE_ACTION_RESTORE_IMEI \<Rightarrow> u_send_message_queue_with_content j (action_cid a) (u_imei st) st
      | _ \<Rightarrow> ask j (action_cid a) st)"

definition action_accepted :: "mq_action \<Rightarrow> fwu \<Rightarrow> bool cres" where
  "action_accepted a st =
     (let cid = cid_num (action_cid a)
      in if cid < length (u_cid_map st) then Inr (rec_status (u_cid_map st ! cid) \<noteq> PWL_CID_STATUS_ERROR)
         else Inl OutOfBounds)"

text \<open>
  \<^verbatim>\<open>post_message_queue_action\<close>: \<open>retry\<close> is the value its uninitialised counter happens to have.
\<close>

definition post_message_queue_action :: "ujunk \<Rightarrow> int \<Rightarrow> mq_action \<Rightarrow> fwu \<Rightarrow> (int \<times> fwu) cres" where
  "post_message_queue_action j retry a st =
     cbind (request_loop (nat (int PWL_FW_UPDATE_RETRY_LIMIT - retry)) (action_send j a) (locked_wait j)
              (action_accepted a) st) (\<lambda>(answered, _, s).
       Inr (if answered then 0 else -1, s))"

section \<open>What the message thread leaves alone\<close>

text \<open>
  \<open>u_keep\<close>: the fields that no message changes, and the version strings, which an answer may replace
  but never empties. \<open>u_frame\<close> adds the sent messages and the mutex.
\<close>

definition esim_view :: "fs \<Rightarrow> string option \<times> (string \<Rightarrow> bool) \<times> (string \<Rightarrow> bool)" where
  "esim_view w = (files w ESIM_PROFILE_REMOVE_RECORD, can_read w, can_write w)"

definition u_keep :: "fwu \<Rightarrow> fwu \<Rightarrow> bool" where
  "u_keep st s \<longleftrightarrow> u_exited s = u_exited st
     \<and> u_device_type s = u_device_type st \<and> u_device_package_ver s = u_device_package_ver st
     \<and> u_image_file_list s = u_image_file_list st \<and> u_image_file_count s = u_image_file_count st
     \<and> u_image_file_fw_list s = u_image_file_fw_list st \<and> u_image_file_oem_list s = u_image_file_oem_list st
     \<and> u_image_file_carrier_list s = u_image_file_carrier_list st
     \<and> u_fw_image_file_count s = u_fw_image_file_count st
     \<and> u_has_update_include_fw_img s = u_has_update_include_fw_img st
     \<and> u_has_update_include_oem_img s = u_has_update_include_oem_img st
     \<and> u_only_flash_oem_image s = u_only_flash_oem_image st
     \<and> u_testprofile_delete_counter s = u_testprofile_delete_counter st
     \<and> u_testprofile_delete_done s = u_testprofile_delete_done st
     \<and> u_fw_update_retry_count s = u_fw_update_retry_count st \<and> u_gpio_resets s = u_gpio_resets st
     \<and> u_dirs s = u_dirs st \<and> u_dev s = u_dev st \<and> esim_view (u_fs s) = esim_view (u_fs st)
     \<and> (u_current_fw_ver st \<noteq> [] \<longrightarrow> u_current_fw_ver s \<noteq> [])
     \<and> (u_current_md_ver st \<noteq> [] \<longrightarrow> u_current_md_ver s \<noteq> [])
     \<and> (u_current_op_ver st \<noteq> [] \<longrightarrow> u_current_op_ver s \<noteq> [])
     \<and> (u_current_oem_ver st \<noteq> [] \<longrightarrow> u_current_oem_ver s \<noteq> [])
     \<and> (u_current_dpv_ver st \<noteq> [] \<longrightarrow> u_current_dpv_ver s \<noteq> [])"

definition u_frame :: "fwu \<Rightarrow> fwu \<Rightarrow> bool" where
  "u_frame st s \<longleftrightarrow> u_keep st s \<and> u_out s = u_out st \<and> u_mutex s = u_mutex st"

lemma u_keep_refl [simp]: "u_keep st st"
  by (simp add: u_keep_def)

lemma u_keep_trans: "u_keep a b \<Longrightarrow> u_keep b c \<Longrightarrow> u_keep a c"
  by (simp add: u_keep_def)

lemma u_keep_env [simp]:
  "u_keep st (s\<lparr>u_script := x\<rparr>) = u_keep st s" "u_keep st (s\<lparr>u_signals := y\<rparr>) = u_keep st s"
  "u_keep st (s\<lparr>u_mutex := b\<rparr>) = u_keep st s" "u_keep st (s\<lparr>u_out := z\<rparr>) = u_keep st s"
  "u_keep (st\<lparr>u_script := x\<rparr>) s = u_keep st s" "u_keep (st\<lparr>u_mutex := b\<rparr>) s = u_keep st s"
  "u_keep (st\<lparr>u_out := z\<rparr>) s = u_keep st s"
  by (simp_all add: u_keep_def)

lemma u_frame_refl [simp]: "u_frame st st"
  by (simp add: u_frame_def)

lemma u_frame_trans: "u_frame a b \<Longrightarrow> u_frame b c \<Longrightarrow> u_frame a c"
  unfolding u_frame_def using u_keep_trans by metis

lemma set_record_value_only:
  "set_record_value p k v w = Inr (r, w') \<Longrightarrow>
     can_read w' = can_read w \<and> can_write w' = can_write w \<and> (\<forall>q. q \<noteq> p \<longrightarrow> files w' q = files w q)"
  by (auto simp: set_record_value_def write_file_def Let_def split: option.splits if_splits)

lemma esim_view_other:
  "set_fw_update_status_value k v w = Inr (r, w') \<Longrightarrow> esim_view w' = esim_view w"
  "set_bootup_status_value k v w = Inr (r, w') \<Longrightarrow> esim_view w' = esim_view w"
  by (auto dest!: set_record_value_only simp: set_fw_update_status_value_def set_bootup_status_value_def esim_view_def
    FW_UPDATE_STATUS_RECORD_def BOOTUP_STATUS_RECORD_def ESIM_PROFILE_REMOVE_RECORD_def)

lemma esim_tokens_frame: "cpost (u_frame st) (esim_tokens ts st)"
  by (induction ts) (auto intro!: cpost_cbind_any intro: esim_view_other simp: u_frame_def u_keep_def strcpy_cap_def split: prod.splits)

lemma handle_madpt_restart_frame: "cpost (u_frame st) (handle_madpt_restart j st)"
  unfolding handle_madpt_restart_def Let_def
  by (auto intro!: cpost_cbind_any esim_view_other(1) simp: u_frame_def u_keep_def cond_signal_def split: prod.splits)

lemma u_handle_pref_carrier_frame: "cpost (u_frame st) (u_handle_pref_carrier m st)"
  unfolding u_handle_pref_carrier_def Let_def
  by (auto intro!: cpost_cbind_any simp: u_frame_def u_keep_def strcpy_cap_def split: option.splits)

lemma u_answer_frame: "cpost (u_frame st) (u_answer j c m st)"
  unfolding u_answer_def Let_def
  by (cases c)
    (auto intro!: cpost_cbind_any esim_tokens_frame handle_madpt_restart_frame u_handle_pref_carrier_frame
       simp: u_frame_def u_keep_def strcpy_cap_def handle_ap_ver_def handle_other_ver_def handle_switch_to_fastboot_def
         handle_check_oem_pri_version_def handle_skuid_def u_handle_sim_carrier_def handle_pref_carrier_id_def
         handle_cxp_reboot_flag_def get_oempri_reset_state_def update_esim_enable_state_def
         handle_esim_test_prof_def handle_backup_sn_imei_def
       split: option.splits pwl_device_type_t.splits list.splits prod.splits)

lemma u_handle_frame: "cpost (u_frame st) (u_handle j m st)"
  unfolding u_handle_def
  by (auto intro!: cpost_cbind_any cpost_cbindI [OF u_answer_frame] simp: u_frame_def u_keep_def strcpy_cap_def cond_signal_def split: option.splits)

lemma u_run_frame: "cpost (u_frame st) (u_run j ms st)"
proof (induction ms arbitrary: st)
  case (Cons m ms)
  show ?case unfolding u_run.simps
    by (rule cpost_cbindI [OF u_handle_frame]) (rule cpost_weaken [OF Cons.IH], erule (1) u_frame_trans)
qed simp

lemma u_timedwait_frame: "cpost (\<lambda>(ok, s). u_frame st s) (u_timedwait j c st)"
proof (cases "u_script st")
  case (Cons e rest)
  obtain before during spurious where e: "e = (before, during, spurious)" by (cases e)
  show ?thesis unfolding u_timedwait_def Cons e list.case prod.case
  proof (rule cpost_cbindI [OF u_run_frame])
    fix s1 assume "u_frame (st\<lparr>u_script := rest\<rparr>) s1"
    then have "u_frame st (s1\<lparr>u_signals := []\<rparr>)" by (simp add: u_frame_def)
    then show "cpost (\<lambda>(ok, s). u_frame st s)
        (cbind (u_run j during (s1\<lparr>u_signals := []\<rparr>)) (\<lambda>s2. Inr (c \<in> set (u_signals s2) \<or> spurious, s2)))"
      by (intro cpost_cbindI [OF u_run_frame]) (auto elim: u_frame_trans)
  qed
qed (simp add: u_timedwait_def)

section \<open>All data fit their arrays\<close>

definition u_inv :: "fwu \<Rightarrow> bool" where
  "u_inv st \<longleftrightarrow> length (u_cid_map st) = 49 \<and> length (u_pref_carrier st) = FDTL_MAX_PATH
     \<and> length (u_skuid st) < PWL_MAX_SKUID_SIZE \<and> length (u_module_sku_id st) < PWL_MAX_SKUID_SIZE
     \<and> length (u_current_fw_ver st) < FW_VERSION_LENGTH \<and> length (u_oem_pri_ver st) < OEM_PRI_VERSION_LENGTH
     \<and> length (u_carrier_id st) < 10 \<and> length (u_ati_info st) < MAX_COMMAND_LEN
     \<and> length (u_sn st) < SN_MAX_LENGTH \<and> length (u_imei st) < IMEI_MAX_LENGTH
     \<and> length (u_current_md_ver st) < OTHER_VERSION_LENGTH \<and> length (u_current_op_ver st) < OTHER_VERSION_LENGTH
     \<and> length (u_current_oem_ver st) < OTHER_VERSION_LENGTH \<and> length (u_current_dpv_ver st) < OTHER_VERSION_LENGTH"

lemma length_trim_string: "length (trim_string s) \<le> length s"
  unfolding trim_string_trim trim_def
  using dropWhile_length_le [of isspace "rev (dropWhile isspace s)"] dropWhile_length_le [of isspace s] by simp

lemma split_backup_bounds:
  "split_backup_sn_imei SN_MAX_LENGTH IMEI_MAX_LENGTH s = Inr (r, sn, imei)
     \<Longrightarrow> length sn < SN_MAX_LENGTH \<and> length imei < IMEI_MAX_LENGTH"
  using length_trim_string [of "take (length s - length (the (strchr s (CHR '';''))))  s"]
    length_trim_string [of "take (IMEI_MAX_LENGTH - 1) (tl (the (strchr s (CHR '';''))))"]
  by (auto simp: split_backup_sn_imei_def Let_def strcpy_cap_def cbind_cassert SN_MAX_LENGTH_def IMEI_MAX_LENGTH_def
    split: option.splits if_splits)

lemma parse_sku_id_bound:
  "parse_sku_id resp old = Inr s \<Longrightarrow> length old < PWL_MAX_SKUID_SIZE \<Longrightarrow> length s < PWL_MAX_SKUID_SIZE"
  by (auto simp: parse_sku_id_def strcpy_cap_def split: list.splits if_splits)

lemma esim_tokens_inv: "u_inv st \<Longrightarrow> cpost u_inv (esim_tokens ts st)"
  by (induction ts) (auto intro!: cpost_cbind_any simp: u_inv_def split: prod.splits)

lemma handle_madpt_restart_inv: "u_inv st \<Longrightarrow> cpost u_inv (handle_madpt_restart j st)"
  unfolding handle_madpt_restart_def Let_def
  by (auto intro!: cpost_cbind_any simp: u_inv_def cond_signal_def split: prod.splits)

lemma u_handle_pref_carrier_inv: "u_inv st \<Longrightarrow> cpost u_inv (u_handle_pref_carrier m st)"
  unfolding u_handle_pref_carrier_def Let_def
  by (auto intro!: cpost_cbind_any dest: length_buf_strncpy simp: u_inv_def split: option.splits)

lemma handle_backup_sn_imei_inv: "u_inv st \<Longrightarrow> cpost u_inv (handle_backup_sn_imei m st)"
  unfolding handle_backup_sn_imei_def
  by (auto intro!: cpost_cbind_any dest!: split_backup_bounds simp: u_inv_def split: prod.splits)

lemma u_answer_inv: "u_inv st \<Longrightarrow> cpost u_inv (u_answer j c m st)"
  unfolding u_answer_def Let_def
  by (cases c)
    (auto intro!: cpost_cbind_any esim_tokens_inv handle_madpt_restart_inv u_handle_pref_carrier_inv
         handle_backup_sn_imei_inv
       dest: length_buf_strcpy parse_sku_id_bound
       simp: u_inv_def handle_ap_ver_def handle_other_ver_def handle_switch_to_fastboot_def
         handle_check_oem_pri_version_def handle_skuid_def u_handle_sim_carrier_def handle_pref_carrier_id_def
         handle_cxp_reboot_flag_def get_oempri_reset_state_def update_esim_enable_state_def
         handle_esim_test_prof_def strcpy_cap_def fw_lengths PWL_MAX_SKUID_SIZE_def
       split: option.splits pwl_device_type_t.splits list.splits prod.splits)

lemma u_handle_keeps: "u_inv st \<Longrightarrow> cpost u_inv (u_handle j m st)"
  unfolding u_handle_def
proof (intro cpost_cbind_any)
  fix l t assume inv: "u_inv st" and t: "update_cid_record (u_cid_map st) (pwl_cid m) (status m) = Inr t"
  then have "u_inv (st\<lparr>u_cid_map := t\<rparr>)" by (auto simp: update_cid_record_def u_inv_def split: if_splits)
  then show "cpost u_inv (case cid_of (pwl_cid m) of None \<Rightarrow> Inr (st\<lparr>u_cid_map := t\<rparr>)
     | Some c \<Rightarrow> cbind (u_answer j c m (st\<lparr>u_cid_map := t\<rparr>)) (\<lambda>s.
         Inr (if c \<in> set u_answers_signal then cond_signal G_COND s else s)))"
    by (auto intro!: cpost_cbindI [OF u_answer_inv] simp: u_inv_def cond_signal_def split: option.splits)
qed

lemma u_run_keeps: "u_inv st \<Longrightarrow> cpost u_inv (u_run j ms st)"
  by (induction ms arbitrary: st) (auto intro!: cpost_cbindI [OF u_handle_keeps])

lemma u_inv_env [simp]:
  "u_inv (st\<lparr>u_script := x\<rparr>) = u_inv st" "u_inv (st\<lparr>u_signals := y\<rparr>) = u_inv st"
  "u_inv (st\<lparr>u_mutex := b\<rparr>) = u_inv st" "u_inv (st\<lparr>u_out := z\<rparr>) = u_inv st"
  "u_inv (st\<lparr>u_fs := w\<rparr>) = u_inv st" "u_inv (st\<lparr>u_exited := e\<rparr>) = u_inv st"
  by (simp_all add: u_inv_def)

lemma u_timedwait_keeps: "u_inv st \<Longrightarrow> cpost (\<lambda>(ok, s). u_inv s) (u_timedwait j c st)"
  unfolding u_timedwait_def
  by (auto intro!: cpost_cbindI [OF u_run_keeps] split: list.splits)

section \<open>The message thread takes no lock\<close>

definition clive :: "'a cres \<Rightarrow> bool" where
  "clive m \<longleftrightarrow> m \<noteq> Inl SelfDeadlock"

lemma clive_Inr [simp]: "clive (Inr a)"
  by (simp add: clive_def)

lemma clive_Inl [simp]: "clive (Inl e) \<longleftrightarrow> e \<noteq> SelfDeadlock"
  by (simp add: clive_def)

lemma clive_cbindI: "clive m \<Longrightarrow> (\<And>a. m = Inr a \<Longrightarrow> clive (f a)) \<Longrightarrow> clive (cbind m f)"
  by (cases m) auto

lemma strcpy_cap_live [simp]: "clive (strcpy_cap n s)"
  by (simp add: strcpy_cap_def)

lemma buf_live [simp]: "clive (buf_strncpy b s n)" "clive (buf_strcpy b s)"
  "clive (buf_put b i c)" "clive (buf_strstr b s)" "clive (buf_atoi b)"
  "clive (cstr b)"
  by (simp_all add: buf_strncpy_def buf_strcpy_def buf_put_def buf_strstr_def buf_atoi_def cstr_def)

lemma replace_lines_live [simp]: "clive (replace_lines cap key v ls acc)"
  by (induction cap key v ls acc rule: replace_lines.induct) (auto intro!: clive_cbindI)

lemma scan_lines_live [simp]: "clive (scan_lines key ls b)"
  by (induction key ls b rule: scan_lines.induct)
    (auto intro!: clive_cbindI simp: Let_def split: option.splits)

lemma record_live [simp]: "clive (set_record_value p k v w)" "clive (get_record_value p k b w)"
  by (auto intro!: clive_cbindI simp: set_record_value_def get_record_value_def Let_def split: option.splits)

lemma status_live [simp]:
  "clive (set_fw_update_status_value k v w)" "clive (set_bootup_status_value k v w)"
  "clive (set_esim_profile_remove_status_value k v w)"
  "clive (get_fw_update_status_value b k w)"
  "clive (get_esim_profile_remove_status_value b k w)"
  by (simp_all add: set_fw_update_status_value_def set_bootup_status_value_def get_fw_update_status_value_def
    set_esim_profile_remove_status_value_def get_esim_profile_remove_status_value_def)

lemma read_into_live [simp]: "clive r \<Longrightarrow> clive (read_into r old)"
  by (cases r) (auto simp: read_into_def)

lemma esim_tokens_live [simp]: "clive (esim_tokens ts st)"
  by (induction ts) (auto intro!: clive_cbindI)

lemma split_backup_live [simp]: "clive (split_backup_sn_imei a b s)"
  by (auto intro!: clive_cbindI simp: split_backup_sn_imei_def Let_def cassert_def split: option.splits)

lemma u_handle_pref_carrier_live [simp]: "clive (u_handle_pref_carrier m st)"
  by (auto intro!: clive_cbindI simp: u_handle_pref_carrier_def Let_def split: option.splits)

lemma handle_madpt_restart_live [simp]: "clive (handle_madpt_restart j st)"
  by (auto intro!: clive_cbindI simp: handle_madpt_restart_def Let_def)

lemma u_answer_live [simp]: "clive (u_answer j c m st)"
  unfolding u_answer_def Let_def
  by (cases c)
    (auto intro!: clive_cbindI
       simp: handle_ap_ver_def handle_other_ver_def handle_switch_to_fastboot_def handle_skuid_def
         u_handle_sim_carrier_def get_oempri_reset_state_def update_esim_enable_state_def
         handle_backup_sn_imei_def parse_sku_id_def
       split: option.splits pwl_device_type_t.splits list.splits)

lemma u_handle_live [simp]: "clive (u_handle j m st)"
  by (auto intro!: clive_cbindI
    simp: u_handle_def print_message_info_def cid_name_at_def update_cid_record_def split: option.splits)

lemma u_run_live [simp]: "clive (u_run j ms st)"
  by (induction ms arbitrary: st) (auto intro!: clive_cbindI)

lemma u_timedwait_live [simp]: "clive (u_timedwait j c st)"
  by (auto intro!: clive_cbindI simp: u_timedwait_def split: list.splits)

section \<open>The contract of a request\<close>

text \<open>
  What the shared loop relies on: in a state that is \<open>ready\<close>, sending appends one message and waiting
  none, both stay ready and both get past their lock.
\<close>

locale request_protocol =
  fixes send :: "fwu \<Rightarrow> fwu cres" and wt :: "fwu \<Rightarrow> (bool \<times> fwu) cres" and msg :: sent
    and ready :: "fwu \<Rightarrow> bool"
  assumes send_one: "ready st \<Longrightarrow> cpost (\<lambda>s. ready s \<and> u_out s = u_out st @ [msg]) (send st)"
    and wait_quiet: "ready st \<Longrightarrow> cpost (\<lambda>(ok, s). ready s \<and> u_out s = u_out st) (wt st)"
    and send_live: "ready st \<Longrightarrow> clive (send st)"
    and wait_live: "ready st \<Longrightarrow> clive (wt st)"
begin

lemma loop_sends:
  "ready st \<Longrightarrow> cpost (\<lambda>(answered, n', s). ready s \<and> (\<exists>k \<le> n. u_out s = u_out st @ replicate k msg
      \<and> (answered \<longrightarrow> n' + k = Suc n \<and> 0 < k \<and> usable s = Inr True \<and> (\<exists>s1. wt s1 = Inr (True, s))) \<and> (\<not> answered \<longrightarrow> n' = 0 \<and> k = n)))
    (request_loop n send wt usable st)"
proof (induction n arbitrary: st)
  case (Suc n)
  have step: "cpost (\<lambda>(answered, n', s). ready s \<and> (\<exists>k \<le> Suc n. u_out s = u_out st @ replicate k msg
      \<and> (answered \<longrightarrow> n' + k = Suc (Suc n) \<and> 0 < k \<and> usable s = Inr True \<and> (\<exists>s1. wt s1 = Inr (True, s))) \<and> (\<not> answered \<longrightarrow> n' = 0 \<and> k = Suc n)))
    (request_loop n send wt usable s2)" if "ready s2" "u_out s2 = u_out st @ [msg]" for s2
    using that by (intro cpost_weaken [OF Suc.IH [of s2]]) (auto intro!: exI [of _ "Suc _"])
  show ?case unfolding request_loop.simps
  proof (rule cpost_cbindI [OF send_one [OF Suc.prems]])
    fix s1 assume s1: "ready s1 \<and> u_out s1 = u_out st @ [msg]"
    then have wait: "cpost (\<lambda>(ok, s). ready s \<and> u_out s = u_out s1 \<and> wt s1 = Inr (ok, s)) (wt s1)"
      using wait_quiet [of s1] by (cases "wt s1") auto
    show "cpost (\<lambda>(answered, n', s). ready s \<and> (\<exists>k \<le> Suc n. u_out s = u_out st @ replicate k msg
        \<and> (answered \<longrightarrow> n' + k = Suc (Suc n) \<and> 0 < k \<and> usable s = Inr True \<and> (\<exists>s1. wt s1 = Inr (True, s))) \<and> (\<not> answered \<longrightarrow> n' = 0 \<and> k = Suc n)))
      (cbind (wt s1) (\<lambda>(ok, s2). if \<not> ok then request_loop n send wt usable s2
         else cbind (usable s2) (\<lambda>u. if u then Inr (True, Suc n, s2) else request_loop n send wt usable s2)))"
      by (rule cpost_cbindI [OF wait])
        (use s1 in \<open>auto intro!: step cpost_cbind_any exI [of _ "Suc 0"] exI [of _ s1]\<close>)
  qed
qed simp

lemma loop_live:
  assumes "\<And>s. clive (usable s)"
  shows "ready st \<Longrightarrow> clive (request_loop n send wt usable st)"
proof (induction n arbitrary: st)
  case (Suc n)
  have "ready s2 \<and> ready s1" if "send st = Inr s1" "wt s1 = Inr (ok, s2)" for s1 s2 ok
    using cpostD [OF send_one [OF Suc.prems] that(1)] cpostD [OF wait_quiet that(2)] by auto
  moreover have "ready s1" if "send st = Inr s1" for s1
    using cpostD [OF send_one [OF Suc.prems] that] by simp
  ultimately show ?case
    using assms Suc.IH by (auto intro!: clive_cbindI send_live [OF Suc.prems] wait_live)
qed simp

lemma request_sends:
  "ready st \<Longrightarrow> cpost (\<lambda>(r, s). ready s \<and> (\<exists>k \<le> PWL_FW_UPDATE_RETRY_LIMIT. u_out s = u_out st @ replicate k msg
      \<and> (r = 0 \<and> 0 < k \<and> usable s = Inr True \<and> (\<exists>s1. wt s1 = Inr (True, s)) \<or> r = -1 \<and> k = PWL_FW_UPDATE_RETRY_LIMIT)))
    (request send wt usable st)"
  unfolding request_def by (rule cpost_cbindI [OF loop_sends]) auto

lemma request_live:
  "(\<And>s. clive (usable s)) \<Longrightarrow> ready st \<Longrightarrow> clive (request send wt usable st)"
  unfolding request_def by (auto intro!: clive_cbindI loop_live)

end

definition asked :: "ujunk \<Rightarrow> pwl_cid_t \<Rightarrow> string \<Rightarrow> sent" where
  "asked j c txt = (CID_DESTINATION (cid_num c), \<lparr>sender_id = PWL_MQ_ID_FWUPDATE, pwl_cid = cid_num c,
     status = PWL_CID_STATUS_NONE, response = uj_response j, content = txt\<rparr>)"

lemma locked_wait_quiet:
  "\<not> u_mutex st \<Longrightarrow> u_keep st0 st \<Longrightarrow>
     cpost (\<lambda>(ok, s). \<not> u_mutex s \<and> u_keep st0 s \<and> u_out s = u_out st) (locked_wait j st)"
  unfolding locked_wait_def using u_timedwait_frame [of st j G_COND]
  by (auto simp: u_frame_def elim!: cpost_weaken elim: u_keep_trans)

lemma locked_wait_live: "\<not> u_mutex st \<Longrightarrow> clive (locked_wait j st)"
  by (simp add: locked_wait_def)

text \<open>Three ways to ask: with a plain message, with a message that carries a text, and through \<^verbatim>\<open>cond_wait\<close>.\<close>

interpretation locked: request_protocol "ask j c" "locked_wait j" "asked j c (uj_content j)"
  "\<lambda>s. \<not> u_mutex s \<and> u_keep st0 s" for j c st0
  by unfold_locales (simp_all add: ask_def u_send_message_queue_def asked_def locked_wait_live locked_wait_quiet)

interpretation told: request_protocol "u_send_message_queue_with_content j c t" "locked_wait j" "asked j c t"
  "\<lambda>s. \<not> u_mutex s \<and> u_keep st0 s" for j c t st0
  by unfold_locales
    (auto intro!: clive_cbindI cpost_cbind_any locked_wait_live locked_wait_quiet
      simp: u_send_message_queue_with_content_def asked_def)

lemma package_send:
  assumes "\<not> u_mutex st" "u_keep st0 st"
  shows "cpost (\<lambda>s. \<not> u_mutex s \<and> u_keep st0 s \<and> u_out s = u_out st @ [asked j c (u_device_package_ver st0)])
    (u_send_message_queue_with_content j c (u_device_package_ver st) st)"
proof -
  have "u_device_package_ver st = u_device_package_ver st0" using assms(2) by (simp add: u_keep_def)
  then show ?thesis using told.send_one [of st st0 j c "u_device_package_ver st0"] assms by simp
qed

interpretation package: request_protocol "\<lambda>s. u_send_message_queue_with_content j c (u_device_package_ver s) s" "locked_wait j"
  "asked j c (u_device_package_ver st0)" "\<lambda>s. \<not> u_mutex s \<and> u_keep st0 s" for j c st0
  using told.send_live by unfold_locales (auto intro!: package_send locked_wait_live locked_wait_quiet)

lemma u_cond_wait_quiet:
  "cpost (\<lambda>(ok, s). u_keep st s \<and> u_mutex s = (\<not> ok) \<and> u_out s = u_out st) (u_cond_wait j st)"
  unfolding u_cond_wait_def
  by (rule cpost_cbindI [OF u_timedwait_frame]) (auto simp: u_frame_def cond_wait_def ETIMEDOUT_def)

lemma u_cond_wait_live: "clive (u_cond_wait j st)"
  unfolding u_cond_wait_def by (auto intro!: clive_cbindI simp: Let_def cond_wait_def split: prod.splits)

interpretation unlocking: request_protocol "ask j c" "u_cond_wait j" "asked j c (uj_content j)" "u_keep st0" for j c st0
  by unfold_locales
    (auto intro!: cpost_weaken [OF u_cond_wait_quiet] u_cond_wait_live elim: u_keep_trans
      simp: ask_def u_send_message_queue_def asked_def)

section \<open>Lemmas on the requests\<close>

lemma locked_loop_stuck:
  "u_mutex st \<Longrightarrow> 0 < n \<Longrightarrow> request_loop n (ask j c) (locked_wait j) usable st = Inl SelfDeadlock"
  by (cases n) (simp_all add: ask_def locked_wait_def u_send_message_queue_def cassert_def)

lemmas retry_limit = PWL_FW_UPDATE_RETRY_LIMIT_def

lemma locked_requests_stuck:
  assumes "u_mutex st"
  shows "get_current_fw_version j st = Inl SelfDeadlock" "get_sku_id j st = Inl SelfDeadlock"
    "get_carrier_id j st = Inl SelfDeadlock" "check_esim_test_profile_process j st = Inl SelfDeadlock"
    "u_get_sim_carrier j st = Inl SelfDeadlock"
  using assms
  by (simp_all add: get_current_fw_version_def get_sku_id_def request_def get_carrier_id_def
    check_esim_test_profile_process_def u_get_sim_carrier_def locked_loop_stuck retry_limit)

text \<open>The loop over \<^verbatim>\<open>cond_wait\<close> ends without an answer only with the mutex held.\<close>

lemma unlocking_loop_mutex:
  "cpost (\<lambda>(answered, n', s). if n = 0 then \<not> answered \<and> u_mutex s = u_mutex st else u_mutex s = (\<not> answered))
     (request_loop n (ask j c) (u_cond_wait j) (\<lambda>_. Inr True) st)"
proof (induction n arbitrary: st)
  case (Suc n)
  show ?case unfolding request_loop.simps ask_def cbind_Inr
    by (rule cpost_cbindI [OF u_cond_wait_quiet])
      (auto intro!: cpost_weaken [OF Suc.IH [unfolded ask_def]] split: if_splits)
qed simp

lemma esim_state_mutex: "cpost (\<lambda>(r, s). u_mutex s = (r \<noteq> 0)) (u_get_esim_enable_state j st)"
  unfolding u_get_esim_enable_state_def request_def
  by (rule cpost_cbindI [OF unlocking_loop_mutex]) (auto simp: retry_limit)

lemma locked_loop_keep:
  "\<not> u_mutex st \<Longrightarrow> cpost (\<lambda>(answered, n', s). \<not> u_mutex s \<and> u_keep st s \<and> n' \<le> n)
     (request_loop n (ask j c) (locked_wait j) usable st)"
  by (rule cpost_weaken [OF locked.loop_sends [of st st]]) (auto split: prod.splits)

lemma version_stage_post:
  assumes "\<not> u_mutex st" "\<not> u_mutex (clear st)"
  shows "cpost (\<lambda>(ok, n', s). ok = (field s \<noteq> []) \<and> \<not> u_mutex s \<and> u_keep (clear st) s) (version_stage j c clear field n st)"
  unfolding version_stage_def
  by (rule cpost_cbindI [OF locked_loop_keep [OF assms(2)]]) auto

lemma locked_request_keep:
  "\<not> u_mutex st \<Longrightarrow> cpost (\<lambda>(r, s). \<not> u_mutex s \<and> u_keep st s \<and> (r = 0 \<longrightarrow> usable s = Inr True) \<and> (r = 0 \<or> r = -1))
     (request (ask j c) (locked_wait j) usable st)"
  by (rule cpost_weaken [OF locked.request_sends [of st st]]) (auto split: prod.splits)

section \<open>The eSIM test profile: the counter and its record\<close>

text \<open>The globals and the record on disk say the same.\<close>

definition esim_agree :: "fwu \<Rightarrow> bool" where
  "esim_agree st \<longleftrightarrow> store_inv ESIM_PROFILE_REMOVE_RECORD (u_fs st)
     \<and> store_abs ESIM_PROFILE_REMOVE_RECORD (u_fs st) ESIM_TESTPROFILE_DELETE_COUNTER = Some (u_testprofile_delete_counter st)
     \<and> store_abs ESIM_PROFILE_REMOVE_RECORD (u_fs st) ESIM_TESTPROFILE_DELETE_DONE = Some (u_testprofile_delete_done st)"

lemma esim_store_view:
  "esim_view w' = esim_view w \<Longrightarrow> store_inv ESIM_PROFILE_REMOVE_RECORD w' = store_inv ESIM_PROFILE_REMOVE_RECORD w
     \<and> store_abs ESIM_PROFILE_REMOVE_RECORD w' = store_abs ESIM_PROFILE_REMOVE_RECORD w"
  by (auto simp: esim_view_def store_inv_def store_abs_def)

lemma esim_agree_keep: "esim_agree st \<Longrightarrow> u_keep st s \<Longrightarrow> esim_agree s"
  using esim_store_view [of "u_fs s" "u_fs st"] by (simp add: esim_agree_def u_keep_def)

lemma set_delete_agree:
  assumes "store_inv ESIM_PROFILE_REMOVE_RECORD (u_fs st)"
    and "{ESIM_TESTPROFILE_DELETE_COUNTER, ESIM_TESTPROFILE_DELETE_DONE} \<subseteq> dom (store_abs ESIM_PROFILE_REMOVE_RECORD (u_fs st))"
    and "val_ok v"
  shows "\<exists>w. set_delete_counter v st = Inr (st\<lparr>u_testprofile_delete_counter := v, u_fs := w\<rparr>)
      \<and> store_inv ESIM_PROFILE_REMOVE_RECORD w
      \<and> store_abs ESIM_PROFILE_REMOVE_RECORD w = (store_abs ESIM_PROFILE_REMOVE_RECORD (u_fs st))(ESIM_TESTPROFILE_DELETE_COUNTER \<mapsto> v)"
    and "\<exists>w. set_delete_done v st = Inr (st\<lparr>u_testprofile_delete_done := v, u_fs := w\<rparr>)
      \<and> store_inv ESIM_PROFILE_REMOVE_RECORD w
      \<and> store_abs ESIM_PROFILE_REMOVE_RECORD w = (store_abs ESIM_PROFILE_REMOVE_RECORD (u_fs st))(ESIM_TESTPROFILE_DELETE_DONE \<mapsto> v)"
  using esim_status.set_abs [of "u_fs st" ESIM_TESTPROFILE_DELETE_COUNTER v] assms
    esim_status.set_abs [of "u_fs st" ESIM_TESTPROFILE_DELETE_DONE v]
  by (auto simp: set_delete_counter_def set_delete_done_def store_esim_def)

lemma esim_keys_distinct [simp]: "ESIM_TESTPROFILE_DELETE_COUNTER \<noteq> ESIM_TESTPROFILE_DELETE_DONE"
  "ESIM_TESTPROFILE_DELETE_DONE \<noteq> ESIM_TESTPROFILE_DELETE_COUNTER"
  by (simp_all add: key_defs)

lemma esim_agree_dom:
  "esim_agree st \<Longrightarrow> store_inv ESIM_PROFILE_REMOVE_RECORD (u_fs st)
     \<and> {ESIM_TESTPROFILE_DELETE_COUNTER, ESIM_TESTPROFILE_DELETE_DONE} \<subseteq> dom (store_abs ESIM_PROFILE_REMOVE_RECORD (u_fs st))"
  by (auto simp: esim_agree_def)

lemma set_delete_both:
  assumes "store_inv ESIM_PROFILE_REMOVE_RECORD (u_fs st)"
    and "{ESIM_TESTPROFILE_DELETE_COUNTER, ESIM_TESTPROFILE_DELETE_DONE} \<subseteq> dom (store_abs ESIM_PROFILE_REMOVE_RECORD (u_fs st))"
    and "val_ok c" "val_ok d"
  shows "\<exists>s. cbind (set_delete_counter c st) (set_delete_done d) = Inr s \<and> esim_agree s
    \<and> u_testprofile_delete_counter s = c \<and> u_testprofile_delete_done s = d \<and> u_exited s = u_exited st \<and> u_mutex s = u_mutex st"
proof -
  obtain w where w: "set_delete_counter c st = Inr (st\<lparr>u_testprofile_delete_counter := c, u_fs := w\<rparr>)"
    "store_inv ESIM_PROFILE_REMOVE_RECORD w"
    "store_abs ESIM_PROFILE_REMOVE_RECORD w = (store_abs ESIM_PROFILE_REMOVE_RECORD (u_fs st))(ESIM_TESTPROFILE_DELETE_COUNTER \<mapsto> c)"
    using set_delete_agree(1) [of st c] assms by blast
  let ?s1 = "st\<lparr>u_testprofile_delete_counter := c, u_fs := w\<rparr>"
  obtain w2 where "set_delete_done d ?s1 = Inr (?s1\<lparr>u_testprofile_delete_done := d, u_fs := w2\<rparr>)"
    "store_inv ESIM_PROFILE_REMOVE_RECORD w2"
    "store_abs ESIM_PROFILE_REMOVE_RECORD w2 = (store_abs ESIM_PROFILE_REMOVE_RECORD w)(ESIM_TESTPROFILE_DELETE_DONE \<mapsto> d)"
    using set_delete_agree(2) [of ?s1 d] w assms by auto
  with w show ?thesis by (simp add: esim_agree_def)
qed

lemma set_delete_one:
  assumes "esim_agree st" "val_ok c"
  shows "\<exists>s. set_delete_counter c st = Inr s \<and> esim_agree s
    \<and> u_testprofile_delete_counter s = c \<and> u_testprofile_delete_done s = u_testprofile_delete_done st
    \<and> u_exited s = u_exited st \<and> u_mutex s = u_mutex st"
  using set_delete_agree(1) [of st c] esim_agree_dom [OF assms(1)] assms by (auto simp: esim_agree_def)

text \<open>
  The states the removal can be left in, from counter \<open>c\<close> and mark \<open>d\<close>: removed; given up, because the
  module did not take the command; or one attempt more made, after which the process restarts.
\<close>

definition removal_step :: "int \<Rightarrow> int \<Rightarrow> fwu \<Rightarrow> bool" where
  "removal_step c d s \<longleftrightarrow>
     (\<not> u_exited s \<and> u_testprofile_delete_counter s = 0 \<and> (u_testprofile_delete_done s = 1 \<or> u_testprofile_delete_done s = 2))
     \<or> (u_exited s \<and> u_testprofile_delete_counter s = (if c = 0 then 2 else c - 1)
          \<and> u_testprofile_delete_done s = (if c = 1 then 2 else d))"

lemma count_failed_removal_step:
  assumes "esim_agree st" "u_testprofile_delete_counter st \<in> {0, 1, 2}"
  shows "\<exists>s. count_failed_removal st = Inr s \<and> esim_agree s \<and> u_exited s = u_exited st \<and> u_mutex s = u_mutex st
    \<and> u_testprofile_delete_counter s = (if u_testprofile_delete_counter st = 0 then 2 else u_testprofile_delete_counter st - 1)
    \<and> u_testprofile_delete_done s = (if u_testprofile_delete_counter st = 1 then 2 else u_testprofile_delete_done st)"
proof -
  have one: "\<exists>s. set_delete_counter v st = Inr s \<and> esim_agree s \<and> u_testprofile_delete_counter s = v
      \<and> u_testprofile_delete_done s = u_testprofile_delete_done st \<and> u_exited s = u_exited st \<and> u_mutex s = u_mutex st"
    if "v = 2 \<or> v = 1" for v
    using set_delete_one [OF assms(1), of v] that by (auto simp: val_ok_def)
  have two: "\<exists>s. cbind (set_delete_counter 0 st) (set_delete_done 2) = Inr s \<and> esim_agree s
      \<and> u_testprofile_delete_counter s = 0 \<and> u_testprofile_delete_done s = 2 \<and> u_exited s = u_exited st \<and> u_mutex s = u_mutex st"
    using set_delete_both [of st 0 2] esim_agree_dom [OF assms(1)] by (simp add: val_ok_def)
  consider "u_testprofile_delete_counter st = 0" | "u_testprofile_delete_counter st = 1" | "u_testprofile_delete_counter st = 2"
    using assms(2) by blast
  then show ?thesis
  proof cases
    case 2
    have "u_testprofile_delete_counter s = 0" if "set_delete_counter 0 st = Inr s" for s
      using set_delete_one [OF assms(1), of 0] that by (auto simp: val_ok_def)
    then have "count_failed_removal st = cbind (set_delete_counter 0 st) (set_delete_done 2)"
      using 2 by (cases "set_delete_counter 0 st") (simp_all add: count_failed_removal_def)
    with two 2 show ?thesis by auto
  next
    case 3
    with one [of 1] show ?thesis by (auto simp: count_failed_removal_def)
  qed (use one in \<open>auto simp: count_failed_removal_def\<close>)
qed

lemma remove_command_step:
  assumes "esim_agree st" "\<not> u_mutex st" "\<not> u_exited st"
  shows "cpost (\<lambda>(r, s). esim_agree s \<and> \<not> u_exited s
      \<and> (if r = 0 then u_testprofile_delete_counter s = u_testprofile_delete_counter st
             \<and> u_testprofile_delete_done s = u_testprofile_delete_done st
         else u_testprofile_delete_counter s = 0 \<and> u_testprofile_delete_done s = 2))
    (do_esim_test_profile_remove_command j st)"
  unfolding do_esim_test_profile_remove_command_def
proof (rule cpost_cbindI [OF locked_request_keep [OF assms(2)]], clarify, goal_cases)
  case (1 r s)
  then have agree: "esim_agree s" using assms(1) esim_agree_keep by blast
  obtain s2 where s2: "cbind (set_delete_counter 0 s) (set_delete_done 2) = Inr s2" "esim_agree s2"
    "u_testprofile_delete_counter s2 = 0" "u_testprofile_delete_done s2 = 2" "u_exited s2 = u_exited s"
    using set_delete_both [of s 0 2] esim_agree_dom [OF agree] by (auto simp: val_ok_def)
  then have "cbind (set_delete_counter 0 s) (\<lambda>s1. cbind (set_delete_done 2 s1) (\<lambda>s2. Inr (-1 :: int, s2))) = Inr (-1, s2)"
    by (simp add: cbind_assoc [symmetric])
  with s2(2-) show ?case using 1 agree assms(3) by (simp add: u_keep_def)
qed

section \<open>Properties\<close>

text \<open>A request that is woken: it returns 0 only directly behind a wait that did not time out.\<close>

definition bounded_request :: "ujunk \<Rightarrow> sent \<Rightarrow> (fwu \<Rightarrow> bool) \<Rightarrow> fwu \<Rightarrow> (int \<times> fwu) cres \<Rightarrow> bool" where
  "bounded_request j msg good st m \<longleftrightarrow> m \<noteq> Inl SelfDeadlock \<and>
     cpost (\<lambda>(r, s). \<not> u_mutex s \<and> (\<exists>k \<le> 3. u_out s = u_out st @ replicate k msg
       \<and> (r = 0 \<and> 0 < k \<and> good s \<and> (\<exists>s1. locked_wait j s1 = Inr (True, s)) \<or> r = -1 \<and> k = 3))) m"

lemma bounded_requestI:
  assumes "clive m"
    and "cpost (\<lambda>(r, s). (\<not> u_mutex s \<and> u_keep st1 s) \<and> (\<exists>k \<le> PWL_FW_UPDATE_RETRY_LIMIT. u_out s = u_out st @ replicate k msg
      \<and> (r = 0 \<and> 0 < k \<and> usable s = Inr True \<and> (\<exists>s1. locked_wait j s1 = Inr (True, s)) \<or> r = -1 \<and> k = PWL_FW_UPDATE_RETRY_LIMIT))) m"
    and "\<And>s. usable s = Inr True \<Longrightarrow> good s"
  shows "bounded_request j msg good st m"
  unfolding bounded_request_def
proof
  show "m \<noteq> Inl SelfDeadlock" using assms(1) by (simp add: clive_def)
  show "cpost (\<lambda>(r, s). \<not> u_mutex s \<and> (\<exists>k \<le> 3. u_out s = u_out st @ replicate k msg
       \<and> (r = 0 \<and> 0 < k \<and> good s \<and> (\<exists>s1. locked_wait j s1 = Inr (True, s)) \<or> r = -1 \<and> k = 3))) m"
    by (rule cpost_weaken [OF assms(2)]) (use assms(3) in \<open>auto simp: retry_limit\<close>)
qed

lemma locked_bounded:
  assumes "\<not> u_mutex st" "u_out st = u_out st0" "\<And>s. clive (usable s)" "\<And>s. usable s = Inr True \<Longrightarrow> good s"
  shows "bounded_request j (asked j c (uj_content j)) good st0 (request (ask j c) (locked_wait j) usable st)"
  using locked.request_sends [of st st j c usable] locked.request_live [of usable st st j c] assms
  by (intro bounded_requestI [where usable = usable and ?st1.0 = st]) simp_all

lemma told_bounded:
  assumes "\<not> u_mutex st" "u_out st = u_out st0" "\<And>s. clive (usable s)" "\<And>s. usable s = Inr True \<Longrightarrow> good s"
  shows "bounded_request j (asked j c t) good st0 (request (u_send_message_queue_with_content j c t) (locked_wait j) usable st)"
  using told.request_sends [of st st j c t usable] told.request_live [of usable st st j c t] assms
  by (intro bounded_requestI [where usable = usable and ?st1.0 = st]) simp_all

lemma package_bounded:
  assumes "\<not> u_mutex st" "u_out st = u_out st0" "\<And>s. clive (usable s)" "\<And>s. usable s = Inr True \<Longrightarrow> good s"
  shows "bounded_request j (asked j c (u_device_package_ver st)) good st0
    (request (\<lambda>s. u_send_message_queue_with_content j c (u_device_package_ver s) s) (locked_wait j) usable st)"
  using package.request_sends [of st st j c usable] package.request_live [of usable st st j c] assms
  by (intro bounded_requestI [where usable = usable and ?st1.0 = st]) simp_all

lemma carrier_known_live: "clive (carrier_known s)"
  by (auto intro!: clive_cbindI simp: carrier_known_def)

lemma set_carrier_bounded:
  assumes "\<not> u_mutex st" "cstr (u_pref_carrier st) = Inr c"
  shows "bounded_request j (asked j PWL_CID_SET_PREF_CARRIER (g_preferred_carriers ! find_carrier c 0 g_preferred_carriers))
    u_set_pref_carrier_ret st (u_set_preferred_carrier j st)"
  unfolding u_set_preferred_carrier_def assms(2) cbind_Inr Let_def
  by (rule told_bounded) (use assms(1) in simp_all)

lemma set_version_bounded:
  assumes "\<not> u_mutex st" "strstr (u_device_package_ver st) ''DPV'' \<noteq> None"
  shows "bounded_request j (asked j PWL_CID_SET_OEM_PRI_VERSION (u_device_package_ver st)) u_set_oem_pri_ver_ret st (set_oem_pri_version j st)"
  using package_bounded [of "st\<lparr>u_set_oem_pri_ver_ret := False\<rparr>" st "\<lambda>s. Inr (u_set_oem_pri_ver_ret s)" u_set_oem_pri_ver_ret j
      PWL_CID_SET_OEM_PRI_VERSION] assms
  by (simp add: set_oem_pri_version_def)

lemma set_carrier_case:
  assumes "\<not> u_mutex st"
  shows "case cstr (u_pref_carrier st) of
      Inl e \<Rightarrow> u_set_preferred_carrier j st = Inl e
    | Inr c \<Rightarrow> bounded_request j (asked j PWL_CID_SET_PREF_CARRIER (g_preferred_carriers ! find_carrier c 0 g_preferred_carriers))
                  u_set_pref_carrier_ret st (u_set_preferred_carrier j st)"
  using set_carrier_bounded [OF assms] by (cases "cstr (u_pref_carrier st)") (simp_all add: u_set_preferred_carrier_def)

lemma set_version_case:
  assumes "\<not> u_mutex st"
  shows "if strstr (u_device_package_ver st) ''DPV'' = None
       then set_oem_pri_version j st = Inr (0, st\<lparr>u_set_oem_pri_ver_ret := False\<rparr>)
       else bounded_request j (asked j PWL_CID_SET_OEM_PRI_VERSION (u_device_package_ver st)) u_set_oem_pri_ver_ret st
              (set_oem_pri_version j st)"
  using set_version_bounded [OF assms] by (simp add: set_oem_pri_version_def)

text \<open>C12: whatever the message thread does meanwhile, each of these requests sends its message at most three times, and
  only that message; it returns 0 only directly behind a wait that was woken, and with the value that the
  request is about in its place, otherwise -1 after three attempts; it leaves the mutex free and never locks it
  twice. The carrier that is set is the first known name that equals the one in memory, or the first of the table; a
  device package without the mark \<^verbatim>\<open>DPV\<close> is not set at all, and reported as a success without any message.\<close>

theorem requests_bounded:
  assumes "\<not> u_mutex st"
  shows "bounded_request j (asked j PWL_CID_GET_SIM_CARRIER (uj_content j)) (\<lambda>s. carrier_known s = Inr True) st (u_get_sim_carrier j st)
    \<and> bounded_request j (asked j PWL_CID_GET_PREF_CARRIER (uj_content j)) (\<lambda>s. carrier_known s = Inr True) st (u_get_preferred_carrier j st)
    \<and> bounded_request j (asked j PWL_CID_GET_SKUID (uj_content j)) (\<lambda>s. u_skuid s \<noteq> []) st (get_sku_id j st)
    \<and> bounded_request j (asked j PWL_CID_GET_MODULE_SKU_ID (uj_content j)) (\<lambda>s. u_module_sku_id s \<noteq> []) st (get_module_sku_id j st)
    \<and> bounded_request j (asked j PWL_CID_DEL_TUNE_CODE (uj_content j)) u_del_tune_code_ret st (del_tune_code j st)
    \<and> bounded_request j (asked j PWL_CID_SET_OEM_PRI_VERSION ''DPV00.00.00.00'') u_set_oem_pri_ver_ret st (clean_oem_pri_version j st)
    \<and> bounded_request j (asked j PWL_CID_GET_ATI (uj_content j)) (\<lambda>_. True) st (get_ati_info j st)
    \<and> (case cstr (u_pref_carrier st) of
         Inl e \<Rightarrow> u_set_preferred_carrier j st = Inl e
       | Inr c \<Rightarrow> bounded_request j (asked j PWL_CID_SET_PREF_CARRIER (g_preferred_carriers ! find_carrier c 0 g_preferred_carriers))
                  u_set_pref_carrier_ret st (u_set_preferred_carrier j st))
    \<and> (if strstr (u_device_package_ver st) ''DPV'' = None
       then set_oem_pri_version j st = Inr (0, st\<lparr>u_set_oem_pri_ver_ret := False\<rparr>)
       else bounded_request j (asked j PWL_CID_SET_OEM_PRI_VERSION (u_device_package_ver st)) u_set_oem_pri_ver_ret st
              (set_oem_pri_version j st))"
  using assms
  unfolding u_get_sim_carrier_def u_get_preferred_carrier_def get_sku_id_def get_module_sku_id_def del_tune_code_def
    clean_oem_pri_version_def get_ati_info_def
  by (intro conjI set_carrier_case set_version_case locked_bounded told_bounded) (simp_all add: carrier_known_live)

definition example_ujunk :: ujunk where
  "example_ujunk = \<lparr>uj_response = ''r'', uj_content = ''c'', uj_stack = zeroed 5\<rparr>"

definition example_answer :: "pwl_cid_t \<Rightarrow> string \<Rightarrow> msg_buffer_t" where
  "example_answer c t = \<lparr>sender_id = PWL_MQ_ID_MADPT, pwl_cid = cid_num c, status = PWL_CID_STATUS_OK, response = t, content = []\<rparr>"

lemma u_init_simps [simp]: "\<not> u_mutex (u_init ty w sc)" "u_script (u_init ty w sc) = sc" "u_out (u_init ty w sc) = []"
  "u_fs (u_init ty w sc) = w" "u_device_type (u_init ty w sc) = ty" "\<not> u_exited (u_init ty w sc)"
  by (simp_all add: u_init_def)

lemma u_init_inv: "u_inv (u_init ty w sc)"
  by (simp add: u_init_def u_inv_def fw_lengths PWL_MAX_SKUID_SIZE_def SN_MAX_LENGTH_def IMEI_MAX_LENGTH_def)

theorem requests_bounded_witness:
  "\<not> u_mutex (u_init PWL_DEVICE_TYPE_USB fs0 []) \<and>
   bounded_request example_ujunk (asked example_ujunk PWL_CID_GET_SKUID ''c'') (\<lambda>s. u_skuid s \<noteq> []) (u_init PWL_DEVICE_TYPE_USB fs0 [])
     (get_sku_id example_ujunk (u_init PWL_DEVICE_TYPE_USB fs0 []))"
  using requests_bounded [of "u_init PWL_DEVICE_TYPE_USB fs0 []" example_ujunk] by (simp add: example_ujunk_def)

lemma loop_silent:
  assumes "\<not> u_mutex st" "u_script st = replicate k ([], [], False) @ rest"
  shows "\<exists>sg. request_loop (k + n) (ask j c) (locked_wait j) usable st
    = request_loop n (ask j c) (locked_wait j) usable
        (st\<lparr>u_out := u_out st @ replicate k (asked j c (uj_content j)), u_script := rest, u_signals := sg\<rparr>)"
  using assms
proof (induction k arbitrary: st)
  case 0
  then show ?case by (intro exI [of _ "u_signals st"]) (cases st, simp)
next
  case (Suc k)
  let ?s = "st\<lparr>u_out := u_out st @ [asked j c (uj_content j)], u_script := replicate k ([], [], False) @ rest, u_signals := []\<rparr>"
  have "request_loop (Suc k + n) (ask j c) (locked_wait j) usable st = request_loop (k + n) (ask j c) (locked_wait j) usable ?s"
    using Suc.prems by (simp add: ask_def u_send_message_queue_def locked_wait_def u_timedwait_def asked_def)
  with Suc.IH [of ?s] Suc.prems show ?case by simp
qed

lemma u_handle_skuid:
  assumes "u_inv st" "pwl_cid m = cid_num PWL_CID_GET_SKUID" "status m = PWL_CID_STATUS_OK" "length (response m) < 15"
  shows "\<exists>t. u_handle j m st = Inr (cond_signal G_COND (st\<lparr>u_cid_map := t, u_skuid := response m\<rparr>))"
proof -
  have "cid_num PWL_CID_GET_SKUID = 1" by code_simp
  with assms show ?thesis
    by (auto simp: u_handle_def print_message_info_def cid_name_at_ok update_cid_record_def u_inv_def u_answer_def
      handle_skuid_def strcpy_cap_def PWL_MAX_SKUID_SIZE_def u_answers_signal_def cond_signal_def cid_of_eq_Some_iff
      simp del: cid_of_cid_num intro!: exI split: option.splits) (auto simp: cid_of_def cid_enum_def)
qed

text \<open>An answer is not lost: when the module answers the request for the SKU at the first, second or
  third attempt, while the updater waits, the request ends with 0, holds the SKU that was sent, and
  has asked exactly as often as needed.\<close>

theorem sku_answer_taken:
  assumes "\<not> u_mutex st" "u_inv st" "k < 3" "u_script st = replicate k ([], [], False) @ ([], [m], b) # rest"
    and "pwl_cid m = cid_num PWL_CID_GET_SKUID" "status m = PWL_CID_STATUS_OK"
    and "0 < length (response m)" "length (response m) < 15"
  shows "\<exists>s. get_sku_id j st = Inr (0, s) \<and> u_skuid s = response m \<and> u_script s = rest
    \<and> u_out s = u_out st @ replicate (Suc k) (asked j PWL_CID_GET_SKUID (uj_content j))"
proof -
  let ?msg = "asked j PWL_CID_GET_SKUID (uj_content j)" and ?usable = "\<lambda>s. Inr (u_skuid s \<noteq> [])"
  obtain sg where loop: "request_loop 3 (ask j PWL_CID_GET_SKUID) (locked_wait j) ?usable st
    = request_loop (3 - k) (ask j PWL_CID_GET_SKUID) (locked_wait j) ?usable
        (st\<lparr>u_out := u_out st @ replicate k ?msg, u_script := ([], [m], b) # rest, u_signals := sg\<rparr>)"
    using loop_silent [OF assms(1,4), of "3 - k" j PWL_CID_GET_SKUID ?usable] assms(3) by auto
  let ?s = "st\<lparr>u_out := (u_out st @ replicate k ?msg) @ [?msg], u_script := rest, u_signals := []\<rparr>"
  obtain t where t: "u_handle j m ?s = Inr (cond_signal G_COND (?s\<lparr>u_cid_map := t, u_skuid := response m\<rparr>))"
    using u_handle_skuid [of ?s m j] assms by auto
  obtain n where n: "3 - k = Suc n" using assms(3) by (cases "3 - k") auto
  show ?thesis
    using assms t by (simp add: get_sku_id_def request_def retry_limit loop n ask_def u_send_message_queue_def asked_def [symmetric]
      locked_wait_def u_timedwait_def cond_signal_def replicate_append_same [symmetric])
qed

theorem sku_answer_taken_witness:
  "\<exists>s. get_sku_id example_ujunk (u_init PWL_DEVICE_TYPE_USB fs0
      [([], [], False), ([], [example_answer PWL_CID_GET_SKUID ''0CC1''], False)]) = Inr (0, s) \<and> u_skuid s = ''0CC1''"
  using sku_answer_taken [of "u_init PWL_DEVICE_TYPE_USB fs0
      [([], [], False), ([], [example_answer PWL_CID_GET_SKUID ''0CC1''], False)]" 1
      "example_answer PWL_CID_GET_SKUID ''0CC1''" False "[]" example_ujunk]
  by (auto simp: u_init_inv example_answer_def)

text \<open>The query of the eSIM state waits with \<^verbatim>\<open>cond_wait\<close>. When none of its attempts is answered it
  returns -1 with the mutex still locked, and then every request that locks the mutex itself hangs: the
  version query, the SKU, the carrier id, the eSIM profile check, the SIM carrier. When it is answered
  the mutex is free.\<close>

theorem esim_state_timeout_deadlock:
  assumes "u_get_esim_enable_state j st = Inr (r, s)"
  shows "u_mutex s = (r \<noteq> 0) \<and>
    (r \<noteq> 0 \<longrightarrow> get_current_fw_version j' s = Inl SelfDeadlock \<and> get_sku_id j' s = Inl SelfDeadlock
      \<and> get_carrier_id j' s = Inl SelfDeadlock \<and> check_esim_test_profile_process j' s = Inl SelfDeadlock
      \<and> u_get_sim_carrier j' s = Inl SelfDeadlock)"
  using cpostD [OF esim_state_mutex assms] locked_requests_stuck [of s] by simp

lemma example_esim_silent:
  "u_get_esim_enable_state example_ujunk (u_init PWL_DEVICE_TYPE_PCIE fs0 []) =
     Inr (-1, (u_init PWL_DEVICE_TYPE_PCIE fs0 [])\<lparr>u_out := replicate 3 (asked example_ujunk PWL_CID_GET_ESIM_STATE ''c''), u_mutex := True\<rparr>)"
  by (simp add: u_get_esim_enable_state_def request_def retry_limit eval_nat_numeral ask_def u_send_message_queue_def
    u_cond_wait_def u_timedwait_def cond_wait_def ETIMEDOUT_def asked_def example_ujunk_def)

theorem esim_state_timeout_deadlock_witness:
  "\<exists>s. u_get_esim_enable_state example_ujunk (u_init PWL_DEVICE_TYPE_PCIE fs0 []) = Inr (-1, s)
     \<and> get_current_fw_version example_ujunk s = Inl SelfDeadlock"
  using esim_state_timeout_deadlock [OF example_esim_silent] example_esim_silent by auto

lemma unlocking_request_keep: "cpost (\<lambda>(r, s). u_keep st s) (u_get_esim_enable_state j st)"
  unfolding u_get_esim_enable_state_def
  by (rule cpost_weaken [OF unlocking.request_sends [of st st]]) auto

definition versions_known :: "fwu \<Rightarrow> bool" where
  "versions_known s \<longleftrightarrow> u_current_fw_ver s \<noteq> [] \<and> u_current_md_ver s \<noteq> [] \<and> u_current_op_ver s \<noteq> []
     \<and> u_current_oem_ver s \<noteq> [] \<and> u_current_dpv_ver s \<noteq> []"

lemma u_keep_view:
  "u_keep a b \<Longrightarrow> u_device_type b = u_device_type a
     \<and> (u_current_fw_ver a \<noteq> [] \<longrightarrow> u_current_fw_ver b \<noteq> []) \<and> (u_current_md_ver a \<noteq> [] \<longrightarrow> u_current_md_ver b \<noteq> [])
     \<and> (u_current_op_ver a \<noteq> [] \<longrightarrow> u_current_op_ver b \<noteq> []) \<and> (u_current_oem_ver a \<noteq> [] \<longrightarrow> u_current_oem_ver b \<noteq> [])
     \<and> (u_current_dpv_ver a \<noteq> [] \<longrightarrow> u_current_dpv_ver b \<noteq> [])"
  unfolding u_keep_def by blast

definition zero_gives :: "(fwu \<Rightarrow> bool) \<Rightarrow> int \<times> fwu \<Rightarrow> bool" where
  "zero_gives Q x \<longleftrightarrow> (fst x = 0 \<longrightarrow> Q (snd x)) \<and> (fst x = 0 \<or> fst x = -1)"

lemma version_stage_thenI:
  assumes "\<not> u_mutex st" "\<not> u_mutex (clear st)"
    and "\<And>n' s. field s \<noteq> [] \<Longrightarrow> \<not> u_mutex s \<Longrightarrow> u_keep (clear st) s \<Longrightarrow> cpost (zero_gives Q) (k n' s)"
  shows "cpost (zero_gives Q)
    (cbind (version_stage j c clear field n st) (\<lambda>(ok, n', s). if \<not> ok then Inr (-1, s) else k n' s))"
  by (rule cpost_cbindI [OF version_stage_post [of st clear field j c n, OF assms(1,2)]])
    (use assms(3) in \<open>auto simp: zero_gives_def\<close>)

lemma pcie_versions_known:
  assumes "\<not> u_mutex st" "u_current_fw_ver st \<noteq> []"
  shows "cpost (zero_gives versions_known) (pcie_versions j n st)"
  unfolding pcie_versions_def
  apply (rule version_stage_thenI, use assms in simp, use assms in simp)
  apply (rule version_stage_thenI, simp, simp)
  apply (rule version_stage_thenI, simp, simp)
  apply (rule version_stage_thenI, simp, simp)
  apply (rule cpost_cbindI [OF unlocking_request_keep], clarify)
  apply (drule u_keep_view)+
  using assms(2) by (simp add: versions_known_def zero_gives_def)

text \<open>When the version query of a PCIe module returns 0, all five version strings have been
  filled; a module of unknown type is always refused.\<close>

theorem current_versions_known:
  assumes "\<not> u_mutex st" "get_current_fw_version j st = Inr (r, s)" "u_device_type st \<noteq> PWL_DEVICE_TYPE_USB"
  shows "(r = 0 \<longrightarrow> u_device_type st = PWL_DEVICE_TYPE_PCIE \<and> versions_known s) \<and> (r = 0 \<or> r = -1)"
proof -
  have "cpost (zero_gives (\<lambda>s. u_device_type st = PWL_DEVICE_TYPE_PCIE \<and> versions_known s)) (get_current_fw_version j st)"
    unfolding get_current_fw_version_def
    apply (rule cpost_cbindI [OF locked_loop_keep], use assms(1) in simp, clarify)
    apply (drule u_keep_view)
    using assms(3) by (auto simp: zero_gives_def intro!: cpost_ifI cpost_weaken [OF pcie_versions_known])
  from cpostD [OF this assms(2)] show ?thesis by (simp add: zero_gives_def)
qed

lemma example_cids: "cid_num PWL_CID_GET_AP_VER = 3" "cid_num PWL_CID_GET_MD_VER = 8" "cid_num PWL_CID_GET_OP_VER = 9"
  "cid_num PWL_CID_GET_OEM_VER = 5" "cid_num PWL_CID_GET_DPV_VER = 10" "cid_num PWL_CID_GET_OEM_PRI_RESET_STATE = 40"
  by code_simp+

lemma example_handles:
  "length (u_cid_map st) = 49 \<Longrightarrow> u_device_type st = PWL_DEVICE_TYPE_PCIE \<Longrightarrow>
    u_handle j (example_answer PWL_CID_GET_AP_VER ''00.31.07'') st = Inr (cond_signal G_COND
      (st\<lparr>u_cid_map := (u_cid_map st)[3 := (u_cid_map st ! 3)\<lparr>rec_status := PWL_CID_STATUS_OK\<rparr>], u_current_fw_ver := ''00.31.07'', u_is_get_fw_ver := True\<rparr>))"
  "length (u_cid_map st) = 49 \<Longrightarrow> u_device_type st = PWL_DEVICE_TYPE_PCIE \<Longrightarrow>
    u_handle j (example_answer PWL_CID_GET_MD_VER ''RMM1'') st = Inr (cond_signal G_COND
      (st\<lparr>u_cid_map := (u_cid_map st)[8 := (u_cid_map st ! 8)\<lparr>rec_status := PWL_CID_STATUS_OK\<rparr>], u_current_md_ver := ''RMM1''\<rparr>))"
  "length (u_cid_map st) = 49 \<Longrightarrow> u_device_type st = PWL_DEVICE_TYPE_PCIE \<Longrightarrow>
    u_handle j (example_answer PWL_CID_GET_OP_VER ''OP.1'') st = Inr (cond_signal G_COND
      (st\<lparr>u_cid_map := (u_cid_map st)[9 := (u_cid_map st ! 9)\<lparr>rec_status := PWL_CID_STATUS_OK\<rparr>], u_current_op_ver := ''OP.1''\<rparr>))"
  "length (u_cid_map st) = 49 \<Longrightarrow> u_device_type st = PWL_DEVICE_TYPE_PCIE \<Longrightarrow>
    u_handle j (example_answer PWL_CID_GET_OEM_VER ''OEM1'') st = Inr (cond_signal G_COND
      (st\<lparr>u_cid_map := (u_cid_map st)[5 := (u_cid_map st ! 5)\<lparr>rec_status := PWL_CID_STATUS_OK\<rparr>], u_current_oem_ver := ''OEM1''\<rparr>))"
  "length (u_cid_map st) = 49 \<Longrightarrow> u_device_type st = PWL_DEVICE_TYPE_PCIE \<Longrightarrow>
    u_handle j (example_answer PWL_CID_GET_DPV_VER ''DPV1'') st = Inr (cond_signal G_COND
      (st\<lparr>u_cid_map := (u_cid_map st)[10 := (u_cid_map st ! 10)\<lparr>rec_status := PWL_CID_STATUS_OK\<rparr>], u_current_dpv_ver := ''DPV1''\<rparr>))"
  by (simp_all add: u_handle_def example_answer_def print_message_info_def example_cids cid_name_at_ok update_cid_record_def
    u_answer_def cid_of_def cid_enum_def handle_ap_ver_def handle_other_ver_def strncmp_eq_def strcpy_cap_def FW_VERSION_LENGTH_def OTHER_VERSION_LENGTH_def
    u_answers_signal_def)

definition example_pcie_script :: "(msg_buffer_t list \<times> msg_buffer_t list \<times> bool) list" where
  "example_pcie_script =
     map (\<lambda>(c, t). ([], [example_answer c t], False))
       [(PWL_CID_GET_AP_VER, ''00.31.07''), (PWL_CID_GET_MD_VER, ''RMM1''), (PWL_CID_GET_OP_VER, ''OP.1''),
        (PWL_CID_GET_OEM_VER, ''OEM1''), (PWL_CID_GET_DPV_VER, ''DPV1'')]"

definition example_pcie :: fwu where
  "example_pcie = u_init PWL_DEVICE_TYPE_PCIE fs0 example_pcie_script"

lemma example_pcie_simps: "length (u_cid_map example_pcie) = 49" "u_device_type example_pcie = PWL_DEVICE_TYPE_PCIE"
  "u_script example_pcie = example_pcie_script" "\<not> u_mutex example_pcie"
  by (simp_all add: example_pcie_def u_init_def)

lemma example_versions: "\<exists>s. get_current_fw_version example_ujunk example_pcie = Inr (0, s)"
  by (simp add: get_current_fw_version_def pcie_versions_def version_stage_def u_get_esim_enable_state_def request_def
    retry_limit eval_nat_numeral ask_def u_send_message_queue_def locked_wait_def u_cond_wait_def u_timedwait_def
    cond_wait_def ETIMEDOUT_def example_pcie_simps example_pcie_script_def example_handles cond_signal_def)

theorem current_versions_known_witness:
  "\<exists>s. get_current_fw_version example_ujunk example_pcie = Inr (0, s) \<and> versions_known s"
  using example_versions current_versions_known [of example_pcie example_ujunk 0] by (auto simp: example_pcie_simps)

text \<open>The check of the OEM PRI reset reports a failure exactly when the module answered with one of
  the states 2, 3, 4, 5 and 8; an unanswered check counts as passed.\<close>

theorem oempri_reset_decision:
  assumes "\<not> u_mutex st" "check_oempri_reset_state j st = Inr (r, s)"
  shows "(r = 0 \<or> r = -1) \<and> (r = -1 \<longrightarrow> u_oem_pri_reset_state s \<in> {2, 3, 4, 5, 8})
    \<and> (u_oem_pri_reset_state s \<in> {2, 3, 4, 5, 8} \<and> r = 0 \<longrightarrow>
         u_out s = u_out st @ replicate 3 (asked j PWL_CID_GET_OEM_PRI_RESET_STATE (uj_content j)))"
proof -
  have "cpost (\<lambda>(r, s). (r = 0 \<or> r = -1) \<and> (r = -1 \<longrightarrow> u_oem_pri_reset_state s \<in> {2, 3, 4, 5, 8})
    \<and> (u_oem_pri_reset_state s \<in> {2, 3, 4, 5, 8} \<and> r = 0 \<longrightarrow>
         u_out s = u_out st @ replicate 3 (asked j PWL_CID_GET_OEM_PRI_RESET_STATE (uj_content j))))
    (check_oempri_reset_state j st)"
    unfolding check_oempri_reset_state_def
    by (rule cpost_cbindI [OF locked.loop_sends [of st st]]) (use assms(1) in \<open>auto simp: retry_limit split: if_splits\<close>)
  from cpostD [OF this assms(2)] show ?thesis by simp
qed

lemma example_reset_answer:
  "length (u_cid_map st) = 49 \<Longrightarrow>
    u_handle j (example_answer PWL_CID_GET_OEM_PRI_RESET_STATE ''2 fail'') st = Inr (cond_signal G_COND
      (st\<lparr>u_cid_map := (u_cid_map st)[40 := (u_cid_map st ! 40)\<lparr>rec_status := PWL_CID_STATUS_OK\<rparr>], u_oem_pri_reset_state := 2\<rparr>))"
proof -
  have "strtok_all '' '' ''2 fail'' = [''2'', ''fail'']" "atoi ''2'' = 2" by code_simp+
  then show "length (u_cid_map st) = 49 \<Longrightarrow> ?thesis"
    by (simp add: u_handle_def example_answer_def print_message_info_def example_cids cid_name_at_ok update_cid_record_def
      u_answer_def cid_of_def cid_enum_def get_oempri_reset_state_def strcpy_cap_def PWL_MQ_MAX_RESP_def u_answers_signal_def)
qed

lemma example_reset_state:
  "\<exists>s. check_oempri_reset_state example_ujunk (u_init PWL_DEVICE_TYPE_USB fs0
      [([], [example_answer PWL_CID_GET_OEM_PRI_RESET_STATE ''2 fail''], False)]) = Inr (-1, s) \<and> u_oem_pri_reset_state s = 2"
proof -
  have "length (u_cid_map (u_init PWL_DEVICE_TYPE_USB fs0 sc)) = 49" for sc by (simp add: u_init_def)
  then show ?thesis
    by (simp add: check_oempri_reset_state_def retry_limit eval_nat_numeral ask_def u_send_message_queue_def locked_wait_def
      u_timedwait_def example_reset_answer cond_signal_def)
qed

theorem oempri_reset_decision_witness:
  "\<exists>s. check_oempri_reset_state example_ujunk (u_init PWL_DEVICE_TYPE_USB fs0
      [([], [example_answer PWL_CID_GET_OEM_PRI_RESET_STATE ''2 fail''], False)]) = Inr (-1, s)
     \<and> u_oem_pri_reset_state s \<in> {2, 3, 4, 5, 8}"
  using example_reset_state oempri_reset_decision [of "u_init PWL_DEVICE_TYPE_USB fs0
      [([], [example_answer PWL_CID_GET_OEM_PRI_RESET_STATE ''2 fail''], False)]" example_ujunk "-1"] by auto

text \<open>The removal of the eSIM test profile keeps its counter and its mark in step with the record on
  disk, and cannot go on for ever: from counter 0 it goes to 2, to 1 and to 0, where it is marked as
  given up; it is left early only when the profile is gone or the module refuses the command.\<close>

theorem esim_removal_steps:
  assumes "esim_agree st" "\<not> u_mutex st" "\<not> u_exited st" "u_testprofile_delete_counter st \<in> {0, 1, 2}"
  shows "cpost (\<lambda>(r, s). r = 0 \<and> esim_agree s
      \<and> removal_step (u_testprofile_delete_counter st) (u_testprofile_delete_done st) s)
    (check_esim_test_profile_process j st)"
  unfolding check_esim_test_profile_process_def
proof (rule cpost_cbindI [OF locked_request_keep], use assms(2) in simp, clarify, goal_cases)
  case (1 r s)
  let ?st = "st\<lparr>u_esim_profile_chk_result := -1\<rparr>"
  have keep: "u_testprofile_delete_counter s = u_testprofile_delete_counter st"
    "u_testprofile_delete_done s = u_testprofile_delete_done st" "u_exited s = u_exited st"
    using 1 by (simp_all add: u_keep_def)
  have agree: "esim_agree s" using esim_agree_keep [of ?st s] 1 assms(1) by (simp add: esim_agree_def)
  show ?case
  proof (rule cpost_ifI, goal_cases)
    case 1
    let ?s = "s\<lparr>u_testprofile_delete_done := 1\<rparr>"
    obtain s2 where s2: "cbind (set_delete_counter 0 ?s) (set_delete_done 1) = Inr s2" "esim_agree s2"
      "u_testprofile_delete_counter s2 = 0" "u_testprofile_delete_done s2 = 1" "u_exited s2 = u_exited ?s"
      using set_delete_both [of ?s 0 1] esim_agree_dom [OF agree] by (auto simp: val_ok_def)
    then have "cbind (set_delete_counter 0 ?s) (\<lambda>s1. cbind (set_delete_done 1 s1) (\<lambda>s2. Inr (0 :: int, s2))) = Inr (0, s2)"
      by (simp add: cbind_assoc [symmetric])
    with s2(2-) show ?case using keep assms(3) by (simp add: removal_step_def)
  next
    case 2
    obtain s1 where s1: "count_failed_removal s = Inr s1" "esim_agree s1" "u_exited s1 = u_exited s" "u_mutex s1 = u_mutex s"
      "u_testprofile_delete_counter s1 = (if u_testprofile_delete_counter s = 0 then 2 else u_testprofile_delete_counter s - 1)"
      "u_testprofile_delete_done s1 = (if u_testprofile_delete_counter s = 1 then 2 else u_testprofile_delete_done s)"
      using count_failed_removal_step [OF agree] keep assms(4) by auto
    show ?case unfolding s1(1) cbind_Inr
      apply (rule cpost_cbindI [OF remove_command_step [OF s1(2)]])
      using s1(3-) keep assms(3) \<open>\<not> u_mutex s\<close>
      by (auto simp: restart_madpt_and_fwupdate_service_def u_send_message_queue_with_content_def strcpy_cap_def
        PWL_MQ_MAX_CONTENT_LEN_def removal_step_def esim_agree_def split: if_splits)
  qed
qed

definition esim_fresh :: fs where
  "esim_fresh = write_file ESIM_PROFILE_REMOVE_RECORD (render esim_init_kvs) fs0"

lemma esim_fresh_agree: "esim_agree (u_init ty esim_fresh sc)"
proof -
  have "store_abs ESIM_PROFILE_REMOVE_RECORD esim_fresh = map_of esim_init_kvs"
    by (rule store_abs_map_of [OF _ esim_init_ok]) (simp add: esim_fresh_def write_file_def)
  moreover have "store_inv ESIM_PROFILE_REMOVE_RECORD esim_fresh"
    by (simp add: store_inv_def esim_fresh_def fs0_def write_file_def record_ok_parse esim_init_ok)
  ultimately show ?thesis by (simp add: esim_agree_def u_init_def esim_init_kvs_def)
qed

theorem esim_removal_steps_witness:
  "cpost (\<lambda>(r, s). r = 0 \<and> esim_agree s \<and> removal_step 0 0 s)
    (check_esim_test_profile_process example_ujunk (u_init PWL_DEVICE_TYPE_USB esim_fresh []))"
  using esim_removal_steps [OF esim_fresh_agree, of PWL_DEVICE_TYPE_USB "[]" example_ujunk] by (simp add: u_init_def)

text \<open>The counter of attempts of \<^verbatim>\<open>post_message_queue_action\<close> is never initialised. When its value is 3
  or more by chance, nothing is sent and the action fails at once. Otherwise a backup whose serial number
  and IMEI together have 29 characters or more writes past the text of the message, although both fit their own arrays.\<close>

theorem post_action_unsafe:
  "(3 \<le> retry \<longrightarrow> post_message_queue_action j retry a st = Inr (-1, st))
    \<and> (retry < 3 \<and> 29 \<le> length (u_sn st) + length (u_imei st) \<longrightarrow>
         post_message_queue_action j retry MESSAGE_QUEUE_ACTION_BACKUP_SN_IMEI st = Inl Overflow)"
proof (intro conjI impI)
  assume "retry < 3 \<and> 29 \<le> length (u_sn st) + length (u_imei st)"
  moreover from this obtain n where n: "nat (3 - retry) = Suc n" by (cases "nat (3 - retry)") auto
  ultimately have "action_send j MESSAGE_QUEUE_ACTION_BACKUP_SN_IMEI st = Inl Overflow"
    by (auto simp: action_send_def u_send_message_queue_with_content_def strcpy_cap_def PWL_MQ_MAX_CONTENT_LEN_def
      SN_MAX_LENGTH_def IMEI_MAX_LENGTH_def)
  with n show "post_message_queue_action j retry MESSAGE_QUEUE_ACTION_BACKUP_SN_IMEI st = Inl Overflow"
    by (simp add: post_message_queue_action_def retry_limit)
qed (simp add: post_message_queue_action_def retry_limit)

theorem post_action_unsafe_witness:
  "u_inv ((u_init PWL_DEVICE_TYPE_USB fs0 [])\<lparr>u_sn := ''CN0F8W6TIPI0042'', u_imei := ''356789012345678''\<rparr>)
   \<and> post_message_queue_action example_ujunk 0 MESSAGE_QUEUE_ACTION_BACKUP_SN_IMEI
       ((u_init PWL_DEVICE_TYPE_USB fs0 [])\<lparr>u_sn := ''CN0F8W6TIPI0042'', u_imei := ''356789012345678''\<rparr>) = Inl Overflow"
  using u_init_inv [of PWL_DEVICE_TYPE_USB fs0 "[]"]
    post_action_unsafe [of 0 example_ujunk _ "(u_init PWL_DEVICE_TYPE_USB fs0 [])\<lparr>u_sn := ''CN0F8W6TIPI0042'', u_imei := ''356789012345678''\<rparr>"]
  by (simp add: u_inv_def u_init_def SN_MAX_LENGTH_def IMEI_MAX_LENGTH_def)

text \<open>Every message the updater handles leaves all its data inside their arrays, or ends in undefined
  behaviour; the latter is the fate of an AP version of twelve or more characters.\<close>

theorem u_handle_inv:
  assumes "u_inv st"
  shows "cpost u_inv (u_handle j m st)
    \<and> (pwl_cid m = cid_num PWL_CID_GET_AP_VER \<and> u_device_type st = PWL_DEVICE_TYPE_PCIE \<and> 12 \<le> length (response m)
         \<longrightarrow> u_handle j m st = Inl Overflow)"
  using u_handle_keeps [OF assms] assms
  by (auto simp: u_handle_def print_message_info_def example_cids cid_name_at_ok update_cid_record_def u_inv_def u_answer_def
    cid_of_def cid_enum_def handle_ap_ver_def strcpy_cap_def FW_VERSION_LENGTH_def)

theorem u_handle_inv_witness:
  "u_handle example_ujunk (example_answer PWL_CID_GET_AP_VER ''00.31.07.100'') (u_init PWL_DEVICE_TYPE_PCIE fs0 []) = Inl Overflow"
  using u_handle_inv [OF u_init_inv, of example_ujunk "example_answer PWL_CID_GET_AP_VER ''00.31.07.100''" PWL_DEVICE_TYPE_PCIE fs0 "[]"]
  by (simp add: example_answer_def)

end
