(* ===== verification/Fw_Images.thy ===== *)
theory Fw_Images
  imports Fw_Requests "HOL-Library.Multiset"
begin

text \<open>
  The updater, \<^verbatim>\<open>pwl-fwupdate/pwl_fwupdate.c\<close>, part two: the images of a USB module. Collecting the
  images from the three folders, the version inside an image, the decision whether an update is
  needed, the order in which the images are flashed, the package version that the module is told, and
  the key that unlocks flashing. A folder is the list of the names that \<^verbatim>\<open>readdir\<close> returns (\<open>u_dirs\<close>);
  an image is its list of bytes (\<open>u_fs\<close>).
\<close>

section \<open>Constants and strings\<close>

definition MAX_DOWNLOAD_FW_IMAGES :: nat where "MAX_DOWNLOAD_FW_IMAGES = 1"
definition MAX_DOWNLOAD_PRI_IMAGES :: nat where "MAX_DOWNLOAD_PRI_IMAGES = 100"
definition MAX_DOWNLOAD_OEM_IMAGES :: nat where "MAX_DOWNLOAD_OEM_IMAGES = 100"
definition MAX_DOWNLOAD_FILES :: nat where
  "MAX_DOWNLOAD_FILES = MAX_DOWNLOAD_FW_IMAGES + MAX_DOWNLOAD_PRI_IMAGES + MAX_DOWNLOAD_OEM_IMAGES"

lemmas image_limits = MAX_DOWNLOAD_FW_IMAGES_def MAX_DOWNLOAD_PRI_IMAGES_def MAX_DOWNLOAD_OEM_IMAGES_def
  MAX_DOWNLOAD_FILES_def

definition IMAGE_FW_FOLDER_PATH :: string where "IMAGE_FW_FOLDER_PATH = ''/opt/pwl/firmware/fw/''"
definition IMAGE_CARRIER_FOLDER_PATH :: string where "IMAGE_CARRIER_FOLDER_PATH = ''/opt/pwl/firmware/carrier_pri/''"
definition IMAGE_OEM_FOLDER_PATH :: string where "IMAGE_OEM_FOLDER_PATH = ''/opt/pwl/firmware/oem_pri/''"
definition gp_decode_key_temp_file_name :: string where "gp_decode_key_temp_file_name = ''download_temp.dat''"

text \<open>
  \<^verbatim>\<open>strstricase\<close>: it compares one character less than the pattern has. For an empty pattern the length
  is -1, the largest \<^verbatim>\<open>size_t\<close>, and whole strings are compared.
\<close>

fun strstricase_at :: "string \<Rightarrow> string \<Rightarrow> string option" where
  "strstricase_at [] subStr = None"
| "strstricase_at (c # cs) subStr =
     (if (if subStr = [] then strcasecmp_eq (c # cs) subStr else strncasecmp_eq (c # cs) subStr (length subStr - 1))
      then Some (c # cs) else strstricase_at cs subStr)"

definition strstricase :: "string \<Rightarrow> string \<Rightarrow> string option" where
  "strstricase str subStr = (if int (length subStr) - 1 = 0 then None else strstricase_at str subStr)"

fun strcmp :: "string \<Rightarrow> string \<Rightarrow> int" where
  "strcmp [] [] = 0"
| "strcmp [] (y # ys) = - of_char y"
| "strcmp (x # xs) [] = of_char x"
| "strcmp (x # xs) (y # ys) = (if x = y then strcmp xs ys else of_char x - of_char y)"

fun strrchr :: "string \<Rightarrow> char \<Rightarrow> string option" where
  "strrchr [] x = None"
| "strrchr (c # cs) x =
     (case strrchr cs x of Some s \<Rightarrow> Some s | None \<Rightarrow> if c = x then Some (c # cs) else None)"

section \<open>Collecting the images\<close>

definition is_image :: "string \<Rightarrow> bool" where
  "is_image d_name \<longleftrightarrow> strstr d_name ''.dfw'' \<noteq> None \<or> strstr d_name ''.cfw'' \<noteq> None"

text \<open>
  One \<^verbatim>\<open>readdir\<close> loop: the paths of the images, or a refusal when there are more than \<open>mx\<close>. A folder
  that cannot be opened has none.
\<close>

fun collect_images :: "nat \<Rightarrow> string \<Rightarrow> string list \<Rightarrow> string list \<Rightarrow> (bool \<times> string list) cres" where
  "collect_images mx folder [] acc = Inr (True, acc)"
| "collect_images mx folder (d_name # ds) acc =
     (if is_image d_name
      then if mx \<le> length acc then Inr (False, acc)
           else cbind (strcpy_cap FDTL_MAX_PATH (folder @ d_name)) (\<lambda>p. collect_images mx folder ds (acc @ [p]))
      else collect_images mx folder ds acc)"

definition folder_images :: "nat \<Rightarrow> string \<Rightarrow> fwu \<Rightarrow> (bool \<times> string list) cres" where
  "folder_images mx folder st =
     (case u_dirs st folder of None \<Rightarrow> Inr (True, []) | Some ds \<Rightarrow> collect_images mx folder ds [])"

text \<open>The bubble sort: for \<open>i\<close> from 2 to the number of images, one pass over the first \<open>n - i\<close> pairs.\<close>

fun bubble_pass :: "nat \<Rightarrow> string list \<Rightarrow> string list" where
  "bubble_pass (Suc k) (x # y # zs) =
     (if strcmp x y > 0 then y # bubble_pass k (x # zs) else x # bubble_pass k (y # zs))"
| "bubble_pass k xs = xs"

definition bubble_sort :: "string list \<Rightarrow> string list" where
  "bubble_sort xs = fold (\<lambda>i ys. bubble_pass (Suc (length xs) - i) ys) [2..<Suc (length xs)] xs"

text \<open>A list of images in its array of \<open>mx\<close> entries, the unused ones empty.\<close>

definition fill :: "nat \<Rightarrow> string list \<Rightarrow> string list" where
  "fill mx xs = take mx xs @ replicate (mx - length xs) []"

definition note_count :: "string list \<Rightarrow> fwu \<Rightarrow> fwu" where
  "note_count imgs st = (if imgs = [] then st else st\<lparr>u_image_file_count := int (length imgs)\<rparr>)"

definition prepare_fw_images :: "fwu \<Rightarrow> (bool \<times> nat \<times> fwu) cres" where
  "prepare_fw_images st =
     cbind (folder_images MAX_DOWNLOAD_FW_IMAGES IMAGE_FW_FOLDER_PATH st) (\<lambda>(ok, imgs).
       let st1 = note_count imgs st
       in if \<not> ok then Inr (False, 0, st1)
          else if imgs = [] then Inr (True, 0, st1)
          else let st2 = st1\<lparr>u_has_update_include_fw_img := True, u_fw_image_file_count := int (length imgs),
                             u_image_file_fw_list := fill MAX_DOWNLOAD_FW_IMAGES (bubble_sort imgs)\<rparr>
               in Inr (list_all (\<lambda>f. is_iot_ssid (u_dev st2) = is_iot_image f) (u_image_file_fw_list st2),
                       length imgs, st2))"

definition prepare_carrier_images :: "fwu \<Rightarrow> (bool \<times> nat \<times> fwu) cres" where
  "prepare_carrier_images st =
     cbind (folder_images MAX_DOWNLOAD_PRI_IMAGES IMAGE_CARRIER_FOLDER_PATH st) (\<lambda>(ok, imgs).
       Inr (ok, length imgs, (note_count imgs st)\<lparr>u_image_file_carrier_list := fill MAX_DOWNLOAD_PRI_IMAGES imgs\<rparr>))"

definition prepare_oem_images :: "fwu \<Rightarrow> (bool \<times> nat \<times> fwu) cres" where
  "prepare_oem_images st =
     cbind (folder_images MAX_DOWNLOAD_OEM_IMAGES IMAGE_OEM_FOLDER_PATH st) (\<lambda>(ok, imgs).
       Inr (ok, length imgs, (note_count imgs st)\<lparr>u_image_file_oem_list := fill MAX_DOWNLOAD_OEM_IMAGES imgs\<rparr>))"

definition reset_image_lists :: "fwu \<Rightarrow> fwu" where
  "reset_image_lists st =
     st\<lparr>u_image_file_fw_list := fill MAX_DOWNLOAD_FW_IMAGES [], u_image_file_carrier_list := fill MAX_DOWNLOAD_PRI_IMAGES [],
        u_image_file_oem_list := fill MAX_DOWNLOAD_OEM_IMAGES [], u_image_file_list := fill MAX_DOWNLOAD_FILES []\<rparr>"

definition prepare_update_images :: "fwu \<Rightarrow> (int \<times> fwu) cres" where
  "prepare_update_images st =
     cbind (prepare_fw_images (reset_image_lists st)) (\<lambda>(ok1, n1, s1).
     if \<not> ok1 then Inr (-1, s1)
     else cbind (prepare_carrier_images s1) (\<lambda>(ok2, n2, s2).
     if \<not> ok2 then Inr (-1, s2)
     else cbind (prepare_oem_images s2) (\<lambda>(ok3, n3, s3).
     if \<not> ok3 then Inr (-1, s3)
     else Inr (if n1 + n2 + n3 > 0 then 0 else -1, s3))))"

section \<open>The version inside an image\<close>

definition byte_at :: "string \<Rightarrow> nat \<Rightarrow> nat" where
  "byte_at bs i = (if i < length bs then of_char (bs ! i) else 0)"

definition header_size :: "string \<Rightarrow> nat" where
  "header_size bs = (byte_at bs 25 * 2 ^ 24 + byte_at bs 24 * 2 ^ 16 + byte_at bs 23 * 2 ^ 8 + byte_at bs 22) mod 2 ^ 32"

text \<open>The text of the first record, at most eleven characters of it.\<close>

definition record_text :: "string \<Rightarrow> string cres" where
  "record_text v_he =
     (let len = byte_at v_he 2 * 256 + byte_at v_he 1;
          tmp = take len (drop 3 (v_he @ replicate (512 - length v_he) NUL))
      in if len > 509 then Inl OutOfBounds
         else if len < 11 \<and> NUL \<notin> set tmp then Inl Unterminated
         else Inr (takeWhile (\<lambda>c. c \<noteq> NUL) (take 11 tmp)))"

text \<open>
  \<^verbatim>\<open>get_image_version\<close>: four bytes at offset 22 give the size of the header, which is read into an
  array of 512 bytes; its first record has its length at offset 1 and its text at offset 3.
  The result is the return value and the new content of \<^verbatim>\<open>ver_info\<close>.
\<close>

definition get_image_version :: "string \<Rightarrow> string \<Rightarrow> fs \<Rightarrow> (int \<times> string) cres" where
  "get_image_version image_file_name ver_info w =
     (case fopen_r w image_file_name of
        None \<Rightarrow> Inl NullDeref
      | Some bs \<Rightarrow>
          let sz = header_size bs
          in if sz = 0 then Inr (-1, ver_info)
             else let v_he = take sz (drop 26 bs)
                  in if length v_he > 512 then Inl Overflow
                     else if length v_he < sz then Inr (-1, ver_info)
                     else cbind (record_text v_he) (\<lambda>v. Inr (1, v)))"

fun compare_versions :: "fwu \<Rightarrow> string list \<Rightarrow> string \<Rightarrow> int \<Rightarrow> int cres" where
  "compare_versions st [] img_ver needUpdate = Inr needUpdate"
| "compare_versions st (f # fs) img_ver needUpdate =
     cbind (get_image_version f img_ver (u_fs st)) (\<lambda>(_, v).
       compare_versions st fs v
         (if strcmp v (u_current_fw_ver st) = 0 then 0 else if strcmp v (u_current_fw_ver st) > 0 then 1 else needUpdate))"

definition compare_main_fw_version :: "fwu \<Rightarrow> int cres" where
  "compare_main_fw_version st =
     (if u_fw_image_file_count st > int (length (u_image_file_fw_list st)) then Inl OutOfBounds
      else compare_versions st (take (nat (u_fw_image_file_count st)) (u_image_file_fw_list st)) [] (-1))"

section \<open>Is an update needed?\<close>

text \<open>With \<^verbatim>\<open>COMPARE_FW_IMAGE_VERSION\<close> 1, an image of exactly the current version is up to date.\<close>

definition image_up_to_date :: "fwu \<Rightarrow> bool cres" where
  "image_up_to_date st =
     (if u_has_update_include_fw_img st
      then cbind (compare_main_fw_version st) (\<lambda>c. Inr (c = 0))
      else Inr (list_ex (\<lambda>f. strstr f (u_oem_pri_ver st) \<noteq> None) (u_image_file_oem_list st)))"

definition check_if_need_update :: "ujunk \<Rightarrow> fwu \<Rightarrow> (bool \<times> fwu) cres" where
  "check_if_need_update j st =
     cbind (image_up_to_date st) (\<lambda>up.
     cbind (check_oempri_reset_state j (st\<lparr>u_oem_pri_reset_state := -1\<rparr>)) (\<lambda>(r, s).
       let up_to_date = (up \<and> r = 0);
           s1 = s\<lparr>u_only_flash_oem_image := False\<rparr>
       in if up_to_date
          then cbind (get_module_sku_id j s1) (\<lambda>(r2, s2).
                 if r2 = 0
                 then if u_module_sku_id s2 \<noteq> get_oem_sku_id (u_skuid s2)
                      then Inr (False, s2\<lparr>u_only_flash_oem_image := True\<rparr>)
                      else Inr (True, s2\<lparr>u_only_flash_oem_image := False\<rparr>)
                 else Inr (True, s2))
          else Inr (False, s1)))"

section \<open>The order of the images\<close>

definition put_image :: "int \<Rightarrow> string \<Rightarrow> fwu \<Rightarrow> fwu cres" where
  "put_image i f st =
     (if 0 \<le> i \<and> i < int (length (u_image_file_list st))
      then cbind (strcpy_cap FDTL_MAX_PATH f) (\<lambda>g. Inr (st\<lparr>u_image_file_list := (u_image_file_list st)[nat i := g]\<rparr>))
      else Inl OutOfBounds)"

definition get_image :: "int \<Rightarrow> fwu \<Rightarrow> string cres" where
  "get_image i st =
     (if 0 \<le> i \<and> i < int (length (u_image_file_list st)) then Inr (u_image_file_list st ! nat i) else Inl OutOfBounds)"

definition count_image :: "fwu \<Rightarrow> fwu" where
  "count_image st = st\<lparr>u_image_file_count := u_image_file_count st + 1\<rparr>"

fun arrange_fw_images :: "int \<Rightarrow> string list \<Rightarrow> fwu \<Rightarrow> fwu cres" where
  "arrange_fw_images m [] st = Inr st"
| "arrange_fw_images m (f # fs) st =
     (if strstr f ''.dfw'' \<noteq> None
      then cbind (put_image m f st) (\<lambda>s. arrange_fw_images (m + 1) fs (count_image s))
      else arrange_fw_images (m + 1) fs st)"

definition arrange_fw_image :: "fwu \<Rightarrow> fwu cres" where
  "arrange_fw_image st =
     (if u_has_update_include_fw_img st then arrange_fw_images 0 (u_image_file_fw_list st) st else Inr st)"

fun arrange_carrier_images :: "string \<Rightarrow> string list \<Rightarrow> int \<Rightarrow> fwu \<Rightarrow> (int \<times> fwu) cres" where
  "arrange_carrier_images carrier [] prefered_index st = Inr (prefered_index, st)"
| "arrange_carrier_images carrier (f # fs) prefered_index st =
     (if strstr f ''.cfw'' \<noteq> None
      then cbind (put_image (u_image_file_count st) f st) (\<lambda>s.
             arrange_carrier_images carrier fs
               (if strstricase f carrier \<noteq> None then u_image_file_count st else prefered_index) (count_image s))
      else arrange_carrier_images carrier fs prefered_index st)"

definition arrange_carrier_pri_image :: "fwu \<Rightarrow> fwu cres" where
  "arrange_carrier_pri_image st =
     cbind (cstr (u_pref_carrier st)) (\<lambda>carrier.
     cbind (arrange_carrier_images carrier (u_image_file_carrier_list st) 0 st) (\<lambda>(prefered_index, s).
     cbind (get_image prefered_index s) (\<lambda>temp_pref_carrier.
     cbind (get_image (u_image_file_count s - 1) s) (\<lambda>last_img.
     cbind (put_image prefered_index last_img s) (\<lambda>s1.
       put_image (u_image_file_count s1 - 1) temp_pref_carrier s1)))))"

fun arrange_oem_images :: "ujunk \<Rightarrow> string list \<Rightarrow> fwu \<Rightarrow> fwu cres" where
  "arrange_oem_images j [] st = Inr st"
| "arrange_oem_images j (f # fs) st =
     (if strstr f (u_oem_sku_id st) \<noteq> None
      then cbind (clean_oem_pri_version j st) (\<lambda>(r, s).
             if r = 0
             then cbind (del_tune_code j s) (\<lambda>(r2, s2).
                    if r2 = 0
                    then cbind (put_image (u_image_file_count s2) f s2) (\<lambda>s3.
                           Inr ((count_image s3)\<lparr>u_has_update_include_oem_img := True\<rparr>))
                    else arrange_oem_images j fs (s2\<lparr>u_has_update_include_oem_img := False\<rparr>))
             else arrange_oem_images j fs (s\<lparr>u_has_update_include_oem_img := False\<rparr>))
      else arrange_oem_images j fs st)"

definition arrange_oem_pri_image :: "ujunk \<Rightarrow> fwu \<Rightarrow> fwu cres" where
  "arrange_oem_pri_image j st =
     arrange_oem_images j (u_image_file_oem_list st)
       (st\<lparr>u_has_update_include_oem_img := False, u_oem_sku_id := get_oem_sku_id (u_skuid st)\<rparr>)"

section \<open>The package version\<close>

text \<open>
  \<^verbatim>\<open>get_oem_version_from_file\<close>: \<open>sar_tuner_ver\<close> are the 30 bytes of the local array, unwritten at first;
  each part of the name before the one with the extension is copied into it.
\<close>

fun sar_tokens :: "string list \<Rightarrow> cbuf \<Rightarrow> cbuf cres" where
  "sar_tokens [] sar_tuner_ver = Inr sar_tuner_ver"
| "sar_tokens (p # ps) sar_tuner_ver =
     (if strstr p ''.cfw'' = None then cbind (buf_strcpy sar_tuner_ver p) (sar_tokens ps) else Inr sar_tuner_ver)"

definition get_oem_version_from_file :: "cbuf \<Rightarrow> string \<Rightarrow> string \<Rightarrow> string cres" where
  "get_oem_version_from_file junk oem_file_name oem_version =
     cbind (sar_tokens (strtok_all ''_'' oem_file_name) junk) (\<lambda>sar_tuner_ver.
       if sar_tuner_ver ! 3 = CHR ''.'' then cbind (cstr sar_tuner_ver) (\<lambda>v. strcpy_cap 30 v)
       else Inr oem_version)"

text \<open>\<^verbatim>\<open>strncat(s, &ch, 1)\<close>: a NUL appends nothing.\<close>

definition cat_char :: "string \<Rightarrow> char \<Rightarrow> string" where
  "cat_char s ch = (if ch = NUL then s else s @ [ch])"

text \<open>
  The conversion: the version without dots and underscores, in an allocation of the length of the
  version, gives three pairs of characters. Reading behind the allocation is an error.
\<close>

definition dpv_of_version :: "string \<Rightarrow> string cres" where
  "dpv_of_version oem_version =
     (let stripped = filter (\<lambda>c. c \<noteq> CHR ''.'' \<and> c \<noteq> CHR ''_'') oem_version;
          temp = stripped @ replicate (length oem_version - length stripped) NUL
      in if length stripped \<ge> length oem_version then Inl Overflow
         else if length temp < 6 then Inl OutOfBounds
         else Inr (cat_char (cat_char (cat_char (cat_char (cat_char (cat_char (cat_char (cat_char
                ''DPV00.'' (temp ! 0)) (temp ! 1)) (CHR ''.'')) (temp ! 2)) (temp ! 3)) (CHR ''.'')) (temp ! 4)) (temp ! 5)))"

definition convert_oem_ver_to_dpv :: "cbuf \<Rightarrow> fwu \<Rightarrow> fwu cres" where
  "convert_oem_ver_to_dpv junk st =
     (let st0 = st\<lparr>u_device_package_ver := []\<rparr>
      in if length (u_image_file_oem_list st0 ! 0) > 0
         then cbind (get_image (u_image_file_count st0 - 1) st0) (\<lambda>f.
              cbind (get_oem_version_from_file junk f []) (\<lambda>oem_version.
                if length oem_version > 0
                then cbind (dpv_of_version oem_version) (\<lambda>d.
                     cbind (strcpy_cap DEVICE_PACKAGE_VERSION_LENGTH d) (\<lambda>d'.
                       Inr (st0\<lparr>u_device_package_ver := d'\<rparr>)))
                else Inr (st0\<lparr>u_device_package_ver := ''DPV00.00.00.01''\<rparr>)))
         else Inr st0)"

section \<open>The key\<close>

definition decode_byte :: "char \<Rightarrow> char" where
  "decode_byte c = (let d = int (of_char c) - 3 in char_of (nat (if d < 0 then d + 256 else d)))"

text \<open>
  The last 256 bytes of the image, in reverse order and decoded. An image that is shorter leaves the
  array \<^verbatim>\<open>data_temp\<close> unwritten (\<open>junk\<close>), and its values are written all the same.
\<close>

definition decode_key :: "string \<Rightarrow> string \<Rightarrow> fwu \<Rightarrow> int \<times> fwu" where
  "decode_key junk image_file_name st =
     (case fopen_r (u_fs st) image_file_name of
        None \<Rightarrow> (-1, st)
      | Some bs \<Rightarrow>
          let key = (if 256 \<le> length bs then map decode_byte (rev (drop (length bs - 256) bs)) else junk);
              st1 = st\<lparr>u_authenticate_key_file_name := gp_decode_key_temp_file_name\<rparr>
          in if can_write (u_fs st1) gp_decode_key_temp_file_name
             then (1, st1\<lparr>u_fs := write_file gp_decode_key_temp_file_name key (u_fs st1)\<rparr>)
             else (-2, st1))"

section \<open>Recovery image\<close>

fun find_recovery_image :: "string list \<Rightarrow> string option" where
  "find_recovery_image [] = None"
| "find_recovery_image (d_name # ds) =
     (if strncmp_eq d_name ''4131999'' 7 \<and> strrchr d_name (CHR ''.'') = Some ''.cfw''
      then Some d_name else find_recovery_image ds)"

definition recovery_oem :: "fwu \<Rightarrow> fwu cres" where
  "recovery_oem st =
     (case u_dirs st IMAGE_OEM_FOLDER_PATH of
        None \<Rightarrow> Inr st
      | Some ds \<Rightarrow>
          (case find_recovery_image ds of
             None \<Rightarrow> Inr st
           | Some d_name \<Rightarrow>
               cbind (put_image 0 (IMAGE_OEM_FOLDER_PATH @ d_name) st) (\<lambda>s.
                 Inr (s\<lparr>u_image_file_count := 1, u_has_update_include_oem_img := True\<rparr>))))"

fun recovery_fw :: "string list \<Rightarrow> fwu \<Rightarrow> fwu cres" where
  "recovery_fw [] st = Inr st"
| "recovery_fw (d_name # ds) st =
     (if is_image d_name
      then cbind (strcpy_cap FDTL_MAX_PATH (IMAGE_FW_FOLDER_PATH @ d_name)) (\<lambda>p.
             recovery_fw ds (st\<lparr>u_image_file_fw_list := (u_image_file_fw_list st)[0 := p]\<rparr>))
      else recovery_fw ds st)"

definition prepare_recovery_image :: "fwu \<Rightarrow> fwu cres" where
  "prepare_recovery_image st =
     cbind (recovery_oem (st\<lparr>u_has_update_include_oem_img := False, u_image_file_list := fill MAX_DOWNLOAD_FILES []\<rparr>)) (\<lambda>s.
       case u_dirs s IMAGE_FW_FOLDER_PATH of None \<Rightarrow> Inr s | Some ds \<Rightarrow> recovery_fw ds s)"

section \<open>Download parameters\<close>

text \<open>
  \<^verbatim>\<open>fdtl_data_t\<close>, a local variable of \<^verbatim>\<open>start_update_process\<close> that nothing initialises as a whole. The
  partition names are arrays of 16 bytes.
\<close>

record fdtl =
  fd_serial_number :: string
  fd_first_temp_file_name :: string
  fd_image_temp_file_name :: string
  fd_pri_temp_file_name :: string
  fd_total_image_count :: int
  fd_fw_image_count :: int
  fd_oem_image_count :: int
  fd_partition_name :: "cbuf list"
  fd_image_offset :: "int list"
  fd_image_size :: "int list"
  fd_pri_offset :: "int list"
  fd_pri_size :: "int list"
  fd_pri_count :: int
  fd_modem_port :: string
  fd_model_name :: string
  fd_state :: int
  fd_device_idx :: int
  fd_unlock_key :: int
  fd_update_oem_pri :: int
  fd_total_device_count :: int
  fd_prefix_string :: string
  fd_error_code :: int

text \<open>\<^verbatim>\<open>usb_port\<close> has five bytes, the last four characters of the port and the terminator.\<close>

definition make_prefix_string :: "int \<Rightarrow> fdtl \<Rightarrow> fdtl" where
  "make_prefix_string device_count fd =
     (let len = length (fd_modem_port fd)
      in if len \<ge> 4 \<and> device_count > 1
         then fd\<lparr>fd_prefix_string := ''['' @ drop (len - 4) (fd_modem_port fd) @ '']''\<rparr>
         else fd\<lparr>fd_prefix_string := []\<rparr>)"

definition DOWNLOAD_INIT :: int where "DOWNLOAD_INIT = 1"

definition compose_images :: "ujunk \<Rightarrow> bool \<Rightarrow> fwu \<Rightarrow> fwu cres" where
  "compose_images j efs_recovery_mode st =
     (if \<not> efs_recovery_mode
      then cbind (if \<not> u_only_flash_oem_image st then cbind (arrange_fw_image st) arrange_carrier_pri_image else Inr st)
             (arrange_oem_pri_image j)
      else prepare_recovery_image st)"

definition find_key :: "string \<Rightarrow> fwu \<Rightarrow> int \<times> fwu" where
  "find_key kjunk st =
     (case List.find (\<lambda>f. strstr f ''.dfw'' \<noteq> None) (u_image_file_fw_list st) of
        None \<Rightarrow> (-1, st)
      | Some f \<Rightarrow> decode_key kjunk f st)"

text \<open>
  \<^verbatim>\<open>setup_download_parameter\<close>; \<open>sjunk\<close> and \<open>kjunk\<close> are the unwritten bytes of \<^verbatim>\<open>sar_tuner_ver\<close> and
  \<^verbatim>\<open>data_temp\<close>.
\<close>

definition setup_download_parameter ::
  "ujunk \<Rightarrow> cbuf \<Rightarrow> string \<Rightarrow> bool \<Rightarrow> fdtl \<Rightarrow> fwu \<Rightarrow> (int \<times> fdtl \<times> fwu) cres" where
  "setup_download_parameter j sjunk kjunk efs_recovery_mode fd st =
     cbind (compose_images j efs_recovery_mode (st\<lparr>u_diag_modem_port := ''/dev/cdc-wdm*'', u_image_file_count := 0\<rparr>)) (\<lambda>s.
     if u_image_file_count s \<le> 0 then Inr (-1, fd, s)
     else cbind (if efs_recovery_mode then Inr (s\<lparr>u_device_package_ver := ''DPV00.99.99.01''\<rparr>)
                 else if u_has_update_include_oem_img s then convert_oem_ver_to_dpv sjunk s else Inr s) (\<lambda>s1.
          let (rtn, s2) = find_key kjunk s1
          in if rtn < 0 then Inr (-1, fd, s2)
             else Inr (0, make_prefix_string 1 (fd\<lparr>fd_modem_port := u_diag_modem_port s2, fd_model_name := [],
                    fd_state := DOWNLOAD_INIT, fd_device_idx := 0, fd_unlock_key := 0, fd_update_oem_pri := 0,
                    fd_total_device_count := 1\<rparr>), s2)))"

section \<open>Lemmas on the order\<close>

definition images :: "fwu \<Rightarrow> string list" where
  "images st = take (nat (u_image_file_count st)) (u_image_file_list st)"

definition image_room :: "nat \<Rightarrow> fwu \<Rightarrow> bool" where
  "image_room n st \<longleftrightarrow> 0 \<le> u_image_file_count st \<and> length (u_image_file_list st) = MAX_DOWNLOAD_FILES
     \<and> nat (u_image_file_count st) + n \<le> MAX_DOWNLOAD_FILES"

definition only_images :: "fwu \<Rightarrow> fwu \<Rightarrow> bool" where
  "only_images st s \<longleftrightarrow> (\<exists>l c. s = st\<lparr>u_image_file_list := l, u_image_file_count := c\<rparr>)"

lemma only_images_trans: "only_images a b \<Longrightarrow> only_images b c \<Longrightarrow> only_images a c"
  unfolding only_images_def by (elim exE, simp) blast

lemma only_images_refl: "only_images st st"
  unfolding only_images_def by (intro exI [of _ "u_image_file_list st"] exI [of _ "u_image_file_count st"]) simp

lemma append_image:
  assumes "image_room (Suc n) st" "length f < FDTL_MAX_PATH"
  shows "\<exists>s. put_image (u_image_file_count st) f st = Inr s \<and> images (count_image s) = images st @ [f]
    \<and> image_room n (count_image s) \<and> only_images st (count_image s)
    \<and> u_image_file_count s = u_image_file_count st"
proof -
  let ?i = "nat (u_image_file_count st)" and ?l = "u_image_file_list st"
  have i: "?i < length ?l" "0 \<le> u_image_file_count st" using assms(1) by (auto simp: image_room_def)
  have "take (Suc ?i) (?l[?i := f]) = take ?i ?l @ [f]" using i by (simp add: take_Suc_conv_app_nth)
  moreover have "nat (u_image_file_count st + 1) = Suc ?i" using i by simp
  ultimately show ?thesis
    using assms i by (auto simp: put_image_def strcpy_cap_def images_def count_image_def image_room_def only_images_def)
qed

fun last_match :: "string \<Rightarrow> string list \<Rightarrow> int \<Rightarrow> int \<Rightarrow> int" where
  "last_match carrier [] i cur = cur"
| "last_match carrier (f # fs) i cur = last_match carrier fs (i + 1) (if strstricase f carrier \<noteq> None then i else cur)"

lemma last_match_none: "\<forall>f \<in> set fs. strstricase f carrier = None \<Longrightarrow> last_match carrier fs i cur = cur"
  by (induction fs arbitrary: i) simp_all

lemma last_match_some:
  "filter (\<lambda>f. strstricase f carrier \<noteq> None) fs \<noteq> [] \<Longrightarrow>
     \<exists>k < length fs. last_match carrier fs i cur = i + int k \<and> fs ! k = last (filter (\<lambda>f. strstricase f carrier \<noteq> None) fs)"
proof (induction fs arbitrary: i cur)
  case (Cons f fs)
  show ?case
  proof (cases "filter (\<lambda>f. strstricase f carrier \<noteq> None) fs = []")
    case True
    then have none: "\<forall>g \<in> set fs. strstricase g carrier = None" by (auto simp: filter_empty_conv)
    with True Cons.prems show ?thesis
      by (intro exI [of _ 0]) (auto simp: last_match_none split: if_splits)
  next
    case False
    from Cons.IH [OF False] obtain k where "k < length fs"
      "last_match carrier fs (i + 1) (if strstricase f carrier \<noteq> None then i else cur) = i + 1 + int k"
      "fs ! k = last (filter (\<lambda>f. strstricase f carrier \<noteq> None) fs)" by blast
    with False show ?thesis by (intro exI [of _ "Suc k"]) auto
  qed
qed simp

definition carrier_images :: "fwu \<Rightarrow> string list" where
  "carrier_images st = filter (\<lambda>f. strstr f ''.cfw'' \<noteq> None) (u_image_file_carrier_list st)"

lemma arrange_carrier_images_post:
  assumes "image_room (length (filter (\<lambda>f. strstr f ''.cfw'' \<noteq> None) fs)) st" "\<forall>f \<in> set fs. length f < FDTL_MAX_PATH"
  shows "\<exists>s. arrange_carrier_images carrier fs p st =
      Inr (last_match carrier (filter (\<lambda>f. strstr f ''.cfw'' \<noteq> None) fs) (u_image_file_count st) p, s)
    \<and> images s = images st @ filter (\<lambda>f. strstr f ''.cfw'' \<noteq> None) fs \<and> only_images st s \<and> image_room 0 s"
  using assms
proof (induction fs arbitrary: st p)
  case Nil
  then show ?case by (simp add: only_images_refl)
next
  case (Cons f fs)
  show ?case
  proof (cases "strstr f ''.cfw'' = None")
    case True
    with Cons show ?thesis by simp
  next
    case False
    with append_image [of _ st f] Cons.prems obtain s where s: "put_image (u_image_file_count st) f st = Inr s"
      "images (count_image s) = images st @ [f]"
      "image_room (length (filter (\<lambda>f. strstr f ''.cfw'' \<noteq> None) fs)) (count_image s)" "only_images st (count_image s)"
      "u_image_file_count s = u_image_file_count st" by auto
    from Cons.IH [OF s(3)] Cons.prems obtain s' where
      "arrange_carrier_images carrier fs (if strstricase f carrier \<noteq> None then u_image_file_count st else p) (count_image s) =
        Inr (last_match carrier (filter (\<lambda>f. strstr f ''.cfw'' \<noteq> None) fs) (u_image_file_count (count_image s))
               (if strstricase f carrier \<noteq> None then u_image_file_count st else p), s')"
      "images s' = images (count_image s) @ filter (\<lambda>f. strstr f ''.cfw'' \<noteq> None) fs"
      "only_images (count_image s) s'" "image_room 0 s'" by auto
    with False s show ?thesis by (auto simp: count_image_def elim: only_images_trans)
  qed
qed

text \<open>Exchange of an image with the last one.\<close>

lemma swap_last:
  assumes "image_room 0 s" "0 \<le> p" "p < u_image_file_count s" "\<forall>f \<in> set (images s). length f < FDTL_MAX_PATH"
  shows "\<exists>s'. cbind (get_image p s) (\<lambda>t. cbind (get_image (u_image_file_count s - 1) s) (\<lambda>l.
        cbind (put_image p l s) (\<lambda>s1. put_image (u_image_file_count s1 - 1) t s1))) = Inr s'
    \<and> images s' = (images s)[nat p := last (images s), length (images s) - 1 := images s ! nat p]
    \<and> only_images s s' \<and> length (images s) = nat (u_image_file_count s)"
proof -
  let ?c = "nat (u_image_file_count s)" and ?l = "u_image_file_list s"
  have c: "?c \<le> length ?l" "0 < ?c" "nat p < ?c" "nat (u_image_file_count s - 1) = ?c - 1"
    using assms by (auto simp: image_room_def)
  have "images s \<noteq> []" using c by (auto simp: images_def)
  then have last: "last (images s) = ?l ! (?c - 1)"
    using c by (subst last_conv_nth) (simp_all add: images_def min_absorb2)
  have nth: "images s ! nat p = ?l ! nat p" using c by (simp add: images_def)
  have small: "length (?l ! i) < FDTL_MAX_PATH" if "i < ?c" for i
    using assms(4) nth_mem [of i "images s"] that c by (auto simp: images_def)
  have in_l: "u_image_file_count s - 1 < int (length ?l)" "p < int (length ?l)" "0 \<le> u_image_file_count s - 1" using c assms(2,3) by linarith+
  let ?l' = "?l[nat p := ?l ! (?c - 1), ?c - 1 := ?l ! nat p]"
  have "cbind (get_image p s) (\<lambda>t. cbind (get_image (u_image_file_count s - 1) s) (\<lambda>l.
        cbind (put_image p l s) (\<lambda>s1. put_image (u_image_file_count s1 - 1) t s1))) = Inr (s\<lparr>u_image_file_list := ?l'\<rparr>)"
    using c(3,4) assms(2) in_l small [of "nat p"] small [of "?c - 1"] by (simp add: get_image_def put_image_def strcpy_cap_def)
  moreover have "images (s\<lparr>u_image_file_list := ?l'\<rparr>) = (images s)[nat p := last (images s), length (images s) - 1 := images s ! nat p]"
    using c(1) unfolding last nth by (simp add: images_def take_update_swap min_absorb2)
  moreover have "only_images s (s\<lparr>u_image_file_list := ?l'\<rparr>)"
    unfolding only_images_def by (intro exI [of _ ?l'] exI [of _ "u_image_file_count s"]) simp
  ultimately show ?thesis using c(1) by (simp add: images_def min_absorb2)
qed

lemma only_images_carrier: "only_images st s \<Longrightarrow> u_image_file_carrier_list s = u_image_file_carrier_list st"
  by (auto simp: only_images_def)

lemma arrange_carrier_swap:
  assumes "cstr (u_pref_carrier st) = Inr carrier" "image_room (length (carrier_images st)) st"
    and "\<forall>f \<in> set (u_image_file_carrier_list st). length f < FDTL_MAX_PATH" "\<forall>f \<in> set (images st). length f < FDTL_MAX_PATH"
    and "images st \<noteq> [] \<or> carrier_images st \<noteq> []"
  shows "\<exists>s. arrange_carrier_pri_image st = Inr s \<and> only_images st s \<and>
    (let xs = images st @ carrier_images st; p = nat (last_match carrier (carrier_images st) (u_image_file_count st) 0)
     in p < length xs \<and> images s = xs[p := last xs, length xs - 1 := xs ! p])"
proof -
  let ?p = "last_match carrier (carrier_images st) (u_image_file_count st) 0"
  obtain s where s: "arrange_carrier_images carrier (u_image_file_carrier_list st) 0 st = Inr (?p, s)"
    "images s = images st @ carrier_images st" "only_images st s" "image_room 0 s"
    using arrange_carrier_images_post [of "u_image_file_carrier_list st" st carrier 0] assms(2,3)
    by (auto simp: carrier_images_def)
  have count: "int (length (images st)) = u_image_file_count st" "int (length (images s)) = u_image_file_count s"
    using assms(2) s(4) by (auto simp: image_room_def images_def)
  have p: "0 \<le> ?p" "?p < u_image_file_count s"
  proof -
    consider "\<forall>f \<in> set (carrier_images st). strstricase f carrier = None"
      | "filter (\<lambda>f. strstricase f carrier \<noteq> None) (carrier_images st) \<noteq> []"
      unfolding filter_empty_conv by blast
    then have "0 \<le> ?p \<and> ?p < u_image_file_count s"
    proof cases
      case 1
      then have "?p = 0" by (simp add: last_match_none)
      moreover have "0 < length (images s)" using assms(5) s(2) by auto
      ultimately show ?thesis using count(2) by linarith
    next
      case 2
      from last_match_some [OF this, of "u_image_file_count st" 0] show ?thesis
        using s(2) count by auto
    qed
    then show "0 \<le> ?p" "?p < u_image_file_count s" by simp_all
  qed
  have small: "\<forall>f \<in> set (images s). length f < FDTL_MAX_PATH"
    using assms(3,4) s(2) by (auto simp: carrier_images_def)
  obtain s' where "cbind (get_image ?p s) (\<lambda>t. cbind (get_image (u_image_file_count s - 1) s) (\<lambda>l.
        cbind (put_image ?p l s) (\<lambda>s1. put_image (u_image_file_count s1 - 1) t s1))) = Inr s'"
    "images s' = (images s)[nat ?p := last (images s), length (images s) - 1 := images s ! nat ?p]" "only_images s s'"
    using swap_last [OF s(4) p small] by (elim exE conjE) (rule that)
  then show ?thesis
    using assms(1) s p count by (auto simp: arrange_carrier_pri_image_def Let_def elim: only_images_trans)
qed

section \<open>Lemmas on names, versions and folders\<close>

lemma strstricase_two: "x \<in> set s \<Longrightarrow> tolower x = tolower a \<Longrightarrow> strstricase s [a, b] \<noteq> None"
  by (induction s) (auto simp: strstricase_def strncasecmp_eq_def)

lemma of_char_0_iff: "(of_char c :: int) = 0 \<longleftrightarrow> c = NUL"
  using of_char_eq_iff [of c NUL, where ?'a = int] by simp

lemma strcmp_eq_0: "strcmp s t = 0 \<Longrightarrow> NUL \<notin> set s \<Longrightarrow> NUL \<notin> set t \<Longrightarrow> s = t"
  by (induction s t rule: strcmp.induct) (auto split: if_splits simp: of_char_0_iff)

lemma strcmp_refl [simp]: "strcmp s s = 0"
  by (induction s) simp_all

lemma collect_images_ok:
  "collect_images mx folder ds acc = Inr (True, imgs) \<Longrightarrow>
     imgs = acc @ map ((@) folder) (filter is_image ds) \<and> length imgs \<le> max mx (length acc)"
proof (induction ds arbitrary: acc)
  case (Cons d ds)
  then show ?case by (cases "is_image d"; cases "mx \<le> length acc") (auto simp: strcpy_cap_def split: if_splits dest!: Cons.IH)
qed simp

definition folder_files :: "string \<Rightarrow> fwu \<Rightarrow> string list" where
  "folder_files folder st = (case u_dirs st folder of None \<Rightarrow> [] | Some ds \<Rightarrow> map ((@) folder) (filter is_image ds))"

lemma folder_images_ok:
  "folder_images mx folder st = Inr (True, imgs) \<Longrightarrow> imgs = folder_files folder st \<and> length imgs \<le> mx"
  using collect_images_ok [of mx folder _ "[]" imgs] by (auto simp: folder_images_def folder_files_def split: option.splits)

lemma bubble_short: "length xs \<le> 1 \<Longrightarrow> bubble_sort xs = xs"
  by (cases xs) (auto simp: bubble_sort_def)

lemma note_count_fields [simp]:
  "u_dirs (note_count imgs st) = u_dirs st" "u_dev (note_count imgs st) = u_dev st"
  "u_image_file_fw_list (note_count imgs st) = u_image_file_fw_list st"
  "u_image_file_carrier_list (note_count imgs st) = u_image_file_carrier_list st"
  "u_image_file_oem_list (note_count imgs st) = u_image_file_oem_list st"
  by (simp_all add: note_count_def)

lemma sar_tokens_last:
  assumes "\<forall>t \<in> set ts. strstr t ''.cfw'' = None \<and> length t < length b" "strstr v ''.cfw'' = None" "length v < length b"
    and "strstr u ''.cfw'' \<noteq> None"
  shows "\<exists>b'. sar_tokens (ts @ v # u # us) b = Inr (v @ NUL # b') \<and> length (v @ NUL # b') = length b"
  using assms(1,3)
proof (induction ts arbitrary: b)
  case Nil
  then show ?case using assms(2,4) by (auto simp: buf_strcpy_def)
next
  case (Cons t ts)
  let ?b = "t @ NUL # drop (Suc (length t)) b"
  have "buf_strcpy b t = Inr ?b" "length ?b = length b" using Cons.prems by (simp_all add: buf_strcpy_def)
  with Cons.IH [of ?b] Cons.prems show ?case by auto
qed

lemma shift_back: "n < 256 \<Longrightarrow> nat (if int ((n + 3) mod 256) - 3 < 0 then int ((n + 3) mod 256) - 3 + 256 else int ((n + 3) mod 256) - 3) = n"
  by (cases "n + 3 < 256") (simp_all add: mod_if, linarith)

lemma decode_encode_byte: "decode_byte (char_of ((of_char c + 3) mod 256 :: nat)) = c"
  using shift_back [of "of_char c"] by (simp only: decode_byte_def Let_def of_char_of mod_mod_trivial nat_of_char_less_256 char_of_char simp_thms)

section \<open>Properties\<close>

text \<open>Ordering the carrier images neither loses nor invents an image, and puts the last one that
  matches the carrier at the very end. When none matches, the first image of the list is taken
  for it: the firmware image then changes places with the last carrier image.\<close>

theorem preferred_carrier_last:
  assumes "cstr (u_pref_carrier st) = Inr carrier" "image_room (length (carrier_images st)) st"
    and "\<forall>f \<in> set (u_image_file_carrier_list st). length f < FDTL_MAX_PATH" "\<forall>f \<in> set (images st). length f < FDTL_MAX_PATH"
    and "images st \<noteq> [] \<or> carrier_images st \<noteq> []"
  shows "\<exists>s. arrange_carrier_pri_image st = Inr s \<and> mset (images s) = mset (images st) + mset (carrier_images st)
    \<and> last (images s) =
        (case filter (\<lambda>f. strstricase f carrier \<noteq> None) (carrier_images st) of
           [] \<Rightarrow> hd (images st @ carrier_images st) | ms \<Rightarrow> last ms)"
proof -
  let ?xs = "images st @ carrier_images st" and ?p = "nat (last_match carrier (carrier_images st) (u_image_file_count st) 0)"
  let ?ms = "filter (\<lambda>f. strstricase f carrier \<noteq> None) (carrier_images st)"
  obtain s where s: "arrange_carrier_pri_image st = Inr s" "?p < length ?xs"
    "images s = ?xs[?p := last ?xs, length ?xs - 1 := ?xs ! ?p]"
    using arrange_carrier_swap [OF assms] by (auto simp: Let_def)
  have "?xs \<noteq> []" using assms(5) by auto
  then have "mset (?xs[?p := ?xs ! (length ?xs - 1), length ?xs - 1 := ?xs ! ?p]) = mset ?xs"
    using s(2) by (intro mset_swap) (simp_all del: length_append add: length_greater_0_conv)
  then have "mset (images s) = mset ?xs" unfolding s(3) last_conv_nth [OF \<open>?xs \<noteq> []\<close>] .
  moreover have "last (images s) = ?xs ! ?p"
    using \<open>?xs \<noteq> []\<close> unfolding s(3) by (simp add: last_conv_nth)
  moreover have "?xs ! ?p = (case ?ms of [] \<Rightarrow> hd ?xs | ms \<Rightarrow> last ms)"
  proof (cases "?ms = []")
    case True
    then have "?p = 0" by (simp add: last_match_none filter_empty_conv)
    with True \<open>?xs \<noteq> []\<close> show ?thesis by (simp add: hd_conv_nth)
  next
    case False
    have "u_image_file_count st = int (length (images st))" using assms(2) by (auto simp: image_room_def images_def)
    with last_match_some [OF False, of "u_image_file_count st" 0] False show ?thesis
      by (auto simp: nth_append nat_int_add split: list.splits)
  qed
  ultimately show ?thesis using s(1) by auto
qed

definition example_usb :: "string \<Rightarrow> fwu" where
  "example_usb carrier = (u_init PWL_DEVICE_TYPE_USB fs0 [])\<lparr>u_pref_carrier := carrier @ zeroed (260 - length carrier),
     u_image_file_count := 1, u_image_file_list := fill MAX_DOWNLOAD_FILES [''/opt/pwl/firmware/fw/a.dfw''],
     u_image_file_carrier_list := fill MAX_DOWNLOAD_PRI_IMAGES
       [''/opt/pwl/firmware/carrier_pri/EE.cfw'', ''/opt/pwl/firmware/carrier_pri/TMO.cfw'']\<rparr>"

lemma example_usb_facts:
  "cstr (u_pref_carrier (example_usb ''EE'')) = Inr ''EE''"
  "images (example_usb c) = [''/opt/pwl/firmware/fw/a.dfw'']"
  "carrier_images (example_usb c) = [''/opt/pwl/firmware/carrier_pri/EE.cfw'', ''/opt/pwl/firmware/carrier_pri/TMO.cfw'']"
  "image_room (Suc (Suc 0)) (example_usb c)"
  "\<forall>f \<in> set (u_image_file_carrier_list (example_usb c)). length f < FDTL_MAX_PATH"
  by (auto simp: example_usb_def cstr_def zeroed_def images_def carrier_images_def image_room_def fill_def image_limits
    FDTL_MAX_PATH_def filter_replicate)

theorem preferred_carrier_last_witness:
  "\<exists>s. arrange_carrier_pri_image (example_usb ''EE'') = Inr s \<and> last (images s) = ''/opt/pwl/firmware/carrier_pri/TMO.cfw''"
proof -
  have "filter (\<lambda>f. strstricase f ''EE'' \<noteq> None) (carrier_images (example_usb ''EE''))
    = [''/opt/pwl/firmware/carrier_pri/EE.cfw'', ''/opt/pwl/firmware/carrier_pri/TMO.cfw'']"
    unfolding example_usb_facts by code_simp
  then show ?thesis
    using preferred_carrier_last [of "example_usb ''EE''" "''EE''"] example_usb_facts
    by (auto simp: FDTL_MAX_PATH_def)
qed

text \<open>For the carrier EE the search for its image finds nothing useful. The comparison leaves the last
  character out, so it looks for a single E, and every path below the firmware folder has one:
  whatever the carrier images are called, the one listed last is flashed last.\<close>

theorem ee_carrier_not_selected:
  assumes "cstr (u_pref_carrier st) = Inr ''EE''" "image_room (length (carrier_images st)) st"
    and "\<forall>f \<in> set (u_image_file_carrier_list st). length f < FDTL_MAX_PATH" "\<forall>f \<in> set (images st). length f < FDTL_MAX_PATH"
    and "\<forall>f \<in> set (carrier_images st). prefix IMAGE_CARRIER_FOLDER_PATH f" "carrier_images st \<noteq> []"
  shows "\<exists>s. arrange_carrier_pri_image st = Inr s \<and> last (images s) = last (carrier_images st)"
proof -
  have "strstricase f ''EE'' \<noteq> None" if "f \<in> set (carrier_images st)" for f
  proof (rule strstricase_two)
    show "CHR ''e'' \<in> set f"
      using assms(5) that set_mono_prefix [of IMAGE_CARRIER_FOLDER_PATH f] by (auto simp: IMAGE_CARRIER_FOLDER_PATH_def)
    show "tolower (CHR ''e'') = tolower (CHR ''E'')" by code_simp
  qed
  then have matches: "filter (\<lambda>f. strstricase f ''EE'' \<noteq> None) (carrier_images st) = carrier_images st" by (simp add: filter_id_conv)
  obtain s where s: "arrange_carrier_pri_image st = Inr s" "only_images st s"
    "images s = (let xs = images st @ carrier_images st; p = nat (last_match ''EE'' (carrier_images st) (u_image_file_count st) 0)
      in xs[p := last xs, length xs - 1 := xs ! p])"
    using arrange_carrier_swap [OF assms(1-4)] assms(6) by (auto simp: Let_def)
  obtain k where k: "k < length (carrier_images st)"
    "last_match ''EE'' (carrier_images st) (u_image_file_count st) 0 = u_image_file_count st + int k"
    "carrier_images st ! k = last (carrier_images st)"
    using last_match_some [of "''EE''" "carrier_images st" "u_image_file_count st" 0] assms(6) unfolding matches by auto
  have "u_image_file_count st = int (length (images st))" using assms(2) by (auto simp: image_room_def images_def)
  with s(3) k assms(6) have "last (images s) = last (carrier_images st)"
    by (simp add: Let_def last_conv_nth nth_append nat_int_add)
  with s(1) show ?thesis by blast
qed

theorem ee_carrier_not_selected_witness:
  "\<exists>s. arrange_carrier_pri_image (example_usb ''EE'') = Inr s
     \<and> last (images s) = last [''/opt/pwl/firmware/carrier_pri/EE.cfw'', ''/opt/pwl/firmware/carrier_pri/TMO.cfw'']"
  using ee_carrier_not_selected [of "example_usb ''EE''"] example_usb_facts
  by (simp add: FDTL_MAX_PATH_def IMAGE_CARRIER_FOLDER_PATH_def)

text \<open>A package that holds neither a firmware image nor a carrier image, only OEM images, makes the set-up
  read and write in front of the list of images, unless the set-up was told to flash only the OEM image.\<close>

theorem oem_only_package_out_of_bounds:
  assumes "cstr (u_pref_carrier st) = Inr carrier" "carrier_images st = []" "\<not> u_has_update_include_fw_img st"
    and "length (u_image_file_list st) = MAX_DOWNLOAD_FILES" "\<not> u_only_flash_oem_image st"
  shows "setup_download_parameter j sjunk kjunk False fd st = Inl OutOfBounds"
proof -
  have skip: "arrange_carrier_images c fs p s = Inr (p, s)" if "filter (\<lambda>f. strstr f ''.cfw'' \<noteq> None) fs = []" for c fs p s
    using that by (induction fs) (auto split: if_splits)
  let ?st = "st\<lparr>u_diag_modem_port := ''/dev/cdc-wdm*'', u_image_file_count := 0\<rparr>"
  have "arrange_carrier_pri_image ?st = Inl OutOfBounds"
    using assms(1,2,4) skip [of "u_image_file_carrier_list st"]
    by (simp add: arrange_carrier_pri_image_def carrier_images_def get_image_def image_limits)
  then show ?thesis
    using assms(3,5) by (simp add: setup_download_parameter_def compose_images_def arrange_fw_image_def)
qed

theorem oem_only_package_out_of_bounds_witness:
  "\<forall>fd. setup_download_parameter example_ujunk [] [] False fd
     ((u_init PWL_DEVICE_TYPE_USB fs0 [])\<lparr>u_image_file_oem_list := fill 100 [''/opt/pwl/firmware/oem_pri/4131001_a.cfw'']\<rparr>) = Inl OutOfBounds"
  by (rule allI, rule oem_only_package_out_of_bounds [of _ "[]"])
    (simp_all add: u_init_def cstr_def zeroed_def FDTL_MAX_PATH_def carrier_images_def filter_replicate image_limits)

text \<open>The package version of an OEM image. When the name of the image has, as its last part before the
  one with the extension, a version with a dot in fourth place and at least six other
  characters, the module is told \<^verbatim>\<open>DPV00.\<close> and these six in pairs, 14 characters, one less than the array
  holds.\<close>

theorem oem_version_to_dpv:
  assumes "strtok_all ''_'' f = ts @ v # u # us" "\<forall>t \<in> set ts. strstr t ''.cfw'' = None \<and> length t < 30"
    and "strstr v ''.cfw'' = None" "length v < 30" "strstr u ''.cfw'' \<noteq> None"
    and "3 < length v" "v ! 3 = CHR ''.''" "NUL \<notin> set v" "filter (\<lambda>c. c \<noteq> CHR ''.'' \<and> c \<noteq> CHR ''_'') v = a # b # c # d # e # g # rest"
    and "get_image (u_image_file_count st - 1) st = Inr f" "u_image_file_oem_list st ! 0 \<noteq> []" "length junk = 30"
  shows "convert_oem_ver_to_dpv junk st = Inr (st\<lparr>u_device_package_ver := ''DPV00.'' @ [a, b, CHR ''.'', c, d, CHR ''.'', e, g]\<rparr>)"
proof -
  obtain b' where b': "sar_tokens (strtok_all ''_'' f) junk = Inr (v @ NUL # b')"
    unfolding assms(1) using sar_tokens_last [of ts junk v u us] assms by auto
  have "takeWhile (\<lambda>c. c \<noteq> NUL) (v @ NUL # b') = v" using assms(8) by (intro takeWhile_stop) auto
  then have version: "get_oem_version_from_file junk f [] = Inr v"
    using b' assms(4,6,7) by (simp add: get_oem_version_from_file_def cstr_def nth_append strcpy_cap_def)
  have chars: "set (a # b # c # d # e # g # rest) \<subseteq> set v" using assms(9) by (metis filter_is_subset)
  have "length (filter (\<lambda>c. c \<noteq> CHR ''.'' \<and> c \<noteq> CHR ''_'') v) < length v"
    using assms(6,7) nth_mem [of 3 v] by (intro length_filter_less [of "CHR ''.''"]) auto
  moreover have "NUL \<notin> {a, b, c, d, e, g}" using chars assms(8) by auto
  ultimately have "dpv_of_version v = Inr (''DPV00.'' @ [a, b, CHR ''.'', c, d, CHR ''.'', e, g])"
    unfolding dpv_of_version_def Let_def assms(9) by (auto simp: cat_char_def)
  moreover have "get_image (u_image_file_count st - 1) (st\<lparr>u_device_package_ver := []\<rparr>) = Inr f"
    using assms(10) by (auto simp: get_image_def split: if_splits)
  ultimately show ?thesis
    using version assms(6,11) by (auto simp: convert_oem_ver_to_dpv_def strcpy_cap_def DEVICE_PACKAGE_VERSION_LENGTH_def Let_def)
qed

theorem oem_version_to_dpv_witness:
  "convert_oem_ver_to_dpv (zeroed 30) ((u_init PWL_DEVICE_TYPE_USB fs0 [])\<lparr>u_image_file_count := 1,
      u_image_file_list := fill 201 [''/opt/pwl/firmware/oem_pri/4131001_001.023.045_a.cfw''],
      u_image_file_oem_list := fill 100 [''/opt/pwl/firmware/oem_pri/4131001_001.023.045_a.cfw'']\<rparr>)
   = Inr ((u_init PWL_DEVICE_TYPE_USB fs0 [])\<lparr>u_image_file_count := 1,
      u_image_file_list := fill 201 [''/opt/pwl/firmware/oem_pri/4131001_001.023.045_a.cfw''],
      u_image_file_oem_list := fill 100 [''/opt/pwl/firmware/oem_pri/4131001_001.023.045_a.cfw''],
      u_device_package_ver := ''DPV00.00.10.23''\<rparr>)"
proof -
  let ?f = "''/opt/pwl/firmware/oem_pri/4131001_001.023.045_a.cfw''"
  have tokens: "strtok_all ''_'' ?f = [''/opt/pwl/firmware/oem'', ''pri/4131001''] @ ''001.023.045'' # ''a.cfw'' # []" by code_simp
  show ?thesis
    using oem_version_to_dpv [OF tokens, of "CHR ''0''" "CHR ''0''" "CHR ''1''" "CHR ''0''" "CHR ''2''" "CHR ''3''" "''045''"
        "(u_init PWL_DEVICE_TYPE_USB fs0 [])\<lparr>u_image_file_count := 1, u_image_file_list := fill 201 [?f], u_image_file_oem_list := fill 100 [?f]\<rparr>"
        "zeroed 30"]
    by (simp add: get_image_def fill_def)
qed

definition encode_key :: "string \<Rightarrow> string" where
  "encode_key key = rev (map (\<lambda>c. char_of ((of_char c + 3) mod 256 :: nat)) key)"

text \<open>The key that unlocks flashing is recovered from an image that ends with it: encoding a key (adding
  3 to each byte and reversing the order) and appending it to any image is undone.\<close>

theorem decode_key_roundtrip:
  assumes "length key = 256" "fopen_r (u_fs st) f = Some (body @ encode_key key)" "can_write (u_fs st) gp_decode_key_temp_file_name"
  shows "\<exists>s. decode_key junk f st = (1, s) \<and> files (u_fs s) gp_decode_key_temp_file_name = Some key
    \<and> u_authenticate_key_file_name s = gp_decode_key_temp_file_name"
proof -
  have "map decode_byte (rev (encode_key key)) = key"
    by (simp only: encode_key_def rev_rev_ident map_map o_def decode_encode_byte) simp
  moreover have "length (encode_key key) = 256" using assms(1) by (simp add: encode_key_def)
  ultimately show ?thesis using assms by (simp add: decode_key_def write_file_def)
qed

theorem decode_key_roundtrip_witness:
  "\<exists>s. decode_key [] ''i.dfw'' (u_init PWL_DEVICE_TYPE_USB (write_file ''i.dfw'' (''HEAD'' @ encode_key (replicate 256 (CHR ''k''))) fs0) [])
      = (1, s) \<and> files (u_fs s) gp_decode_key_temp_file_name = Some (replicate 256 (CHR ''k''))"
  using decode_key_roundtrip [of "replicate 256 (CHR ''k'')"
      "u_init PWL_DEVICE_TYPE_USB (write_file ''i.dfw'' (''HEAD'' @ encode_key (replicate 256 (CHR ''k''))) fs0) []" "''i.dfw''" "''HEAD''" "[]"]
  by (auto simp: fopen_r_def write_file_def fs0_def)

text \<open>The states of the OEM PRI that call for an image.\<close>

definition reset_state_bad :: "int \<Rightarrow> bool" where
  "reset_state_bad n \<longleftrightarrow> n \<in> {2, 3, 4, 5, 8}"

lemma u_keep_only: "u_keep st s \<Longrightarrow> u_only_flash_oem_image s = u_only_flash_oem_image st"
  by (simp add: u_keep_def)

lemma module_sku_post:
  "\<not> u_mutex st \<Longrightarrow> cpost (\<lambda>(r, s). u_only_flash_oem_image s = u_only_flash_oem_image st
     \<and> (if r = 0 then u_module_sku_id s \<noteq> [] else u_out s = u_out st @ replicate 3 (asked j PWL_CID_GET_MODULE_SKU_ID (uj_content j))))
   (get_module_sku_id j st)"
  unfolding get_module_sku_id_def
  by (rule cpost_weaken [OF locked.request_sends [where ?st0.0 = "st\<lparr>u_module_sku_id := []\<rparr>"]]) (auto simp: retry_limit dest: u_keep_only)

lemma reset_check_post:
  "\<not> u_mutex st \<Longrightarrow> cpost (\<lambda>(r, s). \<not> u_mutex s
     \<and> (if r = 0 then \<not> reset_state_bad (u_oem_pri_reset_state s)
                   \<or> u_out s = u_out st @ replicate 3 (asked j PWL_CID_GET_OEM_PRI_RESET_STATE (uj_content j))
        else reset_state_bad (u_oem_pri_reset_state s)))
   (check_oempri_reset_state j st)"
  unfolding check_oempri_reset_state_def reset_state_bad_def [symmetric]
  by (rule cpost_cbindI [OF locked.loop_sends [where ?st0.0 = st]]) (auto simp: retry_limit)

text \<open>C30: what the check whether an update is needed decides. It asks for the OEM PRI state, and counts it as good when it is
  not one of the five states that call for an image, but also when three queries brought no answer. When the images match
  the module and this state counts as good, it asks for the SKU of the module: an answer decides, up to date when it is
  the SKU of the host and an update of the OEM image alone otherwise; without an answer to three queries it reports
  up to date. In every other case it reports that a full update is needed, and does not ask for the SKU.\<close>

theorem update_decision:
  assumes "\<not> u_mutex st" "check_if_need_update j st = Inr (up, s)"
  shows "\<exists>m r t. image_up_to_date st = Inr m \<and> check_oempri_reset_state j (st\<lparr>u_oem_pri_reset_state := -1\<rparr>) = Inr (r, t)
    \<and> (if r = 0 then \<not> reset_state_bad (u_oem_pri_reset_state t)
                  \<or> u_out t = u_out st @ replicate 3 (asked j PWL_CID_GET_OEM_PRI_RESET_STATE (uj_content j))
       else reset_state_bad (u_oem_pri_reset_state t))
    \<and> (if m \<and> r = 0
       then \<exists>r2 s2. get_module_sku_id j (t\<lparr>u_only_flash_oem_image := False\<rparr>) = Inr (r2, s2)
         \<and> (if r2 = 0
            then u_module_sku_id s \<noteq> [] \<and> up = (u_module_sku_id s = get_oem_sku_id (u_skuid s)) \<and> u_only_flash_oem_image s = (\<not> up)
            else up \<and> \<not> u_only_flash_oem_image s
              \<and> u_out s = u_out t @ replicate 3 (asked j PWL_CID_GET_MODULE_SKU_ID (uj_content j)))
       else \<not> up \<and> \<not> u_only_flash_oem_image s \<and> u_out s = u_out t)"
proof -
  from assms(2) obtain m r t where m: "image_up_to_date st = Inr m"
    and t: "check_oempri_reset_state j (st\<lparr>u_oem_pri_reset_state := -1\<rparr>) = Inr (r, t)"
    unfolding check_if_need_update_def by (elim cbind_InrE) auto
  have "\<not> u_mutex t" and pri: "if r = 0 then \<not> reset_state_bad (u_oem_pri_reset_state t)
        \<or> u_out t = u_out st @ replicate 3 (asked j PWL_CID_GET_OEM_PRI_RESET_STATE (uj_content j))
      else reset_state_bad (u_oem_pri_reset_state t)"
    using cpostD [OF reset_check_post t] assms(1) by (simp_all split: if_splits)
  then have free: "\<not> u_mutex (t\<lparr>u_only_flash_oem_image := False\<rparr>)" by simp
  have "if m \<and> r = 0
       then \<exists>r2 s2. get_module_sku_id j (t\<lparr>u_only_flash_oem_image := False\<rparr>) = Inr (r2, s2)
         \<and> (if r2 = 0
            then u_module_sku_id s \<noteq> [] \<and> up = (u_module_sku_id s = get_oem_sku_id (u_skuid s)) \<and> u_only_flash_oem_image s = (\<not> up)
            else up \<and> \<not> u_only_flash_oem_image s
              \<and> u_out s = u_out t @ replicate 3 (asked j PWL_CID_GET_MODULE_SKU_ID (uj_content j)))
       else \<not> up \<and> \<not> u_only_flash_oem_image s \<and> u_out s = u_out t"
  proof (cases "m \<and> r = 0")
    case True
    with assms(2) m t obtain r2 s2 where s2: "get_module_sku_id j (t\<lparr>u_only_flash_oem_image := False\<rparr>) = Inr (r2, s2)"
      "(if r2 = 0 then if u_module_sku_id s2 \<noteq> get_oem_sku_id (u_skuid s2)
          then Inr (False, s2\<lparr>u_only_flash_oem_image := True\<rparr>) else Inr (True, s2\<lparr>u_only_flash_oem_image := False\<rparr>)
        else Inr (True, s2)) = (Inr (up, s) :: _ cres)"
      by (auto simp: check_if_need_update_def Let_def elim!: cbind_InrE)
    with cpostD [OF module_sku_post [OF free] s2(1)] True show ?thesis by (auto split: if_splits)
  next
    case False
    with assms(2) m t show ?thesis by (auto simp: check_if_need_update_def Let_def split: if_splits)
  qed
  with m t pri show ?thesis by blast
qed

definition example_image :: string where
  "example_image = replicate 22 (CHR ''x'') @ [CHR 0x0E, NUL, NUL, NUL] @ [CHR ''V'', CHR 0x0B, NUL] @ ''00.44.68.00''"

definition example_update :: "string \<Rightarrow> fwu" where
  "example_update ver = (u_init PWL_DEVICE_TYPE_USB (write_file ''i.dfw'' example_image fs0) [])\<lparr>u_has_update_include_fw_img := True,
     u_fw_image_file_count := 1, u_image_file_fw_list := [''i.dfw''], u_current_fw_ver := ver\<rparr>"

lemma example_image_version: "get_image_version ''i.dfw'' [] (u_fs (example_update ver)) = Inr (1, ''00.44.68.00'')"
proof -
  have he: "take 14 (drop 26 example_image) = [CHR ''V'', CHR 0x0B, NUL] @ ''00.44.68.00''" by (simp add: example_image_def)
  have "header_size example_image = 14"
    by (simp add: header_size_def byte_at_def example_image_def nth_append)
  moreover have "record_text (take 14 (drop 26 example_image)) = Inr ''00.44.68.00''"
    unfolding he by (simp add: record_text_def byte_at_def)
  ultimately show ?thesis by (simp add: get_image_version_def example_update_def fopen_r_def write_file_def fs0_def he)
qed

lemma example_update_check:
  "\<exists>s. check_if_need_update example_ujunk (example_update ''00.40.00.00'') = Inr (False, s)"
proof -
  let ?st = "example_update ''00.40.00.00''"
  have st: "u_fw_image_file_count ?st = 1" "u_image_file_fw_list ?st = [''i.dfw'']" "u_has_update_include_fw_img ?st"
    "u_current_fw_ver ?st = ''00.40.00.00''" "\<not> u_mutex ?st" "u_script ?st = []"
    by (simp_all add: example_update_def u_init_def)
  then have "image_up_to_date ?st = Inr False"
    by (simp add: image_up_to_date_def compare_main_fw_version_def example_image_version)
  then show ?thesis
    using st by (simp add: check_if_need_update_def check_oempri_reset_state_def retry_limit eval_nat_numeral ask_def
      u_send_message_queue_def locked_wait_def u_timedwait_def Let_def)
qed

lemma example_unanswered:
  "\<exists>s. check_if_need_update example_ujunk (example_update ''00.44.68.00'') = Inr (True, s)"
proof -
  let ?st = "example_update ''00.44.68.00''"
  have st: "u_fw_image_file_count ?st = 1" "u_image_file_fw_list ?st = [''i.dfw'']" "u_has_update_include_fw_img ?st"
    "u_current_fw_ver ?st = ''00.44.68.00''" "\<not> u_mutex ?st" "u_script ?st = []"
    by (simp_all add: example_update_def u_init_def)
  then have "image_up_to_date ?st = Inr True"
    by (simp add: image_up_to_date_def compare_main_fw_version_def example_image_version)
  then show ?thesis
    using st by (simp add: check_if_need_update_def check_oempri_reset_state_def get_module_sku_id_def request_def retry_limit eval_nat_numeral
      ask_def u_send_message_queue_def locked_wait_def u_timedwait_def Let_def)
qed

text \<open>An old image asks for a full update; with the current one and a module that answers nothing, the module is up to date.\<close>

theorem update_decision_witness:
  "(\<exists>s. check_if_need_update example_ujunk (example_update ''00.40.00.00'') = Inr (False, s) \<and> \<not> u_only_flash_oem_image s)
   \<and> (\<exists>s. check_if_need_update example_ujunk (example_update ''00.44.68.00'') = Inr (True, s) \<and> \<not> u_only_flash_oem_image s)"
proof -
  have free: "\<not> u_mutex (example_update ver)" for ver by (simp add: example_update_def u_init_def)
  have m: "image_up_to_date (example_update ''00.40.00.00'') = Inr False"
    using example_image_version [of "''00.40.00.00''"]
    by (simp add: image_up_to_date_def compare_main_fw_version_def example_update_def)
  obtain s s' where runs: "check_if_need_update example_ujunk (example_update ''00.40.00.00'') = Inr (False, s)"
    "check_if_need_update example_ujunk (example_update ''00.44.68.00'') = Inr (True, s')"
    using example_update_check example_unanswered by blast
  have "\<not> u_only_flash_oem_image s" using update_decision [OF free runs(1)] m by auto
  moreover have "\<not> u_only_flash_oem_image s'" using update_decision [OF free runs(2)] by (auto split: if_splits)
  ultimately show ?thesis using runs by blast
qed

lemma record_text_bound:
  assumes "record_text he = Inr v"
  shows "NUL \<notin> set v \<and> length v \<le> 11"
proof -
  have bound: "NUL \<notin> set (takeWhile (\<lambda>c. c \<noteq> NUL) (take 11 xs)) \<and> length (takeWhile (\<lambda>c. c \<noteq> NUL) (take 11 xs)) \<le> 11" for xs
    using length_takeWhile_le [of "\<lambda>c. c \<noteq> NUL" "take 11 xs"] by (auto dest: set_takeWhileD)
  let ?tmp = "take (byte_at he 2 * 256 + byte_at he 1) (drop 3 (he @ replicate (512 - length he) NUL))"
  have v: "v = takeWhile (\<lambda>c. c \<noteq> NUL) (take 11 ?tmp)"
    using assms unfolding record_text_def Let_def by (simp only: sum.inject sum.distinct split: if_split_asm)
  show ?thesis unfolding v by (rule bound)
qed

lemma get_image_version_text:
  assumes "get_image_version f old w = Inr (1, v)"
  shows "NUL \<notin> set v \<and> length v \<le> 11"
  using assms record_text_bound unfolding get_image_version_def Let_def
  by (auto split: option.splits if_split_asm elim!: cbind_InrE)

text \<open>With one firmware image, the images match the module exactly when the version in the header of
  the image is the version the module reported.\<close>

theorem image_version_decides:
  assumes "u_has_update_include_fw_img st" "u_fw_image_file_count st = 1" "u_image_file_fw_list st = [f]"
    and "get_image_version f [] (u_fs st) = Inr (1, v)" "NUL \<notin> set (u_current_fw_ver st)"
  shows "image_up_to_date st = Inr (v = u_current_fw_ver st) \<and> length v \<le> 11"
  using get_image_version_text [OF assms(4)] assms strcmp_eq_0 [of v "u_current_fw_ver st"]
  by (auto simp: image_up_to_date_def compare_main_fw_version_def)

theorem image_version_decides_witness:
  "image_up_to_date (example_update ''00.44.68.00'') = Inr True"
  using image_version_decides [OF _ _ _ example_image_version, of "''00.44.68.00''"] by (simp add: example_update_def u_init_def)

text \<open>When the images could be prepared, the three lists hold exactly the images of the three folders, in
  the order of the folders, and there is at least one.\<close>

theorem images_prepared:
  assumes "prepare_update_images st = Inr (0, s)"
  shows "u_image_file_carrier_list s = fill 100 (folder_files IMAGE_CARRIER_FOLDER_PATH st)
    \<and> u_image_file_oem_list s = fill 100 (folder_files IMAGE_OEM_FOLDER_PATH st)
    \<and> u_image_file_fw_list s = fill 1 (folder_files IMAGE_FW_FOLDER_PATH st)
    \<and> length (folder_files IMAGE_CARRIER_FOLDER_PATH st) \<le> 100 \<and> length (folder_files IMAGE_OEM_FOLDER_PATH st) \<le> 100
    \<and> length (folder_files IMAGE_FW_FOLDER_PATH st) \<le> 1
    \<and> folder_files IMAGE_FW_FOLDER_PATH st @ folder_files IMAGE_CARRIER_FOLDER_PATH st @ folder_files IMAGE_OEM_FOLDER_PATH st \<noteq> []"
proof -
  from assms obtain n1 n2 n3 s1 s2 where steps: "prepare_fw_images (reset_image_lists st) = Inr (True, n1, s1)"
    "prepare_carrier_images s1 = Inr (True, n2, s2)" "prepare_oem_images s2 = Inr (True, n3, s)" "n1 + n2 + n3 > 0"
    unfolding prepare_update_images_def by (auto split: if_splits elim!: cbind_InrE)
  have same: "folder_files d (reset_image_lists st) = folder_files d st" for d by (simp add: folder_files_def reset_image_lists_def)
  have 1: "n1 = length (folder_files IMAGE_FW_FOLDER_PATH st)" "n1 \<le> 1" "u_dirs s1 = u_dirs st"
    "u_image_file_fw_list s1 = fill 1 (folder_files IMAGE_FW_FOLDER_PATH st)"
    using steps(1) same by (auto simp: prepare_fw_images_def image_limits Let_def reset_image_lists_def bubble_short
      dest!: folder_images_ok split: if_splits elim!: cbind_InrE)
  have "folder_files d s1 = folder_files d st" for d using 1(3) by (simp add: folder_files_def)
  then have 2: "n2 = length (folder_files IMAGE_CARRIER_FOLDER_PATH st)" "n2 \<le> 100" "u_dirs s2 = u_dirs st"
    "u_image_file_fw_list s2 = u_image_file_fw_list s1"
    "u_image_file_carrier_list s2 = fill 100 (folder_files IMAGE_CARRIER_FOLDER_PATH st)"
    using steps(2) 1(3) by (auto simp: prepare_carrier_images_def image_limits dest!: folder_images_ok elim!: cbind_InrE)
  have "folder_files d s2 = folder_files d st" for d using 2(3) by (simp add: folder_files_def)
  then have "n3 = length (folder_files IMAGE_OEM_FOLDER_PATH st)" "n3 \<le> 100"
    "u_image_file_fw_list s = u_image_file_fw_list s2" "u_image_file_carrier_list s = u_image_file_carrier_list s2"
    "u_image_file_oem_list s = fill 100 (folder_files IMAGE_OEM_FOLDER_PATH st)"
    using steps(3) by (auto simp: prepare_oem_images_def image_limits dest!: folder_images_ok elim!: cbind_InrE)
  with 1 2 steps(4) show ?thesis by auto
qed

definition example_folders :: fwu where
  "example_folders = (u_init PWL_DEVICE_TYPE_USB fs0 [])\<lparr>u_dirs := (\<lambda>_. None)
     (IMAGE_CARRIER_FOLDER_PATH := Some [''readme'', ''EE.cfw'', ''TMO.cfw''])\<rparr>"

lemma example_prepared: "\<exists>s. prepare_update_images example_folders = Inr (0, s)"
proof -
  have "is_image ''EE.cfw''" "is_image ''TMO.cfw''" "\<not> is_image ''readme''" by code_simp+
  moreover have "IMAGE_FW_FOLDER_PATH \<noteq> IMAGE_CARRIER_FOLDER_PATH" "IMAGE_OEM_FOLDER_PATH \<noteq> IMAGE_CARRIER_FOLDER_PATH" by code_simp+
  ultimately show ?thesis
    by (simp add: prepare_update_images_def prepare_fw_images_def prepare_carrier_images_def prepare_oem_images_def folder_images_def
      example_folders_def reset_image_lists_def note_count_def strcpy_cap_def FDTL_MAX_PATH_def image_limits IMAGE_CARRIER_FOLDER_PATH_def)
qed

theorem images_prepared_witness:
  "\<exists>s. prepare_update_images example_folders = Inr (0, s)
     \<and> u_image_file_carrier_list s = fill 100 (folder_files IMAGE_CARRIER_FOLDER_PATH example_folders)"
  using example_prepared images_prepared by blast

end
