(* ===== verification/Fb_Programming.thy ===== *)
theory Fb_Programming
  imports Fw_Images
begin

text \<open>
  The updater, part three: flashing a USB module, \<^verbatim>\<open>pwl-fwupdate/fb_programing.c\<close> and the functions of
  \<^verbatim>\<open>pwl_fwupdate.c\<close> that use it. \<open>fb_script\<close> holds, for each command, what \<^verbatim>\<open>fastboot_main\<close> leaves in the
  structure \<^verbatim>\<open>fastboot_data_t\<close>; \<open>Fb_Engine\<close> shows what that can be. \<open>None\<close>, and an empty script, is a command that leaves
  the bytes of the local variable the structure lives in (\<open>fb_stale\<close>): the theorems here allow it, although
  \<^verbatim>\<open>fastboot_main\<close> always resets the structure. \<open>fb_cmds\<close> records the commands. The branch for an installed
  fastboot tool is never taken, since \<^verbatim>\<open>ENABLE_INSTALLED_FASTBOOT_CHECK\<close> is 0.
\<close>

section \<open>State\<close>

record fastboot_data =
  gfb_info_msg :: "string list"
  g_output_msg_count :: int
  g_output_msg_count_keep :: int

datatype fb_command =
    FASTBOOT_EARSE_COMMAND | FASTBOOT_REBOOT_COMMAND | FASTBOOT_FLASH_COMMAND | FASTBOOT_OEM_COMMAND
  | FASTBOOT_FLASHING_COMMAND

datatype flash_step =
    FASTBOOT_IGNORE | FASTBOOT_FRP_UNLOCK_KEY | FASTBOOT_UNLOCK | FASTBOOT_SOP_HDR | FASTBOOT_FLASH_FW
  | FASTBOOT_FLASH_OEM | FASTBOOT_FLASH_PRI | FASTBOOT_FLASH_PREF

record fastboot =
  fb_script :: "fastboot_data option list"
  fb_stale :: fastboot_data
  fb_cmds :: "(fb_command \<times> string \<times> string) list"

definition HEADER_BUF_SIZE :: nat where "HEADER_BUF_SIZE = 1024"
definition TEMP_IMAGE_FILE_BUF_SIZE :: nat where "TEMP_IMAGE_FILE_BUF_SIZE = 1024"
definition FAST_BOOT_RETURN_STR_LEN :: nat where "FAST_BOOT_RETURN_STR_LEN = 256"
definition FB_MAX_INFO_COUNT :: nat where "FB_MAX_INFO_COUNT = 16"

section \<open>Temporary files\<close>

definition start_flash_image_file :: "string \<Rightarrow> string \<Rightarrow> fs \<Rightarrow> int \<times> fs" where
  "start_flash_image_file image_file temp w =
     (case fopen_r w image_file of
        None \<Rightarrow> (-1, w)
      | Some bs \<Rightarrow>
          if length bs < HEADER_BUF_SIZE then (-2, w)
          else if \<not> can_write w temp then (-3, w)
          else (1, write_file temp (take HEADER_BUF_SIZE bs) w))"

text \<open>
  The copying loop of \<^verbatim>\<open>write_temp_image_file\<close>: \<open>rest\<close> is what is left of the image behind the read
  position, \<open>out\<close> the content of the temporary file; \<open>-5\<close> when the image ends early.
\<close>

function copy_blocks :: "int \<Rightarrow> string \<Rightarrow> string \<Rightarrow> int \<times> string" where
  "copy_blocks image_size rest out =
     (if image_size > 0
      then let n = (if image_size < int TEMP_IMAGE_FILE_BUF_SIZE then nat image_size else TEMP_IMAGE_FILE_BUF_SIZE);
               read_buf = take n rest
           in if length read_buf > 0
              then copy_blocks (image_size - int (length read_buf)) (drop n rest) (out @ read_buf)
              else (-5, out)
      else (1, out))"
  by pat_completeness auto
termination
  by (relation "measure (\<lambda>(sz, rest, out). nat sz)") auto

declare copy_blocks.simps [simp del]

text \<open>A negative offset makes \<^verbatim>\<open>fseek\<close> fail with -1, which the code does not take for an error.\<close>

definition write_temp_image_file :: "string \<Rightarrow> int \<Rightarrow> int \<Rightarrow> bool \<Rightarrow> string \<Rightarrow> fs \<Rightarrow> int \<times> fs" where
  "write_temp_image_file image_file_name offset sz pri_image temp w =
     (case fopen_r w image_file_name of
        None \<Rightarrow> (-1, w)
      | Some bs \<Rightarrow>
          if \<not> can_write w temp then (-2, w)
          else let old = (if pri_image then (case files w temp of None \<Rightarrow> [] | Some t \<Rightarrow> t) else []);
                   (r, out) = copy_blocks sz (drop (nat offset) bs) old
               in (r, write_file temp out w))"

section \<open>Answers of the boot loader\<close>

text \<open>\<^verbatim>\<open>sscanf(s, "%x", &v)\<close>: white space, a sign, an optional prefix, hexadecimal digits.\<close>

definition isxdigit :: "char \<Rightarrow> bool" where
  "isxdigit c \<longleftrightarrow> isdigit c \<or> (97 \<le> (of_char (tolower c) :: nat) \<and> (of_char (tolower c) :: nat) \<le> 102)"

definition xdigit_val :: "char \<Rightarrow> nat" where
  "xdigit_val c = (if isdigit c then of_char c - 48 else of_char (tolower c) - 87)"

fun hex_val :: "nat \<Rightarrow> string \<Rightarrow> nat" where
  "hex_val acc [] = acc"
| "hex_val acc (c # cs) = (if isxdigit c then hex_val (16 * acc + xdigit_val c) cs else acc)"

definition hex_char :: "nat \<Rightarrow> char" where
  "hex_char n = (if n < 10 then digit_char n else char_of (87 + n))"

text \<open>\<^verbatim>\<open>sprintf(s, "%08x", (unsigned int) n)\<close>\<close>

definition show_x8 :: "nat \<Rightarrow> string" where
  "show_x8 n = map (\<lambda>k. hex_char (n div 16 ^ k mod 16)) [7, 6, 5, 4, 3, 2, 1, 0]"

definition strip_0x :: "string \<Rightarrow> string" where
  "strip_0x s =
     (case s of
        z # x # d # ds \<Rightarrow> if z = CHR ''0'' \<and> tolower x = CHR ''x'' \<and> isxdigit d then d # ds else s
      | _ \<Rightarrow> s)"

definition sscanf_x :: "string \<Rightarrow> int option" where
  "sscanf_x s =
     (let t = dropWhile isspace s;
          neg = (t \<noteq> [] \<and> hd t = CHR ''-'');
          u = strip_0x (if t \<noteq> [] \<and> (hd t = CHR ''-'' \<or> hd t = CHR ''+'') then tl t else t)
      in if u \<noteq> [] \<and> isxdigit (hd u)
         then Some (to_int32 ((if neg then -1 else 1) * min (2 ^ 64 - 1) (int (hex_val 0 u))))
         else None)"

definition scan_into :: "string \<Rightarrow> int \<Rightarrow> int" where
  "scan_into s old = (case sscanf_x s of None \<Rightarrow> old | Some v \<Rightarrow> v)"

text \<open>
  \<^verbatim>\<open>get_offset_and_size\<close>: the numbers behind the first and the second colon, each copied to an array of 64
  bytes first.
\<close>

definition get_offset_and_size :: "string \<Rightarrow> int \<Rightarrow> int \<Rightarrow> (int \<times> int) cres" where
  "get_offset_and_size StrBuf offset sz =
     cbind (strcpy_cap FAST_BOOT_RETURN_STR_LEN StrBuf) (\<lambda>src_string_buf.
       case strchr src_string_buf (CHR '':'') of
         None \<Rightarrow> Inr (offset, sz)
       | Some p \<Rightarrow>
           (case strchr (tl p) (CHR '':'') of
              None \<Rightarrow> Inr (offset, sz)
            | Some q \<Rightarrow>
                cbind (strcpy_cap 64 (take (length (tl p) - length q) (tl p))) (\<lambda>t1.
                cbind (strcpy_cap 64 (tl q)) (\<lambda>t2.
                  Inr (scan_into t1 offset, scan_into t2 sz)))))"

definition pop_fastboot_output_msg :: "fastboot_data \<Rightarrow> (string \<times> fastboot_data) option cres" where
  "pop_fastboot_output_msg d =
     (if g_output_msg_count d = 0 then Inr None
      else let c = g_output_msg_count d - 1;
               idx = g_output_msg_count_keep d - c - 1
           in if 0 \<le> idx \<and> idx < int FB_MAX_INFO_COUNT \<and> idx < int (length (gfb_info_msg d))
              then Inr (Some (gfb_info_msg d ! nat idx, d\<lparr>g_output_msg_count := c\<rparr>))
              else Inl OutOfBounds)"

definition put_at :: "'a list \<Rightarrow> int \<Rightarrow> 'a \<Rightarrow> 'a list cres" where
  "put_at xs i x = (if 0 \<le> i \<and> i < int (length xs) then Inr (xs[nat i := x]) else Inl OutOfBounds)"

definition get_at :: "'a list \<Rightarrow> int \<Rightarrow> 'a cres" where
  "get_at xs i = (if 0 \<le> i \<and> i < int (length xs) then Inr (xs ! nat i) else Inl OutOfBounds)"

text \<open>One more image of the header: its name, offset and size at the next free place.\<close>

definition note_image :: "cbuf cres \<Rightarrow> int \<times> int \<Rightarrow> fdtl \<Rightarrow> fdtl cres" where
  "note_image nm os fd =
     cbind nm (\<lambda>name.
     cbind (put_at (fd_partition_name fd) (fd_total_image_count fd) name) (\<lambda>names.
     cbind (put_at (fd_image_offset fd) (fd_total_image_count fd) (fst os)) (\<lambda>offs.
     cbind (put_at (fd_image_size fd) (fd_total_image_count fd) (snd os)) (\<lambda>sizes.
       Inr (fd\<lparr>fd_partition_name := names, fd_image_offset := offs, fd_image_size := sizes,
              fd_total_image_count := fd_total_image_count fd + 1\<rparr>)))))"

text \<open>
  One line of the answer to the header, case \<^verbatim>\<open>FASTBOOT_SOP_HDR\<close>. \<open>os\<close> are the variables \<^verbatim>\<open>offset\<close> and
  \<^verbatim>\<open>size\<close>, which keep their value from line to line.
\<close>

definition header_line :: "string \<Rightarrow> int \<times> int \<Rightarrow> fdtl \<Rightarrow> ((int \<times> int) \<times> fdtl) cres" where
  "header_line line os fd =
     (if strstr line ''(bootloader)'' = None then Inr (os, fd)
      else if strstr line ''image_count = '' \<noteq> None then Inr (os, fd)
      else case strstr line ''slot_'' of
        Some pos \<Rightarrow>
          if fd_fw_image_count fd < int MAX_DOWNLOAD_FW_IMAGES
          then cbind (get_offset_and_size line (fst os) (snd os)) (\<lambda>os'.
               cbind (note_image (cbind (get_at (fd_partition_name fd) (fd_total_image_count fd)) (\<lambda>b. buf_strncpy b pos 8)) os' fd) (\<lambda>fd'.
                 Inr (os', fd'\<lparr>fd_fw_image_count := fd_fw_image_count fd' + 1\<rparr>)))
          else Inr (os, fd)
      | None \<Rightarrow>
          if strstr line ''capri_c'' \<noteq> None
          then if fd_pri_count fd < int MAX_DOWNLOAD_PRI_IMAGES
               then cbind (get_offset_and_size line (fst os) (snd os)) (\<lambda>os'.
                    cbind (put_at (fd_pri_offset fd) (fd_pri_count fd) (fst os')) (\<lambda>offs.
                    cbind (put_at (fd_pri_size fd) (fd_pri_count fd) (snd os')) (\<lambda>sizes.
                      Inr (os', fd\<lparr>fd_pri_offset := offs, fd_pri_size := sizes, fd_pri_count := fd_pri_count fd + 1\<rparr>))))
               else Inr (os, fd)
          else if strstr line ''mcf_c'' \<noteq> None
          then if fd_oem_image_count fd < int MAX_DOWNLOAD_OEM_IMAGES
               then cbind (get_offset_and_size line (fst os) (snd os)) (\<lambda>os'.
                    cbind (note_image (cbind (get_at (fd_partition_name fd) (fd_total_image_count fd)) (\<lambda>b. buf_strcpy b ''mcf_c'')) os' fd) (\<lambda>fd'.
                      Inr (os', fd'\<lparr>fd_oem_image_count := fd_oem_image_count fd' + 1\<rparr>)))
               else Inr (os, fd)
          else Inr (os, fd))"

text \<open>
  \<^verbatim>\<open>post_process_fastboot\<close>: it takes the answers one by one; the first that contains \<^verbatim>\<open>FAILED\<close> ends it
  with -1. Each answer has a larger index than the one before, so the loop ends.
\<close>

function post_process_fastboot :: "flash_step \<Rightarrow> int \<times> int \<Rightarrow> fastboot_data \<Rightarrow> fdtl \<Rightarrow> (int \<times> fdtl) cres" where
  "post_process_fastboot flash_step os d fd =
     (case pop_fastboot_output_msg d of
        Inl e \<Rightarrow> Inl e
      | Inr None \<Rightarrow> Inr (1, fd)
      | Inr (Some (msg, d')) \<Rightarrow>
          cbind (strcpy_cap FAST_BOOT_RETURN_STR_LEN msg) (\<lambda>line.
            if strstr line ''FAILED'' \<noteq> None then Inr (-1, fd)
            else cbind (if flash_step = FASTBOOT_SOP_HDR then header_line line os fd else Inr (os, fd)) (\<lambda>(os', fd').
                   post_process_fastboot flash_step os' d' fd')))"
  by pat_completeness auto
termination
  by (relation "measure (\<lambda>(flash_step, os, d, fd). nat (int FB_MAX_INFO_COUNT - (g_output_msg_count_keep d - g_output_msg_count d)))")
    (auto simp: pop_fastboot_output_msg_def Let_def split: if_splits)

declare post_process_fastboot.simps [simp del]

section \<open>Commands\<close>

definition next_answer :: "fastboot \<Rightarrow> fastboot_data \<times> fastboot" where
  "next_answer fb =
     (case fb_script fb of
        [] \<Rightarrow> (fb_stale fb, fb)
      | a # rest \<Rightarrow> ((case a of None \<Rightarrow> fb_stale fb | Some d \<Rightarrow> d), fb\<lparr>fb_script := rest\<rparr>))"

text \<open>\<open>os\<close> is the initial value of the uninitialised variables of \<^verbatim>\<open>post_process_fastboot\<close>.\<close>

definition fastboot_send_command_v3 ::
  "int \<times> int \<Rightarrow> fb_command \<Rightarrow> string \<Rightarrow> string \<Rightarrow> flash_step \<Rightarrow> fdtl \<times> fastboot \<Rightarrow> (int \<times> fdtl \<times> fastboot) cres" where
  "fastboot_send_command_v3 os exe_case argv1 argv2 step x =
     (let (fd, fb) = x;
          (d, fb1) = next_answer (fb\<lparr>fb_cmds := fb_cmds fb @ [(exe_case, argv1, argv2)]\<rparr>)
      in cbind (post_process_fastboot step os d fd) (\<lambda>(r, fd'). Inr (r, fd', fb1)))"

definition setup_temp_file_name :: "fdtl \<Rightarrow> fdtl" where
  "setup_temp_file_name fd =
     fd\<lparr>fd_first_temp_file_name := ''FirstTemp_'' @ fd_serial_number fd @ ''.bin'',
        fd_image_temp_file_name := ''TempImage_'' @ fd_serial_number fd @ ''.bin'',
        fd_pri_temp_file_name := ''TempImagePri_'' @ fd_serial_number fd @ ''.bin''\<rparr>"

section \<open>Flashing the images\<close>

text \<open>The inner loop: \<open>c\<close> counts up to the number of images in the header; the first failure ends it.\<close>

fun flash_partitions :: "int \<times> int \<Rightarrow> string \<Rightarrow> nat \<Rightarrow> int \<Rightarrow> int \<Rightarrow> fdtl \<times> fastboot \<times> fs \<Rightarrow> (int \<times> fdtl \<times> fastboot \<times> fs) cres" where
  "flash_partitions os img 0 c rtn (fd, fb, w) = Inr (rtn, fd, fb, w)"
| "flash_partitions os img (Suc n) c rtn (fd, fb, w) =
     cbind (get_at (fd_image_offset fd) c) (\<lambda>offset.
     cbind (get_at (fd_image_size fd) c) (\<lambda>sz.
     cbind (get_at (fd_partition_name fd) c) (\<lambda>name_buf.
     cbind (cstr name_buf) (\<lambda>name.
       let w1 = snd (write_temp_image_file img offset sz False (fd_image_temp_file_name fd) w)
       in cbind (fastboot_send_command_v3 os FASTBOOT_FLASH_COMMAND name (fd_image_temp_file_name fd) FASTBOOT_FLASH_FW (fd, fb)) (\<lambda>(r, fd1, fb1).
            let fd2 = (if strstr name ''mcf_c'' \<noteq> None then fd1\<lparr>fd_update_oem_pri := 1\<rparr> else fd1)
            in if r \<le> 0 then Inr (r, fd2, fb1, w1) else flash_partitions os img n (c + 1) r (fd2, fb1, w1))))))"

fun append_pri :: "string \<Rightarrow> nat \<Rightarrow> int \<Rightarrow> fdtl \<Rightarrow> fs \<Rightarrow> fs cres" where
  "append_pri img 0 c fd w = Inr w"
| "append_pri img (Suc n) c fd w =
     cbind (get_at (fd_pri_offset fd) c) (\<lambda>offset.
     cbind (get_at (fd_pri_size fd) c) (\<lambda>sz.
       append_pri img n (c + 1) fd (snd (write_temp_image_file img offset sz True (fd_pri_temp_file_name fd) w))))"

text \<open>One image file; the result says whether the function returns at once because the file cannot be read.\<close>

definition flash_file :: "int \<times> int \<Rightarrow> string \<Rightarrow> int \<Rightarrow> fdtl \<times> fastboot \<times> fs \<Rightarrow> (bool \<times> int \<times> fdtl \<times> fastboot \<times> fs) cres" where
  "flash_file os img previous_pri_count x =
     (let (fd0, fb, w) = x;
          fd = fd0\<lparr>fd_fw_image_count := 0, fd_oem_image_count := 0, fd_total_image_count := 0\<rparr>;
          (ok, w1) = start_flash_image_file img (fd_first_temp_file_name fd) w
      in if ok \<le> 0 then Inr (True, 0, fd, fb, w1)
         else cbind (fastboot_send_command_v3 os FASTBOOT_FLASH_COMMAND ''sop-hdr'' (fd_first_temp_file_name fd) FASTBOOT_SOP_HDR (fd, fb)) (\<lambda>(r1, fd1, fb1).
              cbind (if fd_total_image_count fd1 > 0 \<and> r1 > 0
                     then flash_partitions os img (nat (fd_total_image_count fd1)) 0 r1 (fd1, fb1, w1)
                     else Inr (r1, fd1, fb1, w1)) (\<lambda>(r2, fd2, fb2, w2).
              cbind (if fd_pri_count fd2 > 0 \<and> r2 > 0
                     then append_pri img (nat (fd_pri_count fd2 - previous_pri_count)) previous_pri_count fd2 w2
                     else Inr w2) (\<lambda>w3.
                Inr (False, r2, fd2, fb2, w3)))))"

fun flash_files :: "int \<times> int \<Rightarrow> string list \<Rightarrow> int \<Rightarrow> int \<Rightarrow> fdtl \<times> fastboot \<times> fs \<Rightarrow> (bool \<times> int \<times> fdtl \<times> fastboot \<times> fs) cres" where
  "flash_files os [] previous_pri_count rtn x = Inr (False, rtn, x)"
| "flash_files os (img # imgs) previous_pri_count rtn x =
     cbind (flash_file os img previous_pri_count x) (\<lambda>(stop, r, fd, fb, w).
       if stop then Inr (True, 0, fd, fb, w)
       else if r \<le> 0 then Inr (False, r, fd, fb, w)
       else flash_files os imgs (if fd_pri_count fd > 0 then fd_pri_count fd else previous_pri_count) r (fd, fb, w))"

definition remove_file :: "string \<Rightarrow> fs \<Rightarrow> fs" where
  "remove_file p w = w\<lparr>files := (files w)(p := None)\<rparr>"

definition fastboot_flash_process_v2 :: "int \<times> int \<Rightarrow> string list \<Rightarrow> fdtl \<times> fastboot \<times> fs \<Rightarrow> (int \<times> fdtl \<times> fastboot \<times> fs) cres" where
  "fastboot_flash_process_v2 os imgs x =
     (let (fd0, fb0, w0) = x
      in cbind (flash_files os imgs 0 0 (fd0\<lparr>fd_pri_count := 0\<rparr>, fb0, w0)) (\<lambda>(stop, r, fd, fb, w).
         if stop then Inr (0, fd, fb, w)
         else cbind (if fd_pri_count fd > 0 \<and> r > 0
                     then fastboot_send_command_v3 os FASTBOOT_FLASH_COMMAND ''capri_c'' (fd_pri_temp_file_name fd) FASTBOOT_FLASH_PRI (fd, fb)
                     else Inr (r, fd, fb)) (\<lambda>(r1, fd1, fb1).
                Inr (r1, fd1, fb1, remove_file (fd_first_temp_file_name fd1)
                  (remove_file (fd_image_temp_file_name fd1) (remove_file (fd_pri_temp_file_name fd1) w))))))"

section \<open>Lemmas\<close>

lemma take_rest: "int n \<le> m \<Longrightarrow> take n xs @ take (nat m - length (take n xs)) (drop n xs) = take (nat m) xs"
proof (cases "n \<le> length xs")
  case True
  assume "int n \<le> m"
  then have "nat m = n + (nat m - n)" by linarith
  with True show ?thesis by (metis length_take min.absorb2 take_add)
qed simp

lemma copy_blocks_slice:
  "copy_blocks image_size rest out =
     (if image_size \<le> int (length rest) then 1 else -5, out @ take (nat image_size) rest)"
proof (induction image_size rest out rule: copy_blocks.induct)
  case (1 image_size rest out)
  let ?n = "if image_size < int TEMP_IMAGE_FILE_BUF_SIZE then nat image_size else TEMP_IMAGE_FILE_BUF_SIZE"
  show ?case
  proof (cases "image_size > 0 \<and> rest \<noteq> []")
    case True
    then have n: "0 < ?n" "int ?n \<le> image_size" by (auto simp: TEMP_IMAGE_FILE_BUF_SIZE_def)
    have len: "length (take ?n rest) > 0" using True n by auto
    have step: "copy_blocks image_size rest out = copy_blocks (image_size - int (length (take ?n rest))) (drop ?n rest) (out @ take ?n rest)"
      using True len by (subst copy_blocks.simps) (simp only: Let_def if_True)
    have "nat (image_size - int (length (take ?n rest))) = nat image_size - length (take ?n rest)" using True by (simp only: nat_diff_distrib' nat_int)
    then have all: "take ?n rest @ take (nat (image_size - int (length (take ?n rest)))) (drop ?n rest) = take (nat image_size) rest"
      using n by (simp only: take_rest)
    have "copy_blocks (image_size - int (length (take ?n rest))) (drop ?n rest) (out @ take ?n rest)
      = (if image_size - int (length (take ?n rest)) \<le> int (length (drop ?n rest)) then 1 else -5,
         (out @ take ?n rest) @ take (nat (image_size - int (length (take ?n rest)))) (drop ?n rest))"
      using "1.IH" [OF _ refl refl len] True by simp
    moreover have "image_size - int (length (take ?n rest)) \<le> int (length (drop ?n rest)) \<longleftrightarrow> image_size \<le> int (length rest)"
      using n by (auto simp: min_def)
    ultimately show ?thesis unfolding step using all by simp
  next
    case False
    then show ?thesis by (subst copy_blocks.simps) (auto simp: Let_def)
  qed
qed

text \<open>What the library leaves behind after a command that reached the device.\<close>

definition answers :: "string list \<Rightarrow> fastboot_data" where
  "answers msgs = \<lparr>gfb_info_msg = msgs, g_output_msg_count = int (length msgs), g_output_msg_count_keep = int (length msgs)\<rparr>"

lemma pop_answers:
  assumes "length msgs \<le> FB_MAX_INFO_COUNT" "k \<le> length msgs"
  shows "pop_fastboot_output_msg ((answers msgs)\<lparr>g_output_msg_count := int (length msgs - k)\<rparr>) =
    (if k = length msgs then Inr None
     else Inr (Some (msgs ! k, (answers msgs)\<lparr>g_output_msg_count := int (length msgs - Suc k)\<rparr>)))"
  using assms by (auto simp: pop_fastboot_output_msg_def answers_def Let_def)

lemma verdict_from:
  assumes "length msgs \<le> FB_MAX_INFO_COUNT" "\<forall>m \<in> set msgs. length m < FAST_BOOT_RETURN_STR_LEN" "step \<noteq> FASTBOOT_SOP_HDR"
  shows "k \<le> length msgs \<Longrightarrow>
    post_process_fastboot step os ((answers msgs)\<lparr>g_output_msg_count := int (length msgs - k)\<rparr>) fd
      = Inr (if \<exists>m \<in> set (drop k msgs). strstr m ''FAILED'' \<noteq> None then -1 else 1, fd)"
proof (induction "length msgs - k" arbitrary: k)
  case 0
  then show ?case using pop_answers [OF assms(1), of k] by (subst post_process_fastboot.simps) simp
next
  case (Suc n)
  then have k: "k < length msgs" by simp
  then have "drop k msgs = msgs ! k # drop (Suc k) msgs" by (simp add: Cons_nth_drop_Suc)
  moreover have "length (msgs ! k) < FAST_BOOT_RETURN_STR_LEN" using assms(2) k by simp
  ultimately show ?case
    using pop_answers [OF assms(1), of k] k Suc.hyps(1) [of "Suc k"] Suc.hyps(2) assms(3)
    by (subst post_process_fastboot.simps) (simp add: strcpy_cap_def)
qed

text \<open>The bookkeeping of the header: the counters stay within the arrays.\<close>

definition fd_inv :: "fdtl \<Rightarrow> bool" where
  "fd_inv fd \<longleftrightarrow> 0 \<le> fd_fw_image_count fd \<and> fd_fw_image_count fd \<le> 1 \<and> 0 \<le> fd_oem_image_count fd \<and> fd_oem_image_count fd \<le> 100
     \<and> fd_total_image_count fd = fd_fw_image_count fd + fd_oem_image_count fd
     \<and> 0 \<le> fd_pri_count fd \<and> fd_pri_count fd \<le> 100
     \<and> length (fd_partition_name fd) = 101 \<and> length (fd_image_offset fd) = 101 \<and> length (fd_image_size fd) = 101
     \<and> length (fd_pri_offset fd) = 100 \<and> length (fd_pri_size fd) = 100 \<and> list_all (\<lambda>b. length b = 16) (fd_partition_name fd)"

definition header_safe :: "((int \<times> int) \<times> fdtl) cres \<Rightarrow> bool" where
  "header_safe m \<longleftrightarrow> m \<noteq> Inl OutOfBounds \<and> cpost (\<lambda>(os, fd). fd_inv fd) m"

lemma header_safe_Inr [simp]: "header_safe (Inr (os, fd)) = fd_inv fd"
  by (simp add: header_safe_def)

lemma get_offset_and_size_safe: "get_offset_and_size l a b \<noteq> Inl OutOfBounds"
  by (auto simp: get_offset_and_size_def strcpy_cap_def split: option.splits)

lemma header_safe_offsets:
  "(\<And>os'. header_safe (f os')) \<Longrightarrow> header_safe (cbind (get_offset_and_size l a b) f)"
  using get_offset_and_size_safe [of l a b] by (cases "get_offset_and_size l a b") (auto simp: header_safe_def)

lemma list_all_update: "list_all P xs \<Longrightarrow> P b \<Longrightarrow> list_all P (xs[i := b])"
  using set_update_subset_insert [of xs i b] by (auto simp: list_all_iff)

lemma note_image_safe:
  assumes "fd_inv fd" "fd_total_image_count fd < 101" "\<forall>b. length b = 16 \<longrightarrow> (\<exists>b'. g b = Inr b' \<and> length b' = 16)"
  shows "\<exists>fd'. note_image (cbind (get_at (fd_partition_name fd) (fd_total_image_count fd)) g) os fd = Inr fd'
    \<and> fd_fw_image_count fd' = fd_fw_image_count fd \<and> fd_oem_image_count fd' = fd_oem_image_count fd
    \<and> fd_total_image_count fd' = fd_total_image_count fd + 1
    \<and> (\<forall>x y. fd_inv (fd'\<lparr>fd_fw_image_count := x, fd_oem_image_count := y\<rparr>) \<longleftrightarrow>
         0 \<le> x \<and> x \<le> 1 \<and> 0 \<le> y \<and> y \<le> 100 \<and> fd_total_image_count fd + 1 = x + y)"
proof -
  let ?t = "fd_total_image_count fd"
  have t: "0 \<le> ?t" "nat ?t < 101" using assms(1,2) by (auto simp: fd_inv_def)
  have "length (fd_partition_name fd ! nat ?t) = 16" using assms(1) t by (simp add: fd_inv_def list_all_length)
  then obtain b' where b': "g (fd_partition_name fd ! nat ?t) = Inr b'" "length b' = 16" using assms(3) by blast
  have "list_all (\<lambda>b. length b = 16) ((fd_partition_name fd)[nat ?t := b'])"
    using assms(1) b' by (intro list_all_update) (auto simp: fd_inv_def)
  then show ?thesis
    using assms(1,2) t b' by (simp add: note_image_def get_at_def put_at_def fd_inv_def)
qed

lemma name_copies:
  "length b = 16 \<Longrightarrow> \<exists>b'. buf_strncpy b p 8 = Inr b' \<and> length b' = 16"
  "length b = 16 \<Longrightarrow> \<exists>b'. buf_strcpy b ''mcf_c'' = Inr b' \<and> length b' = 16"
  by (auto simp: buf_strncpy_def buf_strcpy_def min_def)

lemma header_line_safe:
  assumes inv: "fd_inv fd"
  shows "header_safe (header_line l os fd)"
proof -
  have counts: "0 \<le> fd_fw_image_count fd" "fd_fw_image_count fd \<le> 1" "0 \<le> fd_oem_image_count fd" "fd_oem_image_count fd \<le> 100"
    "fd_total_image_count fd = fd_fw_image_count fd + fd_oem_image_count fd"
    using inv by (simp_all add: fd_inv_def)
  have fw: "header_safe (cbind (note_image (cbind (get_at (fd_partition_name fd) (fd_total_image_count fd)) (\<lambda>b. buf_strncpy b p 8)) os' fd)
      (\<lambda>fd'. Inr (os', fd'\<lparr>fd_fw_image_count := fd_fw_image_count fd' + 1\<rparr>)))" if "fd_fw_image_count fd < 1" for p os'
  proof -
    have lt: "fd_total_image_count fd < 101" using counts that by simp
    obtain fd' where fd': "note_image (cbind (get_at (fd_partition_name fd) (fd_total_image_count fd)) (\<lambda>b. buf_strncpy b p 8)) os' fd = Inr fd'"
      "fd_fw_image_count fd' = fd_fw_image_count fd" "fd_oem_image_count fd' = fd_oem_image_count fd"
      "\<forall>x y. fd_inv (fd'\<lparr>fd_fw_image_count := x, fd_oem_image_count := y\<rparr>) \<longleftrightarrow>
         0 \<le> x \<and> x \<le> 1 \<and> 0 \<le> y \<and> y \<le> 100 \<and> fd_total_image_count fd + 1 = x + y"
      using note_image_safe [OF inv lt, where g = "\<lambda>b. buf_strncpy b p 8" and os = os'] name_copies(1) by blast
    have "fd_inv (fd'\<lparr>fd_fw_image_count := fd_fw_image_count fd + 1, fd_oem_image_count := fd_oem_image_count fd'\<rparr>)"
      using fd'(3,4) counts that by simp
    then show ?thesis using fd'(1,2) by simp
  qed
  have oem: "header_safe (cbind (note_image (cbind (get_at (fd_partition_name fd) (fd_total_image_count fd)) (\<lambda>b. buf_strcpy b ''mcf_c'')) os' fd)
      (\<lambda>fd'. Inr (os', fd'\<lparr>fd_oem_image_count := fd_oem_image_count fd' + 1\<rparr>)))" if "fd_oem_image_count fd < 100" for os'
  proof -
    have lt: "fd_total_image_count fd < 101" using counts that by simp
    obtain fd' where fd': "note_image (cbind (get_at (fd_partition_name fd) (fd_total_image_count fd)) (\<lambda>b. buf_strcpy b ''mcf_c'')) os' fd = Inr fd'"
      "fd_fw_image_count fd' = fd_fw_image_count fd" "fd_oem_image_count fd' = fd_oem_image_count fd"
      "\<forall>x y. fd_inv (fd'\<lparr>fd_fw_image_count := x, fd_oem_image_count := y\<rparr>) \<longleftrightarrow>
         0 \<le> x \<and> x \<le> 1 \<and> 0 \<le> y \<and> y \<le> 100 \<and> fd_total_image_count fd + 1 = x + y"
      using note_image_safe [OF inv lt, where g = "\<lambda>b. buf_strcpy b ''mcf_c''" and os = os'] name_copies(2) by blast
    have "fd_inv (fd'\<lparr>fd_fw_image_count := fd_fw_image_count fd', fd_oem_image_count := fd_oem_image_count fd + 1\<rparr>)"
      using fd'(2,4) counts that by simp
    then show ?thesis using fd'(1,3) by simp
  qed
  have pri: "header_safe (cbind (put_at (fd_pri_offset fd) (fd_pri_count fd) a) (\<lambda>offs.
      cbind (put_at (fd_pri_size fd) (fd_pri_count fd) b) (\<lambda>sizes.
        Inr (os', fd\<lparr>fd_pri_offset := offs, fd_pri_size := sizes, fd_pri_count := fd_pri_count fd + 1\<rparr>))))"
    if "fd_pri_count fd < 100" for a b os'
    using inv that by (simp add: put_at_def fd_inv_def)
  show ?thesis unfolding header_line_def
    using inv by (auto simp: image_limits split: option.splits intro!: header_safe_offsets fw oem pri)
qed

lemma pop_bounds_free: "g_output_msg_count_keep d = int (length (gfb_info_msg d)) \<Longrightarrow> length (gfb_info_msg d) \<le> 16 \<Longrightarrow>
    0 \<le> g_output_msg_count d \<Longrightarrow> g_output_msg_count d \<le> g_output_msg_count_keep d \<Longrightarrow>
    \<exists>r. pop_fastboot_output_msg d = Inr r"
  by (auto simp: pop_fastboot_output_msg_def Let_def FB_MAX_INFO_COUNT_def)

lemma post_process_safe:
  "fd_inv fd \<Longrightarrow> g_output_msg_count_keep d = int (length (gfb_info_msg d)) \<Longrightarrow> length (gfb_info_msg d) \<le> 16 \<Longrightarrow>
    0 \<le> g_output_msg_count d \<Longrightarrow> g_output_msg_count d \<le> g_output_msg_count_keep d \<Longrightarrow>
    post_process_fastboot step os d fd \<noteq> Inl OutOfBounds \<and> cpost (\<lambda>(r, fd'). fd_inv fd') (post_process_fastboot step os d fd)"
proof (induction step os d fd rule: post_process_fastboot.induct)
  case (1 step os d fd)
  show ?case
  proof (cases "pop_fastboot_output_msg d")
    case (Inl e)
    then show ?thesis using pop_bounds_free [OF "1.prems"(2-)] by auto
  next
    case (Inr r)
    show ?thesis
    proof (cases r)
      case None
      then show ?thesis using Inr "1.prems"(1) by (subst (1 2) post_process_fastboot.simps) simp
    next
      case (Some x)
      obtain msg d' where x: "x = (msg, d')" by (cases x)
      note pop = Inr [unfolded Some x]
      have d': "g_output_msg_count_keep d' = int (length (gfb_info_msg d'))" "length (gfb_info_msg d') \<le> 16"
        "0 \<le> g_output_msg_count d'" "g_output_msg_count d' \<le> g_output_msg_count_keep d'"
        using pop "1.prems" by (auto simp: pop_fastboot_output_msg_def Let_def split: if_splits)
      let ?h = "if step = FASTBOOT_SOP_HDR then header_line msg os fd else Inr (os, fd)"
      have h: "header_safe ?h" using header_line_safe "1.prems"(1) by simp
      show ?thesis
        using "1.prems"(1) pop h "1.IH" [OF Inr Some x [symmetric]] d'
        apply (subst (1 2) post_process_fastboot.simps)
        apply (cases ?h)
        by (auto simp: strcpy_cap_def header_safe_def split: if_splits)
    qed
  qed
qed

text \<open>A positive result means that no message of the answer reported a failure.\<close>

definition clean_answer :: "fastboot_data \<Rightarrow> bool" where
  "clean_answer d \<longleftrightarrow>
     list_all (\<lambda>j. strstr (gfb_info_msg d ! j) ''FAILED'' = None)
       [nat (g_output_msg_count_keep d - g_output_msg_count d)..<nat (g_output_msg_count_keep d)]"

lemma pop_clean:
  assumes "pop_fastboot_output_msg d = Inr (Some (msg, d'))" "clean_answer d'" "strstr msg ''FAILED'' = None"
  shows "clean_answer d"
proof -
  let ?i = "g_output_msg_count_keep d - g_output_msg_count d"
  have i: "0 \<le> ?i" "msg = gfb_info_msg d ! nat ?i" "d' = d\<lparr>g_output_msg_count := g_output_msg_count d - 1\<rparr>"
    using assms(1) by (auto simp: pop_fastboot_output_msg_def Let_def split: if_splits)
  then have d': "clean_answer d' \<longleftrightarrow> list_all (\<lambda>j. strstr (gfb_info_msg d ! j) ''FAILED'' = None) [Suc (nat ?i)..<nat (g_output_msg_count_keep d)]"
    by (simp add: clean_answer_def Suc_nat_eq_nat_zadd1 algebra_simps)
  show ?thesis
  proof (cases "nat ?i < nat (g_output_msg_count_keep d)")
    case True
    then show ?thesis using d' assms(2,3) i(2) by (simp add: clean_answer_def upt_conv_Cons)
  next
    case False
    then show ?thesis by (simp only: clean_answer_def not_less upt_conv_Nil list.pred_inject)
  qed
qed

lemma post_process_clean: "cpost (\<lambda>(r, fd'). r > 0 \<longrightarrow> clean_answer d) (post_process_fastboot step os d fd)"
proof (induction step os d fd rule: post_process_fastboot.induct)
  case (1 step os d fd)
  show ?case
  proof (cases "pop_fastboot_output_msg d")
    case (Inl e)
    then show ?thesis by (subst post_process_fastboot.simps) simp
  next
    case (Inr r)
    show ?thesis
    proof (cases r)
      case None
      then have "g_output_msg_count d = 0" using Inr by (auto simp: pop_fastboot_output_msg_def Let_def split: if_splits)
      then show ?thesis using Inr None by (subst post_process_fastboot.simps) (simp add: clean_answer_def)
    next
      case (Some x)
      obtain msg d' where x: "x = (msg, d')" by (cases x)
      note pop = Inr [unfolded Some x]
      have clean: "clean_answer d" if "clean_answer d'" "strstr msg ''FAILED'' = None" using pop_clean [OF pop] that by blast
      have rest: "cpost (\<lambda>(r, fd'). r > 0 \<longrightarrow> clean_answer d) (post_process_fastboot step os' d' fd')"
        if "strcpy_cap FAST_BOOT_RETURN_STR_LEN msg = Inr line" "strstr line ''FAILED'' = None" for os' fd' line
      proof -
        have "line = msg" using that(1) by (auto simp: strcpy_cap_def split: if_splits)
        with that have "cpost (\<lambda>(r, fd'). r > 0 \<longrightarrow> clean_answer d') (post_process_fastboot step os' d' fd')"
          using "1.IH" [OF Inr Some x [symmetric]] by (cases os') auto
        then show ?thesis by (rule cpost_weaken) (use that \<open>line = msg\<close> clean in auto)
      qed
      show ?thesis
        by (subst post_process_fastboot.simps, simp only: pop sum.case option.case prod.case, rule cpost_cbind_any, rule cpost_ifI)
          (simp, rule cpost_cbind_any, simp only: split_paired_all prod.case not_not, rule rest)
    qed
  qed
qed

definition run_ok :: "int \<Rightarrow> fastboot \<Rightarrow> fastboot \<Rightarrow> bool" where
  "run_ok r fb fb' \<longleftrightarrow> (\<exists>used. fb_script fb = used @ fb_script fb' \<and> fb_stale fb' = fb_stale fb
     \<and> (r > 0 \<longrightarrow> (\<forall>d. Some d \<in> set used \<longrightarrow> clean_answer d)))"

lemma run_ok_refl [simp]: "run_ok r fb fb"
  by (simp add: run_ok_def)

lemma run_ok_trans: "run_ok r fb fb1 \<Longrightarrow> r > 0 \<Longrightarrow> run_ok r' fb1 fb2 \<Longrightarrow> run_ok r' fb fb2"
  unfolding run_ok_def by (metis Un_iff append_assoc set_append)

lemma send_command_ok: "cpost (\<lambda>(r, fd', fb'). run_ok r fb fb') (fastboot_send_command_v3 os c a1 a2 step (fd, fb))"
proof -
  have "cpost (\<lambda>(r, fd', fb'). run_ok r fb fb') (cbind (post_process_fastboot step os d fd) (\<lambda>(r, fd'). Inr (r, fd', fb1)))"
    if "next_answer (fb\<lparr>fb_cmds := cs\<rparr>) = (d, fb1)" for d fb1 cs
  proof (rule cpost_cbindI [OF post_process_clean], clarify)
    fix r :: int and fd' assume "r > 0 \<longrightarrow> clean_answer d"
    with that have "run_ok r fb fb1" by (auto simp: next_answer_def run_ok_def split: list.splits option.splits)
    then show "cpost (\<lambda>(r, fd', fb'). run_ok r fb fb') (Inr (r, fd', fb1))" by simp
  qed
  then show ?thesis by (simp add: fastboot_send_command_v3_def Let_def split: prod.split)
qed

lemma run_ok_after:
  assumes "cpost (\<lambda>(r', fd', fb', w'). run_ok r' fb1 fb') m" "run_ok r fb fb1" "r > 0"
  shows "cpost (\<lambda>(r', fd', fb', w'). run_ok r' fb fb') m"
  using assms(1) by (rule cpost_weaken) (use run_ok_trans [OF assms(2,3)] in auto)

lemma run_ok_stop: "run_ok r fb fb' \<Longrightarrow> run_ok 0 fb fb'"
  by (auto simp: run_ok_def)

lemma flash_partitions_ok:
  "r > 0 \<Longrightarrow> cpost (\<lambda>(r', fd', fb', w'). run_ok r' fb fb') (flash_partitions os img n c r (fd, fb, w))"
proof (induction n arbitrary: c r fd fb w)
  case (Suc n)
  have rest: "cpost (\<lambda>(r', fd', fb', w'). run_ok r' fb fb')
      (if r1 \<le> 0 then Inr (r1, fd2, fb1, w1) else flash_partitions os img n c' r1 (fd2, fb1, w1))"
    if "run_ok r1 fb fb1" for r1 fd2 fb1 w1 c'
    using that by (auto intro: run_ok_after [OF Suc.IH])
  show ?case
    by (auto intro!: cpost_cbind_any cpost_cbindI [OF send_command_ok] rest simp: Let_def)
qed simp

lemma flash_file_ok: "cpost (\<lambda>(stop, r, fd', fb', w'). run_ok r fb fb') (flash_file os img pc (fd, fb, w))"
proof -
  have rest: "cpost (\<lambda>(stop, r, fd', fb', w'). run_ok r fb fb')
      (cbind (m r2 fd2 w2) (\<lambda>w3. Inr (False, r2, fd2, fb2, w3)))"
    if "run_ok r2 fb fb2" for m :: "int \<Rightarrow> fdtl \<Rightarrow> fs \<Rightarrow> fs cres" and r2 fd2 fb2 w2
    using that by (auto intro!: cpost_cbind_any)
  have parts: "cpost (\<lambda>(r', fd', fb', w'). run_ok r' fb fb')
      (if b \<and> r1 > 0 then flash_partitions os img n 0 r1 (fd1, fb1, w1) else Inr (r1, fd1, fb1, w1))"
    if "run_ok r1 fb fb1" for r1 fd1 fb1 w1 n b
    using that by (auto intro: run_ok_after [OF flash_partitions_ok])
  show ?thesis
    unfolding flash_file_def Let_def
    by (auto intro!: cpost_cbindI [OF send_command_ok] cpost_cbindI [OF parts] rest split: prod.split)
qed

lemma flash_files_ok:
  "cpost (\<lambda>(stop, r, fd', fb', w'). run_ok r fb fb') (flash_files os imgs pc r0 (fd, fb, w))"
proof (induction imgs arbitrary: pc r0 fd fb w)
  case (Cons img imgs)
  have rest: "cpost (\<lambda>(stop, r, fd', fb', w'). run_ok r fb fb') (flash_files os imgs pc' r1 (fd1, fb1, w1))"
    if "run_ok r1 fb fb1" "r1 > 0" for pc' r1 fd1 fb1 w1
    by (rule cpost_weaken [OF Cons.IH]) (use run_ok_trans [OF that] in auto)
  show ?case
    unfolding flash_files.simps
    by (rule cpost_cbindI [OF flash_file_ok]) (auto intro!: rest elim: run_ok_stop simp: not_le)
qed simp

lemma flash_process_ok: "cpost (\<lambda>(r, fd', fb', w'). run_ok r fb fb') (fastboot_flash_process_v2 os imgs (fd, fb, w))"
proof -
  have last: "cpost (\<lambda>(r', fd', fb'). run_ok r' fb fb')
      (if b \<and> r1 > 0 then fastboot_send_command_v3 os c a1 a2 step (fd1, fb1) else Inr (r1, fd1, fb1))"
    if "run_ok r1 fb fb1" for b r1 fd1 fb1 c a1 a2 step
    using that run_ok_trans [OF that] by (auto intro: cpost_weaken [OF send_command_ok])
  show ?thesis
    unfolding fastboot_flash_process_v2_def Let_def
    by (simp only: prod.case, rule cpost_cbindI [OF flash_files_ok], clarify, rule cpost_ifI)
      (auto intro: run_ok_stop intro!: cpost_cbindI [OF last] split del: if_split)
qed

text \<open>Success means that nothing failed. Whatever the images, the state of the files and the answers of
  the boot loader, when \<^verbatim>\<open>fastboot_flash_process_v2\<close> returns a positive value then no message that the
  boot loader gave to any command of the run contains \<^verbatim>\<open>FAILED\<close>.
\<close>

theorem flash_success_clean:
  assumes "fastboot_flash_process_v2 os imgs (fd, fb, w) = Inr (r, fd', fb', w')" and "r > 0"
  shows "\<exists>used. fb_script fb = used @ fb_script fb' \<and> (\<forall>d. Some d \<in> set used \<longrightarrow> clean_answer d)"
  using cpostD [OF flash_process_ok assms(1)] assms(2) by (auto simp: run_ok_def)

lemma no_message_post: "g_output_msg_count d = 0 \<Longrightarrow> post_process_fastboot step os d fd = Inr (1, fd)"
  by (subst post_process_fastboot.simps) (simp add: pop_fastboot_output_msg_def)

definition example_fd :: fdtl where
  "example_fd = \<lparr>fd_serial_number = ''S1'', fd_first_temp_file_name = ''F'', fd_image_temp_file_name = ''I'',
     fd_pri_temp_file_name = ''P'', fd_total_image_count = 0, fd_fw_image_count = 0, fd_oem_image_count = 0,
     fd_partition_name = replicate 101 (zeroed 16), fd_image_offset = replicate 101 0, fd_image_size = replicate 101 0,
     fd_pri_offset = replicate 100 0, fd_pri_size = replicate 100 0, fd_pri_count = 0, fd_modem_port = [], fd_model_name = [],
     fd_state = 0, fd_device_idx = 0, fd_unlock_key = 0, fd_update_oem_pri = 0, fd_total_device_count = 1,
     fd_prefix_string = [], fd_error_code = 0\<rparr>"

definition example_files :: fs where
  "example_files = \<lparr>files = (\<lambda>_. None)(''A.dfw'' \<mapsto> replicate 1024 (CHR ''x'')), can_read = (\<lambda>_. True), can_write = (\<lambda>_. True)\<rparr>"

theorem flash_success_clean_witness:
  "\<exists>fd' fb' w'. fastboot_flash_process_v2 (0, 0) [''A.dfw'']
       (example_fd, \<lparr>fb_script = [Some (answers [''OKAY''])], fb_stale = answers [''FAILED''], fb_cmds = []\<rparr>, example_files)
     = Inr (1, fd', fb', w') \<and> fb_script fb' = []
     \<and> (\<exists>used. [Some (answers [''OKAY''])] = used @ fb_script fb' \<and> (\<forall>d. Some d \<in> set used \<longrightarrow> clean_answer d))"
proof -
  let ?fb = "\<lparr>fb_script = [Some (answers [''OKAY''])], fb_stale = answers [''FAILED''], fb_cmds = []\<rparr>"
  have post: "post_process_fastboot FASTBOOT_SOP_HDR (0, 0) (answers [''OKAY'']) fd = Inr (1, fd)" for fd
    by (subst post_process_fastboot.simps)
      (simp add: no_message_post pop_fastboot_output_msg_def answers_def FB_MAX_INFO_COUNT_def strcpy_cap_def FAST_BOOT_RETURN_STR_LEN_def header_line_def strstr.simps)
  obtain fd' fb' w' where run: "fastboot_flash_process_v2 (0, 0) [''A.dfw''] (example_fd, ?fb, example_files) = Inr (1, fd', fb', w')"
    "fb_script fb' = []"
    by (simp add: fastboot_flash_process_v2_def flash_file_def start_flash_image_file_def fopen_r_def example_files_def HEADER_BUF_SIZE_def
        fastboot_send_command_v3_def next_answer_def post example_fd_def)
  with flash_success_clean [OF run(1)] show ?thesis by auto
qed

text \<open>A FAILED message is never lost. For the commands other than the header, an answer of at most
  sixteen messages that fit the buffer gives -1 exactly when one of them contains \<^verbatim>\<open>FAILED\<close>, and 1
  otherwise; the other commands change nothing in the transfer data.
\<close>

theorem fastboot_verdict:
  assumes "length msgs \<le> FB_MAX_INFO_COUNT" and "\<forall>m \<in> set msgs. length m < FAST_BOOT_RETURN_STR_LEN"
    and "step \<noteq> FASTBOOT_SOP_HDR" and "fb_script fb = Some (answers msgs) # rest"
  shows "fastboot_send_command_v3 os c a1 a2 step (fd, fb) =
    Inr (if \<exists>m \<in> set msgs. strstr m ''FAILED'' \<noteq> None then -1 else 1, fd,
         fb\<lparr>fb_cmds := fb_cmds fb @ [(c, a1, a2)], fb_script := rest\<rparr>)"
proof -
  have "answers msgs = (answers msgs)\<lparr>g_output_msg_count := int (length msgs - 0)\<rparr>" by (simp add: answers_def)
  then have "post_process_fastboot step os (answers msgs) fd = Inr (if \<exists>m \<in> set msgs. strstr m ''FAILED'' \<noteq> None then -1 else 1, fd)"
    using verdict_from [OF assms(1-3), of 0 os fd] by simp
  then show ?thesis using assms(4) by (simp add: fastboot_send_command_v3_def next_answer_def)
qed

theorem fastboot_verdict_witness:
  "fastboot_send_command_v3 (0, 0) FASTBOOT_FLASH_COMMAND ''capri_c'' ''P'' FASTBOOT_FLASH_PRI
     (example_fd, \<lparr>fb_script = [Some (answers [''Sending'', ''FAILED (x)''])], fb_stale = answers [], fb_cmds = []\<rparr>)
   = Inr (-1, example_fd, \<lparr>fb_script = [], fb_stale = answers [], fb_cmds = [(FASTBOOT_FLASH_COMMAND, ''capri_c'', ''P'')]\<rparr>)"
  by (subst fastboot_verdict [of "[''Sending'', ''FAILED (x)'']" FASTBOOT_FLASH_PRI _ "[]"])
    (simp_all add: FB_MAX_INFO_COUNT_def FAST_BOOT_RETURN_STR_LEN_def strstr.simps)

text \<open>C32: the temporary image is the slice that the header names. When both files can be opened, the
  block-wise copy leaves in the temporary file exactly the bytes from \<open>offset\<close> on, at most \<open>sz\<close> of them,
  behind the old content for a carrier image, and returns 1 exactly when the image file holds all of them.
\<close>

theorem write_temp_image_file_slice:
  assumes "fopen_r w img = Some bs" and "can_write w temp"
  shows "write_temp_image_file img offset sz pri temp w =
    (if sz \<le> int (length bs - nat offset) then 1 else -5,
     write_file temp ((if pri then case files w temp of None \<Rightarrow> [] | Some t \<Rightarrow> t else []) @ take (nat sz) (drop (nat offset) bs)) w)"
  using assms by (simp add: write_temp_image_file_def copy_blocks_slice)

theorem write_temp_image_file_slice_witness:
  "write_temp_image_file ''A.dfw'' 1000 20 False ''I'' example_files
     = (1, write_file ''I'' (replicate 20 (CHR ''x'')) example_files)
   \<and> write_temp_image_file ''A.dfw'' 1000 30 False ''I'' example_files
     = (-5, write_file ''I'' (replicate 24 (CHR ''x'')) example_files)"
  by (subst (1 2) write_temp_image_file_slice [of _ _ "replicate 1024 (CHR ''x'')"])
    (simp_all add: example_files_def fopen_r_def)

text \<open>C31: the bookkeeping of the header stays inside its arrays. From counters and arrays as the download
  starts with them, whatever lines the boot loader answers with, no array index is out of range, and the
  invariant holds again afterwards; in particular the sum of the firmware and OEM images is the total.
\<close>

theorem header_bookkeeping_safe:
  assumes "fd_inv fd" and "fb_script fb = Some (answers msgs) # rest" and "length msgs \<le> 16"
  shows "fastboot_send_command_v3 os c a1 a2 step (fd, fb) \<noteq> Inl OutOfBounds
    \<and> cpost (\<lambda>(r, fd', fb'). fd_inv fd') (fastboot_send_command_v3 os c a1 a2 step (fd, fb))"
proof -
  have "post_process_fastboot step os (answers msgs) fd \<noteq> Inl OutOfBounds
      \<and> cpost (\<lambda>(r, fd'). fd_inv fd') (post_process_fastboot step os (answers msgs) fd)"
    by (rule post_process_safe) (use assms in \<open>simp_all add: answers_def\<close>)
  then show ?thesis using assms(2)
    by (cases "post_process_fastboot step os (answers msgs) fd") (auto simp: fastboot_send_command_v3_def next_answer_def)
qed

theorem header_bookkeeping_safe_witness:
  "cpost (\<lambda>(r, fd', fb'). fd_inv fd') (fastboot_send_command_v3 (0, 0) FASTBOOT_FLASH_COMMAND ''sop-hdr'' ''F'' FASTBOOT_SOP_HDR
     (example_fd, \<lparr>fb_script = [Some (answers [''(bootloader) slot_x_c:0x006F:0x5252828''])], fb_stale = answers [], fb_cmds = []\<rparr>))"
proof -
  have "fd_inv example_fd" by (simp add: fd_inv_def example_fd_def list_all_length zeroed_def)
  from header_bookkeeping_safe [OF this, of _ "[''(bootloader) slot_x_c:0x006F:0x5252828'']"] show ?thesis by simp
qed

definition readable :: "string \<Rightarrow> fs \<Rightarrow> bool" where
  "readable img w \<longleftrightarrow> (case fopen_r w img of None \<Rightarrow> False | Some bs \<Rightarrow> HEADER_BUF_SIZE \<le> length bs)"

lemma start_flash_readable:
  assumes "readable img w" "can_write w temp"
  shows "start_flash_image_file img temp w = (1, write_file temp (take HEADER_BUF_SIZE (the (files w img))) w)"
  using assms by (auto simp: readable_def start_flash_image_file_def fopen_r_def split: option.splits if_splits)

end
