(* ===== verification/Fw_Update.thy ===== *)
theory Fw_Update
  imports Fb_Programming Core
begin

text \<open>
  The updater, part four: the update of a USB module from start to end, \<^verbatim>\<open>start_update_process\<close>,
  \<^verbatim>\<open>download_process\<close> and what \<^verbatim>\<open>main\<close> does before them. The record \<open>upd\<close> puts the globals of the updater
  (\<open>fwu\<close>) beside the transfer data, the fastboot device and the outcomes of the polls: whether the
  download port is there, what \<^verbatim>\<open>ls\<close> prints for the port of the module, the result of \<^verbatim>\<open>unzip\<close>.
  Progress dialogs are left out, and with them the parameter \<^verbatim>\<open>is_startup\<close>, which only selects them. While
  the thread sleeps the message thread may handle messages: \<open>u_pause\<close> takes an entry of the script like a
  wait does. The globals \<^verbatim>\<open>g_set_pref_version\<close>, \<^verbatim>\<open>g_download_from_fastboot_directly\<close> and
  \<^verbatim>\<open>g_fb_installed\<close> are 0 throughout, since only the unused function \<^verbatim>\<open>setup_parameter\<close> sets them.
\<close>

section \<open>State\<close>

record upd =
  up_fwu :: fwu
  up_fd :: fdtl
  up_fb :: fastboot
  up_fastboot_port :: "bool list"
  up_ls :: "string option list"

text \<open>
  The initial values of uninitialised variables: the offset and size of \<^verbatim>\<open>post_process_fastboot\<close>, the
  counters of \<^verbatim>\<open>post_message_queue_action\<close>, the arrays of \<^verbatim>\<open>setup_download_parameter\<close> and of the query of
  the module's version.
\<close>

record djunk =
  dj_u :: ujunk
  dj_os :: "int \<times> int"
  dj_retry_sn :: int
  dj_retry_imei :: int
  dj_sar :: cbuf
  dj_key :: string
  dj_cmd :: string

datatype flow = Continue | Return int | Exited

definition DOWNLOAD_START :: int where "DOWNLOAD_START = 2"
definition DOWNLOAD_FASTBOOT_START :: int where "DOWNLOAD_FASTBOOT_START = 3"
definition DOWNLOAD_FASTBOOT_END :: int where "DOWNLOAD_FASTBOOT_END = 4"
definition DOWNLOAD_COMPLETED :: int where "DOWNLOAD_COMPLETED = 5"
definition DOWNLOAD_FAILED :: int where "DOWNLOAD_FAILED = 6"
definition DOWNLOAD_PARAMETER_PARSING_FAILED :: int where "DOWNLOAD_PARAMETER_PARSING_FAILED = -1"
definition SWITCHING_TO_DOWNLOAD_MODE_FAILED :: int where "SWITCHING_TO_DOWNLOAD_MODE_FAILED = -3"
definition FASTBOOT_COMMAND_FAILED :: int where "FASTBOOT_COMMAND_FAILED = -4"
definition FASTBOOT_FLASHING_FAILED :: int where "FASTBOOT_FLASHING_FAILED = -6"
definition MODEM_PORT_OPENING_FAILS_AFTER_FIRMWARE_DOWNLOAD :: int where
  "MODEM_PORT_OPENING_FAILS_AFTER_FIRMWARE_DOWNLOAD = -8"
definition FW_UPDATE_RETRY_TH :: int where "FW_UPDATE_RETRY_TH = 1"
definition UPDATE_FW_ZIP_FILE :: string where "UPDATE_FW_ZIP_FILE = ''/opt/pwl/firmware/FwPackage.zip''"

lemmas download_codes = DOWNLOAD_PARAMETER_PARSING_FAILED_def SWITCHING_TO_DOWNLOAD_MODE_FAILED_def
  FASTBOOT_COMMAND_FAILED_def FASTBOOT_FLASHING_FAILED_def MODEM_PORT_OPENING_FAILS_AFTER_FIRMWARE_DOWNLOAD_def

lemmas download_states = DOWNLOAD_START_def DOWNLOAD_FASTBOOT_START_def DOWNLOAD_FASTBOOT_END_def
  DOWNLOAD_COMPLETED_def DOWNLOAD_FAILED_def DOWNLOAD_INIT_def

section \<open>Pauses and polls\<close>

definition u_pause :: "ujunk \<Rightarrow> fwu \<Rightarrow> fwu cres" where
  "u_pause j st = cbind (u_timedwait j G_COND st) (\<lambda>(_, s). Inr s)"

text \<open>The loop that waits for the download port; a poll behind the end of the list finds nothing.\<close>

fun wait_fastboot_port :: "nat \<Rightarrow> upd \<Rightarrow> bool \<times> upd" where
  "wait_fastboot_port 0 x = (False, x)"
| "wait_fastboot_port (Suc n) x =
     (case up_fastboot_port x of
        [] \<Rightarrow> wait_fastboot_port n x
      | b # bs \<Rightarrow> let x' = x\<lparr>up_fastboot_port := bs\<rparr> in if b then (True, x') else wait_fastboot_port n x')"

definition check_modem_download_port :: "string \<Rightarrow> upd \<Rightarrow> (bool \<times> upd) cres" where
  "check_modem_download_port modem_usb_port x =
     cbind (strcpy_cap 128 (''ls '' @ modem_usb_port @ '' 2>&1'')) (\<lambda>_.
       case up_ls x of
         [] \<Rightarrow> Inr (False, x)
       | line # rest \<Rightarrow>
           let x' = x\<lparr>up_ls := rest\<rparr>
           in (case line of
                 None \<Rightarrow> Inr (False, x')
               | Some out \<Rightarrow>
                   if strstr out ''cannot access'' = None
                   then cbind (strcpy_cap FDTL_MAX_PATH out) (\<lambda>p.
                          Inr (True, x'\<lparr>up_fwu := (up_fwu x')\<lparr>u_diag_modem_port := p\<rparr>\<rparr>))
                   else Inr (False, x')))"

text \<open>\<open>n\<close> is \<^verbatim>\<open>update_count_down\<close>; the last thirty rounds only wait.\<close>

fun waiting_modem_download_port :: "nat \<Rightarrow> upd \<Rightarrow> (nat \<times> upd) cres" where
  "waiting_modem_download_port 0 x = Inr (0, x)"
| "waiting_modem_download_port (Suc n) x =
     (if 30 < Suc n
      then cbind (check_modem_download_port (fd_modem_port (up_fd x)) x) (\<lambda>(found, x').
             if found then Inr (Suc n, x') else waiting_modem_download_port n x')
      else waiting_modem_download_port n x)"

section \<open>Steps of the download\<close>

definition set_state :: "int \<Rightarrow> upd \<Rightarrow> upd" where
  "set_state s x = x\<lparr>up_fd := (up_fd x)\<lparr>fd_state := s\<rparr>\<rparr>"

definition fail_download :: "int \<Rightarrow> upd \<Rightarrow> int \<times> upd" where
  "fail_download e x = (e, x\<lparr>up_fd := (up_fd x)\<lparr>fd_state := DOWNLOAD_FAILED, fd_error_code := e\<rparr>\<rparr>)"

definition command :: "djunk \<Rightarrow> fb_command \<Rightarrow> string \<Rightarrow> string \<Rightarrow> flash_step \<Rightarrow> upd \<Rightarrow> (int \<times> upd) cres" where
  "command j exe_case argv1 argv2 step x =
     cbind (fastboot_send_command_v3 (dj_os j) exe_case argv1 argv2 step (up_fd x, up_fb x)) (\<lambda>(r, fd, fb).
       Inr (r, x\<lparr>up_fd := fd, up_fb := fb\<rparr>))"

definition reboot :: "djunk \<Rightarrow> upd \<Rightarrow> upd cres" where
  "reboot j x = cbind (command j FASTBOOT_REBOOT_COMMAND [] [] FASTBOOT_IGNORE x) (\<lambda>(_, x'). Inr x')"

definition switch_to_fastboot :: "djunk \<Rightarrow> upd \<Rightarrow> (bool \<times> upd) cres" where
  "switch_to_fastboot j x =
     cbind (u_pause (dj_u j) (u_send_message_queue (dj_u j) PWL_CID_SWITCH_TO_FASTBOOT
              ((up_fwu x)\<lparr>u_is_fastboot_cmd_error := False\<rparr>))) (\<lambda>st.
       Inr (\<not> u_is_fastboot_cmd_error st, x\<lparr>up_fwu := st\<lparr>u_is_fastboot_cmd_error := False\<rparr>\<rparr>))"

definition unlock_device :: "djunk \<Rightarrow> upd \<Rightarrow> (int \<times> upd) cres" where
  "unlock_device j x =
     cbind (command j FASTBOOT_FLASH_COMMAND ''frp-unlock'' (u_authenticate_key_file_name (up_fwu x)) FASTBOOT_FRP_UNLOCK_KEY x) (\<lambda>(r, x1).
     cbind (if r > 0 then command j FASTBOOT_FLASHING_COMMAND ''unlock'' [] FASTBOOT_FRP_UNLOCK_KEY x1 else Inr (r, x1)) (\<lambda>(r2, x2).
       Inr (r2, if r2 > 0 then x2\<lparr>up_fd := (up_fd x2)\<lparr>fd_unlock_key := 1\<rparr>\<rparr> else x2)))"

definition flash_images :: "djunk \<Rightarrow> upd \<Rightarrow> (int \<times> upd) cres" where
  "flash_images j x =
     (let st = up_fwu x
      in cbind (fastboot_flash_process_v2 (dj_os j) (take (nat (u_image_file_count st)) (u_image_file_list st))
                  (up_fd x, up_fb x, u_fs st)) (\<lambda>(r, fd, fb, w).
           Inr (r, x\<lparr>up_fd := fd, up_fb := fb, up_fwu := st\<lparr>u_fs := w\<rparr>\<rparr>)))"

section \<open>After the download\<close>

definition restart_text :: "bool \<Rightarrow> fwu \<Rightarrow> string" where
  "restart_text efs_recovery_mode st =
     (if u_has_update_include_oem_img st then (if efs_recovery_mode then ''RECOVERY'' else ''TRUE'') else ''FALSE'')"

definition restart_madpt :: "djunk \<Rightarrow> bool \<Rightarrow> fwu \<Rightarrow> fwu cres" where
  "restart_madpt j efs_recovery_mode st =
     cbind (u_send_message_queue_with_content (dj_u j) PWL_CID_MADPT_RESTART (restart_text efs_recovery_mode st) st) (\<lambda>s.
     cbind (u_madpt_wait (dj_u j) s) (\<lambda>(_, s'). Inr s'))"

definition restore_sn_imei :: "djunk \<Rightarrow> fwu \<Rightarrow> fwu cres" where
  "restore_sn_imei j st =
     cbind (post_message_queue_action (dj_u j) (dj_retry_sn j) MESSAGE_QUEUE_ACTION_RESTORE_SN st) (\<lambda>(_, s).
     cbind (post_message_queue_action (dj_u j) (dj_retry_imei j) MESSAGE_QUEUE_ACTION_RESTORE_IMEI s) (\<lambda>(_, s'). Inr s'))"

definition finish_download :: "djunk \<Rightarrow> bool \<Rightarrow> fwu \<Rightarrow> fwu cres" where
  "finish_download j efs_recovery_mode st =
     cbind (restart_madpt j efs_recovery_mode st) (\<lambda>s1.
     cbind (if \<not> efs_recovery_mode then cbind (u_set_preferred_carrier (dj_u j) s1) (\<lambda>(_, s). Inr s) else Inr s1) (\<lambda>s2.
     cbind (if u_testprofile_delete_done s2 = 2 then set_delete_done 0 s2 else Inr s2) (\<lambda>s3.
     cbind (if efs_recovery_mode then restore_sn_imei j s3 else Inr s3) (\<lambda>s4.
     cbind (if u_has_update_include_oem_img s4
            then cbind (u_pause (dj_u j) s4) (\<lambda>s. cbind (set_oem_pri_version (dj_u j) s) (\<lambda>(_, s'). Inr s'))
            else Inr s4) (\<lambda>s5.
     cbind (u_pause (dj_u j) (u_send_message_queue (dj_u j) PWL_CID_UPDATE_FW_VER s5)) (\<lambda>s6.
     cbind (get_ati_info (dj_u j) s6) (\<lambda>(_, s7). Inr s7)))))))"

section \<open>download_process\<close>

definition flash_device :: "djunk \<Rightarrow> upd \<Rightarrow> (int \<times> upd) cres" where
  "flash_device j x =
     cbind (unlock_device j (set_state DOWNLOAD_FASTBOOT_START x)) (\<lambda>(r1, x1).
     if r1 \<le> 0 then cbind (reboot j x1) (\<lambda>x2. Inr (fail_download FASTBOOT_COMMAND_FAILED x2))
     else cbind (flash_images j x1) (\<lambda>(r2, x2).
          if r2 \<le> 0 then cbind (reboot j x2) (\<lambda>x3. Inr (fail_download FASTBOOT_FLASHING_FAILED x3))
          else cbind (command j FASTBOOT_OEM_COMMAND ''boot-flag'' ''9'' FASTBOOT_IGNORE x2) (\<lambda>(_, x3).
               cbind (reboot j x3) (\<lambda>x4. Inr (1, set_state DOWNLOAD_FASTBOOT_END x4)))))"

definition boot_device :: "djunk \<Rightarrow> bool \<Rightarrow> upd \<Rightarrow> (int \<times> upd) cres" where
  "boot_device j efs_recovery_mode x =
     cbind (waiting_modem_download_port 300 x) (\<lambda>(n, x1).
     if n = 0 then Inr (fail_download MODEM_PORT_OPENING_FAILS_AFTER_FIRMWARE_DOWNLOAD x1)
     else cbind (finish_download j efs_recovery_mode (up_fwu x1)) (\<lambda>st.
            Inr (1, x1\<lparr>up_fwu := st, up_fd := (up_fd x1)\<lparr>fd_state := DOWNLOAD_COMPLETED, fd_error_code := 1\<rparr>\<rparr>)))"

definition download_process :: "djunk \<Rightarrow> bool \<Rightarrow> upd \<Rightarrow> (int \<times> upd) cres" where
  "download_process j efs_recovery_mode x0 =
     (let x = x0\<lparr>up_fd := (up_fd x0)\<lparr>fd_state := DOWNLOAD_START, fd_serial_number := []\<rparr>\<rparr>
      in cbind (switch_to_fastboot j x) (\<lambda>(ok, x1).
         if \<not> ok then Inr (SWITCHING_TO_DOWNLOAD_MODE_FAILED, x1)
         else let (found, x2) = wait_fastboot_port 60 (x1\<lparr>up_fd := setup_temp_file_name (up_fd x1)\<rparr>)
              in if \<not> found then Inr (fail_download SWITCHING_TO_DOWNLOAD_MODE_FAILED x2)
                 else cbind (flash_device j x2) (\<lambda>(r, x3).
                        if r \<le> 0 then Inr (r, x3) else boot_device j efs_recovery_mode x3)))"

section \<open>start_update_process\<close>

definition load_esim_status :: "ujunk \<Rightarrow> fwu \<Rightarrow> fwu cres" where
  "load_esim_status j st =
     (let (r, w) = esim_profile_remove_status_init (u_fs st); s = st\<lparr>u_fs := w\<rparr>
      in if r = 0
         then cbind (read_into (get_esim_profile_remove_status_value (uj_stack j) ESIM_TESTPROFILE_DELETE_COUNTER w)
                       (u_testprofile_delete_counter s)) (\<lambda>c.
              cbind (read_into (get_esim_profile_remove_status_value (uj_stack j) ESIM_TESTPROFILE_DELETE_DONE w)
                       (u_testprofile_delete_done s)) (\<lambda>d.
                Inr (s\<lparr>u_testprofile_delete_counter := c, u_testprofile_delete_done := d\<rparr>)))
         else Inr s)"

definition load_update_status :: "ujunk \<Rightarrow> fwu \<Rightarrow> fwu cres" where
  "load_update_status j st =
     (let (r, w) = fw_update_status_init (u_fs st); s = st\<lparr>u_fs := w\<rparr>
      in if r = 0
         then cbind (read_into (get_fw_update_status_value (uj_stack j) FW_UPDATE_RETRY_COUNT w) (u_fw_update_retry_count s)) (\<lambda>a.
              cbind (read_into (get_fw_update_status_value (uj_stack j) DO_HW_RESET_COUNT w) (u_do_hw_reset_count s)) (\<lambda>b.
              cbind (read_into (get_fw_update_status_value (uj_stack j) NEED_RETRY_FW_UPDATE w) (u_need_retry_fw_update s)) (\<lambda>c.
                Inr (s\<lparr>u_fw_update_retry_count := a, u_do_hw_reset_count := b, u_need_retry_fw_update := c\<rparr>))))
         else Inr s)"

definition store_update_status :: "string \<Rightarrow> int \<Rightarrow> fwu \<Rightarrow> fwu cres" where
  "store_update_status key v st =
     cbind (set_fw_update_status_value key v (u_fs st)) (\<lambda>(_, w). Inr (st\<lparr>u_fs := w\<rparr>))"

text \<open>
  \<^verbatim>\<open>while (!g_is_get_fw_ver)\<close>: \<open>None\<close> when the version is still unknown after \<open>n\<close> rounds.
\<close>

fun await_fw_version :: "nat \<Rightarrow> ujunk \<Rightarrow> fwu \<Rightarrow> fwu option cres" where
  "await_fw_version 0 j st = Inr (if u_is_get_fw_ver st then Some st else None)"
| "await_fw_version (Suc n) j st =
     (if u_is_get_fw_ver st then Inr (Some st)
      else cbind (u_pause j (u_send_message_queue j PWL_CID_UPDATE_FW_VER st)) (\<lambda>s1.
           cbind (get_current_fw_version j s1) (\<lambda>(_, s2).
           cbind (u_pause j s2) (await_fw_version n j))))"

text \<open>A step that gives up the update with -1 when its result is bad.\<close>

definition or_abort :: "bool \<Rightarrow> fwu \<Rightarrow> (fwu \<Rightarrow> (flow \<times> fwu) cres) \<Rightarrow> (flow \<times> fwu) cres" where
  "or_abort good st rest = (if good then rest st else Inr (Return (-1), st))"

definition setup_jp_fcc :: "ujunk \<Rightarrow> fwu \<Rightarrow> fwu cres" where
  "setup_jp_fcc j st =
     cbind (store_update_status JP_FCC_CONFIG_COUNT 1 st) (\<lambda>s1.
     cbind (u_cond_wait j (u_send_message_queue j PWL_CID_SETUP_JP_FCC_CONFIG s1)) (\<lambda>(_, s2). Inr s2))"

definition choose_carrier :: "ujunk \<Rightarrow> fwu \<Rightarrow> (int \<times> fwu) cres" where
  "choose_carrier j st =
     cbind (u_get_sim_carrier j st) (\<lambda>(r, s).
     cbind (if r \<noteq> 0 then Inr True
            else cbind (cstr (u_pref_carrier s)) (\<lambda>c. Inr (strcasecmp_eq c PWL_UNKNOWN_SIM_CARRIER))) (\<lambda>need.
       if need then u_get_preferred_carrier j s else Inr (0, s)))"

definition decide_update :: "ujunk \<Rightarrow> fwu \<Rightarrow> (flow \<times> fwu) cres" where
  "decide_update j st =
     cbind (check_if_need_update j st) (\<lambda>(up_to_date, s).
       if up_to_date then Inr (Return (-1), s)
       else if u_testprofile_delete_done s = 0
       then cbind (check_esim_test_profile_process j s) (\<lambda>(_, s').
              Inr (if u_exited s' then Exited else Continue, s'))
       else Inr (Continue, s))"

definition select_update :: "shell \<Rightarrow> djunk \<Rightarrow> fwu \<Rightarrow> (flow \<times> fwu) cres" where
  "select_update sh dj st =
     (let j = dj_u dj
      in cbind (is_iot_module_fw sh (dj_cmd dj) (u_dev st)) (\<lambda>(iot_fw, d).
         or_abort (iot_fw = is_iot_ssid d) (st\<lparr>u_dev := d\<rparr>) (\<lambda>s0.
         cbind (setup_jp_fcc j s0) (\<lambda>s1.
         cbind (get_current_fw_version j s1) (\<lambda>(r2, s2). or_abort (r2 = 0) s2 (\<lambda>s2.
         cbind (get_oem_pri_version j s2) (\<lambda>(r3, s3). or_abort r3 s3 (\<lambda>s3.
         cbind (prepare_update_images (s3\<lparr>u_has_update_include_fw_img := False\<rparr>)) (\<lambda>(r4, s4). or_abort (r4 = 0) s4 (\<lambda>s4.
         cbind (choose_carrier j s4) (\<lambda>(r5, s5). or_abort (r5 = 0) s5 (\<lambda>s5.
         cbind (get_sku_id j s5) (\<lambda>(r6, s6). or_abort (r6 = 0) s6 (\<lambda>s6.
           decide_update j s6))))))))))))))"

text \<open>The end of the function: what the result of the download leads to.\<close>

definition finish_update :: "int \<Rightarrow> fwu \<Rightarrow> (int \<times> fwu) cres" where
  "finish_update r st =
     (let gpio_reset = (r = SWITCHING_TO_DOWNLOAD_MODE_FAILED \<or> (r \<noteq> DOWNLOAD_PARAMETER_PARSING_FAILED \<and> r \<le> 0))
      in cbind (if gpio_reset
                then cbind (store_update_status NEED_RETRY_FW_UPDATE 1 st) (\<lambda>s. Inr (s\<lparr>u_gpio_resets := u_gpio_resets s + 1\<rparr>))
                else Inr st) (\<lambda>s.
           Inr (if r \<ge> 0 then 0 else r, s\<lparr>u_fs := remove_file (u_authenticate_key_file_name s) (u_fs s)\<rparr>)))"

definition run_download :: "djunk \<Rightarrow> bool \<Rightarrow> upd \<Rightarrow> (int \<times> upd) cres" where
  "run_download j efs_recovery_mode x =
     cbind (setup_download_parameter (dj_u j) (dj_sar j) (dj_key j) efs_recovery_mode (up_fd x) (up_fwu x)) (\<lambda>(r, fd, st).
       if r \<noteq> 0
       then cbind (store_update_status FW_UPDATE_RETRY_COUNT (u_fw_update_retry_count st + 1)
                     (st\<lparr>u_fw_update_retry_count := u_fw_update_retry_count st + 1\<rparr>)) (\<lambda>s.
              Inr (DOWNLOAD_PARAMETER_PARSING_FAILED, x\<lparr>up_fd := fd, up_fwu := s\<rparr>))
       else download_process j efs_recovery_mode (x\<lparr>up_fd := fd, up_fwu := st\<rparr>))"

text \<open>
  In recovery mode \<^verbatim>\<open>restart_madpt_and_fwupdate_service\<close> ends the process, so the result is not looked at.
\<close>

definition download_and_finish :: "djunk \<Rightarrow> bool \<Rightarrow> upd \<Rightarrow> (flow \<times> upd) cres" where
  "download_and_finish j efs_recovery_mode x =
     cbind (run_download j efs_recovery_mode x) (\<lambda>(r, x1).
       if efs_recovery_mode
       then cbind (restart_madpt_and_fwupdate_service (dj_u j) (up_fwu x1)) (\<lambda>s. Inr (Exited, x1\<lparr>up_fwu := s\<rparr>))
       else cbind (finish_update r (up_fwu x1)) (\<lambda>(r', s). Inr (Return r', x1\<lparr>up_fwu := s\<rparr>)))"

text \<open>
  \<^verbatim>\<open>start_update_process\<close>: \<open>None\<close> when the version of the module is not known after \<open>n\<close> rounds of the loop
  that waits for it.
\<close>

definition start_update_process :: "nat \<Rightarrow> shell \<Rightarrow> djunk \<Rightarrow> bool \<Rightarrow> upd \<Rightarrow> (flow \<times> upd) option cres" where
  "start_update_process n sh dj efs_recovery_mode x =
     (let j = dj_u dj; ret = (\<lambda>f s. Inr (Some (f, x\<lparr>up_fwu := s\<rparr>)))
      in cbind (load_esim_status j (up_fwu x)) (\<lambda>s1.
         cbind (if u_testprofile_delete_counter s1 \<noteq> 0
                then cbind (check_esim_test_profile_process j s1) (\<lambda>(_, s). Inr s) else Inr s1) (\<lambda>s2.
         if u_exited s2 then ret Exited s2
         else cbind (load_update_status j s2) (\<lambda>s3.
         if u_fw_update_retry_count s3 > FW_UPDATE_RETRY_TH \<or> u_do_hw_reset_count s3 > HW_RESET_RETRY_TH
         then ret (Return (-1)) s3
         else cbind (await_fw_version n j (s3\<lparr>u_is_get_fw_ver := False\<rparr>)) (\<lambda>v.
         case v of
           None \<Rightarrow> Inr None
         | Some s4 \<Rightarrow>
             cbind (if efs_recovery_mode then Inr (Continue, s4) else select_update sh dj s4) (\<lambda>(f, s5).
               case f of
                 Continue \<Rightarrow> cbind (download_and_finish dj efs_recovery_mode (x\<lparr>up_fwu := s5\<rparr>)) (\<lambda>y. Inr (Some y))
               | _ \<Rightarrow> ret f s5))))))"

section \<open>What starts an update\<close>

text \<open>One round of \<^verbatim>\<open>monitor_retry_func\<close>.\<close>

definition monitor_retry_func :: "nat \<Rightarrow> shell \<Rightarrow> djunk \<Rightarrow> upd \<Rightarrow> upd option cres" where
  "monitor_retry_func n sh dj x =
     (if u_retry_fw_update (up_fwu x)
      then cbind (start_update_process n sh dj False (x\<lparr>up_fwu := (up_fwu x)\<lparr>u_retry_fw_update := False\<rparr>\<rparr>)) (\<lambda>y.
             Inr (case y of None \<Rightarrow> None | Some (_, x') \<Rightarrow> Some x'))
      else Inr (Some x))"

text \<open>The results of \<^verbatim>\<open>system("unzip ...")\<close> are a list; behind its end the command fails.\<close>

fun unzip_rounds :: "nat \<Rightarrow> int list \<Rightarrow> int \<Rightarrow> int \<times> int list" where
  "unzip_rounds 0 rs ret = (ret, rs)"
| "unzip_rounds (Suc n) rs ret =
     (let (r, rs') = (case rs of [] \<Rightarrow> (1, []) | r # rs' \<Rightarrow> (r, rs'))
      in if r = 0 then (0, rs') else unzip_rounds n rs' r)"

definition extract_update_files :: "int list \<Rightarrow> fs \<Rightarrow> int \<times> int list" where
  "extract_update_files rs w =
     (case fopen_r w UPDATE_FW_ZIP_FILE of
        None \<Rightarrow> (-1, rs)
      | Some _ \<Rightarrow> unzip_rounds PWL_FW_UPDATE_RETRY_LIMIT rs (-1))"

text \<open>
  The check of \<^verbatim>\<open>main\<close> whether the file system of the module was erased: serial number or IMEI are missing
  in the identification text, and the backup has both. The three numbers are the initial values of the
  counter of \<^verbatim>\<open>post_message_queue_action\<close>.
\<close>

definition efs_check :: "ujunk \<Rightarrow> int \<times> int \<times> int \<Rightarrow> fwu \<Rightarrow> (bool \<times> fwu) cres" where
  "efs_check j rs st =
     (let (r1, r2, r3) = rs
      in cbind (post_message_queue_action j r1 MESSAGE_QUEUE_ACTION_GET_ATI_INFO st) (\<lambda>(a, s1).
         if a = 0
         then let (_, s2) = get_sn_and_imei s1
              in if length (u_sn s2) = 0 \<or> length (u_imei s2) = 0
                 then cbind (post_message_queue_action j r2 MESSAGE_QUEUE_ACTION_GET_BACKUP_SN_IMEI s2) (\<lambda>(_, s3).
                        Inr (\<not> (length (u_sn s3) = 0 \<or> length (u_imei s3) = 0), s3))
                 else cbind (post_message_queue_action j r3 MESSAGE_QUEUE_ACTION_BACKUP_SN_IMEI s2) (\<lambda>(_, s3). Inr (False, s3))
         else Inr (False, s1)))"

text \<open>
  The part of \<^verbatim>\<open>main\<close> behind the start of the threads, for a USB module: the result says whether an update
  was started, and how it ended.
\<close>

definition main_usb :: "nat \<Rightarrow> shell \<Rightarrow> djunk \<Rightarrow> int \<times> int \<times> int \<Rightarrow> int list \<Rightarrow> upd \<Rightarrow> (flow option \<times> upd) option cres" where
  "main_usb n sh dj rs zips x =
     (let j = dj_u dj; st = up_fwu x; idle = (\<lambda>s. Inr (Some (None, x\<lparr>up_fwu := s\<rparr>)))
      in cbind (read_into (get_fw_update_status_value (uj_stack j) NEED_RETRY_FW_UPDATE (u_fs st)) 0) (\<lambda>need_retry.
         cbind (u_madpt_wait j st) (\<lambda>(_, s1).
         if need_retry = 1 then idle s1
         else cbind (efs_check j rs s1) (\<lambda>(efs_recovery_mode, s2).
              cbind (get_current_fw_version j s2) (\<lambda>(r, s3).
              if r \<noteq> 0 \<or> \<not> access_ok (u_fs s3) UPDATE_FW_ZIP_FILE then idle s3
              else let (e, zips') = extract_update_files zips (u_fs s3)
                   in if e \<noteq> 0 then idle s3
                      else cbind (start_update_process n sh dj efs_recovery_mode (x\<lparr>up_fwu := s3\<rparr>)) (\<lambda>y.
                             Inr (case y of None \<Rightarrow> None | Some (f, x') \<Rightarrow> Some (Some f, x'))))))))"

section \<open>Lemmas on the download\<close>

abbreviation used_by :: "upd \<Rightarrow> upd \<Rightarrow> fastboot_data option list \<Rightarrow> bool" where
  "used_by x x' used \<equiv> fb_script (up_fb x) = used @ fb_script (up_fb x')"

lemma send_command_cmds:
  "cpost (\<lambda>(r, fd', fb'). fb_cmds fb' = fb_cmds fb @ [(c, a1, a2)] \<and> (\<exists>used. length used \<le> 1 \<and> fb_script fb = used @ fb_script fb'))
     (fastboot_send_command_v3 os c a1 a2 step (fd, fb))"
  by (auto simp: fastboot_send_command_v3_def next_answer_def Let_def intro!: cpost_cbind_any split: list.split)

lemma command_cmds:
  "cpost (\<lambda>(r, x'). fb_cmds (up_fb x') = fb_cmds (up_fb x) @ [(c, a1, a2)] \<and> (\<exists>used. length used \<le> 1 \<and> used_by x x' used)
     \<and> up_fwu x' = up_fwu x) (command j c a1 a2 step x)"
  unfolding command_def by (rule cpost_cbindI [OF send_command_cmds]) auto

definition rebooted :: "upd \<Rightarrow> bool" where
  "rebooted x \<longleftrightarrow> fb_cmds (up_fb x) \<noteq> [] \<and> last (fb_cmds (up_fb x)) = (FASTBOOT_REBOOT_COMMAND, [], [])"

lemma reboot_post: "cpost (\<lambda>x'. rebooted x' \<and> (\<exists>used. length used \<le> 1 \<and> used_by x x' used)) (reboot j x)"
  unfolding reboot_def by (rule cpost_cbindI [OF command_cmds]) (auto simp: rebooted_def)

lemma command_ok: "cpost (\<lambda>(r, x'). run_ok r (up_fb x) (up_fb x')) (command j c a1 a2 step x)"
  unfolding command_def by (rule cpost_cbindI [OF send_command_ok]) auto

lemma unlock_ok: "cpost (\<lambda>(r, x'). run_ok r (up_fb x) (up_fb x')) (unlock_device j x)"
proof -
  have second: "cpost (\<lambda>(r', x'). run_ok r' (up_fb x) (up_fb x')) (if r > 0 then command j c a1 a2 step x1 else Inr (r, x1))"
    if "run_ok r (up_fb x) (up_fb x1)" for r x1 c a1 a2 step
    using that run_ok_trans [OF that] by (auto intro: cpost_weaken [OF command_ok])
  show ?thesis
    unfolding unlock_device_def by (rule cpost_cbindI [OF command_ok], clarify, rule cpost_cbindI [OF second]) auto
qed

lemma flash_images_ok: "cpost (\<lambda>(r, x'). run_ok r (up_fb x) (up_fb x')) (flash_images j x)"
  unfolding flash_images_def Let_def by (rule cpost_cbindI [OF flash_process_ok]) auto

text \<open>\<open>done_ok\<close>: the answers to all commands but the last two are clean.\<close>

definition done_ok :: "upd \<Rightarrow> upd \<Rightarrow> bool" where
  "done_ok x x' \<longleftrightarrow> (\<exists>used ignored. used_by x x' (used @ ignored) \<and> length ignored \<le> 2 \<and> (\<forall>d. Some d \<in> set used \<longrightarrow> clean_answer d))"

lemma flash_device_post:
  "cpost (\<lambda>(r, x'). rebooted x' \<and> (r = 1 \<and> done_ok x x'
       \<or> (r = -4 \<or> r = -6) \<and> fd_state (up_fd x') = DOWNLOAD_FAILED \<and> fd_error_code (up_fd x') = r)) (flash_device j x)"
proof -
  let ?Q = "\<lambda>(r, x'). rebooted x' \<and> (r = 1 \<and> done_ok x x'
       \<or> (r = -4 \<or> r = -6) \<and> fd_state (up_fd x') = DOWNLOAD_FAILED \<and> fd_error_code (up_fd x') = r)"
  have failed: "cpost ?Q (cbind (reboot j y) (\<lambda>z. Inr (fail_download e z)))" if "e = -4 \<or> e = -6" for y e
    by (rule cpost_cbindI [OF reboot_post]) (use that in \<open>auto simp: fail_download_def rebooted_def\<close>)
  have good: "cpost ?Q (cbind (command j FASTBOOT_OEM_COMMAND ''boot-flag'' ''9'' FASTBOOT_IGNORE y) (\<lambda>(_, x3).
      cbind (reboot j x3) (\<lambda>x4. Inr (1, set_state DOWNLOAD_FASTBOOT_END x4))))"
    if "run_ok r (up_fb x) (up_fb y)" "r > 0" for y r
  proof (rule cpost_cbindI [OF command_cmds], clarify, rule cpost_cbindI [OF reboot_post], clarify)
    fix x3 x4 :: upd and u1 u2 :: "fastboot_data option list"
    assume a: "rebooted x4" "length u1 \<le> 1" "used_by y x3 u1" "length u2 \<le> 1" "used_by x3 x4 u2"
    from that obtain u where u: "fb_script (up_fb x) = u @ fb_script (up_fb y)" "\<forall>d. Some d \<in> set u \<longrightarrow> clean_answer d"
      by (auto simp: run_ok_def)
    have "done_ok x x4" unfolding done_ok_def
      using a u by (intro exI [of _ u] exI [of _ "u1 @ u2"]) simp
    with a(1) show "cpost ?Q (Inr (1, set_state DOWNLOAD_FASTBOOT_END x4))" by (simp add: set_state_def rebooted_def done_ok_def)
  qed
  have flash: "cpost ?Q (cbind (flash_images j x1) (\<lambda>(r2, x2).
      if r2 \<le> 0 then cbind (reboot j x2) (\<lambda>x3. Inr (fail_download FASTBOOT_FLASHING_FAILED x3))
      else cbind (command j FASTBOOT_OEM_COMMAND ''boot-flag'' ''9'' FASTBOOT_IGNORE x2) (\<lambda>(_, x3).
               cbind (reboot j x3) (\<lambda>x4. Inr (1, set_state DOWNLOAD_FASTBOOT_END x4)))))"
    if "run_ok r1 (up_fb x) (up_fb x1)" "r1 > 0" for r1 x1
  proof (rule cpost_cbindI [OF flash_images_ok], clarify)
    fix r2 :: int and x2 :: upd assume "run_ok r2 (up_fb x1) (up_fb x2)"
    from run_ok_trans [OF that this] failed [of "-6" x2] good [of r2 x2]
    show "cpost ?Q (if r2 \<le> 0 then cbind (reboot j x2) (\<lambda>x3. Inr (fail_download FASTBOOT_FLASHING_FAILED x3))
      else cbind (command j FASTBOOT_OEM_COMMAND ''boot-flag'' ''9'' FASTBOOT_IGNORE x2) (\<lambda>(_, x3).
               cbind (reboot j x3) (\<lambda>x4. Inr (1, set_state DOWNLOAD_FASTBOOT_END x4))))"
      by (auto simp: FASTBOOT_FLASHING_FAILED_def simp del: cpost_Inr)
  qed
  show ?thesis
    unfolding flash_device_def
  proof (rule cpost_cbindI [OF unlock_ok], clarify)
    fix r1 :: int and x1 :: upd assume "run_ok r1 (up_fb (set_state DOWNLOAD_FASTBOOT_START x)) (up_fb x1)"
    then have ok: "run_ok r1 (up_fb x) (up_fb x1)" by (simp add: set_state_def)
    show "cpost ?Q (if r1 \<le> 0 then cbind (reboot j x1) (\<lambda>x2. Inr (fail_download FASTBOOT_COMMAND_FAILED x2))
     else cbind (flash_images j x1) (\<lambda>(r2, x2).
          if r2 \<le> 0 then cbind (reboot j x2) (\<lambda>x3. Inr (fail_download FASTBOOT_FLASHING_FAILED x3))
          else cbind (command j FASTBOOT_OEM_COMMAND ''boot-flag'' ''9'' FASTBOOT_IGNORE x2) (\<lambda>(_, x3).
               cbind (reboot j x3) (\<lambda>x4. Inr (1, set_state DOWNLOAD_FASTBOOT_END x4)))))"
      using failed [of "-4" x1] flash [OF ok] by (intro cpost_ifI) (simp_all only: FASTBOOT_COMMAND_FAILED_def not_le simp_thms)
  qed
qed

lemma modem_port_post: "cpost (\<lambda>(n', x'). up_fb x' = up_fb x \<and> up_fd x' = up_fd x) (waiting_modem_download_port n x)"
proof (induction n arbitrary: x)
  case (Suc n)
  have "cpost (\<lambda>(found, x'). up_fb x' = up_fb x \<and> up_fd x' = up_fd x) (check_modem_download_port p x)" for p
    by (auto simp: check_modem_download_port_def Let_def intro!: cpost_cbind_any split: list.split option.split)
  from this [of "fd_modem_port (up_fd x)"] Suc.IH show ?case
    by (auto intro!: cpost_ifI elim!: cpost_cbindI intro: cpost_weaken [OF Suc.IH])
qed simp

lemma boot_device_post:
  "cpost (\<lambda>(r, x'). up_fb x' = up_fb x \<and> (r = 1 \<and> fd_state (up_fd x') = DOWNLOAD_COMPLETED
       \<or> r = -8 \<and> fd_state (up_fd x') = DOWNLOAD_FAILED \<and> fd_error_code (up_fd x') = r)) (boot_device j efs x)"
  unfolding boot_device_def
  by (rule cpost_cbindI [OF modem_port_post], clarify)
    (auto simp: fail_download_def MODEM_PORT_OPENING_FAILS_AFTER_FIRMWARE_DOWNLOAD_def intro!: cpost_cbind_any)

lemma wait_fastboot_port_frame:
  "\<exists>ps. wait_fastboot_port n x = (True \<in> set (take n (up_fastboot_port x)), x\<lparr>up_fastboot_port := ps\<rparr>)"
proof (induction n x rule: wait_fastboot_port.induct)
  case (1 x)
  show ?case by (rule exI [of _ "up_fastboot_port x"]) simp
next
  case (2 n x)
  show ?case
  proof (cases "up_fastboot_port x")
    case Nil
    then show ?thesis using "2.IH"(1) by auto
  next
    case (Cons b bs)
    show ?thesis
    proof (cases b)
      case False
      then show ?thesis using "2.IH"(2) [OF Cons refl] Cons by auto
    qed (use Cons in auto)
  qed
qed

lemma switch_post:
  "cpost (\<lambda>(ok, x'). up_fb x' = up_fb x \<and> up_fd x' = up_fd x \<and> up_fastboot_port x' = up_fastboot_port x) (switch_to_fastboot j x)"
  by (auto simp: switch_to_fastboot_def intro!: cpost_cbind_any)

text \<open>The module adapter reports that the module refuses to switch to its boot loader.\<close>

definition switch_refused :: "djunk \<Rightarrow> upd \<Rightarrow> bool" where
  "switch_refused j x =
     (case switch_to_fastboot j (x\<lparr>up_fd := (up_fd x)\<lparr>fd_state := DOWNLOAD_START, fd_serial_number := []\<rparr>\<rparr>) of
        Inl _ \<Rightarrow> False
      | Inr (ok, _) \<Rightarrow> \<not> ok)"

lemma same_fb: "up_fb y' = up_fb y \<Longrightarrow> rebooted y' = rebooted y" "up_fb y' = up_fb y \<Longrightarrow> done_ok x y' = done_ok x y"
  "up_fb y' = up_fb y \<Longrightarrow> done_ok y' x = done_ok y x"
  by (simp_all add: rebooted_def done_ok_def)

definition outcome :: "djunk \<Rightarrow> upd \<Rightarrow> int \<Rightarrow> upd \<Rightarrow> bool" where
  "outcome j x r x' =
     (if switch_refused j x
      then r = -3 \<and> up_fb x' = up_fb x \<and> fd_state (up_fd x') = DOWNLOAD_START \<and> fd_error_code (up_fd x') = fd_error_code (up_fd x)
      else if True \<notin> set (take 60 (up_fastboot_port x))
      then r = -3 \<and> up_fb x' = up_fb x \<and> fd_state (up_fd x') = DOWNLOAD_FAILED \<and> fd_error_code (up_fd x') = r
      else rebooted x' \<and> (r = 1 \<and> done_ok x x' \<and> fd_state (up_fd x') = DOWNLOAD_COMPLETED
         \<or> r = -8 \<and> done_ok x x' \<and> fd_state (up_fd x') = DOWNLOAD_FAILED \<and> fd_error_code (up_fd x') = r
         \<or> (r = -4 \<or> r = -6) \<and> fd_state (up_fd x') = DOWNLOAD_FAILED \<and> fd_error_code (up_fd x') = r))"

lemma flash_and_boot:
  assumes "up_fb x2 = up_fb x"
  shows "cpost (\<lambda>(r, x'). rebooted x' \<and> (r = 1 \<and> done_ok x x' \<and> fd_state (up_fd x') = DOWNLOAD_COMPLETED
         \<or> r = -8 \<and> done_ok x x' \<and> fd_state (up_fd x') = DOWNLOAD_FAILED \<and> fd_error_code (up_fd x') = r
         \<or> (r = -4 \<or> r = -6) \<and> fd_state (up_fd x') = DOWNLOAD_FAILED \<and> fd_error_code (up_fd x') = r))
    (cbind (flash_device j x2) (\<lambda>(r, x3). if r \<le> 0 then Inr (r, x3) else boot_device j efs x3))" (is "cpost ?Q _")
proof -
  have boot: "cpost ?Q (boot_device j efs x3)" if "rebooted x3" "done_ok x x3" for x3
  proof (rule cpost_weaken [OF boot_device_post], simp only: split_paired_all prod.case, elim conjE)
    fix r :: int and x' :: upd
    assume a: "up_fb x' = up_fb x3" "r = 1 \<and> fd_state (up_fd x') = DOWNLOAD_COMPLETED
       \<or> r = -8 \<and> fd_state (up_fd x') = DOWNLOAD_FAILED \<and> fd_error_code (up_fd x') = r"
    have "rebooted x'" "done_ok x x'" using that same_fb(1) [OF a(1)] same_fb(2) [OF a(1)] by simp_all
    with a(2) show "rebooted x' \<and> (r = 1 \<and> done_ok x x' \<and> fd_state (up_fd x') = DOWNLOAD_COMPLETED
         \<or> r = -8 \<and> done_ok x x' \<and> fd_state (up_fd x') = DOWNLOAD_FAILED \<and> fd_error_code (up_fd x') = r
         \<or> (r = -4 \<or> r = -6) \<and> fd_state (up_fd x') = DOWNLOAD_FAILED \<and> fd_error_code (up_fd x') = r)" by auto
  qed
  show ?thesis
  proof (rule cpost_cbindI [OF flash_device_post], clarify, rule cpost_ifI)
    fix r :: int and x3 :: upd
    assume a: "rebooted x3" "r = 1 \<and> done_ok x2 x3 \<or> (r = -4 \<or> r = -6) \<and> fd_state (up_fd x3) = DOWNLOAD_FAILED \<and> fd_error_code (up_fd x3) = r"
    show "cpost ?Q (Inr (r, x3))" if "r \<le> 0" using a that by auto
    show "cpost ?Q (boot_device j efs x3)" if "\<not> r \<le> 0"
      using a that boot [of x3] same_fb(3) [OF assms] by auto
  qed
qed

lemma download_post: "cpost (\<lambda>(r, x'). outcome j x r x') (download_process j efs x)"
proof -
  let ?y = "x\<lparr>up_fd := (up_fd x)\<lparr>fd_state := DOWNLOAD_START, fd_serial_number := []\<rparr>\<rparr>"
  show ?thesis
  proof (cases "switch_to_fastboot j ?y")
    case (Inl e)
    then show ?thesis by (simp add: download_process_def)
  next
    case (Inr p)
    obtain ok x1 where s: "switch_to_fastboot j ?y = Inr (ok, x1)" using Inr by (cases p) simp
    have x1: "up_fb x1 = up_fb x" "up_fd x1 = up_fd ?y" "up_fastboot_port x1 = up_fastboot_port x"
      using cpostD [OF switch_post s] by simp_all
    let ?x1 = "x1\<lparr>up_fd := setup_temp_file_name (up_fd x1)\<rparr>"
    obtain ps where w: "wait_fastboot_port 60 ?x1 = (True \<in> set (take 60 (up_fastboot_port x)), ?x1\<lparr>up_fastboot_port := ps\<rparr>)"
      using wait_fastboot_port_frame [of 60 ?x1] x1(3) by auto
    have refused: "switch_refused j x = (\<not> ok)" by (simp add: switch_refused_def s)
    show ?thesis
    proof (cases "ok \<and> True \<in> set (take 60 (up_fastboot_port x))")
      case True
      then have "download_process j efs x = cbind (flash_device j (?x1\<lparr>up_fastboot_port := ps\<rparr>)) (\<lambda>(r, x3). if r \<le> 0 then Inr (r, x3) else boot_device j efs x3)"
        using s w by (simp add: download_process_def)
      then show ?thesis using True refused x1(1)
        by (simp only: outcome_def) (rule cpost_weaken [OF flash_and_boot], auto)
    next
      case False
      then show ?thesis using s w x1 refused
        by (auto simp: download_process_def outcome_def fail_download_def SWITCHING_TO_DOWNLOAD_MODE_FAILED_def)
    qed
  qed
qed

section \<open>Lemmas on the version loop\<close>

abbreviation silence :: "msg_buffer_t list \<times> msg_buffer_t list \<times> bool" where
  "silence \<equiv> ([], [], False)"

lemma u_pause_silent: "u_script st = silence # rest \<Longrightarrow> u_pause j st = Inr (st\<lparr>u_script := rest, u_signals := []\<rparr>)"
  by (simp add: u_pause_def u_timedwait_def)

definition awaiting :: "fwu \<Rightarrow> bool" where
  "awaiting st \<longleftrightarrow> \<not> u_mutex st \<and> u_device_type st = PWL_DEVICE_TYPE_USB \<and> \<not> u_is_get_fw_ver st \<and> u_inv st"

lemma version_query_silent:
  assumes "\<not> u_mutex st" "u_script st = replicate 3 silence @ rest"
  shows "\<exists>o' sg. get_current_fw_version j st = Inr (-1, st\<lparr>u_current_fw_ver := [], u_out := o', u_script := rest, u_signals := sg\<rparr>)"
  using loop_silent [of "st\<lparr>u_current_fw_ver := []\<rparr>" 3 rest 0 j PWL_CID_GET_AP_VER "\<lambda>_. Inr True"] assms
  by (auto simp: get_current_fw_version_def retry_limit) (intro exI, rule refl)

lemma silent_round:
  assumes "awaiting st" "u_script st = replicate 5 silence @ rest"
  shows "\<exists>s. await_fw_version (Suc n) j st = await_fw_version n j s \<and> awaiting s \<and> u_script s = rest"
proof -
  have sc: "u_script st = silence # replicate 3 silence @ silence # rest" using assms(2) by (simp add: eval_nat_numeral)
  let ?s1 = "(u_send_message_queue j PWL_CID_UPDATE_FW_VER st)\<lparr>u_script := replicate 3 silence @ silence # rest, u_signals := []\<rparr>"
  have s1: "\<not> u_mutex ?s1" "u_script ?s1 = replicate 3 silence @ silence # rest"
    using assms(1) by (simp_all add: u_send_message_queue_def awaiting_def)
  obtain o' sg where q: "get_current_fw_version j ?s1 = Inr (-1, ?s1\<lparr>u_current_fw_ver := [], u_out := o', u_script := silence # rest, u_signals := sg\<rparr>)"
    using version_query_silent [OF s1] by blast
  let ?s = "?s1\<lparr>u_current_fw_ver := [], u_out := o', u_script := rest, u_signals := []\<rparr>"
  have "await_fw_version (Suc n) j st = await_fw_version n j ?s"
    using assms(1) sc q by (simp add: awaiting_def u_send_message_queue_def u_pause_silent)
  moreover have "awaiting ?s" using assms(1) by (simp add: awaiting_def u_send_message_queue_def u_inv_def)
  ultimately show ?thesis by force
qed

lemma silent_rounds:
  "awaiting st \<Longrightarrow> u_script st = replicate (5 * k) silence @ rest \<Longrightarrow>
   \<exists>s. await_fw_version (k + n) j st = await_fw_version n j s \<and> awaiting s \<and> u_script s = rest"
proof (induction k arbitrary: st)
  case (Suc k)
  have "u_script st = replicate 5 silence @ replicate (5 * k) silence @ rest" using Suc.prems(2) by (simp flip: replicate_add append_assoc)
  from silent_round [OF Suc.prems(1) this, of "k + n" j] Suc.IH show ?case by fastforce
qed auto

lemma u_handle_ap_ver:
  assumes "awaiting st" "pwl_cid m = cid_num PWL_CID_GET_AP_VER" "strncmp_eq (response m) ''00.'' 3" "3 < length (response m)" "length (response m) < 12"
  shows "\<exists>t. u_handle j m st = Inr (cond_signal G_COND (st\<lparr>u_cid_map := t, u_current_fw_ver := response m, u_is_get_fw_ver := True\<rparr>))"
proof -
  have n: "cid_num PWL_CID_GET_AP_VER < 48" by code_simp
  then obtain nm where "cid_name_at (cid_num PWL_CID_GET_AP_VER) = Inr nm" by (simp add: cid_name_at_num)
  moreover have "cid_num PWL_CID_GET_AP_VER < 49" using n by simp
  ultimately show ?thesis using assms
    by (auto simp: u_handle_def print_message_info_def cid_name_at_ok update_cid_record_def awaiting_def u_inv_def u_answer_def
      handle_ap_ver_def strcpy_cap_def FW_VERSION_LENGTH_def u_answers_signal_def cond_signal_def cid_of_eq_Some_iff
      simp del: cid_of_cid_num intro!: exI split: option.splits) (auto simp: cid_of_def cid_enum_def)
qed

section \<open>Properties\<close>

text \<open>C5: a reported success of the whole download means that the boot loader accepted every command that
  counts. When \<^verbatim>\<open>download_process\<close> returns 1, none of the answers to the commands that unlock the device
  and flash the images contains \<^verbatim>\<open>FAILED\<close>; only the answers to the last two commands, the boot flag and
  the reboot, are not looked at.\<close>

theorem download_success_clean:
  assumes "download_process j efs x = Inr (1, x')"
  shows "\<exists>used ignored. fb_script (up_fb x) = used @ ignored @ fb_script (up_fb x') \<and> length ignored \<le> 2
    \<and> (\<forall>d. Some d \<in> set used \<longrightarrow> clean_answer d)"
  using cpostD [OF download_post assms] by (auto simp: outcome_def done_ok_def split: if_splits)


text \<open>A module adapter that does not answer the JP FCC request in time stops the updater for good. The
  code logs that it continues, but \<^verbatim>\<open>cond_wait\<close> has left the mutex locked, and the query of the firmware
  version that comes next locks it again.\<close>

theorem jp_fcc_timeout_deadlock:
  assumes "is_iot_module_fw sh (dj_cmd dj) (u_dev st) = Inr (iot, d)" and "iot = is_iot_ssid d"
    and "store_update_status JP_FCC_CONFIG_COUNT 1 (st\<lparr>u_dev := d\<rparr>) = Inr s1"
    and "u_cond_wait (dj_u dj) (u_send_message_queue (dj_u dj) PWL_CID_SETUP_JP_FCC_CONFIG s1) = Inr (False, s2)"
  shows "select_update sh dj st = Inl SelfDeadlock"
proof -
  have "u_mutex s2"
    using assms(4) by (auto simp: u_cond_wait_def cond_wait_def ETIMEDOUT_def Let_def elim!: cbind_InrE split: if_splits)
  then have "get_current_fw_version (dj_u dj) s2 = Inl SelfDeadlock" by (rule locked_requests_stuck)
  then show ?thesis using assms by (simp add: select_update_def or_abort_def setup_jp_fcc_def)
qed

text \<open>C8: the start of an update waits for the version of the module as long as it takes. After any number
  of rounds in which the module is silent, the first round in which it answers the query with a version
  of its firmware ends the loop with that version.\<close>

theorem update_waits_for_version:
  assumes "awaiting st" and "u_script st = replicate (5 * k) silence @ silence # ([], [m], b) # silence # rest"
    and "pwl_cid m = cid_num PWL_CID_GET_AP_VER" and "strncmp_eq (response m) ''00.'' 3"
    and "3 < length (response m)" and "length (response m) < 12" and "k < n"
  shows "\<exists>s. await_fw_version n j st = Inr (Some s) \<and> u_current_fw_ver s = response m \<and> u_script s = rest"
proof -
  obtain i where n: "n = k + Suc i" using assms(7) less_imp_Suc_add by fastforce
  obtain s where s: "await_fw_version n j st = await_fw_version (Suc i) j s" "awaiting s"
    "u_script s = silence # ([], [m], b) # silence # rest"
    using silent_rounds [OF assms(1,2)] n by blast
  let ?q = "(u_send_message_queue j PWL_CID_UPDATE_FW_VER s)\<lparr>u_script := ([], [m], b) # silence # rest, u_signals := []\<rparr>"
  let ?a = "(u_send_message_queue j PWL_CID_GET_AP_VER (?q\<lparr>u_current_fw_ver := []\<rparr>))\<lparr>u_script := silence # rest, u_signals := []\<rparr>"
  have "awaiting ?a" using s(2) by (simp add: awaiting_def u_send_message_queue_def u_inv_def FW_VERSION_LENGTH_def)
  from u_handle_ap_ver [OF this assms(3-6), of j] obtain t
    where t: "u_handle j m ?a = Inr (cond_signal G_COND (?a\<lparr>u_cid_map := t, u_current_fw_ver := response m, u_is_get_fw_ver := True\<rparr>))" by blast
  let ?v = "cond_signal G_COND (?a\<lparr>u_cid_map := t, u_current_fw_ver := response m, u_is_get_fw_ver := True\<rparr>)"
  have "get_current_fw_version j ?q = Inr (0, ?v)"
    using s(2) t by (simp add: get_current_fw_version_def retry_limit eval_nat_numeral ask_def locked_wait_def u_timedwait_def
      u_send_message_queue_def awaiting_def cond_signal_def)
  moreover have "await_fw_version i j (?v\<lparr>u_script := rest, u_signals := []\<rparr>) = Inr (Some (?v\<lparr>u_script := rest, u_signals := []\<rparr>))"
    by (cases i) (simp_all add: cond_signal_def)
  ultimately have "await_fw_version (Suc i) j s = Inr (Some (?v\<lparr>u_script := rest, u_signals := []\<rparr>))"
    using s(2,3) by (simp add: awaiting_def u_pause_silent u_send_message_queue_def cond_signal_def)
  then show ?thesis using s(1) by (simp add: cond_signal_def)
qed

theorem update_waits_for_version_witness:
  "\<exists>s. await_fw_version 2 example_ujunk (u_init PWL_DEVICE_TYPE_USB fs0
      (replicate 5 silence @ [silence, ([], [example_answer PWL_CID_GET_AP_VER ''00.01.02''], False), silence]))
     = Inr (Some s) \<and> u_current_fw_ver s = ''00.01.02''"
proof -
  let ?st = "u_init PWL_DEVICE_TYPE_USB fs0
      (replicate 5 silence @ [silence, ([], [example_answer PWL_CID_GET_AP_VER ''00.01.02''], False), silence])"
  have "awaiting ?st" by (simp add: awaiting_def u_init_inv) (simp add: u_init_def)
  moreover have "u_script ?st = replicate (5 * 1) silence @ silence # ([], [example_answer PWL_CID_GET_AP_VER ''00.01.02''], False) # silence # []"
    by simp
  ultimately show ?thesis
    using update_waits_for_version [of ?st 1 "example_answer PWL_CID_GET_AP_VER ''00.01.02''" False "[]" 2 example_ujunk]
    by (auto simp: example_answer_def strncmp_eq_def)
qed

lemma remove_file_store: "p \<noteq> path \<Longrightarrow> store_inv path (remove_file p w) = store_inv path w"
  "p \<noteq> path \<Longrightarrow> store_abs path (remove_file p w) = store_abs path w"
  by (auto simp: store_inv_def store_abs_def remove_file_def fun_eq_iff)

lemma madpt_restart_reads:
  assumes "store_inv FW_UPDATE_STATUS_RECORD (u_fs st)" "store_abs FW_UPDATE_STATUS_RECORD (u_fs st) NEED_RETRY_FW_UPDATE = Some v" "stack_ok (uj_stack j)"
  shows "\<exists>s. handle_madpt_restart j st = Inr s \<and> u_retry_fw_update s = (v = 1 \<or> u_retry_fw_update st)
    \<and> store_inv FW_UPDATE_STATUS_RECORD (u_fs s)
    \<and> store_abs FW_UPDATE_STATUS_RECORD (u_fs s) NEED_RETRY_FW_UPDATE = Some (if v = 1 then 0 else v)"
proof -
  obtain w where w: "set_fw_update_status_value NEED_RETRY_FW_UPDATE 0 (u_fs st) = Inr (0, w)" "store_inv FW_UPDATE_STATUS_RECORD w"
    "store_abs FW_UPDATE_STATUS_RECORD w = (store_abs FW_UPDATE_STATUS_RECORD (u_fs st))(NEED_RETRY_FW_UPDATE \<mapsto> 0)"
    using fw_status.set_abs [OF assms(1), of NEED_RETRY_FW_UPDATE 0] assms(2) by (auto simp: val_ok_def)
  show ?thesis
    using w fw_status.get_abs [OF assms] assms by (simp add: handle_madpt_restart_def cond_signal_def read_into_def)
qed

text \<open>C10: a failed download is retried, and retried once. When the download failed in a way that calls for a
  reset, the end of the update asks the core service for one GPIO reset; the restart of the module adapter
  after it makes the retry thread start another update, and a further restart does not.\<close>

theorem retry_after_reset:
  assumes "store_inv FW_UPDATE_STATUS_RECORD (u_fs st)" and "NEED_RETRY_FW_UPDATE \<in> dom (store_abs FW_UPDATE_STATUS_RECORD (u_fs st))"
    and "stack_ok (uj_stack j)" and "u_authenticate_key_file_name st \<noteq> FW_UPDATE_STATUS_RECORD"
    and "r \<in> {SWITCHING_TO_DOWNLOAD_MODE_FAILED, FASTBOOT_COMMAND_FAILED, FASTBOOT_FLASHING_FAILED,
            MODEM_PORT_OPENING_FAILS_AFTER_FIRMWARE_DOWNLOAD}"
  shows "\<exists>s s1 s2. finish_update r st = Inr (r, s) \<and> u_gpio_resets s = u_gpio_resets st + 1
    \<and> handle_madpt_restart j s = Inr s1 \<and> u_retry_fw_update s1
    \<and> handle_madpt_restart j (s1\<lparr>u_retry_fw_update := False\<rparr>) = Inr s2 \<and> \<not> u_retry_fw_update s2"
proof -
  obtain w where w: "set_fw_update_status_value NEED_RETRY_FW_UPDATE 1 (u_fs st) = Inr (0, w)" "store_inv FW_UPDATE_STATUS_RECORD w"
    "store_abs FW_UPDATE_STATUS_RECORD w = (store_abs FW_UPDATE_STATUS_RECORD (u_fs st))(NEED_RETRY_FW_UPDATE \<mapsto> 1)"
    using fw_status.set_abs [OF assms(1,2), of 1] by (auto simp: val_ok_def)
  let ?s = "st\<lparr>u_gpio_resets := u_gpio_resets st + 1, u_fs := remove_file (u_authenticate_key_file_name st) w\<rparr>"
  have r: "r < 0" "r \<noteq> -1" using assms(5) by (auto simp: download_codes)
  have fin: "finish_update r st = Inr (r, ?s)"
    using r w(1) by (simp add: finish_update_def store_update_status_def DOWNLOAD_PARAMETER_PARSING_FAILED_def)
  have s: "store_inv FW_UPDATE_STATUS_RECORD (u_fs ?s)" "store_abs FW_UPDATE_STATUS_RECORD (u_fs ?s) NEED_RETRY_FW_UPDATE = Some 1"
    using w assms(4) by (simp_all add: remove_file_store)
  obtain s1 where s1: "handle_madpt_restart j ?s = Inr s1" "u_retry_fw_update s1" "store_inv FW_UPDATE_STATUS_RECORD (u_fs s1)"
    "store_abs FW_UPDATE_STATUS_RECORD (u_fs s1) NEED_RETRY_FW_UPDATE = Some 0"
    using madpt_restart_reads [OF s assms(3)] by auto
  obtain s2 where "handle_madpt_restart j (s1\<lparr>u_retry_fw_update := False\<rparr>) = Inr s2" "\<not> u_retry_fw_update s2"
    using madpt_restart_reads [of "s1\<lparr>u_retry_fw_update := False\<rparr>" 0 j] s1 assms(3) by auto
  with fin s1 show ?thesis by (intro exI [of _ ?s] exI [of _ s1] exI [of _ s2]) simp
qed

theorem retry_after_reset_witness:
  "\<exists>s s1 s2. finish_update (-6) (u_init PWL_DEVICE_TYPE_USB fw_fresh []) = Inr (-6, s) \<and> u_gpio_resets s = 1
    \<and> handle_madpt_restart (example_ujunk\<lparr>uj_stack := zeroed 5\<rparr>) s = Inr s1 \<and> u_retry_fw_update s1
    \<and> handle_madpt_restart (example_ujunk\<lparr>uj_stack := zeroed 5\<rparr>) (s1\<lparr>u_retry_fw_update := False\<rparr>) = Inr s2 \<and> \<not> u_retry_fw_update s2"
proof -
  let ?st = "u_init PWL_DEVICE_TYPE_USB fw_fresh []"
  have st: "u_fs ?st = fw_fresh" "u_authenticate_key_file_name ?st = []" "u_gpio_resets ?st = 0" by (simp_all add: u_init_def)
  have "NEED_RETRY_FW_UPDATE \<in> dom (store_abs FW_UPDATE_STATUS_RECORD (u_fs ?st))" by (simp add: st fw_fresh_abs key_defs fw_init_kvs_def)
  moreover have "u_authenticate_key_file_name ?st \<noteq> FW_UPDATE_STATUS_RECORD" by (simp add: st FW_UPDATE_STATUS_RECORD_def)
  moreover have "store_inv FW_UPDATE_STATUS_RECORD (u_fs ?st)" "stack_ok (uj_stack (example_ujunk\<lparr>uj_stack := zeroed 5\<rparr>))"
    by (simp_all only: st fw_fresh_inv) (simp add: stack_ok_zeroed)
  moreover have "-6 \<in> {SWITCHING_TO_DOWNLOAD_MODE_FAILED, FASTBOOT_COMMAND_FAILED, FASTBOOT_FLASHING_FAILED,
            MODEM_PORT_OPENING_FAILS_AFTER_FIRMWARE_DOWNLOAD}" by (simp add: FASTBOOT_FLASHING_FAILED_def)
  ultimately show ?thesis using retry_after_reset [of ?st "example_ujunk\<lparr>uj_stack := zeroed 5\<rparr>" "-6"] st(3) by simp
qed

definition usb_example_djunk :: djunk where
  "usb_example_djunk = \<lparr>dj_u = example_ujunk, dj_os = (0, 0), dj_retry_sn = 0, dj_retry_imei = 0, dj_sar = [], dj_key = [], dj_cmd = []\<rparr>"

definition usb_example_dev :: dev where
  "usb_example_dev = dev_init\<lparr>g_device_type := PWL_DEVICE_TYPE_USB\<rparr>"

theorem jp_fcc_timeout_deadlock_witness:
  "select_update (\<lambda>_. None) usb_example_djunk ((u_init PWL_DEVICE_TYPE_USB fw_fresh [])\<lparr>u_dev := usb_example_dev\<rparr>) = Inl SelfDeadlock"
proof -
  let ?st = "(u_init PWL_DEVICE_TYPE_USB fw_fresh [])\<lparr>u_dev := usb_example_dev\<rparr>"
  have iot: "is_iot_module_fw (\<lambda>_. None) (dj_cmd usb_example_djunk) (u_dev ?st) = Inr (False, usb_example_dev)"
    by (simp add: is_iot_module_fw_def pwl_set_command_def pwl_find_mbim_port_def pwl_get_device_type_def usb_example_dev_def dev_init_def)
  obtain w where "set_fw_update_status_value JP_FCC_CONFIG_COUNT 1 fw_fresh = Inr (0, w)"
    using fw_status.set_abs [OF fw_fresh_inv, of JP_FCC_CONFIG_COUNT 1] by (auto simp: fw_fresh_abs fw_init_kvs_def val_ok_def)
  then have st: "store_update_status JP_FCC_CONFIG_COUNT 1 (?st\<lparr>u_dev := usb_example_dev\<rparr>) = Inr (?st\<lparr>u_fs := w\<rparr>)"
    by (simp add: store_update_status_def u_init_def)
  have "u_script ?st = []" by (simp add: u_init_def)
  then show ?thesis
    by (intro jp_fcc_timeout_deadlock [OF iot _ st])
      (simp_all add: usb_example_dev_def dev_init_def is_iot_ssid_def u_cond_wait_def u_timedwait_def cond_wait_def
        ETIMEDOUT_def u_send_message_queue_def)
qed

definition example_download :: upd where
  "example_download =
     \<lparr>up_fwu = (u_init PWL_DEVICE_TYPE_USB example_files [])\<lparr>u_image_file_list := [''A.dfw''], u_image_file_count := 1\<rparr>,
      up_fd = example_fd\<lparr>fd_modem_port := ''/dev/cdc-wdm*''\<rparr>,
      up_fb = \<lparr>fb_script = replicate 5 (Some (answers [])), fb_stale = answers [], fb_cmds = []\<rparr>,
      up_fastboot_port = [False, True], up_ls = [Some ''/dev/cdc-wdm0'']\<rparr>"

lemma example_post: "post_process_fastboot step os (answers []) fd = Inr (1, fd)"
  by (rule no_message_post) (simp add: answers_def)

lemma silent_request:
  "\<lbrakk>u_script st = []; \<not> u_mutex st; \<And>s. send s = Inr (s\<lparr>u_out := u_out s @ [x]\<rparr>)\<rbrakk> \<Longrightarrow>
    request send (locked_wait j) usable st = Inr (-1, st\<lparr>u_out := u_out st @ [x, x, x]\<rparr>)"
  by (simp add: request_def retry_limit eval_nat_numeral locked_wait_def u_timedwait_def)

definition quiet :: "fwu \<Rightarrow> bool" where
  "quiet st \<longleftrightarrow> u_script st = [] \<and> \<not> u_mutex st \<and> \<not> u_has_update_include_oem_img st \<and> u_testprofile_delete_done st = 0
     \<and> u_pref_carrier st = zeroed FDTL_MAX_PATH"

definition ends_quiet :: "fwu cres \<Rightarrow> bool" where
  "ends_quiet m \<longleftrightarrow> (\<exists>s. m = Inr s \<and> quiet s)"

lemma ends_quiet_Inr [simp]: "ends_quiet (Inr s) = quiet s"
  by (simp add: ends_quiet_def)

lemma ends_quiet_cbind: "ends_quiet m \<Longrightarrow> (\<And>s. quiet s \<Longrightarrow> ends_quiet (f s)) \<Longrightarrow> ends_quiet (cbind m f)"
  by (auto simp: ends_quiet_def)

lemma quiet_send: "quiet st \<Longrightarrow> quiet (u_send_message_queue j c st)"
  by (simp add: quiet_def u_send_message_queue_def)

lemma quiet_pause: "quiet st \<Longrightarrow> ends_quiet (u_pause j st)"
  by (simp add: quiet_def u_pause_def u_timedwait_def)

lemma quiet_restart: "quiet st \<Longrightarrow> ends_quiet (restart_madpt j False st)"
  by (simp add: quiet_def restart_madpt_def restart_text_def u_send_message_queue_with_content_def strcpy_cap_def
    PWL_MQ_MAX_CONTENT_LEN_def u_madpt_wait_def u_timedwait_def)

lemma quiet_set_carrier: "quiet st \<Longrightarrow> ends_quiet (cbind (u_set_preferred_carrier j st) (\<lambda>(_, s). Inr s))"
proof -
  assume q: "quiet st"
  have c: "cstr (zeroed FDTL_MAX_PATH) = Inr []" by (simp add: cstr_def zeroed_def FDTL_MAX_PATH_def)
  have n: "find_carrier [] 0 g_preferred_carriers = 0" "g_preferred_carriers ! 0 = ''ATT''"
    by (simp_all add: g_preferred_carriers_def strcasecmp_eq_def)
  obtain x where send: "\<And>s. u_send_message_queue_with_content j PWL_CID_SET_PREF_CARRIER ''ATT'' s = Inr (s\<lparr>u_out := u_out s @ [x]\<rparr>)"
    by (simp add: u_send_message_queue_with_content_def strcpy_cap_def PWL_MQ_MAX_CONTENT_LEN_def)
  have "\<exists>s. u_set_preferred_carrier j st = Inr (-1, s) \<and> quiet s"
    using q silent_request [of "st\<lparr>u_set_pref_carrier_ret := False\<rparr>", OF _ _ send]
    unfolding u_set_preferred_carrier_def quiet_def by (simp only: c n cbind_Inr Let_def) simp
  then show ?thesis by (auto simp: ends_quiet_def)
qed

lemma quiet_ati: "quiet st \<Longrightarrow> ends_quiet (cbind (get_ati_info j st) (\<lambda>(_, s). Inr s))"
  by (simp add: quiet_def get_ati_info_def ask_def u_send_message_queue_def silent_request)

lemma quiet_finish: "quiet st \<Longrightarrow> ends_quiet (finish_download j False st)"
  unfolding finish_download_def
  by (rule ends_quiet_cbind, erule quiet_restart, rule ends_quiet_cbind, simp only: not_False_eq_True if_True, erule quiet_set_carrier,
      rule ends_quiet_cbind, simp add: quiet_def)
    (auto simp: quiet_def intro!: ends_quiet_cbind quiet_pause quiet_send quiet_ati)

lemma example_flash:
  assumes "fb_script (up_fb x) = [Some (answers []), Some (answers []), Some (answers []), Some (answers []), Some (answers [])]"
    "u_image_file_list (up_fwu x) = [''A.dfw'']" "u_image_file_count (up_fwu x) = 1" "u_fs (up_fwu x) = example_files"
  shows "\<exists>x'. flash_device usb_example_djunk x = Inr (1, x') \<and> up_ls x' = up_ls x \<and> fb_script (up_fb x') = []
    \<and> (\<exists>w. up_fwu x' = (up_fwu x)\<lparr>u_fs := w\<rparr>) \<and> fd_modem_port (up_fd x') = fd_modem_port (up_fd x)"
proof -
  have rd: "readable ''A.dfw'' example_files" "can_write example_files p" for p
    by (simp_all add: readable_def fopen_r_def example_files_def HEADER_BUF_SIZE_def)
  show ?thesis
    using assms rd
    by (simp add: flash_device_def unlock_device_def command_def reboot_def set_state_def fastboot_send_command_v3_def next_answer_def
      example_post flash_images_def fastboot_flash_process_v2_def flash_file_def start_flash_readable Let_def) (rule exI, rule refl)
qed

theorem download_success_clean_witness:
  "\<exists>x'. download_process usb_example_djunk False example_download = Inr (1, x')
    \<and> (\<exists>used ignored. replicate 5 (Some (answers [])) = used @ ignored @ fb_script (up_fb x') \<and> length ignored \<le> 2
        \<and> (\<forall>d. Some d \<in> set used \<longrightarrow> clean_answer d))"
proof -
  let ?x = "example_download"
  let ?st = "u_send_message_queue example_ujunk PWL_CID_SWITCH_TO_FASTBOOT (up_fwu ?x)"
  have five: "fb_script (up_fb ?x) = [Some (answers []), Some (answers []), Some (answers []), Some (answers []), Some (answers [])]"
    by (simp add: example_download_def eval_nat_numeral)
  let ?x1 = "?x\<lparr>up_fwu := ?st, up_fd := setup_temp_file_name ((up_fd ?x)\<lparr>fd_state := DOWNLOAD_START, fd_serial_number := []\<rparr>), up_fastboot_port := []\<rparr>"
  obtain x3 where x3: "flash_device usb_example_djunk ?x1 = Inr (1, x3)" "up_ls x3 = up_ls ?x1"
    "\<exists>w. up_fwu x3 = (up_fwu ?x1)\<lparr>u_fs := w\<rparr>" "fd_modem_port (up_fd x3) = fd_modem_port (up_fd ?x1)"
    using example_flash [of ?x1] five by (auto simp: u_send_message_queue_def example_download_def u_init_def)
  have switch: "switch_to_fastboot usb_example_djunk (?x\<lparr>up_fd := fd\<rparr>) = Inr (True, ?x\<lparr>up_fd := fd, up_fwu := ?st\<rparr>)" for fd
    by (simp add: switch_to_fastboot_def u_pause_def u_timedwait_def u_send_message_queue_def example_download_def u_init_def usb_example_djunk_def)
  have wait: "wait_fastboot_port 60 y = (True, y\<lparr>up_fastboot_port := []\<rparr>)" if "up_fastboot_port y = [False, True]" for y :: upd
    using that by (simp add: eval_nat_numeral)
  have polls: "up_fastboot_port ?x = [False, True]" by (simp add: example_download_def)
  have port: "fd_modem_port (up_fd x3) = ''/dev/cdc-wdm*''" "up_ls x3 = [Some ''/dev/cdc-wdm0'']"
    using x3(2,4) by (simp_all add: setup_temp_file_name_def example_download_def)
  have found: "waiting_modem_download_port 300 x3 = Inr (300, x3\<lparr>up_ls := [], up_fwu := (up_fwu x3)\<lparr>u_diag_modem_port := ''/dev/cdc-wdm0''\<rparr>\<rparr>)"
    by (subst numeral_eq_Suc, subst waiting_modem_download_port.simps)
      (simp add: check_modem_download_port_def port strcpy_cap_def FDTL_MAX_PATH_def strstr.simps)
  have "quiet ((up_fwu x3)\<lparr>u_diag_modem_port := ''/dev/cdc-wdm0''\<rparr>)"
    using x3(3) by (auto simp: quiet_def u_send_message_queue_def example_download_def u_init_def)
  from quiet_finish [OF this, of usb_example_djunk] obtain s
    where s: "finish_download usb_example_djunk False ((up_fwu x3)\<lparr>u_diag_modem_port := ''/dev/cdc-wdm0''\<rparr>) = Inr s"
    by (auto simp: ends_quiet_def)
  obtain x' where run: "download_process usb_example_djunk False ?x = Inr (1, x')"
    using x3(1) found s by (simp add: download_process_def switch wait polls boot_device_def)
  from download_success_clean [OF run] run five show ?thesis by (auto simp: eval_nat_numeral)
qed

end
