(* ===== verification/Fw_Table.thy ===== *)
theory Fw_Table
  imports Fw_Update
begin

text \<open>
  The updater, part five: the images of a PCIe module. \<^verbatim>\<open>check_update_data\<close> decides what there is to
  flash, \<^verbatim>\<open>find_fw_download_image\<close> and \<^verbatim>\<open>find_device_image\<close> select the images from the descriptions in
  the packages, \<^verbatim>\<open>generate_download_table\<close> writes the flash table, and \<^verbatim>\<open>check_image_downlaod_table\<close> checks it.

  The XML files are read with a library, which is a parameter here: \<open>pe_xml\<close> gives the document of a
  path, \<open>xd_query\<close> the nodes that an XPath expression selects in it, each with the siblings behind it, and
  a node carries what \<^verbatim>\<open>xmlGetProp\<close> and \<^verbatim>\<open>xmlNodeListGetString\<close> return for it. A null pointer given to
  \<^verbatim>\<open>sprintf\<close>, \<^verbatim>\<open>strcpy\<close> or \<^verbatim>\<open>strstr\<close> is \<open>NullDeref\<close>. The record \<open>pcie\<close> holds the globals of a PCIe update
  beside \<open>fwu\<close>.
\<close>

section \<open>Documents\<close>

datatype xnode =
    Element string "string \<Rightarrow> string option" "string option" "xnode list"
  | OtherNode

type_synonym xsel = "xnode \<times> xnode list"

record xdoc =
  xd_query :: "string \<Rightarrow> xsel list"
  xd_root :: "xnode option"

definition is_element :: "xnode \<Rightarrow> bool" where
  "is_element n = (case n of Element _ _ _ _ \<Rightarrow> True | OtherNode \<Rightarrow> False)"

definition element_named :: "string \<Rightarrow> xnode \<Rightarrow> bool" where
  "element_named nm n = (case n of Element m _ _ _ \<Rightarrow> m = nm | OtherNode \<Rightarrow> False)"

fun xmlGetProp :: "xnode \<Rightarrow> string \<Rightarrow> string option" where
  "xmlGetProp (Element _ p _ _) a = p a"
| "xmlGetProp OtherNode a = None"

fun xtext :: "xnode \<Rightarrow> string option" where
  "xtext (Element _ _ t _) = t"
| "xtext OtherNode = None"

fun xchildren :: "xnode \<Rightarrow> xnode list" where
  "xchildren (Element _ _ _ cs) = cs"
| "xchildren OtherNode = []"

section \<open>State\<close>

text \<open>What a PCIe update does to the outside: shell commands, writes to the fastboot port, D-Bus requests.\<close>

datatype pact =
    Shell string
  | SendCommand string
  | SendData string
  | RequestVersion

record pcie =
  pc_fwu :: fwu
  pc_image_list :: "string list"
  pc_img_number_count :: int
  pc_update_type :: int
  pc_update_based_type :: int
  pc_is_fw_update_processing :: bool
  pc_need_update :: bool
  pc_dpv_image_checksum :: string
  pc_fastboot_port :: string
  pc_t7xx_mode_node :: string
  pc_t7xx_mode_remove_node :: string
  pc_log :: "pact list"
  pc_ports :: "string option list"
  pc_answers :: "string list option list"
  pc_writes :: "nat option list"
  pc_transfers :: "string list option list"
  pc_modes :: "string option list"

text \<open>
  The environment of one attempt: the documents, the output of \<^verbatim>\<open>find\<close> and the like, and what \<^verbatim>\<open>access\<close>
  says of a path in the rounds of \<^verbatim>\<open>check_update_data\<close>.
\<close>

record penv =
  pe_xml :: "string \<Rightarrow> xdoc option"
  pe_sh :: shell
  pe_access :: "nat \<Rightarrow> string \<Rightarrow> bool"

definition MAX_DONWLOAD_IMAGES :: nat where "MAX_DONWLOAD_IMAGES = 50"
definition MAX_IMG_FILE_NAME_LEN :: nat where "MAX_IMG_FILE_NAME_LEN = 128"
definition MAX_CHECKSUM_LEN :: nat where "MAX_CHECKSUM_LEN = 16"
definition UPDATE_TYPE_FULL :: int where "UPDATE_TYPE_FULL = 1"
definition UPDATE_TYPE_ONLY_FW :: int where "UPDATE_TYPE_ONLY_FW = 2"
definition UPDATE_TYPE_ONLY_DEV :: int where "UPDATE_TYPE_ONLY_DEV = 3"
definition TYPE_FLASH_FLZ :: int where "TYPE_FLASH_FLZ = 0"
definition TYPE_FLASH_FOLDER :: int where "TYPE_FLASH_FOLDER = 1"
definition UNZIP_FOLDER_FW :: string where "UNZIP_FOLDER_FW = ''/opt/pwl/firmware/FwPackage''"
definition UNZIP_FOLDER_DVP :: string where "UNZIP_FOLDER_DVP = ''/opt/pwl/firmware/DevPackage''"
definition FLASH_TABLE_FILE_NAME :: string where "FLASH_TABLE_FILE_NAME = ''/opt/pwl/firmware/flash_table.txt''"
definition SCATTER_PATH :: string where "SCATTER_PATH = ''/opt/pwl/firmware/FwPackage/scatter.xml''"
definition FW_PACKAGE_CHECKSUM_PATH :: string where
  "FW_PACKAGE_CHECKSUM_PATH = ''/opt/pwl/firmware/FwPackage/checksum.xml''"
definition DPV_CHECKSUM_PATH :: string where "DPV_CHECKSUM_PATH = ''/opt/pwl/firmware/DevPackage/checksum.xml''"
definition UPDATE_FW_FLZ_FILE :: string where "UPDATE_FW_FLZ_FILE = ''/opt/pwl/firmware/FwPackage.flz''"
definition UPDATE_DEV_FLZ_FILE :: string where "UPDATE_DEV_FLZ_FILE = ''/opt/pwl/firmware/DevPackage.flz''"

lemmas pcie_sizes = MAX_DONWLOAD_IMAGES_def MAX_IMG_FILE_NAME_LEN_def MAX_CHECKSUM_LEN_def
lemmas update_types = UPDATE_TYPE_FULL_def UPDATE_TYPE_ONLY_FW_def UPDATE_TYPE_ONLY_DEV_def

definition log_act :: "pact \<Rightarrow> pcie \<Rightarrow> pcie" where
  "log_act a st = st\<lparr>pc_log := pc_log st @ [a]\<rparr>"

definition set_fs :: "fs \<Rightarrow> pcie \<Rightarrow> pcie" where
  "set_fs w st = st\<lparr>pc_fwu := (pc_fwu st)\<lparr>u_fs := w\<rparr>\<rparr>"

abbreviation pc_fs :: "pcie \<Rightarrow> fs" where
  "pc_fs st \<equiv> u_fs (pc_fwu st)"

section \<open>What there is to flash\<close>

text \<open>One look of \<^verbatim>\<open>check_update_data\<close> at the two files of a kind of update.\<close>

definition look_for :: "(string \<Rightarrow> bool) \<Rightarrow> string \<Rightarrow> string \<Rightarrow> int option" where
  "look_for acc fw dv =
     (if acc fw \<and> acc dv then Some UPDATE_TYPE_FULL
      else if acc fw \<and> \<not> acc dv then Some UPDATE_TYPE_ONLY_FW
      else if \<not> acc fw \<and> acc dv then Some UPDATE_TYPE_ONLY_DEV
      else None)"

definition look_for_type :: "int \<Rightarrow> (string \<Rightarrow> bool) \<Rightarrow> int option" where
  "look_for_type check_type acc =
     (if check_type = TYPE_FLASH_FLZ then look_for acc UPDATE_FW_FLZ_FILE UPDATE_DEV_FLZ_FILE
      else if check_type = TYPE_FLASH_FOLDER then look_for acc UPDATE_FW_FOLDER_FILE UPDATE_DEV_FOLDER_FILE
      else None)"

text \<open>The first argument is the number of rounds left of \<^verbatim>\<open>PWL_FW_UPDATE_RETRY_LIMIT\<close>.\<close>

fun look_loop :: "nat \<Rightarrow> nat \<Rightarrow> int \<Rightarrow> (nat \<Rightarrow> string \<Rightarrow> bool) \<Rightarrow> int option" where
  "look_loop 0 retry check_type acc = None"
| "look_loop (Suc n) retry check_type acc =
     (case look_for_type check_type (acc retry) of
        Some t \<Rightarrow> Some t
      | None \<Rightarrow> look_loop n (Suc retry) check_type acc)"

text \<open>\<^verbatim>\<open>unzip_flz\<close> asks whether the package can be opened; the result of \<^verbatim>\<open>system\<close> is not looked at.\<close>

definition unzip_flz :: "string \<Rightarrow> string \<Rightarrow> pcie \<Rightarrow> (int \<times> pcie) cres" where
  "unzip_flz flz_file unzip_folder st =
     (if fopen_r (pc_fs st) flz_file \<noteq> None
      then cbind (strcpy_cap MAX_COMMAND_LEN (''unzip -o -qq '' @ flz_file @ '' -d '' @ unzip_folder)) (\<lambda>command.
             Inr (0, log_act (Shell command) st))
      else Inr (-1, st))"

definition unzip_data :: "int \<Rightarrow> pcie \<Rightarrow> (int \<times> pcie) cres" where
  "unzip_data update_type st =
     (if update_type = UPDATE_TYPE_FULL
      then cbind (unzip_flz UPDATE_FW_FLZ_FILE UNZIP_FOLDER_FW st) (\<lambda>(r, s).
             if r \<noteq> 0 then Inr (-1, s) else unzip_flz UPDATE_DEV_FLZ_FILE UNZIP_FOLDER_DVP s)
      else if update_type = UPDATE_TYPE_ONLY_FW then unzip_flz UPDATE_FW_FLZ_FILE UNZIP_FOLDER_FW st
      else if update_type = UPDATE_TYPE_ONLY_DEV then unzip_flz UPDATE_DEV_FLZ_FILE UNZIP_FOLDER_DVP st
      else Inr (-1, st))"

definition check_update_data :: "penv \<Rightarrow> int \<Rightarrow> pcie \<Rightarrow> (int \<times> pcie) cres" where
  "check_update_data pe check_type st =
     (case look_loop PWL_FW_UPDATE_RETRY_LIMIT 0 check_type (pe_access pe) of
        None \<Rightarrow> Inr (-1, st)
      | Some t \<Rightarrow>
          let s = st\<lparr>pc_update_type := t\<rparr>
          in if check_type = TYPE_FLASH_FLZ then unzip_data t s else Inr (0, s))"

text \<open>The commands of \<^verbatim>\<open>remove_folder\<close> are noted whether or not they succeed.\<close>

definition drop_folder :: "shell \<Rightarrow> string \<Rightarrow> pcie \<Rightarrow> pcie cres" where
  "drop_folder sh path st = cbind (remove_folder sh path) (\<lambda>(_, command). Inr (log_act (Shell command) st))"

definition remove_flash_data :: "shell \<Rightarrow> int \<Rightarrow> pcie \<Rightarrow> pcie cres" where
  "remove_flash_data sh ty st =
     (if ty = UPDATE_TYPE_FULL
      then cbind (drop_folder sh UPDATE_FW_FOLDER_FILE st) (drop_folder sh UPDATE_DEV_FOLDER_FILE)
      else if ty = UPDATE_TYPE_ONLY_FW then drop_folder sh UPDATE_FW_FOLDER_FILE st
      else if ty = UPDATE_TYPE_ONLY_DEV then drop_folder sh UPDATE_DEV_FOLDER_FILE st
      else Inr st)"

section \<open>Images of the firmware package\<close>

text \<open>
  The return code and, when it is 0, the path stored. The arrays this is copied to are filling with zeros
  before each call.
\<close>

definition find_image_file_path :: "shell \<Rightarrow> string \<Rightarrow> string \<Rightarrow> (int \<times> string) cres" where
  "find_image_file_path sh image_file_name find_prefix =
     cbind (strcpy_cap MAX_IMG_FILE_NAME_LEN (''find '' @ find_prefix @ '' -name '' @ image_file_name)) (\<lambda>find_command.
       case sh find_command of
         None \<Rightarrow> Inr (-1, [])
       | Some out \<Rightarrow>
           let buffer = cut_at (case fgets MAX_IMG_FILE_NAME_LEN out of None \<Rightarrow> [] | Some l \<Rightarrow> l) [NL]
           in if length buffer \<le> 0 then Inr (-1, []) else Inr (0, buffer))"

text \<open>
  The loops over \<^verbatim>\<open>OEMSSID\<close> and over \<^verbatim>\<open>Carrier\<close>: the index that is left for a list of values of the
  attribute they compare.
\<close>

fun select_index :: "string \<Rightarrow> string option list \<Rightarrow> int \<Rightarrow> int \<Rightarrow> int \<Rightarrow> int" where
  "select_index wanted [] i default_index index = index"
| "select_index wanted (v # vs) i default_index index =
     (let default_index' = (if v = Some ''default'' then i else default_index);
          index' = (if v \<noteq> Some ''default'' \<and> v = Some wanted then i else index)
      in select_index wanted vs (i + 1) default_index' (if index' < 0 then default_index' else index'))"

definition select_node :: "string \<Rightarrow> string \<Rightarrow> xsel list \<Rightarrow> xnode cres" where
  "select_node attr wanted sel =
     cbind (get_at sel (select_index wanted (map (\<lambda>x. xmlGetProp (fst x) attr) sel) 0 (-1) (-1))) (\<lambda>x. Inr (fst x))"

text \<open>The text put into \<^verbatim>\<open>g_pcie_download_image_list\<close>: marked when the module has that version already.\<close>

definition up_to_date :: "int \<Rightarrow> string \<Rightarrow> string \<Rightarrow> bool" where
  "up_to_date based_type current new \<longleftrightarrow>
     based_type = PCIE_UPDATE_BASE_FLZ \<and> strncmp_eq current new (length current)"

definition image_entry :: "bool \<Rightarrow> string \<Rightarrow> string \<Rightarrow> string" where
  "image_entry skip path checksum =
     (if skip then ''SKIP_'' else []) @ (if length checksum > 0 then path @ ''|'' @ checksum else path)"

definition put_entry :: "int \<Rightarrow> string \<Rightarrow> pcie \<Rightarrow> pcie cres" where
  "put_entry i txt st =
     cbind (strcpy_cap MAX_IMG_FILE_NAME_LEN txt) (\<lambda>t.
     cbind (put_at (pc_image_list st) i t) (\<lambda>l. Inr (st\<lparr>pc_image_list := l\<rparr>)))"

definition add_image :: "string \<Rightarrow> string \<Rightarrow> xnode \<Rightarrow> string \<Rightarrow> int \<times> pcie \<Rightarrow> (int \<times> pcie) cres" where
  "add_image current new node path = (\<lambda>(i, st).
     if length path > 0
     then cbind (case xmlGetProp node ''checksum'' of None \<Rightarrow> Inr [] | Some c \<Rightarrow> strcpy_cap 20 c) (\<lambda>checksum.
          cbind (put_entry i (image_entry (up_to_date (pc_update_based_type st) current new) path checksum) st) (\<lambda>s.
            Inr (i + 1, s)))
     else Inr (i, st))"

fun add_children :: "shell \<Rightarrow> string \<Rightarrow> string \<Rightarrow> string \<Rightarrow> xnode list \<Rightarrow> int \<times> pcie \<Rightarrow> (int \<times> pcie) cres" where
  "add_children sh current new find_prefix [] x = Inr x"
| "add_children sh current new find_prefix (n # ns) x =
     (if is_element n
      then cbind (need (xmlGetProp n ''File'')) (\<lambda>file_name.
           cbind (find_image_file_path sh file_name find_prefix) (\<lambda>(_, path).
           cbind (add_image current new n path x) (add_children sh current new find_prefix ns)))
      else add_children sh current new find_prefix ns x)"

text \<open>\<^verbatim>\<open>APFirmware\<close> and \<^verbatim>\<open>MDFirmware\<close>: the images are the children of the element.\<close>

definition add_firmware :: "shell \<Rightarrow> string \<Rightarrow> xsel list \<Rightarrow> int \<times> pcie \<Rightarrow> (int \<times> pcie) cres" where
  "add_firmware sh current sel x =
     (case sel of
        [] \<Rightarrow> Inr x
      | (node, _) # _ \<Rightarrow>
          cbind (need (xmlGetProp node ''Ver'')) (\<lambda>ver.
          cbind (strcpy_cap OTHER_VERSION_LENGTH ver) (\<lambda>temp_version_info.
          cbind (need (xmlGetProp node ''File'')) (\<lambda>file_node.
          cbind (strcpy_cap MAX_IMG_FILE_NAME_LEN (UNZIP_FOLDER_FW @ ''/'' @ file_node @ ''*'')) (\<lambda>temp_find_prefix.
            add_children sh current temp_version_info temp_find_prefix (xchildren node) x)))))"

text \<open>\<^verbatim>\<open>OPFirmware\<close> and \<^verbatim>\<open>OEMFirmware\<close>: the element itself is the image.\<close>

definition add_single :: "shell \<Rightarrow> string \<Rightarrow> string \<Rightarrow> xsel list \<Rightarrow> int \<times> pcie \<Rightarrow> (int \<times> pcie) cres" where
  "add_single sh tag current sel x =
     (case sel of
        [] \<Rightarrow> Inr x
      | (node, _) # _ \<Rightarrow>
          cbind (need (xmlGetProp node ''Ver'')) (\<lambda>ver.
          cbind (strcpy_cap OTHER_VERSION_LENGTH (tag @ ver)) (\<lambda>temp_version_info.
          cbind (need (xmlGetProp node ''File'')) (\<lambda>file_node.
          cbind (find_image_file_path sh file_node UNZIP_FOLDER_FW) (\<lambda>(_, path).
            add_image current temp_version_info node path x)))))"

text \<open>The XPath expressions, in the array \<^verbatim>\<open>temp_xpath\<close>.\<close>

definition carrier_xpath :: "string \<Rightarrow> string" where
  "carrier_xpath subsysid =
     ''/Package/OEMSSIDList/OEMSSID[@Subsysid='' @ [CHR 0x27] @ subsysid @ [CHR 0x27] @ '']/CarrierList/Carrier''"

definition firmware_xpath :: "string \<Rightarrow> string \<Rightarrow> string \<Rightarrow> string" where
  "firmware_xpath subsysid carrier_id kind =
     carrier_xpath subsysid @ ''[@id='' @ [CHR 0x27] @ carrier_id @ [CHR 0x27] @ '']/'' @ kind"

definition firmware_nodes :: "xdoc \<Rightarrow> string \<Rightarrow> string \<Rightarrow> string \<Rightarrow> xsel list cres" where
  "firmware_nodes doc subsysid carrier_id kind =
     cbind (strcpy_cap MAX_IMG_FILE_NAME_LEN (firmware_xpath subsysid carrier_id kind)) (\<lambda>temp_xpath.
       Inr (xd_query doc temp_xpath))"

text \<open>The version of the package goes to \<^verbatim>\<open>fw_package_ver[30]\<close> of the caller, which does not use it.\<close>

definition package_version :: "xsel list \<Rightarrow> unit cres" where
  "package_version sel =
     (case sel of
        [] \<Rightarrow> Inr ()
      | (node, _) # _ \<Rightarrow> cbind (need (xmlGetProp node ''Ver'')) (\<lambda>v. cbind (strcpy_cap 30 v) (\<lambda>_. Inr ())))"

text \<open>The carrier of the chosen \<^verbatim>\<open>OEMSSID\<close>; without a list of carriers \<^verbatim>\<open>carrier_id_value\<close> stays null.\<close>

definition select_carrier :: "xdoc \<Rightarrow> string \<Rightarrow> string \<Rightarrow> string cres" where
  "select_carrier doc subsysid carrier_id =
     cbind (strcpy_cap MAX_IMG_FILE_NAME_LEN (carrier_xpath subsysid)) (\<lambda>temp_xpath.
       case xd_query doc temp_xpath of
         [] \<Rightarrow> Inl NullDeref
       | sel \<Rightarrow> cbind (select_node ''id'' carrier_id sel) (\<lambda>carrier_node. need (xmlGetProp carrier_node ''id'')))"

text \<open>The four kinds of images of a carrier, one after the other; \<open>cur\<close> is the version the module has.\<close>

definition ap_images :: "shell \<Rightarrow> xdoc \<Rightarrow> string \<Rightarrow> string \<Rightarrow> string \<Rightarrow> int \<times> pcie \<Rightarrow> (int \<times> pcie) cres" where
  "ap_images sh doc subsysid carrier_id cur x =
     cbind (firmware_nodes doc subsysid carrier_id ''APFirmware'') (\<lambda>ap.
     cbind (package_version ap) (\<lambda>_. add_firmware sh cur ap x))"

definition md_images :: "shell \<Rightarrow> xdoc \<Rightarrow> string \<Rightarrow> string \<Rightarrow> string \<Rightarrow> int \<times> pcie \<Rightarrow> (int \<times> pcie) cres" where
  "md_images sh doc subsysid carrier_id cur x =
     cbind (firmware_nodes doc subsysid carrier_id ''MDFirmware'') (\<lambda>md. add_firmware sh cur md x)"

definition op_images :: "shell \<Rightarrow> xdoc \<Rightarrow> string \<Rightarrow> string \<Rightarrow> string \<Rightarrow> int \<times> pcie \<Rightarrow> (int \<times> pcie) cres" where
  "op_images sh doc subsysid carrier_id cur x =
     cbind (firmware_nodes doc subsysid carrier_id ''OPFirmware'') (\<lambda>op. add_single sh ''OP.'' cur op x)"

definition oem_images :: "shell \<Rightarrow> xdoc \<Rightarrow> string \<Rightarrow> string \<Rightarrow> string \<Rightarrow> int \<times> pcie \<Rightarrow> (int \<times> pcie) cres" where
  "oem_images sh doc subsysid carrier_id cur x =
     cbind (firmware_nodes doc subsysid carrier_id ''OEMFirmware'') (\<lambda>oem. add_single sh ''OEM.'' cur oem x)"

definition add_package :: "shell \<Rightarrow> xdoc \<Rightarrow> string \<Rightarrow> string \<Rightarrow> pcie \<Rightarrow> (int \<times> pcie) cres" where
  "add_package sh doc subsysid carrier_id st =
     (let fw = pc_fwu st
      in cbind (ap_images sh doc subsysid carrier_id (u_current_fw_ver fw) (0, st)) (\<lambda>x1.
         cbind (md_images sh doc subsysid carrier_id (u_current_md_ver fw) x1) (\<lambda>x2.
         cbind (op_images sh doc subsysid carrier_id (u_current_op_ver fw) x2) (\<lambda>x3.
           oem_images sh doc subsysid carrier_id (u_current_oem_ver fw) x3))))"

text \<open>
  Without an \<^verbatim>\<open>OEMSSID\<close> the function frees pointers that were never written.
\<close>

definition find_fw_download_image :: "penv \<Rightarrow> string \<Rightarrow> string \<Rightarrow> pcie \<Rightarrow> (int \<times> pcie) cres" where
  "find_fw_download_image pe subsysid carrier_id st =
     (case pe_xml pe (UNZIP_FOLDER_FW @ ''/FwPackageInfo.xml'') of
        None \<Rightarrow> Inr (-1, st)
      | Some doc \<Rightarrow>
          (case xd_query doc ''//OEMSSID'' of
             [] \<Rightarrow> Inl Uninitialised
           | sel \<Rightarrow>
               cbind (select_node ''Subsysid'' subsysid sel) (\<lambda>oemssid_node.
               cbind (need (xmlGetProp oemssid_node ''Subsysid'')) (\<lambda>subsysid_value.
               cbind (select_carrier doc subsysid_value carrier_id) (\<lambda>carrier_id_value.
               cbind (add_package (pe_sh pe) doc subsysid_value carrier_id_value st) (\<lambda>(img_number_count, s).
                 Inr (0, s\<lparr>pc_img_number_count := img_number_count\<rparr>)))))))"

section \<open>Checksums\<close>

text \<open>
  \<^verbatim>\<open>parse_checksum\<close> runs through the siblings of the first \<^verbatim>\<open>file\<close>. Its result is of type \<^verbatim>\<open>bool\<close>, so a
  failure is returned as 1.
\<close>

fun scan_checksums :: "string \<Rightarrow> xnode list \<Rightarrow> int \<times> string \<Rightarrow> (int \<times> string) cres" where
  "scan_checksums key [] x = Inr x"
| "scan_checksums key (n # ns) (ret, val) =
     (if is_element n
      then cbind (need (xmlGetProp n ''name'')) (\<lambda>name_node.
           if strstr key name_node \<noteq> None
           then cbind (need (xmlGetProp n ''checksum'')) (\<lambda>c.
                if length c > 0
                then cbind (strcpy_cap MAX_CHECKSUM_LEN c) (\<lambda>v. scan_checksums key ns (0, v))
                else scan_checksums key ns (1, val))
           else scan_checksums key ns (ret, val))
      else scan_checksums key ns (ret, val))"

definition parse_checksum :: "penv \<Rightarrow> string \<Rightarrow> string \<Rightarrow> (int \<times> string) cres" where
  "parse_checksum pe checksum_file key_image =
     (case pe_xml pe checksum_file of
        None \<Rightarrow> Inr (1, [])
      | Some doc \<Rightarrow>
          (case xd_query doc ''//file'' of
             [] \<Rightarrow> Inl NullDeref
           | (n, siblings) # _ \<Rightarrow> scan_checksums key_image (n # siblings) (1, [])))"

section \<open>Image of the device package\<close>

definition esim_matches :: "bool \<Rightarrow> string option \<Rightarrow> bool" where
  "esim_matches esim_enable esim_node =
     (case esim_node of
        None \<Rightarrow> True
      | Some e \<Rightarrow> esim_enable \<and> e = ''Enable'' \<or> \<not> esim_enable \<and> e = ''Disable'')"

text \<open>The name of the image and its path, both empty when no entry matches.\<close>

fun scan_device :: "shell \<Rightarrow> bool \<Rightarrow> string \<Rightarrow> xnode list \<Rightarrow> (string \<times> string) cres" where
  "scan_device sh esim_enable sku_id [] = Inr ([], [])"
| "scan_device sh esim_enable sku_id (n # ns) =
     (let prod_id = (case xmlGetProp n ''ProductID'' of None \<Rightarrow> [] | Some p \<Rightarrow> take (PWL_MAX_SKUID_SIZE - 1) p)
      in if is_element n \<and> sku_id = prod_id \<and> esim_matches esim_enable (xmlGetProp n ''Esim'')
         then cbind (need (xmlGetProp n ''DevID'')) (\<lambda>dev_node.
              cbind (strcpy_cap MAX_IMG_FILE_NAME_LEN (dev_node @ ''.img'')) (\<lambda>image_name.
              cbind (find_image_file_path sh image_name UNZIP_FOLDER_DVP) (\<lambda>(_, image_path).
                Inr (image_name, image_path))))
         else scan_device sh esim_enable sku_id ns)"

definition find_device_image :: "penv \<Rightarrow> string \<Rightarrow> pcie \<Rightarrow> (int \<times> pcie) cres" where
  "find_device_image pe sku_id st =
     (case pe_xml pe (UNZIP_FOLDER_DVP @ ''/DevMappingTable.xml'') of
        None \<Rightarrow> Inr (-1, st)
      | Some doc \<Rightarrow>
          (case xd_query doc ''//UniqueSkuID'' of
             [] \<Rightarrow> Inl NullDeref
           | (n, siblings) # _ \<Rightarrow>
               cbind (scan_device (pe_sh pe) (u_esim_enable (pc_fwu st)) sku_id (n # siblings)) (\<lambda>(image_name, image_path).
               if length image_path \<le> 0 then Inr (-1, st)
               else cbind (parse_checksum pe DPV_CHECKSUM_PATH image_name) (\<lambda>(r, checksum).
                    let s = st\<lparr>pc_dpv_image_checksum := checksum\<rparr>
                    in if r \<noteq> 0 then Inr (-1, s)
                       else let skip = up_to_date (pc_update_based_type s) (u_current_dpv_ver (pc_fwu s)) image_name
                            in cbind (put_entry (pc_img_number_count s) ((if skip then ''SKIP_'' else []) @ image_path) s) (\<lambda>s'.
                                 Inr (0, s'\<lparr>pc_img_number_count := pc_img_number_count s' + 1\<rparr>))))))"

section \<open>Flash table\<close>

definition table_line :: "string \<Rightarrow> string \<Rightarrow> string \<Rightarrow> string" where
  "table_line part img checksum = ''Flash|'' @ part @ ''|'' @ img @ ''|'' @ checksum @ [NL]"

text \<open>
  A pointer to a value of the scatter file. The three pointers are freed after each partition and keep
  their old value when the next partition does not set them.
\<close>

datatype slot = Null | Live string | Freed

definition use_slot :: "slot \<Rightarrow> string cres" where
  "use_slot p = (case p of Null \<Rightarrow> Inl NullDeref | Live s \<Rightarrow> Inr s | Freed \<Rightarrow> Inl UseAfterFree)"

definition free_slot :: "slot \<Rightarrow> slot cres" where
  "free_slot p = (case p of Null \<Rightarrow> Inr Null | Live _ \<Rightarrow> Inr Freed | Freed \<Rightarrow> Inl UseAfterFree)"

record scatter_values =
  value_partition_name :: slot
  value_file_name :: slot
  value_is_download :: slot

definition slot_of :: "xnode \<Rightarrow> slot" where
  "slot_of n = (case xtext n of None \<Rightarrow> Null | Some t \<Rightarrow> Live t)"

definition read_value :: "xnode \<Rightarrow> scatter_values \<Rightarrow> scatter_values" where
  "read_value n v =
     (if element_named ''partition_name'' n then v\<lparr>value_partition_name := slot_of n\<rparr>
      else if element_named ''file_name'' n then v\<lparr>value_file_name := slot_of n\<rparr>
      else if element_named ''is_download'' n then v\<lparr>value_is_download := slot_of n\<rparr>
      else v)"

definition free_values :: "scatter_values \<Rightarrow> scatter_values cres" where
  "free_values v =
     cbind (free_slot (value_partition_name v)) (\<lambda>a.
     cbind (free_slot (value_file_name v)) (\<lambda>b.
     cbind (free_slot (value_is_download v)) (\<lambda>c.
       Inr \<lparr>value_partition_name = a, value_file_name = b, value_is_download = c\<rparr>)))"

text \<open>The lines that the images give for one partition; \<^verbatim>\<open>mcf2\<close> is added later.\<close>

fun partition_lines :: "penv \<Rightarrow> scatter_values \<Rightarrow> string list \<Rightarrow> string cres" where
  "partition_lines pe v [] = Inr []"
| "partition_lines pe v (img # imgs) =
     cbind (use_slot (value_file_name v)) (\<lambda>file_name.
       if strstr img file_name = None then partition_lines pe v imgs
       else cbind (use_slot (value_partition_name v)) (\<lambda>partition_name.
            if partition_name = ''mcf2'' then partition_lines pe v imgs
            else cbind (if strstr img ''0x'' = None
                        then cbind (parse_checksum pe FW_PACKAGE_CHECKSUM_PATH file_name) (\<lambda>(_, c). Inr c)
                        else Inr []) (\<lambda>temp_checksum.
                 cbind (partition_lines pe v imgs) (\<lambda>rest.
                   Inr (table_line partition_name img temp_checksum @ rest)))))"

fun scatter_lines :: "penv \<Rightarrow> string list \<Rightarrow> xnode list \<Rightarrow> scatter_values \<Rightarrow> string cres" where
  "scatter_lines pe imgs [] v = Inr []"
| "scatter_lines pe imgs (n # ns) v =
     (if element_named ''partition_index'' n
      then let v1 = fold read_value (xchildren n) v
           in cbind (partition_lines pe v1 imgs) (\<lambda>ls.
              cbind (free_values v1) (\<lambda>v2.
              cbind (scatter_lines pe imgs ns v2) (\<lambda>rest. Inr (ls @ rest))))
      else scatter_lines pe imgs ns v)"

definition no_values :: scatter_values where
  "no_values = \<lparr>value_partition_name = Null, value_file_name = Null, value_is_download = Null\<rparr>"

text \<open>The first \<^verbatim>\<open>storage_type\<close> of the root element; its children are the partitions.\<close>

definition storage_type_node :: "xdoc \<Rightarrow> xnode option" where
  "storage_type_node doc =
     (case xd_root doc of None \<Rightarrow> None | Some root \<Rightarrow> find (element_named ''storage_type'') (xchildren root))"

text \<open>The images counted so far, \<^verbatim>\<open>g_pcie_download_image_list[0 .. g_pcie_img_number_count - 1]\<close>.\<close>

definition listed_images :: "pcie \<Rightarrow> string list cres" where
  "listed_images st =
     (if pc_img_number_count st \<le> int (length (pc_image_list st))
      then Inr (take (nat (pc_img_number_count st)) (pc_image_list st)) else Inl OutOfBounds)"

definition device_line :: "pcie \<Rightarrow> string cres" where
  "device_line st =
     cbind (get_at (pc_image_list st) (pc_img_number_count st - 1)) (\<lambda>img.
       Inr (if strstr img ''DevPackage'' \<noteq> None then table_line ''mcf2'' img (pc_dpv_image_checksum st) else []))"

definition scatter_table :: "penv \<Rightarrow> xdoc \<Rightarrow> pcie \<Rightarrow> string cres" where
  "scatter_table pe doc st =
     cbind (need (storage_type_node doc)) (\<lambda>storage.
     cbind (listed_images st) (\<lambda>imgs.
     cbind (scatter_lines pe imgs (xchildren storage) no_values) (\<lambda>ls.
     cbind (if pc_update_type st = UPDATE_TYPE_FULL then device_line st else Inr []) (\<lambda>l. Inr (ls @ l)))))"

definition write_table :: "string \<Rightarrow> pcie \<Rightarrow> pcie" where
  "write_table txt st = set_fs (write_file FLASH_TABLE_FILE_NAME txt (pc_fs st)) st"

definition generate_download_table :: "penv \<Rightarrow> string \<Rightarrow> pcie \<Rightarrow> (int \<times> pcie) cres" where
  "generate_download_table pe xml_file st =
     (if \<not> can_write (pc_fs st) FLASH_TABLE_FILE_NAME then Inr (-1, st)
      else if pc_update_type st = UPDATE_TYPE_ONLY_DEV
      then cbind (get_at (pc_image_list st) 0) (\<lambda>img.
             if strstr img ''DevPackage'' \<noteq> None
             then Inr (0, write_table (table_line ''mcf2'' img (pc_dpv_image_checksum st)) st)
             else Inr (-1, write_table [] st))
      else case pe_xml pe xml_file of
             None \<Rightarrow> Inr (-1, write_table [] st)
           | Some doc \<Rightarrow> cbind (scatter_table pe doc st) (\<lambda>txt. Inr (0, write_table txt st)))"

section \<open>Check of the flash table\<close>

text \<open>The strings that \<^verbatim>\<open>fscanf(fp, "%s", ...)\<close> reads one after the other into an array of \<open>n\<close> bytes.\<close>

definition white_space :: string where
  "white_space = '' '' @ [NL, CR, CHR 0x09, CHR 0x0B, CHR 0x0C]"

fun all_fit :: "nat \<Rightarrow> string list \<Rightarrow> string list cres" where
  "all_fit n [] = Inr []"
| "all_fit n (t # ts) = cbind (strcpy_cap n t) (\<lambda>t'. cbind (all_fit n ts) (\<lambda>ts'. Inr (t' # ts')))"

definition fscanf_words :: "nat \<Rightarrow> string \<Rightarrow> string list cres" where
  "fscanf_words n txt = all_fit n (strtok_all white_space txt)"

definition check_image_downlaod_table :: "pcie \<Rightarrow> (int \<times> pcie) cres" where
  "check_image_downlaod_table st0 =
     (let st = st0\<lparr>pc_need_update := False\<rparr>
      in case fopen_r (pc_fs st) FLASH_TABLE_FILE_NAME of
           None \<Rightarrow> Inr (-1, st)
         | Some txt \<Rightarrow>
             cbind (fscanf_words MAX_IMG_FILE_NAME_LEN txt) (\<lambda>temp_list.
             cbind (cassert (length temp_list \<le> MAX_DONWLOAD_IMAGES) OutOfBounds) (\<lambda>_.
             let s = st\<lparr>pc_need_update := (\<exists>t \<in> set temp_list. strstr t ''SKIP_'' = None)\<rparr>
             in if \<not> pc_need_update s then Inr (-1, s)
                else cbind (listed_images s) (\<lambda>imgs.
                  Inr (if \<forall>img \<in> set imgs. \<exists>t \<in> set temp_list. strstr t img \<noteq> None then 0 else -1, s)))))"

section \<open>All data fit their arrays\<close>

definition tab_inv :: "pcie \<Rightarrow> bool" where
  "tab_inv st \<longleftrightarrow> length (pc_image_list st) = MAX_DONWLOAD_IMAGES
     \<and> (\<forall>t \<in> set (pc_image_list st). length t < MAX_IMG_FILE_NAME_LEN)
     \<and> 0 \<le> pc_img_number_count st \<and> pc_img_number_count st \<le> int MAX_DONWLOAD_IMAGES
     \<and> length (pc_dpv_image_checksum st) < MAX_CHECKSUM_LEN"

text \<open>\<open>globals\<close>: all fields but the image list, its count and the checksum.\<close>

definition globals :: "pcie \<Rightarrow> pcie" where
  "globals st = st\<lparr>pc_image_list := [], pc_img_number_count := 0, pc_dpv_image_checksum := []\<rparr>"

definition kept :: "pcie \<Rightarrow> pcie \<Rightarrow> bool" where
  "kept st s \<longleftrightarrow> globals s = globals st \<and> (tab_inv st \<longrightarrow> tab_inv s)"

text \<open>\<open>filling\<close> is kept by the functions that add the images of a package to the list.\<close>

definition filling :: "pcie \<Rightarrow> int \<times> pcie \<Rightarrow> bool" where
  "filling st x \<longleftrightarrow> kept st (snd x) \<and> (tab_inv st \<longrightarrow> 0 \<le> fst x \<and> fst x \<le> int MAX_DONWLOAD_IMAGES)"

lemma globals_simps [simp]:
  "globals (st\<lparr>pc_image_list := l\<rparr>) = globals st" "globals (st\<lparr>pc_img_number_count := i\<rparr>) = globals st"
  "globals (st\<lparr>pc_dpv_image_checksum := c\<rparr>) = globals st"
  by (simp_all add: globals_def)

lemma globals_fields:
  assumes "globals s = globals st"
  shows "pc_fwu s = pc_fwu st" "pc_log s = pc_log st" "pc_update_type s = pc_update_type st"
    "pc_update_based_type s = pc_update_based_type st" "pc_need_update s = pc_need_update st"
    "pc_is_fw_update_processing s = pc_is_fw_update_processing st" "pc_fastboot_port s = pc_fastboot_port st"
    "pc_t7xx_mode_node s = pc_t7xx_mode_node st" "pc_t7xx_mode_remove_node s = pc_t7xx_mode_remove_node st"
    "pc_answers s = pc_answers st" "pc_modes s = pc_modes st" "pc_ports s = pc_ports st"
    "pc_writes s = pc_writes st" "pc_transfers s = pc_transfers st"
  using arg_cong [OF assms, of pc_fwu] arg_cong [OF assms, of pc_log] arg_cong [OF assms, of pc_update_type]
    arg_cong [OF assms, of pc_update_based_type] arg_cong [OF assms, of pc_need_update]
    arg_cong [OF assms, of pc_is_fw_update_processing] arg_cong [OF assms, of pc_fastboot_port]
    arg_cong [OF assms, of pc_t7xx_mode_node] arg_cong [OF assms, of pc_t7xx_mode_remove_node]
    arg_cong [OF assms, of pc_answers] arg_cong [OF assms, of pc_modes] arg_cong [OF assms, of pc_ports]
    arg_cong [OF assms, of pc_writes] arg_cong [OF assms, of pc_transfers]
  by (simp_all add: globals_def)

lemma kept_refl [simp]: "kept st st"
  by (simp add: kept_def)

lemma kept_trans: "kept a b \<Longrightarrow> kept b c \<Longrightarrow> kept a c"
  by (simp add: kept_def)

lemma tab_inv_count: "tab_inv st \<Longrightarrow> 0 \<le> i \<Longrightarrow> i \<le> int MAX_DONWLOAD_IMAGES \<Longrightarrow> tab_inv (st\<lparr>pc_img_number_count := i\<rparr>)"
  by (simp add: tab_inv_def)

lemma tab_inv_checksum: "tab_inv st \<Longrightarrow> length c < MAX_CHECKSUM_LEN \<Longrightarrow> tab_inv (st\<lparr>pc_dpv_image_checksum := c\<rparr>)"
  by (simp add: tab_inv_def)

lemma tab_inv_entry:
  "tab_inv st \<Longrightarrow> length t < MAX_IMG_FILE_NAME_LEN \<Longrightarrow> tab_inv (st\<lparr>pc_image_list := (pc_image_list st)[i := t]\<rparr>)"
  by (auto simp: tab_inv_def dest: set_update_subset_insert [THEN subsetD])

lemma put_entry_Inr:
  "put_entry i txt st = Inr s \<longleftrightarrow> length txt < MAX_IMG_FILE_NAME_LEN \<and> 0 \<le> i \<and> i < int (length (pc_image_list st))
     \<and> s = st\<lparr>pc_image_list := (pc_image_list st)[nat i := txt]\<rparr>"
  by (auto simp: put_entry_def put_at_def cbind_eq_Inr_iff)

lemma add_image_post:
  assumes "filling st x"
  shows "cpost (filling st) (add_image current new node path x)"
proof (cases x)
  case (Pair i s)
  have "filling st (i + 1, s')" if "put_entry i w s = Inr s'" for w s'
    using assms that
    by (auto simp: filling_def kept_def Pair put_entry_Inr tab_inv_entry) (simp add: tab_inv_def)
  then show ?thesis using assms
    by (auto simp: add_image_def Pair intro!: cpost_cbind_any)
qed

lemma add_children_post: "filling st x \<Longrightarrow> cpost (filling st) (add_children sh current new pre ns x)"
proof (induction ns arbitrary: x)
  case (Cons n ns)
  show ?case
  proof (cases "is_element n")
    case True
    then show ?thesis
      by (auto intro!: cpost_cbind_any [of "need _"] cpost_cbind_any [of "find_image_file_path _ _ _"]
          cpost_cbindI [OF add_image_post [OF Cons.prems] Cons.IH] split: prod.split)
  qed (simp add: Cons)
qed simp

lemma add_firmware_post: "filling st x \<Longrightarrow> cpost (filling st) (add_firmware sh current sel x)"
  unfolding add_firmware_def by (auto intro!: cpost_cbind_any add_children_post split: list.splits)

lemma add_single_post: "filling st x \<Longrightarrow> cpost (filling st) (add_single sh tag current sel x)"
  unfolding add_single_def by (auto intro!: cpost_cbind_any add_image_post split: list.splits)

lemma images_post:
  assumes "filling st x"
  shows "cpost (filling st) (ap_images sh doc sid cid cur x)" "cpost (filling st) (md_images sh doc sid cid cur x)"
    "cpost (filling st) (op_images sh doc sid cid cur x)" "cpost (filling st) (oem_images sh doc sid cid cur x)"
  unfolding ap_images_def md_images_def op_images_def oem_images_def
  using assms by (auto intro!: cpost_cbind_any add_firmware_post add_single_post)

lemma add_package_post: "cpost (filling st) (add_package sh doc subsysid carrier_id st)"
proof -
  have start: "filling st (0, st)" by (simp add: filling_def)
  show ?thesis unfolding add_package_def Let_def
    by (rule cpost_cbindI [OF images_post(1) [OF start]], rule cpost_cbindI [OF images_post(2)], assumption,
      rule cpost_cbindI [OF images_post(3)], assumption, rule images_post(4))
qed

lemma find_fw_download_image_kept: "cpost (\<lambda>(r, s). kept st s) (find_fw_download_image pe subsysid carrier_id st)"
proof -
  have "cpost (\<lambda>(r, s). kept st s) (cbind (add_package sh doc sid cid st) (\<lambda>(n, s). Inr (0, s\<lparr>pc_img_number_count := n\<rparr>)))"
    for sh doc sid cid
    by (rule cpost_cbindI [OF add_package_post]) (auto simp: filling_def kept_def intro: tab_inv_count)
  then show ?thesis unfolding find_fw_download_image_def
    by (auto intro!: cpost_cbind_any [of "select_node _ _ _"] cpost_cbind_any [of "need _"]
      cpost_cbind_any [of "select_carrier _ _ _"] simp: case_prod_beta split: option.split list.split)
qed

lemma scan_checksums_post:
  "length (snd x) < MAX_CHECKSUM_LEN \<Longrightarrow> cpost (\<lambda>(r, c). length c < MAX_CHECKSUM_LEN) (scan_checksums key ns x)"
proof (induction ns arbitrary: x)
  case (Cons n ns)
  obtain r v where x: "x = (r, v)" by (cases x)
  show ?case unfolding x scan_checksums.simps
    using Cons by (auto intro!: cpost_cbind_any simp: x)
qed (simp add: case_prod_beta)

lemma parse_checksum_post: "cpost (\<lambda>(r, c). length c < MAX_CHECKSUM_LEN) (parse_checksum pe file_name key)"
proof -
  have "length (snd (1 :: int, [])) < MAX_CHECKSUM_LEN" by (simp add: MAX_CHECKSUM_LEN_def)
  from scan_checksums_post [OF this] show ?thesis
    unfolding parse_checksum_def by (auto simp: MAX_CHECKSUM_LEN_def split: option.split list.split simp del: scan_checksums.simps)
qed

text \<open>A device image that is selected takes the next place of the list.\<close>

definition took_place :: "pcie \<Rightarrow> pcie \<Rightarrow> bool" where
  "took_place st s \<longleftrightarrow> (\<exists>t. pc_image_list s = (pc_image_list st)[nat (pc_img_number_count st) := t])
     \<and> pc_img_number_count s = pc_img_number_count st + 1
     \<and> 0 \<le> pc_img_number_count st \<and> pc_img_number_count st < int (length (pc_image_list st))"

lemma find_device_image_post:
  "cpost (\<lambda>(r, s). kept st s \<and> (r = 0 \<longrightarrow> took_place st s)
     \<and> (r \<noteq> 0 \<longrightarrow> pc_image_list s = pc_image_list st \<and> pc_img_number_count s = pc_img_number_count st))
   (find_device_image pe sku_id st)"
proof -
  have put: "kept st (s\<lparr>pc_img_number_count := pc_img_number_count s + 1\<rparr>)
      \<and> took_place st (s\<lparr>pc_img_number_count := pc_img_number_count s + 1\<rparr>)"
    if "put_entry (pc_img_number_count st) w (st\<lparr>pc_dpv_image_checksum := c\<rparr>) = Inr s" "length c < MAX_CHECKSUM_LEN" for w s c
    using that tab_inv_checksum [of st c]
    by (auto simp: put_entry_Inr kept_def took_place_def tab_inv_def dest: set_update_subset_insert [THEN subsetD])
  have check: "cpost (\<lambda>(r :: int, s). kept st s \<and> (r = 0 \<longrightarrow> took_place st s)
      \<and> (r \<noteq> 0 \<longrightarrow> pc_image_list s = pc_image_list st \<and> pc_img_number_count s = pc_img_number_count st))
    (cbind (parse_checksum pe DPV_CHECKSUM_PATH image_name) (\<lambda>(r, checksum).
       let s = st\<lparr>pc_dpv_image_checksum := checksum\<rparr>
       in if r \<noteq> 0 then Inr (-1, s)
          else let skip = up_to_date (pc_update_based_type s) (u_current_dpv_ver (pc_fwu s)) image_name
               in cbind (put_entry (pc_img_number_count s) ((if skip then ''SKIP_'' else []) @ image_path) s) (\<lambda>s'.
                    Inr (0, s'\<lparr>pc_img_number_count := pc_img_number_count s' + 1\<rparr>))))" for image_name image_path
    by (rule cpost_cbindI [OF parse_checksum_post])
      (auto simp: Let_def kept_def tab_inv_checksum intro!: cpost_cbind_any dest!: put)
  show ?thesis unfolding find_device_image_def
    by (auto intro!: cpost_cbind_any [of "scan_device _ _ _ _"] check simp del: scan_device.simps split: option.split list.split prod.split)
qed

section \<open>Which node is chosen\<close>

definition first_index :: "string option \<Rightarrow> string option list \<Rightarrow> nat" where
  "first_index v vs = length (takeWhile (\<lambda>x. x \<noteq> v) vs)"

definition last_index :: "string option \<Rightarrow> string option list \<Rightarrow> nat" where
  "last_index v vs = length vs - Suc (first_index v (rev vs))"

lemma first_index_less: "v \<in> set vs \<Longrightarrow> first_index v vs < length vs"
  unfolding first_index_def by (rule length_takeWhile_less) auto

lemma last_index_later: "v \<in> set vs \<Longrightarrow> last_index v (x # vs) = Suc (last_index v vs)"
proof -
  assume v: "v \<in> set vs"
  then have "first_index v (rev vs) < length vs" using first_index_less [of v "rev vs"] by simp
  moreover have "first_index v (rev vs @ [x]) = first_index v (rev vs)"
    unfolding first_index_def using v by (subst takeWhile_append1) auto
  ultimately show ?thesis by (simp add: last_index_def)
qed

lemma last_index_here: "v \<notin> set vs \<Longrightarrow> last_index v (v # vs) = 0"
proof -
  assume "v \<notin> set vs"
  then have "takeWhile (\<lambda>x. x \<noteq> v) (rev vs @ v # []) = rev vs" by (intro takeWhile_stop) auto
  then show ?thesis by (simp add: last_index_def first_index_def)
qed

lemma select_index_from:
  "wanted \<noteq> ''default'' \<Longrightarrow> 0 \<le> index \<Longrightarrow> 0 \<le> i \<Longrightarrow> select_index wanted vs i d index =
     (if Some wanted \<in> set vs then i + int (last_index (Some wanted) vs) else index)"
proof (induction vs arbitrary: i d index)
  case (Cons v vs)
  then show ?case
    by (cases "v = Some wanted") (auto simp: Let_def last_index_later last_index_here)
qed simp

lemma select_index_start:
  "wanted \<noteq> ''default'' \<Longrightarrow> 0 \<le> i \<Longrightarrow> select_index wanted vs i (-1) (-1) =
     (if Some wanted \<in> set vs then i + int (last_index (Some wanted) vs)
      else if Some ''default'' \<in> set vs then i + int (first_index (Some ''default'') vs) else -1)"
proof (induction vs arbitrary: i)
  case (Cons v vs)
  then show ?case
    by (cases "v = Some wanted"; cases "v = Some ''default''")
      (auto simp: Let_def select_index_from last_index_later last_index_here first_index_def)
qed simp

lemma find_first_index:
  "find (\<lambda>x. f x = v) xs = (if v \<in> f ` set xs then Some (xs ! first_index v (map f xs)) else None)"
proof (induction xs)
  case (Cons x xs)
  then show ?case by (auto simp: first_index_def)
qed (simp add: first_index_def)

lemma find_last_index:
  assumes "v \<in> f ` set xs"
  shows "find (\<lambda>x. f x = v) (rev xs) = Some (xs ! last_index v (map f xs))"
proof -
  have "first_index v (rev (map f xs)) < length xs"
    using first_index_less [of v "rev (map f xs)"] assms by simp
  then show ?thesis using assms
    by (simp add: find_first_index last_index_def rev_nth rev_map)
qed

lemma select_at:
  assumes "wanted \<noteq> ''default''"
  shows "get_at sel (select_index wanted (map f sel) 0 (-1) (-1)) =
    (case find (\<lambda>x. f x = Some wanted) (rev sel) of
       Some x \<Rightarrow> Inr x
     | None \<Rightarrow> (case find (\<lambda>x. f x = Some ''default'') sel of Some x \<Rightarrow> Inr x | None \<Rightarrow> Inl OutOfBounds))"
proof -
  have idx: "select_index wanted (map f sel) 0 (-1) (-1) =
     (if Some wanted \<in> f ` set sel then int (last_index (Some wanted) (map f sel))
      else if Some ''default'' \<in> f ` set sel then int (first_index (Some ''default'') (map f sel)) else -1)"
    using select_index_start [OF assms, of 0 "map f sel"] by simp
  show ?thesis
  proof (cases "Some wanted \<in> f ` set sel")
    case True
    then have "sel \<noteq> []" by auto
    then have "last_index (Some wanted) (map f sel) < length sel" by (simp add: last_index_def)
    with True find_last_index [OF True] show ?thesis by (simp only: idx get_at_def) simp
  next
    case False
    then have none: "find (\<lambda>x. f x = Some wanted) (rev sel) = None"
      by (auto simp: find_None_iff) (metis image_eqI)
    show ?thesis
      using False none first_index_less [of "Some ''default''" "map f sel"]
      by (simp only: idx get_at_def find_first_index) auto
  qed
qed

text \<open>From the descriptions of the package the last one for the module (or carrier) is taken, otherwise
  the first one called \<^verbatim>\<open>default\<close>; without either the code reads in front of the array of nodes.\<close>

theorem select_node_correct:
  assumes "wanted \<noteq> ''default''"
  shows "select_node attr wanted sel =
    (case find (\<lambda>x. xmlGetProp (fst x) attr = Some wanted) (rev sel) of
       Some x \<Rightarrow> Inr (fst x)
     | None \<Rightarrow> (case find (\<lambda>x. xmlGetProp (fst x) attr = Some ''default'') sel of
                 Some x \<Rightarrow> Inr (fst x)
               | None \<Rightarrow> Inl OutOfBounds))"
  unfolding select_node_def select_at [OF assms] by (simp split: option.split)

theorem select_node_correct_witness:
  "select_node ''id'' ''7'' (map (\<lambda>v. (Element ''Carrier'' [''id'' \<mapsto> v] None [], [])) [''default'', ''7'', ''9''])
     = Inr (Element ''Carrier'' [''id'' \<mapsto> ''7''] None [])"
  by (simp add: select_node_correct)

section \<open>A device image is never taken off the list\<close>

text \<open>An update of the device package alone adds its image to the list and never clears it: when the
  update is started often enough in one process, the list runs over.\<close>

theorem device_retries_overflow:
  assumes inv: "tab_inv st"
    and doc: "pe_xml pe (UNZIP_FOLDER_DVP @ ''/DevMappingTable.xml'') = Some doc" "xd_query doc ''//UniqueSkuID'' = (n, siblings) # others"
    and image: "scan_device (pe_sh pe) (u_esim_enable (pc_fwu st)) sku_id (n # siblings) = Inr (image_name, image_path)"
      "image_path \<noteq> []" "length image_path + 5 < MAX_IMG_FILE_NAME_LEN"
    and sum: "parse_checksum pe DPV_CHECKSUM_PATH image_name = Inr (0, c)"
    and often: "MAX_DONWLOAD_IMAGES < nat (pc_img_number_count st) + k"
  shows "citer k (\<lambda>s. cbind (find_device_image pe sku_id s) (\<lambda>(_, s'). Inr s')) st = Inl OutOfBounds"
  using inv image(1) often
proof (induction k arbitrary: st)
  case 0
  have "nat (pc_img_number_count st) \<le> MAX_DONWLOAD_IMAGES"
    using "0.prems"(1) unfolding tab_inv_def nat_le_iff by simp
  with "0.prems"(3) show ?case by simp
next
  case (Suc k)
  have step: "find_device_image pe sku_id st = (if pc_img_number_count st < int MAX_DONWLOAD_IMAGES
      then Inr (0, st\<lparr>pc_dpv_image_checksum := c, pc_img_number_count := pc_img_number_count st + 1,
        pc_image_list := (pc_image_list st)[nat (pc_img_number_count st) :=
          (if up_to_date (pc_update_based_type st) (u_current_dpv_ver (pc_fwu st)) image_name then ''SKIP_'' else []) @ image_path]\<rparr>)
      else Inl OutOfBounds)"
    using Suc.prems(1,2) image(2,3) doc sum
    by (auto simp: find_device_image_def Let_def put_entry_def put_at_def tab_inv_def strcpy_cap_def simp del: scan_device.simps)
  show ?case
  proof (cases "pc_img_number_count st < int MAX_DONWLOAD_IMAGES")
    case True
    let ?s = "snd (projr (find_device_image pe sku_id st))"
    have "kept st ?s" using cpostD [OF find_device_image_post, of pe sku_id st] step True by simp
    moreover have "u_esim_enable (pc_fwu ?s) = u_esim_enable (pc_fwu st)"
      "pc_img_number_count ?s = pc_img_number_count st + 1" using step True by simp_all
    ultimately have "citer k (\<lambda>s. cbind (find_device_image pe sku_id s) (\<lambda>(_, s'). Inr s')) ?s = Inl OutOfBounds"
      using Suc.prems by (intro Suc.IH) (auto simp: kept_def tab_inv_def)
    then show ?thesis using step True by simp
  qed (simp add: step)
qed

text \<open>The globals as they are when the process starts.\<close>

definition pcie_init :: "fwu \<Rightarrow> pcie" where
  "pcie_init fw =
     \<lparr>pc_fwu = fw, pc_image_list = replicate MAX_DONWLOAD_IMAGES [], pc_img_number_count = 0, pc_update_type = 0,
      pc_update_based_type = 0, pc_is_fw_update_processing = False, pc_need_update = False, pc_dpv_image_checksum = [],
      pc_fastboot_port = [], pc_t7xx_mode_node = [], pc_t7xx_mode_remove_node = [], pc_log = [], pc_ports = [],
      pc_answers = [], pc_writes = [], pc_transfers = [], pc_modes = []\<rparr>"

lemma pcie_init_inv: "tab_inv (pcie_init fw)"
  by (simp add: tab_inv_def pcie_init_def pcie_sizes)

text \<open>A device package with one image.\<close>

definition doc_of :: "string \<Rightarrow> (string \<Rightarrow> string option) \<Rightarrow> xdoc" where
  "doc_of nm props = \<lparr>xd_query = (\<lambda>q. if q = ''//'' @ nm then [(Element nm props None [], [])] else []), xd_root = None\<rparr>"

definition example_dev_docs :: "string \<Rightarrow> xdoc option" where
  "example_dev_docs =
     [UNZIP_FOLDER_DVP @ ''/DevMappingTable.xml'' \<mapsto> doc_of ''UniqueSkuID'' [''ProductID'' \<mapsto> ''0B5A'', ''DevID'' \<mapsto> ''DPV1''],
      DPV_CHECKSUM_PATH \<mapsto> doc_of ''file'' [''name'' \<mapsto> ''DPV1.img'', ''checksum'' \<mapsto> ''0x12345678'']]"

definition example_dev_env :: penv where
  "example_dev_env = \<lparr>pe_xml = example_dev_docs, pe_sh = (\<lambda>_. Some ''/opt/pwl/firmware/DevPackage/DPV1.img''),
     pe_access = (\<lambda>_ _. True)\<rparr>"

lemma example_dev_scan:
  "scan_device (pe_sh example_dev_env) e ''0B5A'' [Element ''UniqueSkuID'' [''ProductID'' \<mapsto> ''0B5A'', ''DevID'' \<mapsto> ''DPV1''] None []]
     = Inr (''DPV1.img'', ''/opt/pwl/firmware/DevPackage/DPV1.img'')"
  by (simp add: example_dev_env_def is_element_def esim_matches_def PWL_MAX_SKUID_SIZE_def find_image_file_path_def
    strcpy_cap_def pcie_sizes UNZIP_FOLDER_DVP_def fgets_def fgets_lines_def cut_at_def strcspn_def)

lemma example_dev_checksum: "parse_checksum example_dev_env DPV_CHECKSUM_PATH ''DPV1.img'' = Inr (0, ''0x12345678'')"
  by (simp add: parse_checksum_def example_dev_env_def example_dev_docs_def doc_of_def is_element_def strcpy_cap_def pcie_sizes
    DPV_CHECKSUM_PATH_def UNZIP_FOLDER_DVP_def)

theorem device_retries_overflow_witness:
  "citer 51 (\<lambda>s. cbind (find_device_image example_dev_env ''0B5A'' s) (\<lambda>(_, s'). Inr s')) (pcie_init example_pcie) = Inl OutOfBounds"
proof (rule device_retries_overflow [OF pcie_init_inv _ _ example_dev_scan _ _ example_dev_checksum])
  show "pe_xml example_dev_env (UNZIP_FOLDER_DVP @ ''/DevMappingTable.xml'')
      = Some (doc_of ''UniqueSkuID'' [''ProductID'' \<mapsto> ''0B5A'', ''DevID'' \<mapsto> ''DPV1''])"
    by (simp add: example_dev_env_def example_dev_docs_def UNZIP_FOLDER_DVP_def DPV_CHECKSUM_PATH_def)
  show "xd_query (doc_of ''UniqueSkuID'' [''ProductID'' \<mapsto> ''0B5A'', ''DevID'' \<mapsto> ''DPV1'']) ''//UniqueSkuID''
      = [(Element ''UniqueSkuID'' [''ProductID'' \<mapsto> ''0B5A'', ''DevID'' \<mapsto> ''DPV1''] None [], [])]"
    by (simp add: doc_of_def)
qed (simp_all add: pcie_sizes pcie_init_def)

section \<open>A device package after a firmware package\<close>

lemma took_place_first: "took_place st s \<Longrightarrow> 0 < pc_img_number_count st \<Longrightarrow> pc_image_list s ! 0 = pc_image_list st ! 0"
  by (auto simp: took_place_def)

text \<open>The table of a device-only update is made from the first place of the list. After an update that
  put another image there, an update of the device package alone fails whatever image it selects.\<close>

theorem device_update_after_firmware_fails:
  assumes "tab_inv st" "0 < pc_img_number_count st" "pc_update_type st = UPDATE_TYPE_ONLY_DEV"
    and "strstr (pc_image_list st ! 0) ''DevPackage'' = None"
  shows "cpost (\<lambda>(r, s). cpost (\<lambda>(r', _). r' = -1) (generate_download_table pe xml_file s)) (find_device_image pe sku_id st)"
proof (rule cpost_weaken [OF find_device_image_post], clarify)
  fix r s
  assume k: "kept st s" and taken: "r = 0 \<longrightarrow> took_place st s"
    and left: "r \<noteq> 0 \<longrightarrow> pc_image_list s = pc_image_list st \<and> pc_img_number_count s = pc_img_number_count st"
  have "pc_image_list s ! 0 = pc_image_list st ! 0"
    using taken left took_place_first [of st s] assms(2) by (cases "r = 0") simp_all
  moreover have "length (pc_image_list s) = MAX_DONWLOAD_IMAGES" using k assms(1) by (simp add: kept_def tab_inv_def)
  moreover have "pc_update_type s = UPDATE_TYPE_ONLY_DEV" using k globals_fields(3) [of s st] assms(3) by (simp add: kept_def)
  ultimately show "cpost (\<lambda>(r', _). r' = -1) (generate_download_table pe xml_file s)"
    using assms(4) by (simp add: generate_download_table_def get_at_def pcie_sizes)
qed

definition example_after_firmware :: pcie where
  "example_after_firmware =
     (pcie_init example_pcie)\<lparr>pc_image_list := (replicate MAX_DONWLOAD_IMAGES [])[0 := ''/opt/pwl/firmware/FwPackage/lk.img''],
        pc_img_number_count := 1, pc_update_type := UPDATE_TYPE_ONLY_DEV\<rparr>"

theorem device_update_after_firmware_fails_witness:
  "cpost (\<lambda>(r, s). cpost (\<lambda>(r', _). r' = -1) (generate_download_table example_dev_env SCATTER_PATH s))
     (find_device_image example_dev_env ''0B5A'' example_after_firmware)"
  by (rule device_update_after_firmware_fails)
    (auto simp: example_after_firmware_def pcie_init_def tab_inv_def pcie_sizes dest: set_update_subset_insert [THEN subsetD])

end
