(* ===== verification/Fw_Pcie.thy ===== *)
theory Fw_Pcie
  imports Fw_Table
begin

text \<open>
  The updater, part six: flashing a PCIe module. The fastboot port (\<^verbatim>\<open>send_fastboot_command\<close>), the mode of
  the module (\<^verbatim>\<open>switch_t7xx_mode\<close>), \<^verbatim>\<open>flash_image\<close> and \<^verbatim>\<open>parse_download_table_and_flash\<close>.

  What the module does is a script in the record \<open>pcie\<close>: \<open>pc_answers\<close> holds one entry per command, \<open>None\<close>
  when the port cannot be opened and otherwise what the reads return, where an empty string is a read
  that returns nothing and the end of the list is a timeout; \<open>pc_transfers\<close> the same for the wait after an
  image was sent; \<open>pc_writes\<close> how many bytes a write accepts, \<open>None\<close> for an error and no entry for all
  of them; \<open>pc_modes\<close> and \<open>pc_ports\<close> what \<^verbatim>\<open>cat\<close> and \<^verbatim>\<open>find\<close> print, nothing behind the end.
\<close>

section \<open>The fastboot port\<close>

definition take_port :: "pcie \<Rightarrow> string option \<times> pcie" where
  "take_port st = (case pc_ports st of [] \<Rightarrow> (Some [], st) | p # ps \<Rightarrow> (p, st\<lparr>pc_ports := ps\<rparr>))"

definition u_find_fastboot_port :: "pcie \<Rightarrow> (int \<times> pcie) cres" where
  "u_find_fastboot_port st =
     (let (fp, s) = take_port st
      in case fp of
           None \<Rightarrow> Inr (-1, s)
         | Some out \<Rightarrow>
             let buffer = cut_at (case fgets 50 out of None \<Rightarrow> [] | Some l \<Rightarrow> l) [NL]
             in if length buffer \<le> 0 then Inr (-1, s)
                else cbind (strcpy_cap 32 buffer) (\<lambda>p. Inr (0, s\<lparr>pc_fastboot_port := p\<rparr>)))"

definition ensure_port :: "pcie \<Rightarrow> pcie cres" where
  "ensure_port st =
     (if length (pc_fastboot_port st) \<le> 0 then cbind (u_find_fastboot_port st) (\<lambda>(_, s). Inr s) else Inr st)"

definition take_answer :: "pcie \<Rightarrow> string list option \<times> pcie" where
  "take_answer st = (case pc_answers st of [] \<Rightarrow> (Some [], st) | a # as \<Rightarrow> (a, st\<lparr>pc_answers := as\<rparr>))"

text \<open>A read into the zeroed array \<^verbatim>\<open>resp[MAX_COMMAND_LEN]\<close>, and the string cut at the end of its first line.\<close>

definition read_bytes :: "string \<Rightarrow> cbuf" where
  "read_bytes s = take MAX_COMMAND_LEN s @ zeroed (MAX_COMMAND_LEN - length s)"

definition read_line :: "string \<Rightarrow> string cres" where
  "read_line s =
     (let b = read_bytes s
      in if NUL \<in> set b \<or> NL \<in> set b then Inr (takeWhile (\<lambda>c. c \<noteq> NUL \<and> c \<noteq> NL) b) else Inl Unterminated)"

text \<open>The return code and the content of \<open>response\<close> afterwards; it is not changed by a timeout.\<close>

definition send_fastboot_command :: "string \<Rightarrow> string \<Rightarrow> pcie \<Rightarrow> (int \<times> string \<times> pcie) cres" where
  "send_fastboot_command cmd resp0 st =
     cbind (ensure_port st) (\<lambda>s.
       if length (pc_fastboot_port s) \<le> 0 then Inr (-1, resp0, s)
       else let (a, s1) = take_answer s
            in case a of
                 None \<Rightarrow> Inr (-1, resp0, s1)
               | Some reads \<Rightarrow>
                   let s2 = log_act (SendCommand cmd) s1
                   in (case find (\<lambda>r. length r > 0) reads of
                         None \<Rightarrow> Inr (0, resp0, s2)
                       | Some r \<Rightarrow> cbind (read_line r) (\<lambda>resp. Inr (0, resp, s2))))"

section \<open>Sending an image\<close>

definition get_fastboot_resp :: "string \<Rightarrow> string \<Rightarrow> (int \<times> string) cres" where
  "get_fastboot_resp r resp0 =
     (if length r > 0 then cbind (cstr (read_bytes r)) (\<lambda>resp. Inr (0, resp)) else Inr (-1, resp0))"

text \<open>\<^verbatim>\<open>get_send_image_resp_thread_func\<close> asks until there is a text, without a limit.\<close>

fun get_send_image_resp :: "string list \<Rightarrow> string cres" where
  "get_send_image_resp [] = Inl Blocked"
| "get_send_image_resp (r # rs) =
     cbind (get_fastboot_resp r []) (\<lambda>(_, fb_resp).
       if length fb_resp > 0 then Inr fb_resp else get_send_image_resp rs)"

definition SPLIT_IMAGE_BUFFER :: nat where "SPLIT_IMAGE_BUFFER = 2048"

function read_chunks :: "string \<Rightarrow> string list" where
  "read_chunks s =
     (if s = [] then [] else take SPLIT_IMAGE_BUFFER s # read_chunks (drop SPLIT_IMAGE_BUFFER s))"
  by auto
termination by (relation "measure length") (auto simp: SPLIT_IMAGE_BUFFER_def)

declare read_chunks.simps [simp del]

text \<open>The loop over the chunks: it stops at an error of \<^verbatim>\<open>write\<close> and does not look at the count.\<close>

fun send_chunks :: "string list \<Rightarrow> pcie \<Rightarrow> pcie" where
  "send_chunks [] st = st"
| "send_chunks (c # cs) st =
     (case pc_writes st of
        [] \<Rightarrow> send_chunks cs (log_act (SendData c) st)
      | None # ws \<Rightarrow> st\<lparr>pc_writes := ws\<rparr>
      | Some k # ws \<Rightarrow> send_chunks cs (log_act (SendData (take k c)) (st\<lparr>pc_writes := ws\<rparr>)))"

definition take_transfer :: "pcie \<Rightarrow> string list option \<times> pcie" where
  "take_transfer st = (case pc_transfers st of [] \<Rightarrow> (Some [], st) | a # as \<Rightarrow> (a, st\<lparr>pc_transfers := as\<rparr>))"

definition send_image :: "string \<Rightarrow> pcie \<Rightarrow> (int \<times> pcie) cres" where
  "send_image bytes st =
     (let (a, s) = take_transfer st
      in case a of
           None \<Rightarrow> Inr (-1, s)
         | Some reads \<Rightarrow>
             cbind (get_send_image_resp reads) (\<lambda>fb_resp.
               Inr (if strstr fb_resp ''OKAY'' \<noteq> None then 0 else -1, send_chunks (read_chunks bytes) s)))"

section \<open>flash_image\<close>

definition request_download :: "string \<Rightarrow> pcie \<Rightarrow> (bool \<times> pcie) cres" where
  "request_download bytes st =
     (let file_size = show_x8 (length bytes mod 2 ^ 32)
      in cbind (send_fastboot_command (''download:'' @ file_size) [] st) (\<lambda>(_, fb_resp, s).
           Inr (fb_resp = ''DATA'' @ file_size, s)))"

definition flash_partition :: "string \<Rightarrow> pcie \<Rightarrow> (bool \<times> pcie) cres" where
  "flash_partition part st =
     cbind (strcpy_cap MAX_COMMAND_LEN (''flash:'' @ part)) (\<lambda>fb_command.
     cbind (send_fastboot_command fb_command [] st) (\<lambda>(_, fb_resp, s). Inr (fb_resp = ''OKAY'', s)))"

text \<open>What \<^verbatim>\<open>strtok\<close> finds behind the first colon is compared over the length of the checksum of the image.\<close>

definition crc_accepted :: "string \<Rightarrow> string \<Rightarrow> bool" where
  "crc_accepted checksum fb_resp \<longleftrightarrow> strstr fb_resp ''OKAYCRC32:'' \<noteq> None \<and>
     (case strtok_all '':'' fb_resp of
        _ # p # _ \<Rightarrow> strncmp_eq checksum p (length checksum)
      | _ \<Rightarrow> True)"

definition check_partition :: "string \<Rightarrow> string \<Rightarrow> pcie \<Rightarrow> (bool \<times> pcie) cres" where
  "check_partition part checksum st =
     cbind (strcpy_cap MAX_COMMAND_LEN (''check:'' @ part)) (\<lambda>fb_command.
     cbind (send_fastboot_command fb_command [] st) (\<lambda>(_, fb_resp, s). Inr (crc_accepted checksum fb_resp, s)))"

definition flash_image :: "string \<Rightarrow> string \<Rightarrow> string \<Rightarrow> pcie \<Rightarrow> (int \<times> pcie) cres" where
  "flash_image part image_file checksum st =
     (if length part \<le> 0 \<or> length image_file \<le> 0 then Inr (-1, st)
      else case fopen_r (pc_fs st) image_file of
             None \<Rightarrow> Inr (-1, st)
           | Some bytes \<Rightarrow>
               cbind (request_download bytes st) (\<lambda>(ok1, s1). if \<not> ok1 then Inr (-1, s1) else
               cbind (strcpy_cap MAX_COMMAND_LEN (''cat '' @ image_file @ '' > '' @ pc_fastboot_port s1)) (\<lambda>_.
               cbind (send_image bytes s1) (\<lambda>(r2, s2). if r2 \<noteq> 0 then Inr (-1, s2) else
               cbind (flash_partition part s2) (\<lambda>(ok3, s3). if \<not> ok3 then Inr (-1, s3) else
               cbind (check_partition part checksum s3) (\<lambda>(ok4, s4). Inr (if ok4 then 0 else -1, s4)))))))"

section \<open>Flashing along the table\<close>

definition word_at :: "nat \<Rightarrow> string list \<Rightarrow> string" where
  "word_at i ws = (if i < length ws then ws ! i else [])"

definition line_fields :: "string \<Rightarrow> (string \<times> string \<times> string) cres" where
  "line_fields download_string =
     (let ws = strtok_all ''|'' download_string
      in cbind (strcpy_cap MAX_IMG_FILE_NAME_LEN (word_at 1 ws)) (\<lambda>part.
         cbind (strcpy_cap MAX_IMG_FILE_NAME_LEN (word_at 2 ws)) (\<lambda>img.
         cbind (strcpy_cap MAX_CHECKSUM_LEN (word_at 3 ws)) (\<lambda>checksum. Inr (part, img, checksum)))))"

text \<open>The progress dialog is given \<^verbatim>\<open>40/g_pcie_img_number_count\<close>.\<close>

fun flash_lines :: "string list \<Rightarrow> pcie \<Rightarrow> (int \<times> pcie) cres" where
  "flash_lines [] st = Inr (0, st)"
| "flash_lines (w # ws) st =
     cbind (strcpy_cap MAX_COMMAND_LEN w) (\<lambda>download_string.
     cbind (line_fields download_string) (\<lambda>(part, img, checksum).
     cbind (cassert (pc_img_number_count st \<noteq> 0) DivByZero) (\<lambda>_.
       if strstr img ''SKIP_'' \<noteq> None then flash_lines ws st
       else cbind (flash_image part img checksum st) (\<lambda>(r, s).
              if r \<noteq> 0 then Inr (-1, s) else flash_lines ws s))))"

definition parse_download_table_and_flash :: "pcie \<Rightarrow> (int \<times> pcie) cres" where
  "parse_download_table_and_flash st =
     (case fopen_r (pc_fs st) FLASH_TABLE_FILE_NAME of
        None \<Rightarrow> Inr (-1, st)
      | Some txt \<Rightarrow> flash_lines (strtok_all white_space txt) st)"

section \<open>The mode of the module\<close>

definition T7XX_MODE :: string where "T7XX_MODE = ''t7xx_mode''"
definition MODE_FASTBOOT_SWITCHING :: string where "MODE_FASTBOOT_SWITCHING = ''fastboot_switching''"
definition MODE_HW_RESET :: string where "MODE_HW_RESET = ''reset''"
definition GETVER_RETRY_LIMIT :: nat where "GETVER_RETRY_LIMIT = 50"
definition FB_CMD_CONTINUE_SUCCESS_TH :: nat where "FB_CMD_CONTINUE_SUCCESS_TH = 10"

definition take_mode :: "pcie \<Rightarrow> string option \<times> pcie" where
  "take_mode st = (case pc_modes st of [] \<Rightarrow> (Some [], st) | m # ms \<Rightarrow> (m, st\<lparr>pc_modes := ms\<rparr>))"

text \<open>Every caller clears the array \<^verbatim>\<open>mode[30]\<close> first, so it is empty when \<^verbatim>\<open>popen\<close> fails.\<close>

definition query_t7xx_mode :: "pcie \<Rightarrow> (string \<times> pcie) cres" where
  "query_t7xx_mode st =
     (let (fp, s) = take_mode st
      in case fp of
           None \<Rightarrow> Inr ([], s)
         | Some out \<Rightarrow>
             cbind (strcpy_cap 30 (cut_at (case fgets MAX_COMMAND_LEN out of None \<Rightarrow> [] | Some l \<Rightarrow> l) [NL])) (\<lambda>m.
               Inr (m, s)))"

text \<open>At most \<open>n\<close> queries until the mode is the one wanted; \<open>m\<close> is the mode seen last.\<close>

fun poll_mode :: "nat \<Rightarrow> string \<Rightarrow> string \<Rightarrow> pcie \<Rightarrow> (string \<times> pcie) cres" where
  "poll_mode 0 wanted m st = Inr (m, st)"
| "poll_mode (Suc n) wanted m st =
     cbind (query_t7xx_mode st) (\<lambda>(m', s). if m' = wanted then Inr (m', s) else poll_mode n wanted m' s)"

definition run_command :: "shell \<Rightarrow> string \<Rightarrow> pcie \<Rightarrow> (int \<times> pcie) cres" where
  "run_command sh cmd st =
     cbind (strcpy_cap MAX_COMMAND_LEN cmd) (\<lambda>c.
       case sh c of None \<Rightarrow> Inr (-1, st) | Some _ \<Rightarrow> Inr (0, log_act (Shell c) st))"

definition do_remove_rescan :: "shell \<Rightarrow> pcie \<Rightarrow> (int \<times> pcie) cres" where
  "do_remove_rescan sh st =
     cbind (run_command sh (''echo 1 > '' @ pc_t7xx_mode_remove_node st) st) (\<lambda>(r, s).
       if r \<noteq> 0 then Inr (-1, s) else run_command sh ''echo 1 > /sys/bus/pci/rescan'' s)"

definition find_mode_node :: "shell \<Rightarrow> pcie \<Rightarrow> (int \<times> pcie) cres" where
  "find_mode_node sh st =
     (if length (pc_t7xx_mode_node st) \<le> 0
      then case sh (''find /sys/ -name '' @ T7XX_MODE) of
             None \<Rightarrow> Inr (-1, st)
           | Some out \<Rightarrow>
               let buffer = cut_at (case fgets MAX_IMG_FILE_NAME_LEN out of None \<Rightarrow> [] | Some l \<Rightarrow> l) [NL]
               in if length buffer \<le> 0 then Inr (-1, st) else Inr (0, st\<lparr>pc_t7xx_mode_node := buffer\<rparr>)
      else Inr (0, st))"

text \<open>The path of \<^verbatim>\<open>remove\<close> beside the mode node.\<close>

definition find_remove_node :: "pcie \<Rightarrow> pcie cres" where
  "find_remove_node st =
     (if length (pc_t7xx_mode_remove_node st) \<le> 0
      then cbind (need (strstr (pc_t7xx_mode_node st) T7XX_MODE)) (\<lambda>ret.
           let index = length (pc_t7xx_mode_node st) - length ret
           in cbind (strcpy_cap MAX_IMG_FILE_NAME_LEN (take index (pc_t7xx_mode_node st) @ ''remove'')) (\<lambda>p.
                Inr (st\<lparr>pc_t7xx_mode_remove_node := p\<rparr>)))
      else Inr st)"

text \<open>
  The loop that asks for the version: \<open>n\<close> rounds are left, \<open>c\<close> is the number of successes in a row.
\<close>

fun getver_loop :: "nat \<Rightarrow> nat \<Rightarrow> pcie \<Rightarrow> (int \<times> pcie) cres" where
  "getver_loop 0 c st = Inr (-1, st)"
| "getver_loop (Suc n) c st =
     cbind (send_fastboot_command ''getvar:version'' [] st) (\<lambda>(_, resp, s).
       if strstr resp ''OKAY'' \<noteq> None
       then (if Suc c > FB_CMD_CONTINUE_SUCCESS_TH then Inr (0, s) else getver_loop n (Suc c) s)
       else getver_loop n 0 s)"

definition write_mode :: "shell \<Rightarrow> string \<Rightarrow> pcie \<Rightarrow> (int \<times> pcie) cres" where
  "write_mode sh mode st = run_command sh (''echo '' @ [CHR 0x22] @ mode @ [CHR 0x22] @ '' > '' @ pc_t7xx_mode_node st) st"

definition wait_fastboot :: "shell \<Rightarrow> pcie \<Rightarrow> (int \<times> pcie) cres" where
  "wait_fastboot sh st =
     cbind (poll_mode 10 ''fastboot_download'' [] st) (\<lambda>(m, s1).
     cbind (if m \<noteq> ''fastboot_download'' then do_remove_rescan sh s1 else Inr (0, s1)) (\<lambda>(r, s2).
       if r \<noteq> 0 then Inr (-1, s2)
       else cbind (poll_mode 20 ''fastboot_download'' [] s2) (\<lambda>(_, s3). getver_loop GETVER_RETRY_LIMIT 0 s3)))"

definition wait_reset :: "shell \<Rightarrow> pcie \<Rightarrow> (int \<times> pcie) cres" where
  "wait_reset sh st =
     cbind (do_remove_rescan sh st) (\<lambda>(r, s).
       if r \<noteq> 0 then Inr (-1, s) else cbind (poll_mode 60 ''ready'' [] s) (\<lambda>(_, s'). Inr (0, s')))"

definition switch_t7xx_mode :: "shell \<Rightarrow> string \<Rightarrow> pcie \<Rightarrow> (int \<times> pcie) cres" where
  "switch_t7xx_mode sh mode st =
     cbind (find_mode_node sh st) (\<lambda>(r1, s1). if r1 \<noteq> 0 then Inr (-1, s1) else
     cbind (find_remove_node s1) (\<lambda>s2.
     cbind (query_t7xx_mode s2) (\<lambda>(t7xx_mode, s3).
       if mode = MODE_FASTBOOT_SWITCHING \<and> t7xx_mode = ''fastboot_download'' then Inr (0, s3)
       else if mode = MODE_FASTBOOT_SWITCHING \<and> t7xx_mode = ''unknow'' then Inr (-1, s3)
       else if mode \<noteq> MODE_FASTBOOT_SWITCHING \<and> mode \<noteq> MODE_HW_RESET then Inr (-1, s3)
       else cbind (write_mode sh mode s3) (\<lambda>(r4, s4).
            if r4 \<noteq> 0 then Inr (-1, s4)
            else if mode = MODE_FASTBOOT_SWITCHING then wait_fastboot sh s4 else wait_reset sh s4))))"

definition do_fastboot_reboot :: "pcie \<Rightarrow> (int \<times> pcie) cres" where
  "do_fastboot_reboot st =
     cbind (send_fastboot_command ''reboot'' [] st) (\<lambda>(_, fb_resp, s1).
       if fb_resp = ''OKAY''
       then cbind (poll_mode 60 ''ready'' [] s1) (\<lambda>(m, s2). Inr (if m = ''ready'' then 0 else -1, s2))
       else Inr (-1, s1))"

section \<open>The flash table is read as it was written\<close>

text \<open>What the table holds of an image: partition, mark, path, checksum of the package file, checksum of the line.\<close>

type_synonym table_entry = "string \<times> bool \<times> string \<times> string \<times> string"

definition plain_text :: "string \<Rightarrow> bool" where
  "plain_text s \<longleftrightarrow> (\<forall>c \<in> set s. c \<notin> set white_space \<and> c \<noteq> CHR ''|'')"

definition entry_ok :: "table_entry \<Rightarrow> bool" where
  "entry_ok e = (case e of (part, skip, path, own, c) \<Rightarrow>
     plain_text part \<and> plain_text path \<and> plain_text own \<and> plain_text c \<and> part \<noteq> [] \<and> path \<noteq> []
     \<and> length part < MAX_IMG_FILE_NAME_LEN \<and> length path + 5 < MAX_IMG_FILE_NAME_LEN
     \<and> length own < MAX_CHECKSUM_LEN \<and> length c < MAX_CHECKSUM_LEN)"

definition entry_line :: "table_entry \<Rightarrow> string" where
  "entry_line e = (case e of (part, skip, path, own, c) \<Rightarrow> table_line part (image_entry skip path own) c)"

definition entry_fields :: "table_entry \<Rightarrow> string \<times> string \<times> string" where
  "entry_fields e = (case e of (part, skip, path, own, c) \<Rightarrow>
     (part, (if skip then ''SKIP_'' else []) @ path, if own \<noteq> [] then own else c))"

lemma bar_token:
  "plain_text t \<Longrightarrow> t \<noteq> [] \<Longrightarrow> strtok_all ''|'' (t @ CHR ''|'' # s) = t # strtok_all ''|'' s"
  by (rule strtok_all_Cons) (auto simp: plain_text_def)

lemma bar_last: "plain_text t \<Longrightarrow> strtok_all ''|'' t = (if t = [] then [] else [t])"
  by (auto simp: plain_text_def strtok_all_def toks_acc_run [of t "''|''" "[]" "[]", simplified])

lemma plain_text_append [simp]: "plain_text (a @ b) \<longleftrightarrow> plain_text a \<and> plain_text b"
  by (auto simp: plain_text_def)

lemma plain_marks [simp]: "plain_text ''Flash''" "plain_text ''SKIP_''" "plain_text []"
  by (simp_all add: plain_text_def white_space_def)

text \<open>A line without its end.\<close>

definition entry_body :: "table_entry \<Rightarrow> string" where
  "entry_body e = (case e of (part, skip, path, own, c) \<Rightarrow>
     ''Flash'' @ CHR ''|'' # part @ CHR ''|'' # image_entry skip path own @ CHR ''|'' # c)"

lemma entry_line_body: "entry_line e = entry_body e @ [NL]"
  by (simp add: entry_line_def entry_body_def table_line_def split: prod.split)

lemma image_entry_cases:
  "image_entry skip path own @ CHR ''|'' # c
     = ((if skip then ''SKIP_'' else []) @ path) @ CHR ''|'' # (if own = [] then c else own @ CHR ''|'' # c)"
  by (simp add: image_entry_def)

lemma three_tokens:
  "plain_text t1 \<Longrightarrow> t1 \<noteq> [] \<Longrightarrow> plain_text t2 \<Longrightarrow> t2 \<noteq> [] \<Longrightarrow> plain_text t3 \<Longrightarrow> t3 \<noteq> [] \<Longrightarrow>
     strtok_all ''|'' (t1 @ CHR ''|'' # t2 @ CHR ''|'' # t3 @ CHR ''|'' # s) = t1 # t2 # t3 # strtok_all ''|'' s"
  by (simp add: bar_token)

lemma entry_tokens:
  assumes "entry_ok (part, skip, path, own, c)"
  shows "strtok_all ''|'' (entry_body (part, skip, path, own, c))
    = ''Flash'' # part # ((if skip then ''SKIP_'' else []) @ path) # (if own = [] then [] else [own]) @ (if c = [] then [] else [c])"
proof -
  have tail: "strtok_all ''|'' (if own = [] then c else own @ CHR ''|'' # c)
      = (if own = [] then [] else [own]) @ (if c = [] then [] else [c])"
    using assms by (simp add: entry_ok_def bar_token bar_last)
  have flash: "''Flash'' \<noteq> []" by simp
  have mid: "plain_text ((if skip then ''SKIP_'' else []) @ path)" "(if skip then ''SKIP_'' else []) @ path \<noteq> []"
    "plain_text part" "part \<noteq> []"
    using assms by (simp_all add: entry_ok_def)
  show ?thesis unfolding entry_body_def prod.case image_entry_cases
    by (subst three_tokens [OF plain_marks(1) flash mid(3,4,1,2)]) (simp only: tail)
qed

lemma line_words:
  "\<forall>l \<in> set ls. l \<noteq> [] \<and> (\<forall>c \<in> set l. c \<notin> set white_space) \<Longrightarrow>
     strtok_all white_space (concat (map (\<lambda>l. l @ [NL]) ls)) = ls"
proof (induction ls)
  case (Cons l ls)
  have "strtok_all white_space (l @ NL # concat (map (\<lambda>l. l @ [NL]) ls))
      = l # strtok_all white_space (concat (map (\<lambda>l. l @ [NL]) ls))"
    using Cons.prems by (intro strtok_all_Cons) (auto simp: white_space_def)
  moreover have "strtok_all white_space (concat (map (\<lambda>l. l @ [NL]) ls)) = ls"
    using Cons.prems by (intro Cons.IH) simp
  ultimately show ?case by simp
qed (simp add: strtok_all_def)

lemma entry_body_plain:
  assumes "entry_ok e"
  shows "entry_body e \<noteq> [] \<and> (\<forall>c \<in> set (entry_body e). c \<notin> set white_space)"
proof -
  obtain part skip path own c where e: "e = (part, skip, path, own, c)" by (cases e)
  have "CHR ''|'' \<notin> set white_space" "\<forall>c \<in> set ''Flash''. c \<notin> set white_space" "\<forall>c \<in> set ''SKIP_''. c \<notin> set white_space"
    by (simp_all add: white_space_def)
  then show ?thesis using assms
    unfolding e entry_body_def prod.case image_entry_cases entry_ok_def plain_text_def by auto
qed

lemma entry_parsed: "entry_ok e \<Longrightarrow> line_fields (entry_body e) = Inr (entry_fields e)"
  by (cases e) (auto simp: line_fields_def entry_tokens word_at_def entry_fields_def entry_ok_def strcpy_cap_def)

text \<open>C16: Reading the flash table gives back the partition, the image with its mark and the checksum of every
  line that was written, in the order of the lines.\<close>

theorem flash_table_roundtrip:
  assumes "\<forall>e \<in> set es. entry_ok e"
  shows "map line_fields (strtok_all white_space (concat (map entry_line es))) = map (\<lambda>e. Inr (entry_fields e)) es"
proof -
  have "concat (map entry_line es) = concat (map (\<lambda>l. l @ [NL]) (map entry_body es))"
    by (simp add: comp_def entry_line_body [abs_def])
  moreover have "strtok_all white_space \<dots> = map entry_body es"
    using assms entry_body_plain by (intro line_words) auto
  ultimately show ?thesis using assms entry_parsed by simp
qed

theorem flash_table_roundtrip_witness:
  "map line_fields (strtok_all white_space (concat (map entry_line
     [(''lk'', False, ''/opt/lk.img'', ''0x12'', []), (''mcf2'', True, ''/opt/DPV1.img'', [], ''0x34'')])))
   = [Inr (''lk'', ''/opt/lk.img'', ''0x12''), Inr (''mcf2'', ''SKIP_/opt/DPV1.img'', ''0x34'')]"
  by (subst flash_table_roundtrip) (simp_all add: entry_ok_def plain_text_def white_space_def pcie_sizes entry_fields_def)

section \<open>What the module is asked\<close>

definition sent_commands :: "pact list \<Rightarrow> string list" where
  "sent_commands l = concat (map (\<lambda>a. case a of SendCommand c \<Rightarrow> [c] | _ \<Rightarrow> []) l)"

definition sent_data :: "pact list \<Rightarrow> string" where
  "sent_data l = concat (map (\<lambda>a. case a of SendData d \<Rightarrow> d | _ \<Rightarrow> []) l)"

lemma sent_commands_simps [simp]:
  "sent_commands [] = []" "sent_commands (a @ b) = sent_commands a @ sent_commands b"
  "sent_commands (SendCommand c # l) = c # sent_commands l" "sent_commands (SendData d # l) = sent_commands l"
  "sent_commands (Shell t # l) = sent_commands l" "sent_commands (RequestVersion # l) = sent_commands l"
  by (simp_all add: sent_commands_def)

lemma sent_data_simps [simp]:
  "sent_data [] = []" "sent_data (a @ b) = sent_data a @ sent_data b"
  "sent_data (SendCommand c # l) = sent_data l" "sent_data (SendData d # l) = d @ sent_data l"
  "sent_data (Shell t # l) = sent_data l" "sent_data (RequestVersion # l) = sent_data l"
  by (simp_all add: sent_data_def)

text \<open>\<open>upper\<close>: the fields that talking to the module leaves alone.\<close>

definition upper :: "pcie \<Rightarrow> pcie" where
  "upper st = st\<lparr>pc_fastboot_port := [], pc_t7xx_mode_node := [], pc_t7xx_mode_remove_node := [], pc_log := [], pc_ports := [],
     pc_answers := [], pc_writes := [], pc_transfers := [], pc_modes := []\<rparr>"

lemma upper_simps [simp]:
  "upper (st\<lparr>pc_fastboot_port := a\<rparr>) = upper st" "upper (st\<lparr>pc_t7xx_mode_node := a\<rparr>) = upper st"
  "upper (st\<lparr>pc_t7xx_mode_remove_node := a\<rparr>) = upper st" "upper (st\<lparr>pc_log := l\<rparr>) = upper st"
  "upper (st\<lparr>pc_ports := p\<rparr>) = upper st" "upper (st\<lparr>pc_answers := q\<rparr>) = upper st"
  "upper (st\<lparr>pc_writes := w\<rparr>) = upper st" "upper (st\<lparr>pc_transfers := t\<rparr>) = upper st"
  "upper (st\<lparr>pc_modes := m\<rparr>) = upper st" "upper (log_act x st) = upper st"
  by (simp_all add: upper_def log_act_def)

lemma upper_fields:
  assumes "upper s = upper st"
  shows "pc_fwu s = pc_fwu st" "pc_image_list s = pc_image_list st" "pc_img_number_count s = pc_img_number_count st"
    "pc_update_type s = pc_update_type st" "pc_update_based_type s = pc_update_based_type st"
    "pc_is_fw_update_processing s = pc_is_fw_update_processing st" "pc_need_update s = pc_need_update st"
    "pc_dpv_image_checksum s = pc_dpv_image_checksum st"
  using arg_cong [OF assms, of pc_fwu] arg_cong [OF assms, of pc_image_list] arg_cong [OF assms, of pc_img_number_count]
    arg_cong [OF assms, of pc_update_type] arg_cong [OF assms, of pc_update_based_type]
    arg_cong [OF assms, of pc_is_fw_update_processing] arg_cong [OF assms, of pc_need_update]
    arg_cong [OF assms, of pc_dpv_image_checksum]
  by (simp_all add: upper_def)

text \<open>The paths of the port and of the mode fit their arrays.\<close>

definition port_inv :: "pcie \<Rightarrow> bool" where
  "port_inv st \<longleftrightarrow> length (pc_fastboot_port st) < 32 \<and> length (pc_t7xx_mode_node st) < MAX_IMG_FILE_NAME_LEN
     \<and> length (pc_t7xx_mode_remove_node st) < MAX_IMG_FILE_NAME_LEN"

lemma port_inv_simps [simp]:
  "port_inv (st\<lparr>pc_log := l\<rparr>) = port_inv st" "port_inv (st\<lparr>pc_ports := p\<rparr>) = port_inv st"
  "port_inv (st\<lparr>pc_answers := q\<rparr>) = port_inv st" "port_inv (st\<lparr>pc_writes := w\<rparr>) = port_inv st"
  "port_inv (st\<lparr>pc_transfers := t\<rparr>) = port_inv st" "port_inv (st\<lparr>pc_modes := m\<rparr>) = port_inv st"
  "port_inv (log_act x st) = port_inv st"
  by (simp_all add: port_inv_def log_act_def)

text \<open>\<open>asks st s cs\<close>: from \<open>st\<close> to \<open>s\<close> the commands \<open>cs\<close> were sent.\<close>

definition asks :: "pcie \<Rightarrow> pcie \<Rightarrow> string list \<Rightarrow> bool" where
  "asks st s cs \<longleftrightarrow> upper s = upper st \<and> (port_inv st \<longrightarrow> port_inv s) \<and> sent_commands (pc_log s) = sent_commands (pc_log st) @ cs"

lemma asks_refl [simp]: "asks st st []"
  by (simp add: asks_def)

lemma asks_trans: "asks a b cs \<Longrightarrow> asks b c ds \<Longrightarrow> asks a c (cs @ ds)"
  by (simp add: asks_def)

lemma ensure_port_post: "cpost (\<lambda>s. asks st s []) (ensure_port st)"
  by (auto simp: ensure_port_def u_find_fastboot_port_def take_port_def asks_def port_inv_def Let_def
    intro!: cpost_cbind_any split: option.splits list.splits prod.splits if_splits)

text \<open>A command is answered only when it was sent.\<close>

lemma send_fastboot_command_post:
  "cpost (\<lambda>(r, resp, s). asks st s [cmd] \<or> asks st s [] \<and> resp = resp0) (send_fastboot_command cmd resp0 st)"
  unfolding send_fastboot_command_def
  by (rule cpost_cbindI [OF ensure_port_post])
    (auto simp: take_answer_def asks_def log_act_def Let_def intro!: cpost_cbind_any split: list.splits option.splits)

lemma send_chunks_asks: "asks st (send_chunks cs st) []"
proof (induction cs arbitrary: st)
  case (Cons c cs)
  have "asks st (send_chunks cs (log_act (SendData d) s)) []" if "asks st s []" for s d
    using Cons.IH [of "log_act (SendData d) s"] that by (simp add: asks_def) (simp add: log_act_def)
  then show ?case by (auto simp: asks_def split: list.split option.split)
qed simp

lemma crc_accepted_Nil [simp]: "\<not> crc_accepted checksum []"
  by (simp add: crc_accepted_def)

section \<open>Flashing as a sequence of steps\<close>

text \<open>What is done with a module, one step at a time; \<open>Missing\<close> is an image that cannot be read or a line
  that names no image or no partition.\<close>

datatype plan_step = Download string | Transfer string | Flash string | Check string string | Missing

definition image_plan :: "fs \<Rightarrow> string \<Rightarrow> string \<Rightarrow> string \<Rightarrow> plan_step list" where
  "image_plan w part img checksum =
     (if part = [] \<or> img = [] then [Missing]
      else case fopen_r w img of
             None \<Rightarrow> [Missing]
           | Some bytes \<Rightarrow> [Download bytes, Transfer bytes, Flash part, Check part checksum])"

text \<open>The steps that a line of the table stands for: none when its image is marked.\<close>

definition line_plan :: "fs \<Rightarrow> string \<Rightarrow> plan_step list" where
  "line_plan w l =
     (case line_fields l of
        Inl _ \<Rightarrow> []
      | Inr (part, img, checksum) \<Rightarrow> if strstr img ''SKIP_'' \<noteq> None then [] else image_plan w part img checksum)"

fun step_log :: "plan_step \<Rightarrow> pact list" where
  "step_log (Download bytes) = [SendCommand (''download:'' @ show_x8 (length bytes mod 2 ^ 32))]"
| "step_log (Transfer bytes) = map SendData (read_chunks bytes)"
| "step_log (Flash part) = [SendCommand (''flash:'' @ part)]"
| "step_log (Check part checksum) = [SendCommand (''check:'' @ part)]"
| "step_log Missing = []"

text \<open>The answer that each step needs, and the one the module gives next.\<close>

fun accepted :: "plan_step \<Rightarrow> string \<Rightarrow> bool" where
  "accepted (Download bytes) resp = (resp = ''DATA'' @ show_x8 (length bytes mod 2 ^ 32))"
| "accepted (Transfer bytes) resp = (strstr resp ''OKAY'' \<noteq> None)"
| "accepted (Flash part) resp = (resp = ''OKAY'')"
| "accepted (Check part checksum) resp = crc_accepted checksum resp"
| "accepted Missing resp = False"

definition answer_text :: "string list option list \<Rightarrow> string" where
  "answer_text as =
     (case as of Some reads # _ \<Rightarrow>
        (case find (\<lambda>r. length r > 0) reads of
           None \<Rightarrow> []
         | Some r \<Rightarrow> (case read_line r of Inl _ \<Rightarrow> [] | Inr resp \<Rightarrow> resp))
      | _ \<Rightarrow> [])"

definition transfer_text :: "string list option list \<Rightarrow> string" where
  "transfer_text ts =
     (case ts of Some reads # _ \<Rightarrow> (case get_send_image_resp reads of Inl _ \<Rightarrow> [] | Inr resp \<Rightarrow> resp) | _ \<Rightarrow> [])"

text \<open>How many steps the module accepts before it refuses one: a transfer is answered by the script of
  the transfers, every other step by the script of the commands.\<close>

fun accepted_steps :: "plan_step list \<Rightarrow> string list option list \<Rightarrow> string list option list \<Rightarrow> nat" where
  "accepted_steps [] as ts = 0"
| "accepted_steps (Transfer bytes # xs) as ts =
     (if accepted (Transfer bytes) (transfer_text ts) then Suc (accepted_steps xs as (tl ts)) else 0)"
| "accepted_steps (x # xs) as ts = (if accepted x (answer_text as) then Suc (accepted_steps xs (tl as) ts) else 0)"

text \<open>The answers to the commands, none when there is no port.\<close>

definition reachable_answers :: "pcie \<Rightarrow> string list option list" where
  "reachable_answers st =
     (case ensure_port st of Inr s \<Rightarrow> if pc_fastboot_port s \<noteq> [] then pc_answers st else [] | Inl _ \<Rightarrow> [])"

text \<open>The program along the plan.\<close>

fun run_step :: "plan_step \<Rightarrow> pcie \<Rightarrow> (bool \<times> pcie) cres" where
  "run_step (Download bytes) st = request_download bytes st"
| "run_step (Transfer bytes) st = cbind (send_image bytes st) (\<lambda>(r, s). Inr (r = 0, s))"
| "run_step (Flash part) st = flash_partition part st"
| "run_step (Check part checksum) st = check_partition part checksum st"
| "run_step Missing st = Inr (False, st)"

fun run_steps :: "plan_step list \<Rightarrow> pcie \<Rightarrow> (bool \<times> pcie) cres" where
  "run_steps [] st = Inr (True, st)"
| "run_steps (x # xs) st = cbind (run_step x st) (\<lambda>(ok, s). if ok then run_steps xs s else Inr (False, s))"

lemma run_steps_append:
  "run_steps (xs @ ys) st = cbind (run_steps xs st) (\<lambda>(ok, s). if ok then run_steps ys s else Inr (False, s))"
proof (induction xs arbitrary: st)
  case (Cons x xs)
  then show ?case by (cases "run_step x st") (auto split: prod.split)
qed simp

lemma flash_image_plan:
  "cpost (\<lambda>(r, s). run_steps (image_plan (pc_fs st) part img checksum) st = Inr (r = 0, s)) (flash_image part img checksum st)"
  by (auto simp: flash_image_def image_plan_def intro!: cpost_cbind_any split: option.split)

text \<open>One command, when its answer is the next one.\<close>

definition command_done :: "pcie \<Rightarrow> string \<Rightarrow> string \<Rightarrow> pcie \<Rightarrow> bool" where
  "command_done st cmd resp s \<longleftrightarrow> upper s = upper st \<and> (port_inv st \<longrightarrow> port_inv s)
     \<and> resp = answer_text (reachable_answers st) \<and> pc_transfers s = pc_transfers st \<and> pc_writes s = pc_writes st
     \<and> (pc_log s = pc_log st @ [SendCommand cmd] \<or> pc_log s = pc_log st \<and> resp = [])
     \<and> (resp \<noteq> [] \<longrightarrow> reachable_answers s = tl (reachable_answers st))"

lemma ensure_port_frame: "cpost (\<lambda>s. \<exists>p ps. s = st\<lparr>pc_fastboot_port := p, pc_ports := ps\<rparr>) (ensure_port st)"
proof -
  have "\<exists>p ps. st = st\<lparr>pc_fastboot_port := p, pc_ports := ps\<rparr>"
    by (rule exI [of _ "pc_fastboot_port st"], rule exI [of _ "pc_ports st"]) simp
  moreover have "\<exists>p ps. st\<lparr>pc_ports := qs\<rparr> = st\<lparr>pc_fastboot_port := p, pc_ports := ps\<rparr>" for qs
    by (rule exI [of _ "pc_fastboot_port st"], rule exI [of _ qs]) simp
  moreover have "\<exists>p ps. st\<lparr>pc_ports := qs, pc_fastboot_port := q\<rparr> = st\<lparr>pc_fastboot_port := p, pc_ports := ps\<rparr>"
    "\<exists>p ps. st\<lparr>pc_fastboot_port := q\<rparr> = st\<lparr>pc_fastboot_port := p, pc_ports := ps\<rparr>" for q qs
    by (rule exI [of _ q], rule exI [of _ qs], simp) (rule exI [of _ q], rule exI [of _ "pc_ports st"], simp)
  ultimately show ?thesis
    by (auto simp: ensure_port_def u_find_fastboot_port_def take_port_def Let_def simp del: pcie.update_convs
      intro!: cpost_cbind_any split: option.splits list.splits)
qed

lemma ready_answers [simp]: "pc_fastboot_port s \<noteq> [] \<Longrightarrow> reachable_answers s = pc_answers s"
  by (simp add: reachable_answers_def ensure_port_def)

lemma ensure_port_step:
  "cpost (\<lambda>s. asks st s [] \<and> pc_transfers s = pc_transfers st \<and> pc_writes s = pc_writes st \<and> pc_answers s = pc_answers st
      \<and> pc_log s = pc_log st \<and> reachable_answers st = (if pc_fastboot_port s \<noteq> [] then pc_answers st else [])) (ensure_port st)"
proof (cases "ensure_port st")
  case (Inr s)
  obtain p ps where "s = st\<lparr>pc_fastboot_port := p, pc_ports := ps\<rparr>" using cpostD [OF ensure_port_frame Inr] by blast
  then show ?thesis using cpostD [OF ensure_port_post Inr] by (simp add: Inr reachable_answers_def)
qed simp

lemma take_answer_step:
  "take_answer s = (a, s1) \<Longrightarrow> s1 = s\<lparr>pc_answers := tl (pc_answers s)\<rparr> \<and> (pc_answers s = [] \<and> a = Some [] \<or> pc_answers s \<noteq> [] \<and> a = hd (pc_answers s))"
  by (cases "pc_answers s") (auto simp: take_answer_def)

lemma command_step: "cpost (\<lambda>(r, resp, s). command_done st cmd resp s) (send_fastboot_command cmd [] st)"
proof -
  have "cpost (\<lambda>(r, resp, s'). command_done st cmd resp s')
      (if length (pc_fastboot_port s) \<le> 0 then Inr (-1, [], s)
       else let (a, s1) = take_answer s
            in case a of
                 None \<Rightarrow> Inr (-1, [], s1)
               | Some reads \<Rightarrow>
                   let s2 = log_act (SendCommand cmd) s1
                   in (case find (\<lambda>r. length r > 0) reads of
                         None \<Rightarrow> Inr (0, [], s2)
                       | Some r \<Rightarrow> cbind (read_line r) (\<lambda>resp. Inr (0 :: int, resp, s2))))"
    if s: "asks st s [] \<and> pc_transfers s = pc_transfers st \<and> pc_writes s = pc_writes st \<and> pc_answers s = pc_answers st
      \<and> pc_log s = pc_log st \<and> reachable_answers st = (if pc_fastboot_port s \<noteq> [] then pc_answers st else [])" for s
  proof (cases "pc_fastboot_port s = []")
    case True
    with s show ?thesis by (simp add: command_done_def asks_def answer_text_def)
  next
    case False
    with s have a: "reachable_answers st = pc_answers s" by simp
    have up: "upper s = upper st" "port_inv st \<longrightarrow> port_inv s" using s by (simp_all add: asks_def)
    show ?thesis
    proof (cases "pc_answers s")
      case Nil
      with False s a up show ?thesis by (simp add: command_done_def take_answer_def answer_text_def log_act_def Let_def)
    next
      case (Cons x xs)
      have a': "reachable_answers st = x # xs" using a Cons by simp
      have keep: "pc_transfers s = pc_transfers st" "pc_writes s = pc_writes st" "pc_log s = pc_log st"
        using s by simp_all
      show ?thesis
      proof (cases "\<exists>reads r. x = Some reads \<and> find (\<lambda>r. length r > 0) reads = Some r")
        case True
        then obtain reads r where x: "x = Some reads" "find (\<lambda>r. length r > 0) reads = Some r" by blast
        show ?thesis
        proof (cases "read_line r")
          case (Inr resp)
          from False keep a' up Cons x Inr show ?thesis
            by (simp add: command_done_def take_answer_def answer_text_def log_act_def Let_def)
        qed (use False Cons x in \<open>simp add: take_answer_def Let_def\<close>)
      next
        case no: False
        then have "x = None \<or> (\<exists>reads. x = Some reads \<and> find (\<lambda>r. length r > 0) reads = None)" by (cases x) auto
        with False keep a' up Cons show ?thesis
          by (auto simp: command_done_def take_answer_def answer_text_def log_act_def Let_def)
      qed
    qed
  qed
  then show ?thesis unfolding send_fastboot_command_def by (rule cpost_cbindI [OF ensure_port_step])
qed

text \<open>\<open>traffic st xs s\<close>: from \<open>st\<close> to \<open>s\<close> the traffic of the steps \<open>xs\<close>; with a port that accepts every write,
  the bytes of the images too.\<close>

definition traffic :: "pcie \<Rightarrow> plan_step list \<Rightarrow> pcie \<Rightarrow> bool" where
  "traffic st xs s \<longleftrightarrow> sent_commands (pc_log s) = sent_commands (pc_log st) @ sent_commands (concat (map step_log xs))
     \<and> (pc_writes st = [] \<longrightarrow> pc_writes s = [] \<and> pc_log s = pc_log st @ concat (map step_log xs))"

lemma sent_Nil [simp]: "traffic st [] st"
  by (simp add: traffic_def)

lemma sent_trans: "traffic a xs b \<Longrightarrow> traffic b ys c \<Longrightarrow> traffic a (xs @ ys) c"
  by (auto simp: traffic_def)

definition reply :: "plan_step \<Rightarrow> pcie \<Rightarrow> string" where
  "reply x st = (case x of Transfer _ \<Rightarrow> transfer_text (pc_transfers st) | _ \<Rightarrow> answer_text (reachable_answers st))"

definition next_scripts :: "plan_step \<Rightarrow> pcie \<Rightarrow> pcie \<Rightarrow> bool" where
  "next_scripts x st s \<longleftrightarrow>
     (case x of
        Transfer _ \<Rightarrow> reachable_answers s = reachable_answers st \<and> pc_transfers s = tl (pc_transfers st)
      | _ \<Rightarrow> reachable_answers s = tl (reachable_answers st) \<and> pc_transfers s = pc_transfers st)"

definition step_done :: "plan_step \<Rightarrow> pcie \<Rightarrow> bool \<Rightarrow> pcie \<Rightarrow> bool" where
  "step_done x st ok s \<longleftrightarrow> upper s = upper st \<and> (port_inv st \<longrightarrow> port_inv s) \<and> ok = accepted x (reply x st)
     \<and> (ok \<longrightarrow> next_scripts x st s \<and> traffic st [x] s) \<and> (traffic st [x] s \<or> traffic st [] s)"

lemma send_chunks_frame: "\<exists>l w. send_chunks cs st = st\<lparr>pc_log := l, pc_writes := w\<rparr>"
proof (induction cs arbitrary: st)
  case Nil
  show ?case by (rule exI [of _ "pc_log st"], rule exI [of _ "pc_writes st"]) simp
next
  case (Cons c cs)
  have "\<exists>l w. st\<lparr>pc_writes := ws\<rparr> = st\<lparr>pc_log := l, pc_writes := w\<rparr>" for ws
    by (rule exI [of _ "pc_log st"], rule exI [of _ ws]) simp
  moreover have "\<exists>l w. send_chunks cs (log_act a st) = st\<lparr>pc_log := l, pc_writes := w\<rparr>"
    "\<exists>l w. send_chunks cs (log_act a (st\<lparr>pc_writes := ws\<rparr>)) = st\<lparr>pc_log := l, pc_writes := w\<rparr>" for a ws
    using Cons.IH [of "log_act a st"] Cons.IH [of "log_act a (st\<lparr>pc_writes := ws\<rparr>)"] by (simp_all add: log_act_def)
  ultimately show ?case by (simp split: list.split option.split)
qed

lemma send_chunks_log:
  "pc_writes st = [] \<Longrightarrow> pc_log (send_chunks cs st) = pc_log st @ map SendData cs \<and> pc_writes (send_chunks cs st) = []"
  by (induction cs arbitrary: st) (simp_all add: log_act_def)

lemma reachable_answers_eq:
  "reachable_answers st =
     (if pc_fastboot_port st \<noteq> [] then pc_answers st
      else case pc_ports st of
             Some out # _ \<Rightarrow>
               if cut_at (case fgets 50 out of None \<Rightarrow> [] | Some l \<Rightarrow> l) [NL] = []
                 \<or> 32 \<le> length (cut_at (case fgets 50 out of None \<Rightarrow> [] | Some l \<Rightarrow> l) [NL]) then [] else pc_answers st
           | _ \<Rightarrow> [])"
proof (cases "pc_ports st")
  case Nil
  then show ?thesis by (simp add: reachable_answers_def ensure_port_def u_find_fastboot_port_def take_port_def fgets_def cut_at_def)
next
  case (Cons a ps)
  then show ?thesis
    by (cases a) (simp_all add: reachable_answers_def ensure_port_def u_find_fastboot_port_def take_port_def Let_def strcpy_cap_def)
qed

lemma reachable_answers_cong [simp]:
  "reachable_answers (st\<lparr>pc_log := l\<rparr>) = reachable_answers st" "reachable_answers (st\<lparr>pc_writes := w\<rparr>) = reachable_answers st"
  "reachable_answers (st\<lparr>pc_transfers := t\<rparr>) = reachable_answers st"
  by (simp_all add: reachable_answers_eq split: list.split option.split)

lemma sent_commands_data [simp]: "sent_commands (map SendData cs) = []"
  by (induction cs) simp_all

lemma transfer_step: "cpost (\<lambda>(r, s). step_done (Transfer bytes) st (r = 0) s) (send_image bytes st)"
proof -
  have chunks: "step_done (Transfer bytes) st (strstr resp ''OKAY'' \<noteq> None) (send_chunks (read_chunks bytes) (st\<lparr>pc_transfers := ts\<rparr>))"
    if t: "pc_transfers st = Some reads # ts" "get_send_image_resp reads = Inr resp" for reads ts resp
  proof -
    let ?s = "send_chunks (read_chunks bytes) (st\<lparr>pc_transfers := ts\<rparr>)"
    have "asks (st\<lparr>pc_transfers := ts\<rparr>) ?s []" by (rule send_chunks_asks)
    then have up: "upper ?s = upper st" "port_inv st \<longrightarrow> port_inv ?s" "traffic st [Transfer bytes] ?s"
      using send_chunks_log [of "st\<lparr>pc_transfers := ts\<rparr>" "read_chunks bytes"] by (simp_all add: asks_def traffic_def)
    moreover obtain l w where "?s = st\<lparr>pc_transfers := ts, pc_log := l, pc_writes := w\<rparr>" using send_chunks_frame by blast
    ultimately show ?thesis using t by (simp add: step_done_def reply_def transfer_text_def next_scripts_def)
  qed
  show ?thesis
  proof (cases "pc_transfers st")
    case Nil
    then show ?thesis by (simp add: send_image_def take_transfer_def)
  next
    case (Cons a ts)
    show ?thesis
    proof (cases a)
      case None
      with Cons show ?thesis
        by (simp add: send_image_def take_transfer_def step_done_def reply_def transfer_text_def traffic_def strstr_eq_None_iff)
    next
      case (Some reads)
      show ?thesis
      proof (cases "get_send_image_resp reads")
        case (Inr resp)
        with Cons Some show ?thesis
          using chunks [of reads ts resp] by (cases "strstr resp ''OKAY''") (simp_all add: send_image_def take_transfer_def)
      qed (use Cons Some in \<open>simp add: send_image_def take_transfer_def\<close>)
    qed
  qed
qed

lemma run_step_done: "cpost (\<lambda>(ok, s). step_done x st ok s) (run_step x st)"
proof -
  have finish: "step_done x st (accepted x resp) s"
    if "command_done st cmd resp s" "step_log x = [SendCommand cmd]" "\<not> accepted x []" "\<And>b. x \<noteq> Transfer b" "x \<noteq> Missing" for cmd resp s
    using that by (auto simp: step_done_def command_done_def traffic_def reply_def next_scripts_def split: plan_step.split)
  show ?thesis
  proof (cases x)
    case (Download bytes)
    then show ?thesis
      by (simp add: request_download_def Let_def) (rule cpost_cbindI [OF command_step], auto dest!: finish)
  next
    case (Transfer bytes)
    then show ?thesis by (simp, intro cpost_cbindI [OF transfer_step]) auto
  next
    case (Flash part)
    then show ?thesis
      by (simp add: flash_partition_def, intro cpost_cbind_any cpost_cbindI [OF command_step]) (auto dest!: finish)
  next
    case (Check part checksum)
    then show ?thesis
      by (simp add: check_partition_def, intro cpost_cbind_any cpost_cbindI [OF command_step]) (auto dest!: finish)
  qed (simp add: step_done_def traffic_def)
qed

lemma accepted_steps_Cons:
  "accepted_steps (x # xs) (reachable_answers st) (pc_transfers st) =
     (if accepted x (reply x st)
      then Suc (case x of
                  Transfer _ \<Rightarrow> accepted_steps xs (reachable_answers st) (tl (pc_transfers st))
                | _ \<Rightarrow> accepted_steps xs (tl (reachable_answers st)) (pc_transfers st))
      else 0)"
  by (cases x) (simp_all add: reply_def)

lemma accepted_steps_le: "accepted_steps xs as ts \<le> length xs"
  by (induction xs as ts rule: accepted_steps.induct) auto

lemma run_steps_done:
  "cpost (\<lambda>(ok, s). upper s = upper st \<and> (port_inv st \<longrightarrow> port_inv s)
      \<and> ok = (accepted_steps xs (reachable_answers st) (pc_transfers st) = length xs)
      \<and> (\<exists>m \<in> {accepted_steps xs (reachable_answers st) (pc_transfers st), Suc (accepted_steps xs (reachable_answers st) (pc_transfers st))}.
           traffic st (take m xs) s))
    (run_steps xs st)"
proof (induction xs arbitrary: st)
  case (Cons x xs)
  show ?case unfolding run_steps.simps
  proof (rule cpost_cbindI [OF run_step_done], clarify, rule cpost_ifI)
    fix ok s
    assume d: "step_done x st ok s"
    {
      assume ok
      with d have x: "accepted x (reply x st)" "upper s = upper st" "port_inv st \<longrightarrow> port_inv s" "next_scripts x st s" "traffic st [x] s"
        by (simp_all add: step_done_def)
      let ?n = "accepted_steps xs (reachable_answers s) (pc_transfers s)"
      have n: "accepted_steps (x # xs) (reachable_answers st) (pc_transfers st) = Suc ?n"
        using x(1,4) by (simp only: accepted_steps_Cons) (cases x, simp_all add: next_scripts_def)
      have more: "traffic st (take (Suc m) (x # xs)) t" if "traffic s (take m xs) t" for m t
        using sent_trans [OF x(5) that] by simp
      show "cpost (\<lambda>(ok, t). upper t = upper st \<and> (port_inv st \<longrightarrow> port_inv t)
          \<and> ok = (accepted_steps (x # xs) (reachable_answers st) (pc_transfers st) = length (x # xs))
          \<and> (\<exists>m \<in> {accepted_steps (x # xs) (reachable_answers st) (pc_transfers st),
              Suc (accepted_steps (x # xs) (reachable_answers st) (pc_transfers st))}. traffic st (take m (x # xs)) t)) (run_steps xs s)"
        unfolding n by (rule cpost_weaken [OF Cons.IH [of s]]) (use x(2,3) more in auto)
    next
      assume no: "\<not> ok"
      with d have "\<not> accepted x (reply x st)" by (simp add: step_done_def)
      then have "accepted_steps (x # xs) (reachable_answers st) (pc_transfers st) = 0" by (simp only: accepted_steps_Cons) simp
      with d no show "cpost (\<lambda>(ok, t). upper t = upper st \<and> (port_inv st \<longrightarrow> port_inv t)
          \<and> ok = (accepted_steps (x # xs) (reachable_answers st) (pc_transfers st) = length (x # xs))
          \<and> (\<exists>m \<in> {accepted_steps (x # xs) (reachable_answers st) (pc_transfers st),
              Suc (accepted_steps (x # xs) (reachable_answers st) (pc_transfers st))}. traffic st (take m (x # xs)) t)) (Inr (False, s))"
        by (auto simp: step_done_def)
    }
  qed
qed auto

lemma flash_lines_plan:
  "cpost (\<lambda>(r, s). run_steps (concat (map (line_plan (pc_fs st)) ws)) st = Inr (r = 0, s)) (flash_lines ws st)"
proof (induction ws arbitrary: st)
  case (Cons w ws)
  show ?case unfolding flash_lines.simps
  proof (rule cpost_cbind_any, rule cpost_cbind_any, clarify, rule cpost_cbind_any, rule cpost_ifI)
    fix d part img checksum
    assume "strcpy_cap MAX_COMMAND_LEN w = Inr d" and "line_fields d = Inr (part, img, checksum)"
    then have f: "line_fields w = Inr (part, img, checksum)" by (simp add: strcpy_cap_def split: if_splits)
    {
      assume "strstr img ''SKIP_'' \<noteq> None"
      then show "cpost (\<lambda>(r, s). run_steps (concat (map (line_plan (pc_fs st)) (w # ws))) st = Inr (r = 0, s)) (flash_lines ws st)"
        using Cons.IH [of st] f by (simp add: line_plan_def [of _ w])
    next
      assume n: "\<not> strstr img ''SKIP_'' \<noteq> None"
      let ?p = "image_plan (pc_fs st) part img checksum"
      have plan: "concat (map (line_plan (pc_fs st)) (w # ws)) = ?p @ concat (map (line_plan (pc_fs st)) ws)"
        using n f by (simp add: line_plan_def)
      show "cpost (\<lambda>(r, s). run_steps (concat (map (line_plan (pc_fs st)) (w # ws))) st = Inr (r = 0, s))
        (cbind (flash_image part img checksum st) (\<lambda>(r, s). if r \<noteq> 0 then Inr (-1, s) else flash_lines ws s))"
      proof (rule cpost_cbindI [OF flash_image_plan], clarify)
        fix r s assume run: "run_steps ?p st = Inr (r = 0, s)"
        then have "upper s = upper st" using cpostD [OF run_steps_done run] by simp
        then have "pc_fs s = pc_fs st" using upper_fields(1) [of s st] by simp
        then show "cpost (\<lambda>(r, s). run_steps (concat (map (line_plan (pc_fs st)) (w # ws))) st = Inr (r = 0, s))
            (if r \<noteq> 0 then Inr (-1, s) else flash_lines ws s)"
          using run Cons.IH [of s] by (cases "r = 0") (simp_all add: plan run_steps_append del: concat.simps list.map)
      qed
    }
  qed
qed simp

text \<open>C3: The images of the table are flashed in its order, each in four steps (the download command with its
  size, its bytes, the flash and the check command of its partition); marked images cause no traffic.
  The steps are done one after the other as long as the module accepts them: nothing is sent behind the
  first step that is refused, and the result is 0 exactly when all of them were accepted. When the port takes
  every write, the bytes of the images are among the traffic.\<close>

theorem flash_in_order:
  "cpost (\<lambda>(r, s).
     let plan = concat (map (line_plan (pc_fs st)) ws);
         n = accepted_steps plan (reachable_answers st) (pc_transfers st)
     in (r = 0 \<longleftrightarrow> n = length plan)
        \<and> (\<exists>m \<in> {n, Suc n}.
             sent_commands (pc_log s) = sent_commands (pc_log st) @ sent_commands (concat (map step_log (take m plan)))
             \<and> (pc_writes st = [] \<longrightarrow> pc_log s = pc_log st @ concat (map step_log (take m plan)))))
   (flash_lines ws st)"
proof (cases "flash_lines ws st")
  case (Inr a)
  obtain r s where a: "a = (r, s)" by (cases a)
  have run: "run_steps (concat (map (line_plan (pc_fs st)) ws)) st = Inr (r = 0, s)"
    using cpostD [OF flash_lines_plan Inr [unfolded a]] by simp
  show ?thesis unfolding Inr a using cpostD [OF run_steps_done run] by (simp add: Let_def traffic_def) blast
qed simp

text \<open>A module that takes an image of three bytes.\<close>

definition example_flash_fs :: fs where
  "example_flash_fs = write_file ''/lk.img'' ''abc'' fs0"

definition example_lk :: pcie where
  "example_lk = (pcie_init (u_init PWL_DEVICE_TYPE_PCIE example_flash_fs []))\<lparr>pc_img_number_count := 1, pc_fastboot_port := ''/dev/wwan0fastboot0'',
     pc_answers := [Some [''DATA00000003''], Some [''OKAY'' @ [NL]], Some [[], ''OKAYCRC32:0x1234'']],
     pc_transfers := [Some [[], ''OKAY'']]\<rparr>"

lemma example_show_x8: "show_x8 3 = ''00000003''"
  by (simp add: show_x8_def hex_char_def digit_char_def) code_simp

lemma example_reads:
  "read_line ''DATA00000003'' = Inr ''DATA00000003''" "read_line (''OKAY'' @ [NL]) = Inr ''OKAY''"
  "read_line ''OKAYCRC32:0x1234'' = Inr ''OKAYCRC32:0x1234''"
  "cstr (read_bytes ''OKAY'') = Inr ''OKAY''"
  by (simp_all add: read_line_def read_bytes_def MAX_COMMAND_LEN_def zeroed_def cstr_def Let_def)

lemma example_chunks: "read_chunks ''abc'' = [''abc'']"
  by (simp add: read_chunks.simps [of "_ # _"] read_chunks.simps [of "[]"] SPLIT_IMAGE_BUFFER_def)

lemma example_flash_image:
  "\<exists>s. flash_image ''lk'' ''/lk.img'' ''0x12'' example_lk = Inr (0, s)"
  by (simp add: example_lk_def flash_image_def pcie_init_def u_init_def example_flash_fs_def fopen_r_def write_file_def fs0_def
    request_download_def example_show_x8 send_fastboot_command_def ensure_port_def take_answer_def example_reads [simplified]
    log_act_def strcpy_cap_def MAX_COMMAND_LEN_def send_image_def take_transfer_def get_fastboot_resp_def
    flash_partition_def check_partition_def crc_accepted_def strtok_all_def strncmp_eq_def example_chunks)

lemma example_line: "line_fields ''Flash|lk|/lk.img|0x12'' = Inr (''lk'', ''/lk.img'', ''0x12'')"
  by (simp add: line_fields_def strtok_all_def word_at_def strcpy_cap_def pcie_sizes)

text \<open>The whole traffic of a table with one image and one marked line, and of a transfer that the module
  refuses: neither the flash nor the check command is sent.\<close>

theorem flash_in_order_witness:
  "(\<exists>s. flash_lines [''Flash|lk|/lk.img|0x12'', ''Flash|boot|SKIP_/boot.img|''] example_lk = Inr (0, s)
      \<and> pc_log s = [SendCommand ''download:00000003'', SendData ''abc'', SendCommand ''flash:lk'', SendCommand ''check:lk''])
   \<and> cpost (\<lambda>(r, s). r \<noteq> 0 \<and> length (sent_commands (pc_log s)) \<le> 1)
       (flash_lines [''Flash|lk|/lk.img|0x12''] (example_lk\<lparr>pc_transfers := [Some [''FAIL'']]\<rparr>))"
proof -
  have skip: "line_fields ''Flash|boot|SKIP_/boot.img|'' = Inr (''boot'', ''SKIP_/boot.img'', [])"
    by (simp add: line_fields_def strtok_all_def word_at_def strcpy_cap_def pcie_sizes)
  let ?bad = "example_lk\<lparr>pc_transfers := [Some [''FAIL'']]\<rparr>"
  have fs: "pc_fs (example_lk\<lparr>pc_transfers := ts\<rparr>) = pc_fs example_lk" for ts by simp
  obtain s where f: "flash_image ''lk'' ''/lk.img'' ''0x12'' example_lk = Inr (0, s)" using example_flash_image by blast
  have bytes: "fopen_r (pc_fs example_lk) ''/lk.img'' = Some ''abc''"
    by (simp add: example_lk_def pcie_init_def u_init_def example_flash_fs_def fopen_r_def write_file_def fs0_def)
  let ?plan = "[Download ''abc'', Transfer ''abc'', Flash ''lk'', Check ''lk'' ''0x12'']"
  have plan: "concat (map (line_plan (pc_fs example_lk)) [''Flash|lk|/lk.img|0x12'', ''Flash|boot|SKIP_/boot.img|'']) = ?plan"
    "concat (map (line_plan (pc_fs example_lk)) [''Flash|lk|/lk.img|0x12'']) = ?plan"
    by (simp_all add: line_plan_def image_plan_def example_line skip bytes)
  have "upper s = upper example_lk"
    using cpostD [OF flash_image_plan f] by (auto dest: cpostD [OF run_steps_done])
  then have n: "pc_img_number_count s = 1" using upper_fields(3) [of s example_lk] by (simp add: example_lk_def pcie_init_def)
  have run: "flash_lines [''Flash|lk|/lk.img|0x12'', ''Flash|boot|SKIP_/boot.img|''] example_lk = Inr (0, s)"
    using f n by (simp add: strcpy_cap_def MAX_COMMAND_LEN_def example_line skip) (simp add: example_lk_def pcie_init_def)
  have writes: "pc_writes example_lk = []" "pc_log example_lk = []" by (simp_all add: example_lk_def pcie_init_def)
  have good: "pc_log s = [SendCommand ''download:00000003'', SendData ''abc'', SendCommand ''flash:lk'', SendCommand ''check:lk'']"
    using cpostD [OF flash_in_order run] unfolding plan Let_def prod.case by (auto simp: writes example_show_x8 example_chunks)
  have refused: "accepted_steps ?plan as [Some [''FAIL'']] \<le> 1" for as
    by (simp add: transfer_text_def get_fastboot_resp_def read_bytes_def MAX_COMMAND_LEN_def zeroed_def cstr_def)
  have bad: "cpost (\<lambda>(r, s). r \<noteq> 0 \<and> length (sent_commands (pc_log s)) \<le> 1) (flash_lines [''Flash|lk|/lk.img|0x12''] ?bad)"
  proof (rule cpost_weaken [OF flash_in_order], clarify)
    fix r t
    let ?n = "accepted_steps ?plan (reachable_answers ?bad) [Some [''FAIL'']]"
    assume "let plan = concat (map (line_plan (pc_fs ?bad)) [''Flash|lk|/lk.img|0x12'']);
         n = accepted_steps plan (reachable_answers ?bad) (pc_transfers ?bad)
     in (r = 0 \<longleftrightarrow> n = length plan)
        \<and> (\<exists>m \<in> {n, Suc n}.
             sent_commands (pc_log t) = sent_commands (pc_log ?bad) @ sent_commands (concat (map step_log (take m plan)))
             \<and> (pc_writes ?bad = [] \<longrightarrow> pc_log t = pc_log ?bad @ concat (map step_log (take m plan))))"
    then have "r = 0 \<longleftrightarrow> ?n = 4" and "\<exists>m \<in> {?n, Suc ?n}. sent_commands (pc_log t) = sent_commands (concat (map step_log (take m ?plan)))"
      unfolding fs plan Let_def by (auto simp: writes simp del: accepted_steps.simps)
    moreover have "?n = 0 \<or> ?n = 1" using refused [of "reachable_answers ?bad"] by linarith
    ultimately show "r \<noteq> 0 \<and> length (sent_commands (pc_log t)) \<le> 1"
      by (auto simp: numeral_2_eq_2 simp del: accepted_steps.simps)
  qed
  show ?thesis using run good bad by blast
qed

section \<open>What an image transfer guarantees\<close>

lemma concat_read_chunks: "concat (read_chunks s) = s"
proof (induction s rule: read_chunks.induct)
  case (1 s)
  then show ?case by (subst read_chunks.simps) simp
qed

lemma send_chunks_all: "pc_writes st = [] \<Longrightarrow> sent_data (pc_log (send_chunks cs st)) = sent_data (pc_log st) @ concat cs"
  by (induction cs arbitrary: st) (simp_all add: log_act_def)

text \<open>When every write is complete, the module is sent the image byte for byte. But success does not
  depend on that: with a port that takes nothing at all the function reports the same.\<close>

theorem image_transfer_unchecked:
  assumes "send_image bytes st = Inr (0, s)" "bytes \<noteq> []"
  shows "(pc_writes st = [] \<longrightarrow> sent_data (pc_log s) = sent_data (pc_log st) @ bytes)
    \<and> (\<exists>s'. send_image bytes (st\<lparr>pc_writes := [None]\<rparr>) = Inr (0, s') \<and> sent_data (pc_log s') = sent_data (pc_log st))"
proof -
  obtain t ts where t: "pc_transfers st = Some t # ts" using assms(1)
    by (cases "pc_transfers st"; cases "hd (pc_transfers st)") (auto simp: send_image_def take_transfer_def)
  then obtain resp where resp: "get_send_image_resp t = Inr resp" "strstr resp ''OKAY'' \<noteq> None"
    and s: "s = send_chunks (read_chunks bytes) (st\<lparr>pc_transfers := ts\<rparr>)"
    using assms(1) by (auto simp: send_image_def take_transfer_def cbind_eq_Inr_iff split: if_splits)
  have "send_chunks (read_chunks bytes) (st\<lparr>pc_writes := [None], pc_transfers := ts\<rparr>) = st\<lparr>pc_writes := [], pc_transfers := ts\<rparr>"
    using assms(2) by (subst read_chunks.simps) simp
  then have "send_image bytes (st\<lparr>pc_writes := [None]\<rparr>) = Inr (0, st\<lparr>pc_writes := [], pc_transfers := ts\<rparr>)"
    using t resp by (simp add: send_image_def take_transfer_def)
  moreover have "pc_writes st = [] \<longrightarrow> sent_data (pc_log s) = sent_data (pc_log st) @ bytes"
    by (simp add: s send_chunks_all concat_read_chunks)
  ultimately show ?thesis by simp
qed

theorem image_transfer_unchecked_witness:
  "\<exists>s'. send_image ''abc'' (example_lk\<lparr>pc_writes := [None]\<rparr>) = Inr (0, s') \<and> sent_data (pc_log s') = []"
proof -
  have "\<exists>s. send_image ''abc'' example_lk = Inr (0, s)"
    by (simp add: example_lk_def pcie_init_def send_image_def take_transfer_def get_fastboot_resp_def example_reads [simplified])
  then obtain s where "send_image ''abc'' example_lk = Inr (0, s)" by blast
  from image_transfer_unchecked [OF this] show ?thesis by (simp add: example_lk_def pcie_init_def)
qed

text \<open>The checksum of a partition is accepted when the one of the image is a beginning of it, so a
  shorter or missing checksum of the image accepts every partition, and so does an answer without a value.\<close>

theorem crc_accepted_prefix:
  assumes "CHR '':'' \<notin> set crc"
  shows "crc_accepted checksum (''OKAYCRC32:'' @ crc) \<longleftrightarrow> crc = [] \<or> prefix checksum crc"
proof -
  have "strtok_all '':'' (''OKAYCRC32'' @ CHR '':'' # crc) = ''OKAYCRC32'' # strtok_all '':'' crc"
    by (rule strtok_all_Cons) auto
  moreover have "strtok_all '':'' crc = (if crc = [] then [] else [crc])"
    using assms strtok_all_last [of crc "'':''"] by (auto simp: strtok_all_def)
  moreover have "strncmp_eq checksum crc (length checksum) = prefix checksum crc"
    using strncmp_eq_prefix [of crc checksum] by (auto simp: strncmp_eq_def)
  ultimately show ?thesis
    by (simp add: crc_accepted_def strstr_eq_None_iff [symmetric] strstr_prefix [of "''OKAYCRC32:''" crc, simplified])
qed

theorem crc_accepted_prefix_witness:
  "crc_accepted [] (''OKAYCRC32:'' @ ''0xdeadbeef'') \<and> \<not> crc_accepted ''0x12345678'' (''OKAYCRC32:'' @ ''0xdeadbeef'')"
  using crc_accepted_prefix [of "''0xdeadbeef''"] by simp

section \<open>The wait for a stable fastboot mode\<close>











text \<open>The fields that the search for the nodes, the queries of the mode and the shell commands leave alone.\<close>

definition port_quiet :: "pcie \<Rightarrow> pcie \<Rightarrow> bool" where
  "port_quiet st s \<longleftrightarrow> pc_fastboot_port s = pc_fastboot_port st \<and> pc_ports s = pc_ports st \<and> pc_answers s = pc_answers st"

lemma quiet_simps [simp]:
  "port_quiet st st" "port_quiet st (s\<lparr>pc_t7xx_mode_node := n\<rparr>) = port_quiet st s" "port_quiet st (s\<lparr>pc_t7xx_mode_remove_node := n\<rparr>) = port_quiet st s"
  "port_quiet st (s\<lparr>pc_modes := m\<rparr>) = port_quiet st s" "port_quiet st (log_act a s) = port_quiet st s"
  by (simp_all add: port_quiet_def log_act_def)















section \<open>What a switch of the mode leaves alone\<close>

definition talks :: "pcie \<Rightarrow> pcie \<Rightarrow> bool" where
  "talks st s \<longleftrightarrow> upper s = upper st \<and> (port_inv st \<longrightarrow> port_inv s)"

lemma talks_refl [simp]: "talks st st"
  by (simp add: talks_def)

lemma talks_trans: "talks a b \<Longrightarrow> talks b c \<Longrightarrow> talks a c"
  by (simp add: talks_def)

lemma asks_talks: "asks st s cs \<Longrightarrow> talks st s"
  by (simp add: asks_def talks_def)

lemma send_command_talks: "cpost (\<lambda>(r, resp, s). talks st s) (send_fastboot_command cmd resp0 st)"
  by (rule cpost_weaken [OF send_fastboot_command_post]) (auto dest: asks_talks)

lemma query_talks: "cpost (\<lambda>(m, s). talks st s) (query_t7xx_mode st)"
  by (auto simp: query_t7xx_mode_def take_mode_def talks_def intro!: cpost_cbind_any split: list.splits option.splits)

lemma poll_talks: "cpost (\<lambda>(m', s). talks st s) (poll_mode n wanted m st)"
proof (induction n arbitrary: m st)
  case (Suc n)
  show ?case unfolding poll_mode.simps
    by (rule cpost_cbindI [OF query_talks]) (auto intro!: cpost_weaken [OF Suc.IH] elim: talks_trans)
qed simp

lemma run_command_talks: "cpost (\<lambda>(r, s). talks st s) (run_command sh cmd st)"
  by (auto simp: run_command_def talks_def intro!: cpost_cbind_any split: option.splits)

lemma remove_rescan_talks: "cpost (\<lambda>(r, s). talks st s) (do_remove_rescan sh st)"
  unfolding do_remove_rescan_def
  by (rule cpost_cbindI [OF run_command_talks]) (auto intro!: cpost_weaken [OF run_command_talks] elim: talks_trans)

lemma getver_talks: "cpost (\<lambda>(r, s). talks st s) (getver_loop n c st)"
proof (induction n arbitrary: c st)
  case (Suc n)
  show ?case unfolding getver_loop.simps
    by (rule cpost_cbindI [OF send_command_talks]) (auto intro!: cpost_weaken [OF Suc.IH] elim: talks_trans)
qed simp

lemma find_nodes_talk:
  "cpost (\<lambda>(r, s). talks st s) (find_mode_node sh st)" "cpost (talks st) (find_remove_node st)"
proof -
  have "length (cut_at l r) < 128" if "fgets 128 out = Some l" for l r out
    using fgets_bound [OF _ that] length_cut_at [of l r] by simp
  then show "cpost (\<lambda>(r, s). talks st s) (find_mode_node sh st)"
    by (auto simp: find_mode_node_def talks_def port_inv_def pcie_sizes Let_def cut_at_def [of "[]"] split: option.splits)
  show "cpost (talks st) (find_remove_node st)"
    by (auto simp: find_remove_node_def talks_def port_inv_def Let_def intro!: cpost_cbind_any)
qed

text \<open>One more step of an activity that talks to the module.\<close>

lemma talks_bind:
  assumes "talks st s" "cpost (\<lambda>(x, s'). talks s s') m" "\<And>x s'. talks st s' \<Longrightarrow> cpost (\<lambda>(r, t). talks st t) (f x s')"
  shows "cpost (\<lambda>(r, t). talks st t) (cbind m (\<lambda>(x, s'). f x s'))"
  by (rule cpost_cbindI [OF assms(2)]) (auto intro!: assms(3) intro: talks_trans [OF assms(1)])

lemma talks_end: "talks st s \<Longrightarrow> cpost (\<lambda>(x, s'). talks s s') m \<Longrightarrow> cpost (\<lambda>(r, t). talks st t) m"
  by (erule cpost_weaken) (auto elim: talks_trans)

lemma wait_talks: "cpost (\<lambda>(r, s). talks st s) (wait_fastboot sh st)" "cpost (\<lambda>(r, s). talks st s) (wait_reset sh st)"
proof -
  have rescan: "cpost (\<lambda>(r, s'). talks s s') (if b then do_remove_rescan sh s else Inr (0, s))" for b s
    by (simp add: remove_rescan_talks)
  show "cpost (\<lambda>(r, s). talks st s) (wait_fastboot sh st)"
    unfolding wait_fastboot_def
    by (rule talks_bind [OF talks_refl poll_talks], erule talks_bind [OF _ rescan])
      (auto intro!: talks_bind [OF _ poll_talks] talks_end [OF _ getver_talks])
  show "cpost (\<lambda>(r, s). talks st s) (wait_reset sh st)"
    unfolding wait_reset_def
    by (rule talks_bind [OF talks_refl remove_rescan_talks]) (auto intro!: talks_bind [OF _ poll_talks])
qed

lemma switch_talks: "cpost (\<lambda>(r, s). talks st s) (switch_t7xx_mode sh mode st)"
  unfolding switch_t7xx_mode_def write_mode_def
  apply (rule talks_bind [OF talks_refl find_nodes_talk(1)])
  apply (rule cpost_ifI, simp)
  apply (rule cpost_cbindI [OF find_nodes_talk(2)])
  apply (rule talks_bind [OF _ query_talks], erule (1) talks_trans)
  by (auto intro!: talks_bind [OF _ run_command_talks] talks_end [OF _ wait_talks(1)] talks_end [OF _ wait_talks(2)])

lemma fastboot_reboot_talks: "cpost (\<lambda>(r, s). talks st s) (do_fastboot_reboot st)"
proof -
  show ?thesis unfolding do_fastboot_reboot_def
    by (rule cpost_cbindI [OF send_command_talks]) (auto intro!: talks_bind [OF _ poll_talks])
qed

lemma flash_table_talks: "cpost (\<lambda>(r, s). talks st s) (parse_download_table_and_flash st)"
proof -
  have "cpost (\<lambda>(r, s). talks st s) (flash_lines ws st)" for ws
    by (rule cpost_weaken [OF flash_lines_plan]) (auto simp: talks_def dest!: cpostD [OF run_steps_done])
  then show ?thesis by (simp add: parse_download_table_and_flash_def split: option.split)
qed

end
