(* ===== verification/Fw_Retry.thy ===== *)
theory Fw_Retry
  imports Fw_Pcie
begin

text \<open>
  The updater, part seven: \<^verbatim>\<open>start_update_process_pcie\<close>, which puts the selection of the images, the flash
  table, the switch of the mode and the flashing together, and the two places that start it and start it
  again when it failed, \<^verbatim>\<open>signal_callback_notice_module_recovery_finish\<close> and \<^verbatim>\<open>monitor_package_func2\<close>.
\<close>

section \<open>start_update_process_pcie\<close>

definition set_processing :: "bool \<Rightarrow> pcie \<Rightarrow> pcie" where
  "set_processing b st = st\<lparr>pc_is_fw_update_processing := b\<rparr>"

text \<open>The eSIM state that the record of the last boot holds; -1 when it cannot be read.\<close>

definition load_esim_state :: "fwu \<Rightarrow> fwu cres" where
  "load_esim_state st =
     cbind (read_into (get_bootup_status_value ESIM_ENABLE_STATE (u_fs st)) (-1)) (\<lambda>esim_state.
       Inr (st\<lparr>u_esim_enable := (esim_state = 1)\<rparr>))"

text \<open>The result of the selection is not looked at; \<open>False\<close> is the \<^verbatim>\<open>default\<close> of the switch.\<close>

definition select_images :: "penv \<Rightarrow> string \<Rightarrow> string \<Rightarrow> pcie \<Rightarrow> (bool \<times> pcie) cres" where
  "select_images pe subsysid sku_id st =
     (let fw = find_fw_download_image pe subsysid (u_carrier_id (pc_fwu st)); dv = find_device_image pe sku_id
      in if pc_update_type st = UPDATE_TYPE_FULL
         then cbind (fw st) (\<lambda>(_, s1). cbind (dv s1) (\<lambda>(_, s2). Inr (True, s2)))
         else if pc_update_type st = UPDATE_TYPE_ONLY_FW then cbind (fw st) (\<lambda>(_, s1). Inr (True, s1))
         else if pc_update_type st = UPDATE_TYPE_ONLY_DEV then cbind (dv st) (\<lambda>(_, s1). Inr (True, s1))
         else Inr (False, st))"

text \<open>The table and its check: \<open>False\<close> ends the update, with the data removed when nothing is new.\<close>

definition prepare_table :: "penv \<Rightarrow> pcie \<Rightarrow> (bool \<times> pcie) cres" where
  "prepare_table pe st =
     cbind (generate_download_table pe SCATTER_PATH st) (\<lambda>(r1, s1).
       if r1 \<noteq> 0 then Inr (False, s1)
       else cbind (check_image_downlaod_table s1) (\<lambda>(r2, s2).
            if r2 = 0 then Inr (True, s2)
            else if pc_need_update s2 then Inr (False, s2)
            else cbind (remove_flash_data (pe_sh pe) (pc_update_type s2) s2) (\<lambda>s3. Inr (False, s3))))"

definition flash_module :: "shell \<Rightarrow> pcie \<Rightarrow> (int \<times> pcie) cres" where
  "flash_module sh st =
     cbind (switch_t7xx_mode sh MODE_FASTBOOT_SWITCHING st) (\<lambda>(r1, s1).
       if r1 \<noteq> 0 then Inr (-1, s1)
       else cbind (parse_download_table_and_flash s1) (\<lambda>(r2, s2). Inr (if r2 \<noteq> 0 then -1 else 0, s2)))"

text \<open>The counter is stored before it is increased.\<close>

definition count_retry :: "pcie \<Rightarrow> (int \<times> pcie) cres" where
  "count_retry st =
     (let fw = pc_fwu st; n = u_fw_update_retry_count fw
      in cbind (store_update_status FW_UPDATE_RETRY_COUNT n fw) (\<lambda>s.
           Inr (-1, st\<lparr>pc_fwu := s\<lparr>u_fw_update_retry_count := n + 1\<rparr>\<rparr>)))"

definition find_port_again :: "shell \<Rightarrow> string \<Rightarrow> pcie \<Rightarrow> (bool \<times> pcie) cres" where
  "find_port_again sh junk st =
     cbind (pwl_find_mbim_port sh junk (zeroed 20) 20 (u_dev (pc_fwu st))) (\<lambda>(found, _, d).
       Inr (found, st\<lparr>pc_fwu := (pc_fwu st)\<lparr>u_dev := d\<rparr>\<rparr>))"

definition reset_module :: "shell \<Rightarrow> pcie \<Rightarrow> pcie cres" where
  "reset_module sh st =
     cbind (do_fastboot_reboot (st\<lparr>pc_fwu := (pc_fwu st)\<lparr>u_need_cxp_reboot := False\<rparr>\<rparr>)) (\<lambda>(r, s1).
     cbind (if r \<noteq> 0 then switch_t7xx_mode sh MODE_HW_RESET s1 else Inr (0, s1)) (\<lambda>(_, s2). Inr s2))"

text \<open>From the label \<^verbatim>\<open>DO_RESET\<close> on.\<close>

definition do_reset :: "shell \<Rightarrow> string \<Rightarrow> int \<Rightarrow> pcie \<Rightarrow> (int \<times> pcie) cres" where
  "do_reset sh junk update_result st =
     cbind (reset_module sh st) (\<lambda>s1.
     let s2 = set_processing False s1
     in if update_result = -1 then count_retry s2
        else cbind (find_port_again sh junk s2) (\<lambda>(found, s3).
             if found
             then cbind (store_update_status FW_UPDATE_RETRY_COUNT 0 (pc_fwu s3)) (\<lambda>s.
                    Inr (0, s3\<lparr>pc_fwu := s\<lparr>u_fw_update_retry_count := 0\<rparr>\<rparr>))
             else count_retry s3))"

text \<open>From the start of the progress dialog on.\<close>

definition run_update_pcie :: "penv \<Rightarrow> djunk \<Rightarrow> string \<Rightarrow> string \<Rightarrow> pcie \<Rightarrow> (int \<times> pcie) cres" where
  "run_update_pcie pe dj subsysid sku_id st =
     cbind (select_images pe subsysid sku_id st) (\<lambda>(known, s1).
       if \<not> known then Inr (-1, set_processing False s1)
       else cbind (prepare_table pe s1) (\<lambda>(go, s2).
            if \<not> go then Inr (-1, set_processing False s2)
            else cbind (flash_module (pe_sh pe) s2) (\<lambda>(r, s3). do_reset (pe_sh pe) (dj_cmd dj) r s3)))"

definition start_update_process_pcie :: "penv \<Rightarrow> djunk \<Rightarrow> int \<Rightarrow> pcie \<Rightarrow> (int \<times> pcie) cres" where
  "start_update_process_pcie pe dj based_type st0 =
     (let j = dj_u dj; st = st0\<lparr>pc_update_based_type := based_type\<rparr>
      in cbind (load_update_status j (pc_fwu st)) (\<lambda>f1.
         cbind (load_esim_state f1) (\<lambda>f2.
         if u_fw_update_retry_count f2 > FW_UPDATE_RETRY_TH \<or> u_do_hw_reset_count f2 > HW_RESET_RETRY_TH
         then Inr (-1, st\<lparr>pc_fwu := f2\<rparr>)
         else cbind (get_fwupdate_subsysid (u_dev f2)) (\<lambda>(_, sid).
              let subsysid = (case sid of None \<Rightarrow> [] | Some s \<Rightarrow> s)
              in cbind (get_carrier_id j f2) (\<lambda>(_, f3).
                 cbind (get_cxp_reboot_flag j f3) (\<lambda>(_, f4).
                 let sku_id = pwl_get_skuid (pe_sh pe) (dj_cmd dj) PWL_MAX_SKUID_SIZE
                 in cbind (if based_type = PCIE_UPDATE_BASE_FLZ then get_current_fw_version j f4 else Inr (0, f4)) (\<lambda>(r, f5).
                      let s = st\<lparr>pc_fwu := f5, pc_need_update := False\<rparr>
                      in if r \<noteq> 0 then Inr (-1, s)
                         else run_update_pcie pe dj subsysid sku_id
                                (set_processing True (s\<lparr>pc_fwu := f5\<lparr>u_is_get_fw_ver := False\<rparr>\<rparr>)))))))))"

section \<open>What starts an update\<close>

text \<open>The end of a successful update: the data are removed and the preference service is asked for the versions.\<close>

definition update_done :: "penv \<Rightarrow> pcie \<Rightarrow> pcie cres" where
  "update_done pe st =
     cbind (remove_flash_data (pe_sh pe) (pc_update_type st) st) (\<lambda>s. Inr (log_act RequestVersion s))"

definition read_retry_count :: "djunk \<Rightarrow> int \<Rightarrow> pcie \<Rightarrow> int cres" where
  "read_retry_count dj old st =
     read_into (get_fw_update_status_value (uj_stack (dj_u dj)) FW_UPDATE_RETRY_COUNT (pc_fs st)) old"

text \<open>
  The loop \<^verbatim>\<open>while (already_retry_count < FW_UPDATE_RETRY_TH)\<close>: \<open>None\<close> when it still runs after \<open>n\<close> attempts.
  Attempt \<open>k\<close> runs in the environment \<open>env k\<close>.
\<close>

fun retry_update :: "nat \<Rightarrow> (nat \<Rightarrow> penv) \<Rightarrow> nat \<Rightarrow> djunk \<Rightarrow> int \<Rightarrow> int \<Rightarrow> pcie \<Rightarrow> pcie option cres" where
  "retry_update n env k dj based_type already st =
     (if already \<ge> FW_UPDATE_RETRY_TH then Inr (Some st)
      else case n of
             0 \<Rightarrow> Inr None
           | Suc m \<Rightarrow>
               cbind (start_update_process_pcie (env k) dj based_type st) (\<lambda>(r, s).
                 if r = 0 then cbind (update_done (env k) s) (\<lambda>s'. Inr (Some s'))
                 else cbind (read_retry_count dj already s) (\<lambda>a. retry_update m env (Suc k) dj based_type a s)))"

declare retry_update.simps [simp del]

definition cxp_reboot :: "penv \<Rightarrow> pcie \<Rightarrow> pcie cres" where
  "cxp_reboot pe st =
     (if u_need_cxp_reboot (pc_fwu st)
      then cbind (switch_t7xx_mode (pe_sh pe) MODE_HW_RESET (st\<lparr>pc_fwu := (pc_fwu st)\<lparr>u_need_cxp_reboot := False\<rparr>\<rparr>)) (\<lambda>(_, s).
             Inr s)
      else Inr st)"

definition retry_when_needed :: "nat \<Rightarrow> (nat \<Rightarrow> penv) \<Rightarrow> djunk \<Rightarrow> int \<Rightarrow> int \<Rightarrow> pcie \<Rightarrow> pcie option cres" where
  "retry_when_needed n env dj based_type junk st =
     (if pc_need_update st
      then cbind (read_retry_count dj junk st) (\<lambda>already. retry_update n env 1 dj based_type already st)
      else Inr (Some st))"

definition then_cxp_reboot :: "penv \<Rightarrow> pcie option \<Rightarrow> pcie option cres" where
  "then_cxp_reboot pe v = (case v of None \<Rightarrow> Inr None | Some s \<Rightarrow> cbind (cxp_reboot pe s) (\<lambda>s'. Inr (Some s')))"

text \<open>
  \<open>junk\<close> is the initial value of \<^verbatim>\<open>already_retry_count\<close>. A success leaves the callback before the reboot
  that a change of carrier asked for.
\<close>

definition signal_callback_notice_module_recovery_finish ::
  "nat \<Rightarrow> (nat \<Rightarrow> penv) \<Rightarrow> djunk \<Rightarrow> int \<Rightarrow> int \<Rightarrow> pcie \<Rightarrow> pcie option cres" where
  "signal_callback_notice_module_recovery_finish n env dj junk ty st =
     (if u_device_type (pc_fwu st) \<noteq> PWL_DEVICE_TYPE_PCIE then Inr (Some st)
      else cbind (check_update_data (env 0) ty st) (\<lambda>(r0, s0).
           if r0 \<noteq> 0 \<or> pc_is_fw_update_processing s0 then Inr (Some s0)
           else cbind (start_update_process_pcie (env 0) dj ty s0) (\<lambda>(r, s1).
                if r = 0 then cbind (update_done (env 0) s1) (\<lambda>s2. Inr (Some s2))
                else cbind (retry_when_needed n env dj ty junk s1) (then_cxp_reboot (env 0)))))"

text \<open>What \<^verbatim>\<open>monitor_package_func2\<close> does for a PCIe module when the package was moved to its place.\<close>

definition package_moved_pcie :: "nat \<Rightarrow> (nat \<Rightarrow> penv) \<Rightarrow> djunk \<Rightarrow> int \<Rightarrow> pcie \<Rightarrow> pcie option cres" where
  "package_moved_pcie n env dj junk st =
     (if pc_is_fw_update_processing st then Inr (Some st)
      else cbind (check_update_data (env 0) TYPE_FLASH_FLZ st) (\<lambda>(r0, s).
           if r0 \<noteq> 0 then Inr (Some s)
           else let s0 = log_act RequestVersion s
                in if pc_is_fw_update_processing s0 then Inr (Some s0)
                   else cbind (start_update_process_pcie (env 0) dj PCIE_UPDATE_BASE_FLZ s0) (\<lambda>(r, s1).
                        cbind (if r = 0 then cbind (update_done (env 0) s1) (\<lambda>s2. Inr (Some s2))
                               else retry_when_needed n env dj PCIE_UPDATE_BASE_FLZ junk s1) (then_cxp_reboot (env 0)))))"

section \<open>Invariants of the message thread\<close>

text \<open>
  What every message keeps, and the assignments that the request functions make before they ask, is kept
  by the requests an update makes.
\<close>

locale message_invariant =
  fixes inv :: "fwu \<Rightarrow> bool"
  assumes handled: "inv st \<Longrightarrow> cpost inv (u_handle j m st)"
    and env: "inv (st\<lparr>u_script := sc\<rparr>) = inv st" "inv (st\<lparr>u_signals := sg\<rparr>) = inv st"
      "inv (st\<lparr>u_out := out\<rparr>) = inv st" "inv (st\<lparr>u_mutex := b\<rparr>) = inv st"
    and cleared: "inv st \<Longrightarrow> inv (st\<lparr>u_carrier_id := []\<rparr>)" "inv st \<Longrightarrow> inv (st\<lparr>u_need_cxp_reboot := b\<rparr>)"
      "inv st \<Longrightarrow> inv (st\<lparr>u_current_fw_ver := []\<rparr>)" "inv st \<Longrightarrow> inv (st\<lparr>u_current_md_ver := []\<rparr>)"
      "inv st \<Longrightarrow> inv (st\<lparr>u_current_op_ver := []\<rparr>)" "inv st \<Longrightarrow> inv (st\<lparr>u_current_oem_ver := []\<rparr>)"
      "inv st \<Longrightarrow> inv (st\<lparr>u_current_dpv_ver := []\<rparr>)" "inv st \<Longrightarrow> inv (st\<lparr>u_is_get_fw_ver := b\<rparr>)"
      "inv st \<Longrightarrow> inv (st\<lparr>u_esim_enable := b\<rparr>)"
begin

lemma run_inv: "inv st \<Longrightarrow> cpost inv (u_run j ms st)"
  by (induction ms arbitrary: st) (auto intro!: cpost_cbindI [OF handled])

lemma timedwait_inv: "inv st \<Longrightarrow> cpost (\<lambda>(ok, s). inv s) (u_timedwait j c st)"
proof (cases "u_script st")
  case (Cons e rest)
  assume st: "inv st"
  show ?thesis unfolding u_timedwait_def Cons list.case
    by (cases e) (use st in \<open>auto intro!: cpost_cbindI [OF run_inv] simp: env\<close>)
qed (simp add: u_timedwait_def)

lemma wait_inv: "inv st \<Longrightarrow> cpost (\<lambda>(ok, s). inv s) (locked_wait j st)" "inv st \<Longrightarrow> cpost (\<lambda>(ok, s). inv s) (u_cond_wait j st)"
  unfolding locked_wait_def u_cond_wait_def
  by (auto intro!: cpost_cbind_any [of "cassert _ _"] timedwait_inv cpost_cbindI [OF timedwait_inv] simp: env Let_def split: prod.splits)

lemma loop_inv:
  assumes w: "\<And>s. inv s \<Longrightarrow> cpost (\<lambda>(ok, s). inv s) (wt s)"
  shows "inv st \<Longrightarrow> cpost (\<lambda>(a, n', s). inv s) (request_loop n (ask j c) wt usable st)"
proof (induction n arbitrary: st)
  case (Suc n)
  have a: "cpost inv (ask j c st)" using Suc.prems by (simp add: ask_def u_send_message_queue_def env)
  show ?case unfolding request_loop.simps
    by (rule cpost_cbindI [OF a]) (auto intro!: cpost_cbindI [OF w] Suc.IH cpost_cbind_any [of "usable _"])
qed simp

lemmas locked_loop_inv = loop_inv [OF wait_inv(1)]

lemma get_carrier_id_inv: "inv st \<Longrightarrow> cpost (\<lambda>(r, s). inv s) (get_carrier_id j st)"
  unfolding get_carrier_id_def by (auto intro!: cpost_cbindI [OF locked_loop_inv] cleared)

lemma get_cxp_reboot_flag_inv: "inv st \<Longrightarrow> cpost (\<lambda>(r, s). inv s) (get_cxp_reboot_flag j st)"
  unfolding get_cxp_reboot_flag_def by (auto intro!: cpost_cbindI [OF locked_loop_inv] cleared)

lemma version_stage_inv:
  "inv (clear st) \<Longrightarrow> cpost (\<lambda>(ok, n', s). inv s) (version_stage j c clear field n st)"
  unfolding version_stage_def by (auto intro!: cpost_cbindI [OF locked_loop_inv])

lemma esim_state_inv: "inv st \<Longrightarrow> cpost (\<lambda>(r, s). inv s) (u_get_esim_enable_state j st)"
  unfolding u_get_esim_enable_state_def request_def by (auto intro!: cpost_cbindI [OF loop_inv [OF wait_inv(2)]])

lemma pcie_versions_inv: "inv st \<Longrightarrow> cpost (\<lambda>(r, s). inv s) (pcie_versions j n st)"
  unfolding pcie_versions_def
  by (auto intro!: cpost_cbindI [OF version_stage_inv] cpost_cbindI [OF esim_state_inv] cleared)

lemma get_current_fw_version_inv: "inv st \<Longrightarrow> cpost (\<lambda>(r, s). inv s) (get_current_fw_version j st)"
  unfolding get_current_fw_version_def
  by (auto intro!: cpost_cbindI [OF locked_loop_inv] pcie_versions_inv cleared)

end

interpretation sizes: message_invariant u_inv
  by unfold_locales (simp_all add: u_handle_keeps, simp_all add: u_inv_def)

text \<open>The number of retries that the record on disk holds.\<close>

definition count_stored :: "int \<Rightarrow> fs \<Rightarrow> bool" where
  "count_stored c w \<longleftrightarrow> store_inv FW_UPDATE_STATUS_RECORD w
     \<and> store_abs FW_UPDATE_STATUS_RECORD w FW_UPDATE_RETRY_COUNT = Some c
     \<and> {DO_HW_RESET_COUNT, NEED_RETRY_FW_UPDATE} \<subseteq> dom (store_abs FW_UPDATE_STATUS_RECORD w)"

lemma count_stored_set_need:
  assumes "count_stored c w" "set_fw_update_status_value NEED_RETRY_FW_UPDATE 0 w = Inr (r, w')"
  shows "count_stored c w'"
proof -
  have "NEED_RETRY_FW_UPDATE \<in> dom (store_abs FW_UPDATE_STATUS_RECORD w)" using assms(1) by (simp add: count_stored_def)
  with assms fw_status.set_abs [of w NEED_RETRY_FW_UPDATE 0] show ?thesis
    by (auto simp: count_stored_def val_ok_def key_defs)
qed

lemma count_stored_other_file:
  assumes "count_stored c w" "files w' FW_UPDATE_STATUS_RECORD = files w FW_UPDATE_STATUS_RECORD" "can_read w' = can_read w" "can_write w' = can_write w"
  shows "count_stored c w'"
  using assms by (simp add: count_stored_def store_inv_def store_abs_def fun_eq_iff dom_def)

lemma count_stored_bootup:
  "count_stored c w \<Longrightarrow> set_bootup_status_value k v w = Inr (r, w') \<Longrightarrow> count_stored c w'"
  by (auto simp: set_bootup_status_value_def BOOTUP_STATUS_RECORD_def FW_UPDATE_STATUS_RECORD_def
    dest!: set_record_value_only intro: count_stored_other_file)

lemma esim_tokens_stored: "count_stored c (u_fs st) \<Longrightarrow> cpost (\<lambda>s. count_stored c (u_fs s)) (esim_tokens ts st)"
  by (induction ts) (auto intro!: cpost_cbind_any dest: count_stored_bootup split: prod.splits)

lemma madpt_restart_stored: "count_stored c (u_fs st) \<Longrightarrow> cpost (\<lambda>s. count_stored c (u_fs s)) (handle_madpt_restart j st)"
  unfolding handle_madpt_restart_def Let_def
  by (rule cpost_cbind_any) (auto intro!: cpost_cbind_any simp: cond_signal_def count_stored_set_need split: prod.splits)

lemma u_answer_stored: "count_stored c (u_fs st) \<Longrightarrow> cpost (\<lambda>s. count_stored c (u_fs s)) (u_answer j cid m st)"
  unfolding u_answer_def Let_def
  by (cases cid)
    (auto intro!: cpost_cbind_any esim_tokens_stored madpt_restart_stored
       simp: handle_ap_ver_def handle_other_ver_def handle_switch_to_fastboot_def
         handle_check_oem_pri_version_def handle_skuid_def u_handle_sim_carrier_def handle_pref_carrier_id_def
         handle_cxp_reboot_flag_def get_oempri_reset_state_def update_esim_enable_state_def
         handle_esim_test_prof_def handle_backup_sn_imei_def u_handle_pref_carrier_def strcpy_cap_def Let_def
       split: option.splits pwl_device_type_t.splits list.splits prod.splits)

lemma u_handle_stored:
  assumes "count_stored c (u_fs st) \<and> u_fw_update_retry_count st = n"
  shows "cpost (\<lambda>s. count_stored c (u_fs s) \<and> u_fw_update_retry_count s = n) (u_handle j m st)"
proof -
  have "cpost (\<lambda>s. count_stored c (u_fs s)) (u_handle j m st)"
    unfolding u_handle_def
    using assms by (auto intro!: cpost_cbind_any [of "print_message_info _"] cpost_cbind_any [of "update_cid_record _ _ _"]
      cpost_cbindI [OF u_answer_stored] simp: cond_signal_def split: option.splits)
  moreover have "cpost (\<lambda>s. u_fw_update_retry_count s = n) (u_handle j m st)"
    using assms by (intro cpost_weaken [OF u_handle_frame]) (simp add: u_frame_def u_keep_def)
  ultimately show ?thesis by (cases "u_handle j m st") simp_all
qed

interpretation stored: message_invariant "\<lambda>st. count_stored c (u_fs st) \<and> u_fw_update_retry_count st = n" for c n
  by unfold_locales (simp_all add: u_handle_stored)

section \<open>Steps of an update\<close>

definition is_removal :: "pact \<Rightarrow> bool" where
  "is_removal a = (case a of Shell c \<Rightarrow> prefix ''rm -rf '' c | _ \<Rightarrow> False)"

definition pcie_inv :: "pcie \<Rightarrow> bool" where
  "pcie_inv st \<longleftrightarrow> tab_inv st \<and> port_inv st \<and> u_inv (pc_fwu st)"

lemma select_images_kept: "cpost (\<lambda>(known, s). kept st s) (select_images pe subsysid sku_id st)"
proof -
  have dv: "cpost (\<lambda>(r, s'). kept s s') (find_device_image pe sku_id s)" for s
    by (rule cpost_weaken [OF find_device_image_post]) auto
  show ?thesis unfolding select_images_def Let_def
    by (auto intro!: cpost_cbindI [OF find_fw_download_image_kept] cpost_cbindI [OF dv] elim: kept_trans)
qed

lemma generate_post:
  "cpost (\<lambda>(r, s). s = st \<or> (\<exists>t. s = write_table t st)) (generate_download_table pe xml_file st)"
  unfolding generate_download_table_def by (auto intro!: cpost_cbind_any split: option.split)

lemma check_table_post:
  "cpost (\<lambda>(r, s). s = st\<lparr>pc_need_update := pc_need_update s\<rparr> \<and> (r = 0 \<longrightarrow> pc_need_update s)) (check_image_downlaod_table st)"
  unfolding check_image_downlaod_table_def Let_def
  by (auto intro!: cpost_cbind_any split: option.split)

definition removed :: "pcie \<Rightarrow> pcie \<Rightarrow> bool" where
  "removed st s \<longleftrightarrow> (\<exists>l. s = st\<lparr>pc_log := pc_log st @ l\<rparr> \<and> list_all is_removal l)"

lemma removed_refl: "removed st st"
  by (simp add: removed_def exI [of _ "[]"])

lemma removed_trans:
  assumes "removed a b" "removed b c"
  shows "removed a c"
proof -
  obtain l k where "b = a\<lparr>pc_log := pc_log a @ l\<rparr>" "list_all is_removal l" "c = b\<lparr>pc_log := pc_log b @ k\<rparr>" "list_all is_removal k"
    using assms by (auto simp: removed_def)
  then show ?thesis by (auto simp: removed_def intro!: exI [of _ "l @ k"])
qed

lemma drop_folder_post: "cpost (removed st) (drop_folder sh path st)"
  by (auto simp: drop_folder_def remove_folder_def log_act_def is_removal_def removed_def intro!: cpost_cbind_any exI [of _ "[_]"]
    split: option.splits)

lemma remove_flash_data_post: "cpost (removed st) (remove_flash_data sh ty st)"
proof -
  have "cpost (removed st) (cbind (drop_folder sh a st) (drop_folder sh b))" for a b
    by (rule cpost_cbindI [OF drop_folder_post], rule cpost_weaken [OF drop_folder_post]) (auto intro: removed_trans)
  then show ?thesis unfolding remove_flash_data_def
    by (auto intro: drop_folder_post removed_refl)
qed

text \<open>What the preparation changes: the need for an update, the table, and the packages when nothing is new.\<close>

definition prepared :: "pcie \<Rightarrow> pcie \<Rightarrow> bool" where
  "prepared st s \<longleftrightarrow> (\<exists>w b l. s = (set_fs w st)\<lparr>pc_need_update := b, pc_log := pc_log st @ l\<rparr> \<and> list_all is_removal l
     \<and> (w = pc_fs st \<or> (\<exists>t. w = write_file FLASH_TABLE_FILE_NAME t (pc_fs st))))"

lemma set_fs_same [simp]: "set_fs (pc_fs st) st = st"
  by (simp add: set_fs_def)

lemma preparedI:
  assumes "s = st \<or> (\<exists>t. s = write_table t st)" "list_all is_removal l"
  shows "prepared st (s\<lparr>pc_need_update := b, pc_log := pc_log s @ l\<rparr>)"
proof -
  obtain w where "s = set_fs w st" "w = pc_fs st \<or> (\<exists>t. w = write_file FLASH_TABLE_FILE_NAME t (pc_fs st))"
    using assms(1) set_fs_same [of st] unfolding write_table_def by metis
  then show ?thesis using assms(2) unfolding prepared_def
    by (intro exI [of _ w] exI [of _ b] exI [of _ l]) (auto simp: set_fs_def)
qed

lemma prepare_table_post:
  "cpost (\<lambda>(go, s). prepared st s \<and> (go \<longrightarrow> pc_need_update s)) (prepare_table pe st)"
  unfolding prepare_table_def
proof (rule cpost_cbindI [OF generate_post], clarify)
  fix r1 :: int and s1 assume s1: "s1 = st \<or> (\<exists>t. s1 = write_table t st)"
  have q: "prepared st (s1\<lparr>pc_need_update := b\<rparr>)" for b using preparedI [OF s1, of "[]" b] by simp
  have rm: "prepared st s3" if r: "removed (s1\<lparr>pc_need_update := b\<rparr>) s3" for b s3
  proof -
    obtain l where l: "s3 = (s1\<lparr>pc_need_update := b\<rparr>)\<lparr>pc_log := pc_log (s1\<lparr>pc_need_update := b\<rparr>) @ l\<rparr>" "list_all is_removal l"
      using r unfolding removed_def by blast
    then show ?thesis using preparedI [OF s1 l(2), of b] by simp
  qed
  show "cpost (\<lambda>(go, s). prepared st s \<and> (go \<longrightarrow> pc_need_update s))
     (if r1 \<noteq> 0 then Inr (False, s1)
       else cbind (check_image_downlaod_table s1) (\<lambda>(r2, s2).
            if r2 = 0 then Inr (True, s2)
            else if pc_need_update s2 then Inr (False, s2)
            else cbind (remove_flash_data (pe_sh pe) (pc_update_type s2) s2) (\<lambda>s3. Inr (False, s3))))"
  proof (cases "r1 = 0")
    case True
    show ?thesis
    proof (simp only: True not_True_eq_False if_False simp_thms, rule cpost_cbindI [OF check_table_post], clarify)
      fix r2 :: int and s2
      assume s2: "s2 = s1\<lparr>pc_need_update := pc_need_update s2\<rparr>" and g: "r2 = 0 \<longrightarrow> pc_need_update s2"
      have p2: "prepared st s2" by (subst s2) (rule q)
      have "prepared st s3" if "removed s2 s3" for s3
        by (rule rm [of "pc_need_update s2"]) (use that s2 in metis)
      then show "cpost (\<lambda>(go, s). prepared st s \<and> (go \<longrightarrow> pc_need_update s))
        (if r2 = 0 then Inr (True, s2)
         else if pc_need_update s2 then Inr (False, s2)
         else cbind (remove_flash_data (pe_sh pe) (pc_update_type s2) s2) (\<lambda>s3. Inr (False, s3)))"
        using p2 g by (auto intro!: cpost_cbindI [OF remove_flash_data_post])
    qed
  next
    case False
    then show ?thesis using q [of "pc_need_update s1"] by simp
  qed
qed

section \<open>The stored number of retries\<close>

definition counted :: "int \<Rightarrow> pcie \<Rightarrow> bool" where
  "counted c st \<longleftrightarrow> count_stored c (pc_fs st) \<and> u_fw_update_retry_count (pc_fwu st) = c"

lemma count_stored_val_ok: "count_stored c w \<Longrightarrow> val_ok c"
proof -
  assume c: "count_stored c w"
  then have "store_inv FW_UPDATE_STATUS_RECORD w" by (simp add: count_stored_def)
  then obtain r where r: "files w FW_UPDATE_STATUS_RECORD = Some (render r)" "record_ok r"
    by (rule store_inv_content)
  have "(FW_UPDATE_RETRY_COUNT, c) \<in> set r"
    using c store_abs_map_of [OF r] map_of_SomeD by (fastforce simp: count_stored_def)
  with r(2) show ?thesis using record_ok_entry by blast
qed

lemma count_stored_set:
  assumes "count_stored c w" "val_ok v" "set_fw_update_status_value FW_UPDATE_RETRY_COUNT v w = Inr (r, w')"
  shows "count_stored v w'"
proof -
  have "FW_UPDATE_RETRY_COUNT \<in> dom (store_abs FW_UPDATE_STATUS_RECORD w)" using assms(1) by (auto simp: count_stored_def)
  with assms fw_status.set_abs [of w FW_UPDATE_RETRY_COUNT v] show ?thesis
    by (auto simp: count_stored_def key_defs)
qed

lemma store_count_post:
  "count_stored c (u_fs fw) \<Longrightarrow> val_ok v \<Longrightarrow>
     cpost (\<lambda>s. count_stored v (u_fs s) \<and> s = fw\<lparr>u_fs := u_fs s\<rparr>) (store_update_status FW_UPDATE_RETRY_COUNT v fw)"
  unfolding store_update_status_def
  by (rule cpost_cbind_any) (auto intro: count_stored_set)

lemma store_status_only_fs: "cpost (\<lambda>s. s = fw\<lparr>u_fs := u_fs s\<rparr>) (store_update_status k v fw)"
  unfolding store_update_status_def by (rule cpost_cbind_any) auto

text \<open>What an attempt to update leaves, whatever happens in it.\<close>

definition attempt :: "int \<Rightarrow> pcie \<Rightarrow> int \<Rightarrow> pcie \<Rightarrow> bool" where
  "attempt c st r s \<longleftrightarrow> (r = 0 \<or> r = -1) \<and> (pcie_inv st \<longrightarrow> pcie_inv s) \<and> \<not> pc_is_fw_update_processing s
     \<and> (counted c st \<longrightarrow> count_stored (if r = 0 then 0 else c) (pc_fs s))"

lemma pcie_inv_fwu: "u_inv f = u_inv (pc_fwu st) \<Longrightarrow> pcie_inv (st\<lparr>pc_fwu := f\<rparr>) = pcie_inv st"
  by (simp add: pcie_inv_def tab_inv_def port_inv_def)

lemma pcie_inv_simps [simp]: "pcie_inv (set_processing b st) = pcie_inv st" "pcie_inv (log_act a st) = pcie_inv st"
  "pcie_inv (st\<lparr>pc_update_type := t\<rparr>) = pcie_inv st" "pcie_inv (st\<lparr>pc_update_based_type := t\<rparr>) = pcie_inv st"
  "pcie_inv (st\<lparr>pc_need_update := b\<rparr>) = pcie_inv st" "pcie_inv (st\<lparr>pc_log := l\<rparr>) = pcie_inv st"
  by (simp_all add: pcie_inv_def tab_inv_def port_inv_def set_processing_def log_act_def)

lemma u_inv_counters [simp]:
  "u_inv (f\<lparr>u_fw_update_retry_count := n\<rparr>) = u_inv f" "u_inv (f\<lparr>u_dev := d\<rparr>) = u_inv f"
  "u_inv (f\<lparr>u_need_cxp_reboot := b\<rparr>) = u_inv f" "u_inv (f\<lparr>u_is_get_fw_ver := b\<rparr>) = u_inv f"
  "u_inv (f\<lparr>u_do_hw_reset_count := n\<rparr>) = u_inv f" "u_inv (f\<lparr>u_need_retry_fw_update := n\<rparr>) = u_inv f"
  "u_inv (f\<lparr>u_esim_enable := b\<rparr>) = u_inv f"
  by (simp_all add: u_inv_def)

lemma talks_keep:
  assumes "talks st s"
  shows "pcie_inv st \<longrightarrow> pcie_inv s" "counted c s = counted c st"
  using assms upper_fields [of s st] by (auto simp: talks_def pcie_inv_def tab_inv_def counted_def)

lemma kept_keep:
  assumes "kept st s"
  shows "pcie_inv st \<longrightarrow> pcie_inv s" "counted c s = counted c st"
  using assms globals_fields [of s st] by (auto simp: kept_def pcie_inv_def port_inv_def counted_def)

lemma prepared_keep:
  assumes "prepared st s"
  shows "pcie_inv st \<longrightarrow> pcie_inv s" "counted c st \<longrightarrow> counted c s"
    "pc_is_fw_update_processing s = pc_is_fw_update_processing st" "pc_update_type s = pc_update_type st"
proof -
  obtain w b l where s: "s = (set_fs w st)\<lparr>pc_need_update := b, pc_log := pc_log st @ l\<rparr>"
    and w: "w = pc_fs st \<or> (\<exists>t. w = write_file FLASH_TABLE_FILE_NAME t (pc_fs st))"
    using assms by (auto simp: prepared_def)
  show "pcie_inv st \<longrightarrow> pcie_inv s" "pc_is_fw_update_processing s = pc_is_fw_update_processing st"
    "pc_update_type s = pc_update_type st"
    by (simp_all add: s set_fs_def pcie_inv_fwu)
  have "count_stored c w" if "count_stored c (pc_fs st)"
    using w that
    by (auto simp: write_file_def FLASH_TABLE_FILE_NAME_def FW_UPDATE_STATUS_RECORD_def elim!: count_stored_other_file)
  then show "counted c st \<longrightarrow> counted c s" by (simp add: s set_fs_def counted_def)
qed

lemma count_retry_post:
  "\<not> pc_is_fw_update_processing st \<Longrightarrow> cpost (\<lambda>(r, s). attempt c st r s \<and> r = -1 \<and> pc_need_update s = pc_need_update st) (count_retry st)"
proof -
  assume p: "\<not> pc_is_fw_update_processing st"
  let ?n = "u_fw_update_retry_count (pc_fwu st)"
  have "cpost (\<lambda>s. s = (pc_fwu st)\<lparr>u_fs := u_fs s\<rparr> \<and> (counted c st \<longrightarrow> count_stored c (u_fs s)))
      (store_update_status FW_UPDATE_RETRY_COUNT ?n (pc_fwu st))"
  proof (cases "counted c st")
    case True
    then have "count_stored c (pc_fs st)" "?n = c" by (simp_all add: counted_def)
    with store_count_post [of c "pc_fwu st" c] count_stored_val_ok show ?thesis by (auto elim!: cpost_weaken)
  next
    case False
    with store_status_only_fs [of "pc_fwu st"] show ?thesis by (auto elim!: cpost_weaken)
  qed
  then show ?thesis unfolding count_retry_def Let_def
  proof (rule cpost_cbindI)
    fix s assume s: "s = (pc_fwu st)\<lparr>u_fs := u_fs s\<rparr> \<and> (counted c st \<longrightarrow> count_stored c (u_fs s))"
    have "u_inv ((pc_fwu st)\<lparr>u_fs := u_fs s\<rparr>) = u_inv (pc_fwu st)" by simp
    with s have "u_inv s = u_inv (pc_fwu st)" by metis
    with s p show "cpost (\<lambda>(r, s). attempt c st r s \<and> r = -1 \<and> pc_need_update s = pc_need_update st)
        (Inr (-1, st\<lparr>pc_fwu := s\<lparr>u_fw_update_retry_count := ?n + 1\<rparr>\<rparr>))"
      by (simp add: attempt_def pcie_inv_fwu)
  qed
qed

text \<open>From one state of an attempt to a later one.\<close>

definition onward :: "int \<Rightarrow> pcie \<Rightarrow> pcie \<Rightarrow> bool" where
  "onward c st s \<longleftrightarrow> (pcie_inv st \<longrightarrow> pcie_inv s) \<and> (counted c st \<longrightarrow> counted c s)"

lemma onward_trans: "onward c a b \<Longrightarrow> onward c b d \<Longrightarrow> onward c a d"
  by (simp add: onward_def)

lemma onward_attempt: "onward c st s \<Longrightarrow> attempt c s r t \<Longrightarrow> attempt c st r t"
  by (simp add: onward_def attempt_def)

lemma onward_steps:
  "talks st s \<Longrightarrow> onward c st s" "kept st s \<Longrightarrow> onward c st s" "prepared st s \<Longrightarrow> onward c st s"
  using talks_keep(1) [of st s] talks_keep(2) [of st s c] kept_keep(1) [of st s] kept_keep(2) [of st s c]
    prepared_keep(1) [of st s] prepared_keep(2) [of st s c] by (simp_all add: onward_def)

lemma onward_set_processing: "onward c st (set_processing b st)"
  by (simp add: onward_def counted_def set_processing_def) (simp add: pcie_inv_def tab_inv_def port_inv_def)

lemma onward_fwu: "u_inv f = u_inv (pc_fwu st) \<Longrightarrow> u_fs f = pc_fs st \<Longrightarrow>
    u_fw_update_retry_count f = u_fw_update_retry_count (pc_fwu st) \<Longrightarrow> onward c st (st\<lparr>pc_fwu := f\<rparr>)"
  by (simp add: onward_def counted_def pcie_inv_fwu)

lemma find_port_again_post:
  "cpost (\<lambda>(found, s). onward c st s \<and> pc_is_fw_update_processing s = pc_is_fw_update_processing st
     \<and> pc_need_update s = pc_need_update st) (find_port_again sh junk st)"
  unfolding find_port_again_def
  by (rule cpost_cbind_any) (auto intro!: onward_fwu)

lemma reset_module_post: "cpost (\<lambda>s. onward c st s \<and> pc_need_update s = pc_need_update st) (reset_module sh st)"
proof -
  let ?s = "st\<lparr>pc_fwu := (pc_fwu st)\<lparr>u_need_cxp_reboot := False\<rparr>\<rparr>"
  have start: "onward c st ?s \<and> pc_need_update ?s = pc_need_update st" by (simp add: onward_fwu)
  have talk: "onward c st s \<and> pc_need_update s = pc_need_update st" if "talks ?s s" for s
    using start onward_trans [OF _ onward_steps(1) [OF that]] upper_fields(7) [of s ?s] that by (simp add: talks_def)
  have more_talk: "cpost (\<lambda>(r, s). talks ?s s) (if b then switch_t7xx_mode sh MODE_HW_RESET s1 else Inr (0, s1))"
    if "talks ?s s1" for b s1
    using that by (auto intro!: talks_end [OF _ switch_talks])
  show ?thesis unfolding reset_module_def
    by (rule cpost_cbindI [OF fastboot_reboot_talks]) (auto intro!: cpost_cbindI [OF more_talk] dest: talk)
qed

lemma do_reset_post:
  assumes "update_result = 0 \<or> update_result = -1"
  shows "cpost (\<lambda>(r, s). attempt c st r s \<and> pc_need_update s = pc_need_update st) (do_reset sh junk update_result st)"
  unfolding do_reset_def Let_def
proof (rule cpost_cbindI [OF reset_module_post [of c]])
  fix s1 assume s1: "onward c st s1 \<and> pc_need_update s1 = pc_need_update st"
  let ?s = "set_processing False s1"
  have s: "onward c st ?s" "pc_need_update ?s = pc_need_update st" "\<not> pc_is_fw_update_processing ?s"
    using s1 onward_trans onward_set_processing by (auto simp: set_processing_def)
  have count: "cpost (\<lambda>(r, t). attempt c st r t \<and> pc_need_update t = pc_need_update st) (count_retry s')"
    if "onward c st s'" "\<not> pc_is_fw_update_processing s'" "pc_need_update s' = pc_need_update st" for s'
    using that count_retry_post [of s' c] by (auto elim!: cpost_weaken intro: onward_attempt)
  have store: "cpost (\<lambda>(r, t). attempt c st r t \<and> pc_need_update t = pc_need_update st)
      (cbind (store_update_status FW_UPDATE_RETRY_COUNT 0 (pc_fwu s')) (\<lambda>f. Inr (0, s'\<lparr>pc_fwu := f\<lparr>u_fw_update_retry_count := 0\<rparr>\<rparr>)))"
    if s': "onward c st s'" "\<not> pc_is_fw_update_processing s'" "pc_need_update s' = pc_need_update st" for s'
  proof (rule cpost_cbind_any)
    fix f assume f: "store_update_status FW_UPDATE_RETRY_COUNT 0 (pc_fwu s') = Inr f"
    have only: "f = (pc_fwu s')\<lparr>u_fs := u_fs f\<rparr>" using cpostD [OF store_status_only_fs f] .
    have "u_inv ((pc_fwu s')\<lparr>u_fs := u_fs f\<rparr>) = u_inv (pc_fwu s')" by simp
    with only have "u_inv f = u_inv (pc_fwu s')" by metis
    moreover have "count_stored 0 (u_fs f)" if "counted c s'"
      using that cpostD [OF store_count_post f, of c] by (auto simp: counted_def val_ok_def)
    ultimately show "cpost (\<lambda>(r, t). attempt c st r t \<and> pc_need_update t = pc_need_update st)
        (Inr (0, s'\<lparr>pc_fwu := f\<lparr>u_fw_update_retry_count := 0\<rparr>\<rparr>))"
      using s' by (simp add: attempt_def onward_def pcie_inv_fwu)
  qed
  show "cpost (\<lambda>(r, t). attempt c st r t \<and> pc_need_update t = pc_need_update st)
     (if update_result = -1 then count_retry ?s
      else cbind (find_port_again sh junk ?s) (\<lambda>(found, s3).
             if found then cbind (store_update_status FW_UPDATE_RETRY_COUNT 0 (pc_fwu s3)) (\<lambda>f.
                    Inr (0, s3\<lparr>pc_fwu := f\<lparr>u_fw_update_retry_count := 0\<rparr>\<rparr>))
             else count_retry s3))"
  proof (cases "update_result = -1")
    case True
    then show ?thesis using count [OF s(1,3,2)] by simp
  next
    case False
    have "cpost (\<lambda>(found, s3). onward c st s3 \<and> \<not> pc_is_fw_update_processing s3 \<and> pc_need_update s3 = pc_need_update st)
        (find_port_again sh junk ?s)"
      by (rule cpost_weaken [OF find_port_again_post [of c]]) (use s in \<open>auto intro: onward_trans\<close>)
    then show ?thesis
      by (simp only: False if_False) (erule cpost_cbindI, clarify, rule cpost_ifI, (rule store; assumption), (rule count; assumption))
  qed
qed

lemma flash_module_talks: "cpost (\<lambda>(r, s). talks st s \<and> (r = 0 \<or> r = -1)) (flash_module sh st)"
  unfolding flash_module_def
  by (rule cpost_cbindI [OF switch_talks]) (auto intro!: cpost_cbindI [OF flash_table_talks], (erule (1) talks_trans)+)

lemma run_update_post:
  "cpost (\<lambda>(r, s). attempt c st r s \<and> (r = 0 \<longrightarrow> pc_need_update s)
     \<and> (pc_need_update s \<or> (\<exists>l. pc_log s = pc_log st @ l \<and> list_all is_removal l))) (run_update_pcie pe dj subsysid sku_id st)"
  unfolding run_update_pcie_def
proof (rule cpost_cbindI [OF select_images_kept], clarify)
  fix known s1 assume k: "kept st s1"
  have l1: "pc_log s1 = pc_log st" using k globals_fields(2) [of s1 st] by (simp add: kept_def)
  let ?P = "\<lambda>(r :: int, s). attempt c st r s \<and> (r = 0 \<longrightarrow> pc_need_update s)
     \<and> (pc_need_update s \<or> (\<exists>l. pc_log s = pc_log st @ l \<and> list_all is_removal l))"
  have fail: "attempt c st (-1) (set_processing False s)" if "onward c st s" for s
    using onward_trans [OF that onward_set_processing [of c s False]]
    by (auto simp: attempt_def onward_def counted_def set_processing_def)
  show "cpost ?P (if \<not> known then Inr (-1, set_processing False s1)
       else cbind (prepare_table pe s1) (\<lambda>(go, s2).
            if \<not> go then Inr (-1, set_processing False s2)
            else cbind (flash_module (pe_sh pe) s2) (\<lambda>(r, s3). do_reset (pe_sh pe) (dj_cmd dj) r s3)))"
  proof (cases known)
    case False
    then show ?thesis using fail [OF onward_steps(2) [OF k]] l1 by (simp add: set_processing_def)
  next
    case True
    show ?thesis
    proof (simp only: True not_True_eq_False if_False, rule cpost_cbindI [OF prepare_table_post], clarify)
      fix go s2 assume p: "prepared s1 s2" and g: "go \<longrightarrow> pc_need_update s2"
      have o: "onward c st s2" using onward_trans [OF onward_steps(2) [OF k] onward_steps(3) [OF p]] .
      have l: "\<exists>l. pc_log s2 = pc_log st @ l \<and> list_all is_removal l" using p l1 by (auto simp: prepared_def)
      show "cpost ?P (if \<not> go then Inr (-1, set_processing False s2)
            else cbind (flash_module (pe_sh pe) s2) (\<lambda>(r, s3). do_reset (pe_sh pe) (dj_cmd dj) r s3))"
      proof (cases go)
        case False
        then show ?thesis using fail [OF o] l by (simp add: set_processing_def)
      next
        case True
        show ?thesis
        proof (simp only: True not_True_eq_False if_False, rule cpost_cbindI [OF flash_module_talks], clarify)
          fix r :: int and s3 assume t: "talks s2 s3" and r: "r = 0 \<or> r = -1"
          have n: "pc_need_update s3" using t g True upper_fields(7) [of s3 s2] by (simp add: talks_def)
          show "cpost ?P (do_reset (pe_sh pe) (dj_cmd dj) r s3)"
            by (rule cpost_weaken [OF do_reset_post [OF r, of c]])
              (use n onward_attempt [OF onward_trans [OF o onward_steps(1) [OF t]]] in auto)
        qed
      qed
    qed
  qed
qed

section \<open>A whole attempt\<close>

lemma load_update_status_post:
  "cpost (\<lambda>s. u_inv s = u_inv fw \<and> (stack_ok (uj_stack j) \<and> count_stored c (u_fs fw) \<longrightarrow>
     count_stored c (u_fs s) \<and> u_fw_update_retry_count s = c)) (load_update_status j fw)"
proof (cases "stack_ok (uj_stack j) \<and> count_stored c (u_fs fw)")
  case True
  then have inv: "store_inv FW_UPDATE_STATUS_RECORD (u_fs fw)" by (simp add: count_stored_def)
  then have init: "fw_update_status_init (u_fs fw) = (0, u_fs fw)"
    by (auto simp: fw_update_status_init_def record_init_def store_inv_def access_ok_def fopen_r_def split: option.splits)
  have "read_into (get_fw_update_status_value (uj_stack j) FW_UPDATE_RETRY_COUNT (u_fs fw)) old = Inr c" for old
    using fw_status.get_abs [OF inv, of FW_UPDATE_RETRY_COUNT c "uj_stack j"] True by (simp add: count_stored_def read_into_def)
  then show ?thesis using True unfolding load_update_status_def init
    by (auto intro!: cpost_cbind_any)
next
  case False
  obtain r w where "fw_update_status_init (u_fs fw) = (r, w)" by fastforce
  then show ?thesis using False unfolding load_update_status_def Let_def
    by (auto intro!: cpost_cbind_any)
qed

lemma load_esim_state_post: "cpost (\<lambda>s. \<exists>b. s = fw\<lparr>u_esim_enable := b\<rparr>) (load_esim_state fw)"
  unfolding load_esim_state_def by (rule cpost_cbind_any) auto

definition started :: "int \<Rightarrow> pcie \<Rightarrow> int \<Rightarrow> pcie \<Rightarrow> bool" where
  "started c st r s \<longleftrightarrow> (r = 0 \<or> r = -1) \<and> (pcie_inv st \<longrightarrow> pcie_inv s)
     \<and> (pc_is_fw_update_processing s \<longrightarrow> pc_is_fw_update_processing st)
     \<and> (count_stored c (pc_fs st) \<longrightarrow> count_stored (if r = 0 then 0 else c) (pc_fs s))
     \<and> (r = 0 \<longrightarrow> pc_need_update s)
     \<and> (pc_need_update s \<or> (\<exists>l. pc_log s = pc_log st @ l \<and> list_all is_removal l))"

text \<open>The requests before the progress dialog.\<close>

definition asked_module :: "int \<Rightarrow> fwu \<Rightarrow> fwu \<Rightarrow> bool" where
  "asked_module c fw s \<longleftrightarrow> (u_inv fw \<longrightarrow> u_inv s)
     \<and> (count_stored c (u_fs fw) \<longrightarrow> count_stored c (u_fs s) \<and> u_fw_update_retry_count s = c)"

lemma asked_moduleI:
  assumes "u_inv fw \<longrightarrow> u_inv f" "count_stored c (u_fs fw) \<longrightarrow> count_stored c (u_fs f) \<and> u_fw_update_retry_count f = c"
    and "\<And>P. message_invariant P \<Longrightarrow> P f \<Longrightarrow> cpost (\<lambda>(r, s). P s) m"
  shows "cpost (\<lambda>(r, s). asked_module c fw s) m"
proof (rule cpostI)
  fix a assume m: "m = Inr a"
  obtain r s where a: "a = (r, s)" by (cases a)
  have "P s" if "message_invariant P" "P f" for P
    using cpostD [OF assms(3) [OF that] m] a by simp
  from this [OF sizes.message_invariant_axioms] this [OF stored.message_invariant_axioms [of c c]]
  show "case a of (r, s) \<Rightarrow> asked_module c fw s"
    using assms(1,2) by (auto simp: a asked_module_def)
qed

lemma asked_pcie_inv:
  assumes "asked_module c (pc_fwu st) f" "pcie_inv st' = pcie_inv st" "pc_fwu st' = pc_fwu st"
  shows "pcie_inv st \<longrightarrow> pcie_inv (st'\<lparr>pc_fwu := f\<rparr>)"
proof
  assume i: "pcie_inv st"
  with assms have "tab_inv st'" "port_inv st'" "u_inv f" by (simp_all add: pcie_inv_def asked_module_def)
  then show "pcie_inv (st'\<lparr>pc_fwu := f\<rparr>)" by (simp add: pcie_inv_def tab_inv_def port_inv_def)
qed

lemma started_fwu:
  assumes "asked_module c (pc_fwu st) f" "pcie_inv st' = pcie_inv st" "pc_fwu st' = pc_fwu st"
    and "attempt c (st'\<lparr>pc_fwu := f\<rparr>) r s" "r = 0 \<longrightarrow> pc_need_update s"
    and "pc_need_update s \<or> (\<exists>l. pc_log s = pc_log st @ l \<and> list_all is_removal l)"
  shows "started c st r s"
proof -
  have "count_stored c (pc_fs st) \<longrightarrow> counted c (st'\<lparr>pc_fwu := f\<rparr>)"
    using assms(1) by (simp add: counted_def asked_module_def)
  with assms(4-6) asked_pcie_inv [OF assms(1-3)] show ?thesis
    unfolding started_def attempt_def by blast
qed

lemma started_idle:
  assumes "asked_module c (pc_fwu st) f" "pcie_inv st' = pcie_inv st" "pc_fwu st' = pc_fwu st"
    and "pc_log st' = pc_log st" "pc_is_fw_update_processing st' = pc_is_fw_update_processing st"
  shows "started c st (-1) (st'\<lparr>pc_fwu := f\<rparr>)"
  using asked_pcie_inv [OF assms(1-3)] assms(1,4,5)
  by (simp add: started_def asked_module_def exI [of _ "[]"])

lemma start_post:
  assumes stack: "stack_ok (uj_stack (dj_u dj)) \<or> \<not> val_ok c"
  shows "cpost (\<lambda>(r, s). started c st r s) (start_update_process_pcie pe dj based_type st)"
proof -
  let ?b = "st\<lparr>pc_update_based_type := based_type\<rparr>" and ?j = "dj_u dj"
  note same = pcie_inv_simps(4) [of based_type st]
  have ask: "cpost (\<lambda>(r, s). asked_module c (pc_fwu st) s) m"
    if "asked_module c (pc_fwu st) f" "\<And>P. message_invariant P \<Longrightarrow> P f \<Longrightarrow> cpost (\<lambda>(r, s). P s) m" for f m
    using that by (intro asked_moduleI [of _ f]) (auto simp: asked_module_def)
  have run: "cpost (\<lambda>(r, s). started c st r s) (run_update_pcie pe dj subsysid sku_id
      (set_processing True (?b\<lparr>pc_need_update := False, pc_fwu := f\<lparr>u_is_get_fw_ver := False\<rparr>\<rparr>)))"
    if f: "asked_module c (pc_fwu st) f" for f subsysid sku_id
  proof (rule cpost_weaken [OF run_update_post [of c]], clarify)
    let ?s0 = "set_processing True (?b\<lparr>pc_need_update := False\<rparr>)" and ?f = "f\<lparr>u_is_get_fw_ver := False\<rparr>"
    fix r s
    assume a: "attempt c (set_processing True (?b\<lparr>pc_need_update := False, pc_fwu := ?f\<rparr>)) r s" "r = 0 \<longrightarrow> pc_need_update s"
      and l: "pc_need_update s \<or> (\<exists>l. pc_log s = pc_log (set_processing True (?b\<lparr>pc_need_update := False, pc_fwu := ?f\<rparr>)) @ l \<and> list_all is_removal l)"
    have e: "set_processing True (?b\<lparr>pc_need_update := False, pc_fwu := ?f\<rparr>) = ?s0\<lparr>pc_fwu := ?f\<rparr>"
      by (simp add: set_processing_def)
    have "asked_module c (pc_fwu st) ?f" using f by (simp add: asked_module_def)
    moreover have "pcie_inv ?s0 = pcie_inv st" "pc_fwu ?s0 = pc_fwu st" by simp (simp add: set_processing_def)
    ultimately show "started c st r s"
      using a(1) [unfolded e] a(2) l by (intro started_fwu [of c st ?f ?s0]) (simp_all only:, simp add: set_processing_def)
  qed
  have versions: "cpost (\<lambda>(r, s). asked_module c (pc_fwu st) s) (if based_type = PCIE_UPDATE_BASE_FLZ then get_current_fw_version ?j f else Inr (0, f))"
    if "asked_module c (pc_fwu st) f" for f
    using that by (auto intro!: ask [OF that] message_invariant.get_current_fw_version_inv)
  have requests: "cpost (\<lambda>(r, s). started c st r s)
      (cbind (get_carrier_id ?j f2) (\<lambda>(_, f3). cbind (get_cxp_reboot_flag ?j f3) (\<lambda>(_, f4).
         cbind (if based_type = PCIE_UPDATE_BASE_FLZ then get_current_fw_version ?j f4 else Inr (0, f4)) (\<lambda>(r, f5).
           if r \<noteq> 0 then Inr (-1, ?b\<lparr>pc_fwu := f5, pc_need_update := False\<rparr>)
           else run_update_pcie pe dj subsysid sku_id
             (set_processing True (?b\<lparr>pc_fwu := f5, pc_need_update := False, pc_fwu := f5\<lparr>u_is_get_fw_ver := False\<rparr>\<rparr>))))))"
    if f2: "asked_module c (pc_fwu st) f2" for f2 subsysid sku_id
  proof (rule cpost_cbindI [OF ask [OF f2 message_invariant.get_carrier_id_inv]], assumption, assumption, clarify)
    fix f3 assume f3: "asked_module c (pc_fwu st) f3"
    show "cpost (\<lambda>(r, s). started c st r s)
      (cbind (get_cxp_reboot_flag ?j f3) (\<lambda>(_, f4).
         cbind (if based_type = PCIE_UPDATE_BASE_FLZ then get_current_fw_version ?j f4 else Inr (0, f4)) (\<lambda>(r, f5).
           if r \<noteq> 0 then Inr (-1, ?b\<lparr>pc_fwu := f5, pc_need_update := False\<rparr>)
           else run_update_pcie pe dj subsysid sku_id
             (set_processing True (?b\<lparr>pc_fwu := f5, pc_need_update := False, pc_fwu := f5\<lparr>u_is_get_fw_ver := False\<rparr>\<rparr>)))))"
    proof (rule cpost_cbindI [OF ask [OF f3 message_invariant.get_cxp_reboot_flag_inv]], assumption, assumption, clarify)
      fix f4 assume f4: "asked_module c (pc_fwu st) f4"
      have idle: "started c st (-1) (?b\<lparr>pc_fwu := f5, pc_need_update := False\<rparr>)" if "asked_module c (pc_fwu st) f5" for f5
      proof -
        have e: "?b\<lparr>pc_fwu := f5, pc_need_update := False\<rparr> = (?b\<lparr>pc_need_update := False\<rparr>)\<lparr>pc_fwu := f5\<rparr>" by simp
        show ?thesis unfolding e by (rule started_idle [OF that]) simp_all
      qed
      show "cpost (\<lambda>(r, s). started c st r s)
        (cbind (if based_type = PCIE_UPDATE_BASE_FLZ then get_current_fw_version ?j f4 else Inr (0, f4)) (\<lambda>(r, f5).
           if r \<noteq> 0 then Inr (-1, ?b\<lparr>pc_fwu := f5, pc_need_update := False\<rparr>)
           else run_update_pcie pe dj subsysid sku_id
             (set_processing True (?b\<lparr>pc_fwu := f5, pc_need_update := False, pc_fwu := f5\<lparr>u_is_get_fw_ver := False\<rparr>\<rparr>))))"
        by (rule cpost_cbindI [OF versions [OF f4]], clarify, rule cpost_ifI) (use idle run in simp_all)
    qed
  qed
  have loaded: "asked_module c (pc_fwu st) (f1\<lparr>u_esim_enable := b\<rparr>)"
    if "u_inv f1 = u_inv (pc_fwu st) \<and> (stack_ok (uj_stack ?j) \<and> count_stored c (pc_fs st) \<longrightarrow>
      count_stored c (u_fs f1) \<and> u_fw_update_retry_count f1 = c)" for f1 b
    using that stack count_stored_val_ok [of c "pc_fs st"] by (auto simp: asked_module_def)
  show ?thesis unfolding start_update_process_pcie_def Let_def
  proof (rule cpost_cbindI [OF load_update_status_post [of _ _ c]], rule cpost_cbindI [OF load_esim_state_post])
    fix f1 f2
    assume f1: "u_inv f1 = u_inv (pc_fwu ?b) \<and> (stack_ok (uj_stack ?j) \<and> count_stored c (pc_fs ?b) \<longrightarrow>
        count_stored c (u_fs f1) \<and> u_fw_update_retry_count f1 = c)" and f2: "\<exists>b. f2 = f1\<lparr>u_esim_enable := b\<rparr>"
    then have a: "asked_module c (pc_fwu st) f2" using loaded by auto
    show "cpost (\<lambda>(r, s). started c st r s)
       (if u_fw_update_retry_count f2 > FW_UPDATE_RETRY_TH \<or> u_do_hw_reset_count f2 > HW_RESET_RETRY_TH
         then Inr (-1, ?b\<lparr>pc_fwu := f2\<rparr>)
         else cbind (get_fwupdate_subsysid (u_dev f2)) (\<lambda>(_, sid).
                 cbind (get_carrier_id ?j f2) (\<lambda>(_, f3). cbind (get_cxp_reboot_flag ?j f3) (\<lambda>(_, f4).
                 cbind (if based_type = PCIE_UPDATE_BASE_FLZ then get_current_fw_version ?j f4 else Inr (0, f4)) (\<lambda>(r, f5).
                      if r \<noteq> 0 then Inr (-1, ?b\<lparr>pc_fwu := f5, pc_need_update := False\<rparr>)
                      else run_update_pcie pe dj (case sid of None \<Rightarrow> [] | Some s \<Rightarrow> s)
                             (pwl_get_skuid (pe_sh pe) (dj_cmd dj) PWL_MAX_SKUID_SIZE)
                             (set_processing True (?b\<lparr>pc_fwu := f5, pc_need_update := False, pc_fwu := f5\<lparr>u_is_get_fw_ver := False\<rparr>\<rparr>)))))))"
    proof (rule cpost_ifI)
      show "cpost (\<lambda>(r, s). started c st r s) (Inr (-1, ?b\<lparr>pc_fwu := f2\<rparr>))"
        using started_idle [OF a, of ?b] by simp
    qed (rule cpost_cbind_any, simp only: split_paired_all prod.case, rule requests [OF a])
  qed
qed


section \<open>The count of retries\<close>

lemma removed_inv: "removed st s \<Longrightarrow> pcie_inv s = pcie_inv st"
  by (auto simp: removed_def)

lemma update_done_post:
  "cpost (\<lambda>s. pcie_inv s = pcie_inv st \<and> (\<exists>l. pc_log s = l @ [RequestVersion])) (update_done pe st)"
  unfolding update_done_def
  by (rule cpost_cbindI [OF remove_flash_data_post]) (auto simp: removed_inv log_act_def)

definition ends_well :: "(pcie \<Rightarrow> bool) \<Rightarrow> pcie option \<Rightarrow> bool" where
  "ends_well P v \<longleftrightarrow> (case v of None \<Rightarrow> True | Some s \<Rightarrow> P s)"

lemma ends_well_simps [simp]: "ends_well P None" "ends_well P (Some s) = P s"
  by (simp_all add: ends_well_def)

definition example_djunk :: djunk where
  "example_djunk = \<lparr>dj_u = example_ujunk, dj_os = (0, 0), dj_retry_sn = 0, dj_retry_imei = 0, dj_sar = [], dj_key = [], dj_cmd = []\<rparr>"

text \<open>C4: Every attempt gives up the claim on the module that it took, and stores the number of retries that it found when it
  fails, and 0 when it succeeds: the number that limits the retries never grows. The record of the update is readable and
  holds the number \<open>c\<close>, and the bytes in the array that the readers do not initialise are admissible (\<open>stack_ok\<close>).\<close>

theorem attempt_bookkeeping:
  assumes "stack_ok (uj_stack (dj_u dj))" "count_stored c (pc_fs st)" "\<not> pc_is_fw_update_processing st"
  shows "cpost (\<lambda>(r, s). (r = 0 \<or> r = -1) \<and> \<not> pc_is_fw_update_processing s \<and> count_stored (if r = 0 then 0 else c) (pc_fs s))
    (start_update_process_pcie pe dj based_type st)"
  by (rule cpost_weaken [OF start_post [where c = c]]) (use assms in \<open>auto simp: started_def\<close>)

lemma example_stack: "stack_ok (uj_stack (dj_u example_djunk))"
  by (simp add: example_djunk_def example_ujunk_def stack_ok_zeroed)

lemma fresh_count: "count_stored 0 fw_fresh"
  by (auto simp: count_stored_def fw_fresh_inv fw_fresh_abs fw_init_kvs_def key_defs)

definition example_retry_state :: pcie where
  "example_retry_state = (pcie_init (u_init PWL_DEVICE_TYPE_PCIE fw_fresh []))\<lparr>pc_update_type := UPDATE_TYPE_ONLY_FW\<rparr>"

lemma example_retry_fs: "pc_fs example_retry_state = fw_fresh"
  by (simp add: example_retry_state_def pcie_init_def u_init_def)

theorem attempt_bookkeeping_witness:
  "cpost (\<lambda>(r, s). (r = 0 \<or> r = -1) \<and> \<not> pc_is_fw_update_processing s \<and> count_stored 0 (pc_fs s))
    (start_update_process_pcie example_dev_env example_djunk 1 example_retry_state)"
  by (rule cpost_weaken [OF attempt_bookkeeping [where c = 0]])
    (simp_all add: example_stack example_retry_fs fresh_count example_retry_state_def pcie_init_def case_prod_beta)

lemma read_count:
  "stack_ok (uj_stack (dj_u dj)) \<Longrightarrow> count_stored c (pc_fs st) \<Longrightarrow> read_retry_count dj old st = Inr c"
  using fw_status.get_abs [of "pc_fs st" FW_UPDATE_RETRY_COUNT c "uj_stack (dj_u dj)"]
  by (simp add: read_retry_count_def count_stored_def read_into_def)

text \<open>The loop that retries a failed update never gives up. When the record says that there was no retry
  yet, the loop can only end with a successful update, after which the data are removed and the versions are asked for.\<close>

theorem retries_end_with_success:
  assumes "stack_ok (uj_stack (dj_u dj))" "count_stored 0 (pc_fs st)"
  shows "cpost (ends_well (\<lambda>s. \<exists>l. pc_log s = l @ [RequestVersion])) (retry_update n env k dj based_type 0 st)"
  using assms(2)
proof (induction n arbitrary: k st)
  case 0
  then show ?case by (simp add: retry_update.simps FW_UPDATE_RETRY_TH_def)
next
  case (Suc n)
  have "cpost (ends_well (\<lambda>s. \<exists>l. pc_log s = l @ [RequestVersion]))
      (if r = 0 then cbind (update_done (env k) s) (\<lambda>s'. Inr (Some s'))
       else cbind (read_retry_count dj 0 s) (\<lambda>a. retry_update n env (Suc k) dj based_type a s))"
    if "started 0 st r s" for r :: int and s
  proof -
    have "count_stored 0 (pc_fs s)" using that Suc.prems by (auto simp: started_def split: if_splits)
    then show ?thesis
      using read_count [OF assms(1)] Suc.IH [of s "Suc k"] by (auto intro!: cpost_cbindI [OF update_done_post])
  qed
  then show ?case using assms(1)
    by (subst retry_update.simps) (auto intro!: cpost_cbindI [OF start_post [of dj 0]] simp: FW_UPDATE_RETRY_TH_def)
qed

theorem retries_end_with_success_witness:
  "cpost (ends_well (\<lambda>s. \<exists>l. pc_log s = l @ [RequestVersion]))
     (retry_update 3 (\<lambda>_. example_dev_env) 1 example_djunk 1 0 example_retry_state)"
  by (rule retries_end_with_success) (simp_all add: example_stack example_retry_fs fresh_count)

section \<open>Nothing to do\<close>


text \<open>An empty flash table counts as up to date. When no image of the package belongs to a partition of the
  scatter file, the update fails as if nothing were new and the package is deleted.\<close>

theorem empty_table_deletes_package:
  assumes "pc_update_type st = UPDATE_TYPE_ONLY_FW" "pe_xml pe SCATTER_PATH = Some doc" "scatter_table pe doc st = Inr []"
    and "can_write (pc_fs st) FLASH_TABLE_FILE_NAME" "can_read (pc_fs st) FLASH_TABLE_FILE_NAME"
  shows "\<exists>s. prepare_table pe st = Inr (False, s) \<and> \<not> pc_need_update s
    \<and> pc_log s = pc_log st @ [Shell ''rm -rf /opt/pwl/firmware/FwPackage'']"
proof -
  have types: "UPDATE_TYPE_ONLY_FW \<noteq> UPDATE_TYPE_ONLY_DEV" "UPDATE_TYPE_ONLY_FW \<noteq> UPDATE_TYPE_FULL"
    by (simp_all add: update_types)
  have gen: "generate_download_table pe SCATTER_PATH st = Inr (0, write_table [] st)"
    using assms types by (simp add: generate_download_table_def)
  have "fopen_r (pc_fs (write_table [] st)) FLASH_TABLE_FILE_NAME = Some []"
    using assms(5) by (simp add: write_table_def set_fs_def fopen_r_def write_file_def)
  then have "check_image_downlaod_table (write_table [] st) = Inr (-1, (write_table [] st)\<lparr>pc_need_update := False\<rparr>)"
    by (simp add: check_image_downlaod_table_def fscanf_words_def strtok_all_def)
  then show ?thesis using assms(1) types gen
    by (simp add: prepare_table_def remove_flash_data_def drop_folder_def remove_folder_def UPDATE_FW_FOLDER_FILE_def
      strcpy_cap_def log_act_def write_table_def set_fs_def split: option.split)
qed

definition element :: "string \<Rightarrow> string option \<Rightarrow> xnode list \<Rightarrow> xnode" where
  "element nm t cs = Element nm (\<lambda>_. None) t cs"

definition example_empty_scatter :: xdoc where
  "example_empty_scatter = \<lparr>xd_query = (\<lambda>_. []), xd_root = Some (element ''root'' None [element ''storage_type'' None []])\<rparr>"

theorem empty_table_deletes_package_witness:
  "\<exists>s. prepare_table (example_dev_env\<lparr>pe_xml := \<lambda>_. Some example_empty_scatter\<rparr>) example_retry_state = Inr (False, s)
     \<and> \<not> pc_need_update s \<and> pc_log s = [Shell ''rm -rf /opt/pwl/firmware/FwPackage'']"
proof -
  have "scatter_table (example_dev_env\<lparr>pe_xml := \<lambda>_. Some example_empty_scatter\<rparr>) example_empty_scatter example_retry_state = Inr []"
    by (simp add: scatter_table_def storage_type_node_def example_empty_scatter_def element_def element_named_def listed_images_def
      example_retry_state_def pcie_init_def update_types)
  then show ?thesis
    using empty_table_deletes_package [of example_retry_state "example_dev_env\<lparr>pe_xml := \<lambda>_. Some example_empty_scatter\<rparr>" example_empty_scatter]
    by (simp add: example_retry_fs fw_fresh_def write_file_def fs0_def) (simp add: example_retry_state_def pcie_init_def)
qed

end
