(* ===== verification/Dbus_Clients.thy ===== *)
theory Dbus_Clients
  imports Core Madpt Pref Fw_Retry
begin

text \<open>
  How the services meet on D-Bus: \<^verbatim>\<open>gdbus_init\<close>, \<^verbatim>\<open>dbus_service_is_ready\<close> and the signal handlers, of which
  \<^verbatim>\<open>pwl_pref.c\<close>, \<^verbatim>\<open>pwl_madpt.c\<close> and \<^verbatim>\<open>pwl_fwupdate.c\<close> have a copy each, and the side of the core service.

  GLib is outside: an attempt to connect is a pair, whether there is a connection to the bus and whether the proxy could be
  made; whether the core service owns its name is a list of answers. A pointer to an error is null, set or dangling. GLib
  documents that a call that fails stores a new error, and that the pointer it stores it in must be null before; a call that
  succeeds leaves it alone. A proxy is the list of the handlers that are connected to it, with their numbers; the first one
  is \<^verbatim>\<open>gp_proxy\<close>, and the others live on, since nothing releases them.
\<close>

section \<open>State\<close>

datatype gerror = GE_NULL | GE_SET | GE_FREED

record dbus_client =
  dc_attempts :: "(bool \<times> bool) list"
  dc_proxies :: "(nat \<times> string) list list"
  dc_handlers :: "nat list"
  dc_next :: nat
  dc_slept :: nat

definition dbus_start :: "(bool \<times> bool) list \<Rightarrow> nat \<Rightarrow> dbus_client" where
  "dbus_start attempts n = \<lparr>dc_attempts = attempts, dc_proxies = [], dc_handlers = replicate n 0, dc_next = 1, dc_slept = 0\<rparr>"

definition P_SIGNAL_HANDLE_SIZE :: nat where "P_SIGNAL_HANDLE_SIZE = 4"
definition M_SIGNAL_HANDLE_SIZE :: nat where "M_SIGNAL_HANDLE_SIZE = 3"
definition U_SIGNAL_HANDLE_SIZE :: nat where "U_SIGNAL_HANDLE_SIZE = 4"

section \<open>Calls of GLib\<close>

definition glib_call :: "bool \<Rightarrow> gerror \<Rightarrow> gerror cres" where
  "glib_call ok e = (if ok then Inr e else if e = GE_NULL then Inr GE_SET else Inl UseAfterFree)"

text \<open>The message of an error is logged and the error freed.\<close>

definition report_error :: "gerror \<Rightarrow> gerror cres" where
  "report_error e = (case e of GE_NULL \<Rightarrow> Inl NullDeref | GE_SET \<Rightarrow> Inr GE_FREED | GE_FREED \<Rightarrow> Inl UseAfterFree)"

definition g_signal_connect :: "nat \<Rightarrow> string \<Rightarrow> dbus_client \<Rightarrow> dbus_client cres" where
  "g_signal_connect i sig st =
     (case dc_proxies st of
        [] \<Rightarrow> Inl NullDeref
      | p # ps \<Rightarrow>
          if i < length (dc_handlers st)
          then Inr (st\<lparr>dc_proxies := (p @ [(dc_next st, sig)]) # ps, dc_handlers := (dc_handlers st)[i := dc_next st], dc_next := Suc (dc_next st)\<rparr>)
          else Inl OutOfBounds)"

definition g_signal_handler_disconnect :: "nat \<Rightarrow> dbus_client \<Rightarrow> dbus_client" where
  "g_signal_handler_disconnect n st =
     (case dc_proxies st of [] \<Rightarrow> st | p # ps \<Rightarrow> st\<lparr>dc_proxies := filter (\<lambda>(k, _). k \<noteq> n) p # ps\<rparr>)"

section \<open>Connecting\<close>

text \<open>The loop of \<^verbatim>\<open>gdbus_init\<close>; the first two arguments are \<^verbatim>\<open>p_conn_error\<close> and \<^verbatim>\<open>p_proxy_error\<close>.\<close>

fun connect_loop :: "gerror \<Rightarrow> gerror \<Rightarrow> (bool \<times> bool) list \<Rightarrow> dbus_client \<Rightarrow> dbus_client cres" where
  "connect_loop ce pe [] st = Inl Blocked"
| "connect_loop ce pe ((conn, proxy) # as) st =
     (let st1 = st\<lparr>dc_attempts := as, dc_slept := dc_slept st + 1\<rparr>
      in cbind (glib_call conn ce) (\<lambda>ce1.
           if ce1 = GE_NULL
           then cbind (glib_call proxy pe) (\<lambda>pe1.
                  if \<not> proxy then cbind (report_error pe1) (\<lambda>pe2. connect_loop ce1 pe2 as st1)
                  else Inr (st1\<lparr>dc_proxies := [] # dc_proxies st1\<rparr>))
           else cbind (report_error ce1) (\<lambda>ce2. connect_loop ce2 pe as st1)))"

definition p_register_client_signal_handler :: "dbus_client \<Rightarrow> dbus_client cres" where
  "p_register_client_signal_handler st =
     cbind (g_signal_connect 0 ''notify::g-name-owner'' (st\<lparr>dc_handlers := replicate P_SIGNAL_HANDLE_SIZE 0\<rparr>)) (\<lambda>s1.
     cbind (g_signal_connect 1 ''get-fw-version-signal'' s1) (\<lambda>s2.
     g_signal_connect 2 ''subscriber-ready-state-change'' s2))"

definition m_register_client_signal_handler :: "dbus_client \<Rightarrow> dbus_client cres" where
  "m_register_client_signal_handler st =
     cbind (g_signal_connect 0 ''notify::g-name-owner'' st) (g_signal_connect 1 ''notice-module-recovery-finish'')"

definition u_register_client_signal_handler :: "dbus_client \<Rightarrow> dbus_client cres" where
  "u_register_client_signal_handler st =
     cbind (g_signal_connect 0 ''notify::g-name-owner'' st) (g_signal_connect 1 ''notice-module-recovery-finish'')"

definition p_gdbus_init :: "dbus_client \<Rightarrow> dbus_client cres" where
  "p_gdbus_init st = cbind (connect_loop GE_NULL GE_NULL (dc_attempts st) st) p_register_client_signal_handler"

definition m_gdbus_init :: "dbus_client \<Rightarrow> dbus_client cres" where
  "m_gdbus_init st = cbind (connect_loop GE_NULL GE_NULL (dc_attempts st) st) m_register_client_signal_handler"

definition u_gdbus_init :: "dbus_client \<Rightarrow> dbus_client cres" where
  "u_gdbus_init st = cbind (connect_loop GE_NULL GE_NULL (dc_attempts st) st) u_register_client_signal_handler"

text \<open>\<open>owned\<close>: the core service owns its name.\<close>

definition disconnect_handlers :: "dbus_client \<Rightarrow> dbus_client" where
  "disconnect_handlers st =
     (fold (\<lambda>n s. if n > 0 then g_signal_handler_disconnect n s else s) (dc_handlers st) st)\<lparr>dc_handlers := replicate P_SIGNAL_HANDLE_SIZE 0\<rparr>"

definition p_dbus_service_is_ready :: "bool \<Rightarrow> dbus_client \<Rightarrow> (bool \<times> dbus_client) cres" where
  "p_dbus_service_is_ready owned st =
     (if owned then Inr (True, st)
      else cbind (p_gdbus_init (disconnect_handlers (st\<lparr>dc_slept := dc_slept st + 1\<rparr>))) (\<lambda>s. Inr (False, s)))"

definition m_dbus_service_is_ready :: "bool \<Rightarrow> dbus_client \<Rightarrow> (bool \<times> dbus_client) cres" where
  "m_dbus_service_is_ready owned st =
     (if owned then Inr (True, st)
      else cbind (m_gdbus_init (st\<lparr>dc_slept := dc_slept st + 1\<rparr>)) (\<lambda>s. Inr (False, s)))"

definition u_dbus_service_is_ready :: "bool \<Rightarrow> dbus_client \<Rightarrow> (bool \<times> dbus_client) cres" where
  "u_dbus_service_is_ready owned st =
     (if owned then Inr (True, st)
      else cbind (u_gdbus_init (st\<lparr>dc_slept := dc_slept st + 1\<rparr>)) (\<lambda>s. Inr (False, s)))"

text \<open>\<^verbatim>\<open>while(!dbus_service_is_ready());\<close> over the answers to come.\<close>

fun wait_ready :: "(bool \<Rightarrow> dbus_client \<Rightarrow> (bool \<times> dbus_client) cres) \<Rightarrow> bool list \<Rightarrow> dbus_client \<Rightarrow> dbus_client cres" where
  "wait_ready is_ready [] st = Inl Blocked"
| "wait_ready is_ready (owned # os) st = cbind (is_ready owned st) (\<lambda>(b, s). if b then Inr s else wait_ready is_ready os s)"

definition p_meet_core :: "bool list \<Rightarrow> dbus_client \<Rightarrow> dbus_client cres" where
  "p_meet_core owners st = cbind (p_gdbus_init st) (wait_ready p_dbus_service_is_ready owners)"

definition m_meet_core :: "bool list \<Rightarrow> dbus_client \<Rightarrow> dbus_client cres" where
  "m_meet_core owners st = cbind (m_gdbus_init st) (wait_ready m_dbus_service_is_ready owners)"

definition u_meet_core :: "bool list \<Rightarrow> dbus_client \<Rightarrow> dbus_client cres" where
  "u_meet_core owners st = cbind (u_gdbus_init st) (wait_ready u_dbus_service_is_ready owners)"

section \<open>Signals\<close>

text \<open>The names that the generated code gives the signals of the interface.\<close>

fun signal_name :: "core_signal \<Rightarrow> string" where
  "signal_name GetFwVersion = ''get-fw-version-signal''"
| "signal_name (NoticeModuleRecoveryFinish ty) = ''notice-module-recovery-finish''"
| "signal_name (SubscriberReadyStateChange s) = ''subscriber-ready-state-change''"

definition connections :: "string \<Rightarrow> dbus_client \<Rightarrow> nat" where
  "connections sig st = count_list (map snd (concat (dc_proxies st))) sig"

fun repeat_cres :: "nat \<Rightarrow> ('a \<Rightarrow> 'a cres) \<Rightarrow> 'a \<Rightarrow> 'a cres" where
  "repeat_cres 0 f st = Inr st"
| "repeat_cres (Suc n) f st = cbind (f st) (repeat_cres n f)"

text \<open>The callbacks of a service, a null pointer until they are registered.\<close>

record pref_callbacks =
  callback_get_fw_version :: "(pref \<Rightarrow> pref cres) option"
  callback_sim_state_change :: "(int \<Rightarrow> pref \<Rightarrow> pref cres) option"

type_synonym 'a recovery_callback = "(int \<Rightarrow> 'a \<Rightarrow> 'a cres) option"

definition p_registerSignalCallback :: "pref_callbacks option \<Rightarrow> pref_callbacks \<Rightarrow> pref_callbacks" where
  "p_registerSignalCallback callback g = (case callback of None \<Rightarrow> g | Some c \<Rightarrow> c)"

definition m_registerSignalCallback :: "'a recovery_callback option \<Rightarrow> 'a recovery_callback \<Rightarrow> 'a recovery_callback" where
  "m_registerSignalCallback callback g = (case callback of None \<Rightarrow> g | Some c \<Rightarrow> c)"

definition u_registerSignalCallback :: "'a recovery_callback option \<Rightarrow> 'a recovery_callback \<Rightarrow> 'a recovery_callback" where
  "u_registerSignalCallback callback g = (case callback of None \<Rightarrow> g | Some c \<Rightarrow> c)"

definition signal_get_fw_version_handler :: "pref_callbacks \<Rightarrow> pref \<Rightarrow> pref cres" where
  "signal_get_fw_version_handler g st = (case callback_get_fw_version g of None \<Rightarrow> Inr st | Some f \<Rightarrow> f st)"

definition signal_sim_state_change_handler :: "pref_callbacks \<Rightarrow> int \<Rightarrow> pref \<Rightarrow> pref cres" where
  "signal_sim_state_change_handler g arg_status st = (case callback_sim_state_change g of None \<Rightarrow> Inr st | Some f \<Rightarrow> f arg_status st)"

definition m_notice_handler :: "'a recovery_callback \<Rightarrow> int \<Rightarrow> 'a \<Rightarrow> 'a cres" where
  "m_notice_handler g arg_type st = (case g of None \<Rightarrow> Inr st | Some f \<Rightarrow> f arg_type st)"

definition u_notice_handler :: "'a recovery_callback \<Rightarrow> int \<Rightarrow> 'a \<Rightarrow> 'a cres" where
  "u_notice_handler g arg_type st = (case g of None \<Rightarrow> Inr st | Some f \<Rightarrow> f arg_type st)"

text \<open>What \<^verbatim>\<open>main\<close> of the preference service registers.\<close>

definition pref_main_callbacks :: "pjunk \<Rightarrow> pref_callbacks" where
  "pref_main_callbacks j = p_registerSignalCallback
     (Some \<lparr>callback_get_fw_version = Some (signal_callback_get_fw_version j), callback_sim_state_change = Some (signal_callback_sim_state_change j)\<rparr>)
     \<lparr>callback_get_fw_version = None, callback_sim_state_change = None\<rparr>"

definition p_handle_signal :: "pref_callbacks \<Rightarrow> core_signal \<Rightarrow> pref \<Rightarrow> pref cres" where
  "p_handle_signal g sig =
     (case sig of
        GetFwVersion \<Rightarrow> signal_get_fw_version_handler g
      | SubscriberReadyStateChange s \<Rightarrow> signal_sim_state_change_handler g (sim_state_num s)
      | NoticeModuleRecoveryFinish ty \<Rightarrow> Inr)"

text \<open>A signal of the core service reaches every handler that is connected to it.\<close>

definition p_deliver :: "pref_callbacks \<Rightarrow> dbus_client \<Rightarrow> core_signal \<Rightarrow> pref \<Rightarrow> pref cres" where
  "p_deliver g d sig = repeat_cres (connections (signal_name sig) d) (p_handle_signal g sig)"

definition deliver_notice :: "(int \<Rightarrow> 'a \<Rightarrow> 'a cres) \<Rightarrow> dbus_client \<Rightarrow> core_signal \<Rightarrow> 'a \<Rightarrow> 'a cres" where
  "deliver_notice handler d sig =
     (case sig of
        NoticeModuleRecoveryFinish ty \<Rightarrow> repeat_cres (connections (signal_name sig) d) (handler ty)
      | _ \<Rightarrow> Inr)"

section \<open>The side of the core service\<close>

text \<open>The methods that \<^verbatim>\<open>bus_acquired_hdl\<close> connects, in its order; the second component says that the main loop, and with it the
  service, is told to end.\<close>

definition core_method_names :: "string list" where
  "core_method_names = [''handle-madpt-ready-method'', ''handle-request-update-fw-version-method'', ''handle-request-fw-update-check-method'',
     ''handle-ready-to-fcc-unlock-method'', ''handle-gpio-reset-method'']"

definition bus_acquired_hdl :: "bool \<Rightarrow> string list \<times> bool" where
  "bus_acquired_hdl exported = (core_method_names, \<not> exported)"

definition name_lost_hdl :: bool where
  "name_lost_hdl = True"

definition core_handle_method :: "core_env \<Rightarrow> cjunk \<Rightarrow> string \<Rightarrow> core \<Rightarrow> core cres option" where
  "core_handle_method env j name st =
     (if name = ''handle-madpt-ready-method'' then Some (Inr (madpt_ready_method st))
      else if name = ''handle-request-update-fw-version-method'' then Some (Inr (request_update_fw_version st))
      else if name = ''handle-request-fw-update-check-method'' then Some (Inr (request_fw_update_check st))
      else if name = ''handle-ready-to-fcc-unlock-method'' then Some (Inr (ready_to_fcc_unlock_method st))
      else if name = ''handle-gpio-reset-method'' then Some (gpio_reset_method env j st)
      else None)"

lemma exported_methods_handled: "core_handle_method env j name st \<noteq> None \<longleftrightarrow> name \<in> set (fst (bus_acquired_hdl exported))"
  by (simp add: core_handle_method_def bus_acquired_hdl_def core_method_names_def)

section \<open>Attempts to connect\<close>

lemma dangling_error_fatal: "connect_loop GE_FREED pe as st = Inl (if as = [] then Blocked else UseAfterFree)"
  by (cases as) (auto simp: glib_call_def report_error_def)

lemma connect_after_proxy_failure:
  "connect_loop GE_NULL GE_FREED as st =
     (case as of
        [] \<Rightarrow> Inl Blocked
      | (conn, proxy) # as' \<Rightarrow>
          if conn then if proxy then Inr (st\<lparr>dc_attempts := as', dc_slept := dc_slept st + 1, dc_proxies := [] # dc_proxies st\<rparr>) else Inl UseAfterFree
          else Inl (if as' = [] then Blocked else UseAfterFree))"
  by (cases as) (auto simp: glib_call_def report_error_def dangling_error_fatal)

definition survivable :: "(bool \<times> bool) list \<Rightarrow> bool" where
  "survivable as \<longleftrightarrow> (\<exists>rest. as = (True, True) # rest \<or> as = (True, False) # (True, True) # rest)"

lemma connect_loop_survivable:
  "survivable as \<Longrightarrow> \<exists>as' n. connect_loop GE_NULL GE_NULL as st = Inr (st\<lparr>dc_attempts := as', dc_slept := n, dc_proxies := [] # dc_proxies st\<rparr>)"
  by (auto simp: survivable_def glib_call_def report_error_def connect_after_proxy_failure) ((rule exI)+, rule refl)+

text \<open>The attempts that are given end before a freed error is used.\<close>

definition cut_short :: "(bool \<times> bool) list \<Rightarrow> bool" where
  "cut_short as \<longleftrightarrow> length as \<le> 1 \<or> (\<exists>proxy. as = [(True, False), (False, proxy)])"

lemma connect_loop_fatal:
  "\<not> survivable as \<Longrightarrow> connect_loop GE_NULL GE_NULL as st = Inl (if cut_short as then Blocked else UseAfterFree)"
proof (induction as rule: list.induct)
  case (Cons a rest)
  obtain conn proxy where a: "a = (conn, proxy)" by (cases a)
  have first: "connect_loop GE_NULL GE_NULL ((conn, proxy) # rest) st
      = connect_loop (if conn then GE_NULL else GE_FREED) (if conn then GE_FREED else GE_NULL) rest
          (st\<lparr>dc_attempts := rest, dc_slept := dc_slept st + 1\<rparr>)"
    if "\<not> (conn \<and> proxy)" using that by (auto simp: glib_call_def report_error_def)
  show ?case
  proof (cases conn)
    case False
    then show ?thesis using Cons.prems first by (auto simp: a survivable_def cut_short_def dangling_error_fatal)
  next
    case True
    with Cons.prems have "\<not> proxy" by (auto simp: a survivable_def)
    with True Cons.prems have "\<not> proxy" "rest = [] \<or> hd rest \<noteq> (True, True)"
      by (auto simp: a survivable_def neq_Nil_conv)
    then show ?thesis using first True
      by (cases rest; cases "fst (hd rest)"; cases "snd (hd rest)")
        (auto simp: a cut_short_def connect_after_proxy_failure simp del: connect_loop.simps)
  qed
qed (simp add: cut_short_def)

lemma register_ok:
  "dc_proxies st = p # ps \<Longrightarrow> p_register_client_signal_handler st
     = Inr (st\<lparr>dc_proxies := (p @ [(dc_next st, ''notify::g-name-owner''), (Suc (dc_next st), ''get-fw-version-signal''),
              (Suc (Suc (dc_next st)), ''subscriber-ready-state-change'')]) # ps,
            dc_handlers := [dc_next st, Suc (dc_next st), Suc (Suc (dc_next st)), 0], dc_next := Suc (Suc (Suc (dc_next st)))\<rparr>)"
  by (simp add: p_register_client_signal_handler_def g_signal_connect_def P_SIGNAL_HANDLE_SIZE_def numeral_eq_Suc)

lemma notice_register_ok:
  "dc_proxies st = p # ps \<Longrightarrow> 2 \<le> length (dc_handlers st) \<Longrightarrow>
     \<exists>hs. length hs = length (dc_handlers st) \<and> m_register_client_signal_handler st
       = Inr (st\<lparr>dc_proxies := (p @ [(dc_next st, ''notify::g-name-owner''), (Suc (dc_next st), ''notice-module-recovery-finish'')]) # ps,
            dc_handlers := hs, dc_next := Suc (Suc (dc_next st))\<rparr>)"
  by (rule exI [of _ "(dc_handlers st)[0 := dc_next st, Suc 0 := Suc (dc_next st)]"])
    (auto simp: m_register_client_signal_handler_def g_signal_connect_def)

lemma u_register_same: "u_register_client_signal_handler = m_register_client_signal_handler"
  by (simp add: fun_eq_iff m_register_client_signal_handler_def u_register_client_signal_handler_def)


lemma not_isl_Inr: "\<not> isl m \<Longrightarrow> (\<And>a. m = Inr a \<Longrightarrow> P) \<Longrightarrow> P"
  by (cases m) auto

lemma cbind_right_unit: "cbind m Inr = m"
  by (cases m) auto

lemma repeat_once: "repeat_cres (Suc 0) f = f"
proof
  fix st
  have "repeat_cres 0 f = Inr" by (simp add: fun_eq_iff)
  then show "repeat_cres (Suc 0) f st = f st" by (simp add: cbind_right_unit)
qed

section \<open>The handlers of a service\<close>

lemma connect_loop_result:
  assumes "connect_loop GE_NULL GE_NULL as st = Inr s"
  obtains as' n where "s = st\<lparr>dc_attempts := as', dc_slept := n, dc_proxies := [] # dc_proxies st\<rparr>"
proof -
  have "survivable as" using assms connect_loop_fatal [of as st] by (cases "survivable as") simp_all
  from connect_loop_survivable [OF this, of st] show thesis using assms that by auto
qed

text \<open>The preference service disconnects its handlers before it makes a new proxy: only the last proxy has handlers, one for
  each signal.\<close>

definition once_connected :: "dbus_client \<Rightarrow> bool" where
  "once_connected st \<longleftrightarrow> (\<exists>i ps. 0 < i
     \<and> dc_proxies st = [(i, ''notify::g-name-owner''), (Suc i, ''get-fw-version-signal''), (Suc (Suc i), ''subscriber-ready-state-change'')] # ps
     \<and> (\<forall>p \<in> set ps. p = []) \<and> dc_handlers st = [i, Suc i, Suc (Suc i), 0] \<and> dc_next st = Suc (Suc (Suc i)))"

lemma p_gdbus_init_once:
  assumes "p_gdbus_init st = Inr s" and "\<forall>p \<in> set (dc_proxies st). p = []" and "0 < dc_next st"
  shows "once_connected s"
proof -
  obtain s1 where c: "connect_loop GE_NULL GE_NULL (dc_attempts st) st = Inr s1" and r: "p_register_client_signal_handler s1 = Inr s"
    using assms(1) by (auto simp: p_gdbus_init_def cbind_eq_Inr_iff)
  obtain as' n where s1: "s1 = st\<lparr>dc_attempts := as', dc_slept := n, dc_proxies := [] # dc_proxies st\<rparr>"
    using c by (rule connect_loop_result)
  show ?thesis using r assms(2,3) by (auto simp: s1 register_ok once_connected_def)
qed

lemma disconnect_once:
  assumes "once_connected st"
  shows "(\<forall>p \<in> set (dc_proxies (disconnect_handlers st)). p = []) \<and> dc_next (disconnect_handlers st) = dc_next st \<and> 0 < dc_next st"
  using assms by (auto simp: once_connected_def disconnect_handlers_def g_signal_handler_disconnect_def)

lemma once_connected_slept: "once_connected (st\<lparr>dc_slept := n\<rparr>) = once_connected st"
  by (simp add: once_connected_def)

lemma p_ready_once:
  assumes "p_dbus_service_is_ready owned st = Inr (b, s)" and "once_connected st"
  shows "once_connected s"
proof (cases owned)
  case True
  then show ?thesis using assms by (simp add: p_dbus_service_is_ready_def)
next
  case False
  let ?d = "disconnect_handlers (st\<lparr>dc_slept := dc_slept st + 1\<rparr>)"
  have "p_gdbus_init ?d = Inr s" using assms(1) False by (auto simp: p_dbus_service_is_ready_def cbind_eq_Inr_iff)
  moreover have "once_connected (st\<lparr>dc_slept := dc_slept st + 1\<rparr>)" using assms(2) by (simp only: once_connected_slept)
  ultimately show ?thesis using disconnect_once by (metis p_gdbus_init_once)
qed

lemma wait_ready_once: "wait_ready p_dbus_service_is_ready owners st = Inr d \<Longrightarrow> once_connected st \<Longrightarrow> once_connected d"
  by (induction owners arbitrary: st) (auto simp: cbind_eq_Inr_iff split: if_splits dest: p_ready_once)

lemma count_concat_empty: "\<forall>p \<in> set ps. p = [] \<Longrightarrow> concat ps = []"
  by simp

lemma once_connected_connections:
  assumes "once_connected d"
  shows "connections ''get-fw-version-signal'' d = 1" "connections ''subscriber-ready-state-change'' d = 1"
  using assms by (auto simp: once_connected_def connections_def count_concat_empty)

text \<open>The other two services leave the handlers of the proxies that they give up.\<close>

lemma connections_notice_register:
  assumes "m_register_client_signal_handler s1 = Inr s" and "dc_proxies s1 = [] # ps" and "2 \<le> length (dc_handlers s1)"
  shows "connections ''notice-module-recovery-finish'' s = Suc (count_list (map snd (concat ps)) ''notice-module-recovery-finish'')
         \<and> length (dc_handlers s) = length (dc_handlers s1)"
  using notice_register_ok [OF assms(2,3)] assms(1) by (auto simp: connections_def)

lemma m_gdbus_init_adds:
  assumes "m_gdbus_init st = Inr s" and "2 \<le> length (dc_handlers st)"
  shows "connections ''notice-module-recovery-finish'' s = Suc (connections ''notice-module-recovery-finish'' st)
         \<and> length (dc_handlers s) = length (dc_handlers st)"
proof -
  obtain s1 where c: "connect_loop GE_NULL GE_NULL (dc_attempts st) st = Inr s1" and r: "m_register_client_signal_handler s1 = Inr s"
    using assms(1) by (auto simp: m_gdbus_init_def cbind_eq_Inr_iff)
  obtain as' n where s1: "s1 = st\<lparr>dc_attempts := as', dc_slept := n, dc_proxies := [] # dc_proxies st\<rparr>"
    using c by (rule connect_loop_result)
  show ?thesis using connections_notice_register [OF r, of "dc_proxies st"] assms(2) by (simp add: s1 connections_def)
qed

lemma m_ready_absent:
  "m_dbus_service_is_ready False st = cbind (m_gdbus_init (st\<lparr>dc_slept := dc_slept st + 1\<rparr>)) (\<lambda>s. Inr (False, s))"
  by (simp add: m_dbus_service_is_ready_def)

lemma wait_ready_adds:
  "wait_ready m_dbus_service_is_ready owners st = Inr d \<Longrightarrow> 2 \<le> length (dc_handlers st) \<Longrightarrow>
     connections ''notice-module-recovery-finish'' d = connections ''notice-module-recovery-finish'' st + length (takeWhile Not owners)"
proof (induction owners arbitrary: st)
  case (Cons owned os)
  show ?case
  proof (cases owned)
    case True
    then show ?thesis using Cons.prems by (simp add: m_dbus_service_is_ready_def)
  next
    case False
    let ?st = "st\<lparr>dc_slept := dc_slept st + 1\<rparr>"
    obtain s where g: "m_gdbus_init ?st = Inr s" and w: "wait_ready m_dbus_service_is_ready os s = Inr d"
      using Cons.prems(1) m_ready_absent [of st] False by (auto simp: cbind_eq_Inr_iff)
    have "connections n ?st = connections n st" for n by (simp add: connections_def)
    then show ?thesis using m_gdbus_init_adds [OF g] Cons.IH [OF w] Cons.prems(2) False by simp
  qed
qed simp

lemma m_meet_core_connections:
  assumes "m_meet_core owners (dbus_start as k) = Inr d" and "2 \<le> k"
  shows "connections ''notice-module-recovery-finish'' d = Suc (length (takeWhile Not owners))"
proof -
  obtain s where g: "m_gdbus_init (dbus_start as k) = Inr s" and w: "wait_ready m_dbus_service_is_ready owners s = Inr d"
    using assms(1) by (auto simp: m_meet_core_def cbind_eq_Inr_iff)
  show ?thesis using m_gdbus_init_adds [OF g] wait_ready_adds [OF w] assms(2) by (simp add: dbus_start_def connections_def)
qed

lemma u_gdbus_init_same: "u_gdbus_init = m_gdbus_init"
  by (simp add: fun_eq_iff u_gdbus_init_def m_gdbus_init_def u_register_same)

lemma u_ready_same: "u_dbus_service_is_ready = m_dbus_service_is_ready"
  by (simp add: fun_eq_iff u_dbus_service_is_ready_def m_dbus_service_is_ready_def u_gdbus_init_same)

lemma u_meet_same: "u_meet_core owners st = m_meet_core owners st"
  by (simp only: u_meet_core_def m_meet_core_def u_gdbus_init_same u_ready_same)

section \<open>Properties\<close>

lemma attempts [simp]: "dc_attempts (dbus_start as n) = as"
  by (simp add: dbus_start_def)

text \<open>C20: A service survives at most one failed attempt to connect, and only one in which the bus was there: the error of a
  failed attempt is freed but its pointer is neither cleared nor safe to be used again. It comes up exactly when the first
  attempt succeeds, or the first fails at the proxy and the second succeeds. In every other case the freed error is used,
  unless the attempts end before (three of them are always enough).\<close>

theorem connection_survives_one_failure:
  "\<forall>init \<in> {p_gdbus_init (dbus_start as P_SIGNAL_HANDLE_SIZE), m_gdbus_init (dbus_start as M_SIGNAL_HANDLE_SIZE),
       u_gdbus_init (dbus_start as U_SIGNAL_HANDLE_SIZE)}.
     (if survivable as then \<exists>s. init = Inr s else init = Inl (if cut_short as then Blocked else UseAfterFree))"
proof (cases "survivable as")
  case True
  have c: "\<exists>as' n. connect_loop GE_NULL GE_NULL as (dbus_start as k) = Inr (dbus_start as k\<lparr>dc_attempts := as', dc_slept := n, dc_proxies := [[]]\<rparr>)" for k
    using connect_loop_survivable [OF True, of "dbus_start as k"] by (simp add: dbus_start_def)
  have m: "\<exists>s. m_register_client_signal_handler (dbus_start as k\<lparr>dc_attempts := as', dc_slept := n, dc_proxies := [[]]\<rparr>) = Inr s" if "2 \<le> k" for k as' n
    using notice_register_ok [of "dbus_start as k\<lparr>dc_attempts := as', dc_slept := n, dc_proxies := [[]]\<rparr>"] that by (auto simp: dbus_start_def)
  show ?thesis using True c [of P_SIGNAL_HANDLE_SIZE] c [of M_SIGNAL_HANDLE_SIZE] c [of U_SIGNAL_HANDLE_SIZE]
      m [of M_SIGNAL_HANDLE_SIZE] m [of U_SIGNAL_HANDLE_SIZE]
    by (auto simp: p_gdbus_init_def m_gdbus_init_def u_gdbus_init_def u_register_same register_ok dbus_start_def M_SIGNAL_HANDLE_SIZE_def U_SIGNAL_HANDLE_SIZE_def)
next
  case False
  then show ?thesis
    by (simp add: p_gdbus_init_def m_gdbus_init_def u_gdbus_init_def connect_loop_fatal)
qed

theorem connection_survives_one_failure_witness:
  "p_gdbus_init (dbus_start [(False, False), (False, False), (True, True)] P_SIGNAL_HANDLE_SIZE) = Inl UseAfterFree
    \<and> (\<exists>s. u_gdbus_init (dbus_start [(True, False), (True, True)] U_SIGNAL_HANDLE_SIZE) = Inr s)"
  using connection_survives_one_failure [of "[(False, False), (False, False), (True, True)]"]
    connection_survives_one_failure [of "[(True, False), (True, True)]"]
  by (simp add: survivable_def cut_short_def)

text \<open>C18: However often the preference service had to connect again until the core service owned its name, each signal of the
  core service runs its callback once: a report of the module adapter that it is ready makes the preference service refresh the
  firmware version once, and a change of the SIM runs the other callback once.\<close>

theorem ready_reaches_pref_once:
  assumes "p_meet_core owners (dbus_start as P_SIGNAL_HANDLE_SIZE) = Inr d"
  shows "p_deliver (pref_main_callbacks j) d (last (c_signals (madpt_ready_method c))) st = signal_callback_get_fw_version j st
         \<and> p_deliver (pref_main_callbacks j) d (SubscriberReadyStateChange s) st = signal_callback_sim_state_change j (sim_state_num s) st"
proof -
  obtain s1 where g: "p_gdbus_init (dbus_start as P_SIGNAL_HANDLE_SIZE) = Inr s1" and w: "wait_ready p_dbus_service_is_ready owners s1 = Inr d"
    using assms by (auto simp: p_meet_core_def cbind_eq_Inr_iff)
  have "once_connected s1" by (rule p_gdbus_init_once [OF g]) (simp_all add: dbus_start_def)
  then have "once_connected d" using w by (auto dest: wait_ready_once)
  note n = once_connected_connections [OF this]
  have "last (c_signals (madpt_ready_method c)) = GetFwVersion" by (simp add: madpt_ready_method_def emit_def)
  then show ?thesis using n
    by (simp add: p_deliver_def p_handle_signal_def pref_main_callbacks_def p_registerSignalCallback_def
        signal_get_fw_version_handler_def signal_sim_state_change_handler_def repeat_once)
qed

theorem ready_reaches_pref_once_witness:
  "\<exists>d. p_meet_core [False, False, True] (dbus_start (replicate 3 (True, True)) P_SIGNAL_HANDLE_SIZE) = Inr d \<and> length (dc_proxies d) = 3
     \<and> (\<forall>j c st. p_deliver (pref_main_callbacks j) d (last (c_signals (madpt_ready_method c))) st = signal_callback_get_fw_version j st)"
proof -
  have "case p_meet_core [False, False, True] (dbus_start (replicate 3 (True, True)) P_SIGNAL_HANDLE_SIZE) of Inr d \<Rightarrow> length (dc_proxies d) = 3 | Inl e \<Rightarrow> False"
    by code_simp
  then obtain d where d: "p_meet_core [False, False, True] (dbus_start (replicate 3 (True, True)) P_SIGNAL_HANDLE_SIZE) = Inr d" "length (dc_proxies d) = 3"
    by (auto split: sum.splits)
  show ?thesis using d ready_reaches_pref_once [OF d(1)] by blast
qed

text \<open>C19: The module adapter and the updater never disconnect the handlers of a proxy that they give up: with every time that
  they connect again, because the core service does not own its name yet, the notice that a recovery is finished runs their callback
  once more.\<close>

theorem notice_handled_repeatedly:
  assumes "m_meet_core owners (dbus_start as M_SIGNAL_HANDLE_SIZE) = Inr dm" and "u_meet_core owners (dbus_start as U_SIGNAL_HANDLE_SIZE) = Inr du"
  shows "deliver_notice (m_notice_handler gm) dm (NoticeModuleRecoveryFinish ty) sm
           = repeat_cres (Suc (length (takeWhile Not owners))) (m_notice_handler gm ty) sm
         \<and> deliver_notice (u_notice_handler gu) du (NoticeModuleRecoveryFinish ty) su
           = repeat_cres (Suc (length (takeWhile Not owners))) (u_notice_handler gu ty) su"
proof -
  have "connections ''notice-module-recovery-finish'' dm = Suc (length (takeWhile Not owners))"
    by (rule m_meet_core_connections [OF assms(1)]) (simp add: M_SIGNAL_HANDLE_SIZE_def)
  moreover have "connections ''notice-module-recovery-finish'' du = Suc (length (takeWhile Not owners))"
    by (rule m_meet_core_connections [OF assms(2) [unfolded u_meet_same]]) (simp add: U_SIGNAL_HANDLE_SIZE_def)
  ultimately show ?thesis by (simp add: deliver_notice_def)
qed

theorem notice_handled_repeatedly_witness:
  "\<exists>dm. m_meet_core [False, False, True] (dbus_start (replicate 3 (True, True)) M_SIGNAL_HANDLE_SIZE) = Inr dm
     \<and> deliver_notice (m_notice_handler (Some (\<lambda>ty n. Inr (n + ty)))) dm (NoticeModuleRecoveryFinish 5) 0 = Inr (15 :: int)"
proof -
  have "\<not> isl (m_meet_core [False, False, True] (dbus_start (replicate 3 (True, True)) M_SIGNAL_HANDLE_SIZE))" by code_simp
  then obtain dm where m: "m_meet_core [False, False, True] (dbus_start (replicate 3 (True, True)) M_SIGNAL_HANDLE_SIZE) = Inr dm" by (auto simp: elim: not_isl_Inr)
  have "\<not> isl (u_meet_core [False, False, True] (dbus_start (replicate 3 (True, True)) U_SIGNAL_HANDLE_SIZE))" by code_simp
  then obtain du where u: "u_meet_core [False, False, True] (dbus_start (replicate 3 (True, True)) U_SIGNAL_HANDLE_SIZE) = Inr du" by (auto simp: elim: not_isl_Inr)
  show ?thesis using m notice_handled_repeatedly [OF m u, of "Some (\<lambda>ty n. Inr (n + ty))" 5 0 None "()"]
    by (simp add: m_notice_handler_def numeral_eq_Suc)
qed

end
