(* ===== verification/Fw_Gone.thy ===== *)
theory Fw_Gone
  imports Fw_Retry
begin

text \<open>
  The updater, part eight: an update of a PCIe module that has left the bus. The attempts fail one after the
  other, and the loop of \<^verbatim>\<open>signal_callback_notice_module_recovery_finish\<close> that retries them does not end.
\<close>

section \<open>Records\<close>

definition hw_resets_ok :: "fs \<Rightarrow> bool" where
  "hw_resets_ok w \<longleftrightarrow> (\<exists>h \<le> HW_RESET_RETRY_TH. store_abs FW_UPDATE_STATUS_RECORD w DO_HW_RESET_COUNT = Some h)"

definition esim_readable :: "fs \<Rightarrow> bool" where
  "esim_readable w \<longleftrightarrow> (\<exists>x. get_bootup_status_value ESIM_ENABLE_STATE w = Inr x)"

definition records_ok :: "fs \<Rightarrow> bool" where
  "records_ok w \<longleftrightarrow> count_stored 0 w \<and> hw_resets_ok w \<and> esim_readable w
     \<and> can_read w FLASH_TABLE_FILE_NAME \<and> can_write w FLASH_TABLE_FILE_NAME"








section \<open>An attempt without the module\<close>

text \<open>
  No messages, no fastboot port, no node for the mode. The package holds firmware only.
\<close>

definition gone_fw :: "fwu \<Rightarrow> bool" where
  "gone_fw fw \<longleftrightarrow> u_script fw = [] \<and> \<not> u_mutex fw \<and> (\<exists>x. get_fwupdate_subsysid (u_dev fw) = Inr x) \<and> records_ok (u_fs fw)"

definition module_gone :: "pcie \<Rightarrow> bool" where
  "module_gone st \<longleftrightarrow> gone_fw (pc_fwu st) \<and> pc_fastboot_port st = [] \<and> pc_ports st = [] \<and> pc_t7xx_mode_node st = []
     \<and> tab_inv st \<and> pc_update_type st = UPDATE_TYPE_ONLY_FW \<and> pc_update_based_type st = TYPE_FLASH_FOLDER"

lemma gone_fw_simps [simp]:
  "gone_fw (fw\<lparr>u_out := a\<rparr>) = gone_fw fw" "gone_fw (fw\<lparr>u_carrier_id := b\<rparr>) = gone_fw fw"
  "gone_fw (fw\<lparr>u_need_cxp_reboot := d\<rparr>) = gone_fw fw" "gone_fw (fw\<lparr>u_esim_enable := d\<rparr>) = gone_fw fw"
  "gone_fw (fw\<lparr>u_is_get_fw_ver := d\<rparr>) = gone_fw fw"
  "gone_fw (fw\<lparr>u_fw_update_retry_count := e, u_do_hw_reset_count := f, u_need_retry_fw_update := g\<rparr>) = gone_fw fw"
  "gone_fw (fw\<lparr>u_fw_update_retry_count := e\<rparr>) = gone_fw fw"
  by (simp_all add: gone_fw_def)


lemma module_gone_simps [simp]:
  "module_gone (st\<lparr>pc_need_update := b\<rparr>) = module_gone st" "module_gone (set_processing b st) = module_gone st"
  "module_gone (st\<lparr>pc_log := l\<rparr>) = module_gone st"
  by (simp_all add: module_gone_def tab_inv_def set_processing_def)

















section \<open>The loop does not end\<close>

















end
