(* ===== verification/Fb_Engine.thy ===== *)
theory Fb_Engine
  imports Fb_Programming "HOL-Library.Word"
begin

text \<open>
  The updater, part four: the fastboot library in the form this repository has changed it,
  \<^verbatim>\<open>fastboot/protocol.cpp\<close>, \<^verbatim>\<open>fastboot/engine.cpp\<close> and \<^verbatim>\<open>fastboot/fastboot.cpp\<close>: what happens on the wire for one
  command of the updater, and which messages it leaves in \<^verbatim>\<open>fastboot_data_t\<close>.

  The record \<open>fbt\<close> holds the transport, the messages and the queue of actions. \<open>t_reads\<close> are the results of
  the reads (\<open>None\<close> an error; a read without an entry waits for ever, since the bulk transfers have no
  timeout), \<open>t_writes\<close> how many bytes a write accepts (\<open>None\<close> an error, no entry all of them), \<open>t_present\<close> whether
  the device is there when it is looked for, \<open>t_sent\<close> what was sent. Of the array of messages only the entries below
  the count are kept; nothing reads the others. \<open>t_errno\<close> and \<open>t_secs\<close> are the texts of \<^verbatim>\<open>strerror\<close> and of the
  time in \<^verbatim>\<open>OKAY [...]\<close>.
\<close>

section \<open>State\<close>

datatype op =
    OP_DOWNLOAD | OP_COMMAND | OP_QUERY | OP_NOTICE | OP_DOWNLOAD_SPARSE | OP_WAIT_FOR_DISCONNECT | OP_DOWNLOAD_FD | OP_UPLOAD

datatype callback = CB_DEFAULT | CB_DO_NOTHING

record action =
  a_op :: op
  a_cmd :: string
  a_msg :: string
  a_data :: string
  a_size :: "32 word"
  a_func :: callback

record fbt =
  t_present :: "bool list"
  t_reads :: "string option list"
  t_writes :: "nat option list"
  t_open :: bool
  t_sent :: "string list"
  t_error_msg :: string
  t_msgs :: "string list"
  t_queue :: "action list"
  t_errno :: string
  t_secs :: string

definition FB_MAX_MSG_LEN :: nat where "FB_MAX_MSG_LEN = 256"
definition FB_COMMAND_SZ :: nat where "FB_COMMAND_SZ = 64"
definition FB_RESPONSE_SZ :: nat where "FB_RESPONSE_SZ = 64"
definition MAX_MAP_SIZE :: nat where "MAX_MAP_SIZE = 512 * 1024 * 1024"
definition GFB_MSG_LEN :: nat where "GFB_MSG_LEN = 128"

lemmas fb_sizes = FB_MAX_MSG_LEN_def FB_COMMAND_SZ_def FB_RESPONSE_SZ_def GFB_MSG_LEN_def FB_MAX_INFO_COUNT_def

section \<open>Transport\<close>

definition t_write :: "string \<Rightarrow> fbt \<Rightarrow> int \<times> fbt" where
  "t_write bytes st =
     (if \<not> t_open st then (-1, st)
      else case t_writes st of
        [] \<Rightarrow> (int (length bytes), st\<lparr>t_sent := t_sent st @ [bytes]\<rparr>)
      | None # ws \<Rightarrow> (-1, st\<lparr>t_writes := ws\<rparr>)
      | Some k # ws \<Rightarrow> (int (min k (length bytes)), st\<lparr>t_writes := ws, t_sent := t_sent st @ [take k bytes]\<rparr>))"

definition t_close :: "fbt \<Rightarrow> fbt" where
  "t_close st = st\<lparr>t_open := False\<rparr>"

section \<open>Messages\<close>

definition set_error :: "string \<Rightarrow> fbt \<Rightarrow> fbt cres" where
  "set_error txt st = cbind (strcpy_cap FB_MAX_MSG_LEN txt) (\<lambda>t. Inr (st\<lparr>t_error_msg := t\<rparr>))"

definition rest_fastboot_output_msg :: "fbt \<Rightarrow> fbt" where
  "rest_fastboot_output_msg st = st\<lparr>t_msgs := []\<rparr>"

definition push_fastboot_output_msg :: "string \<Rightarrow> fbt \<Rightarrow> fbt cres" where
  "push_fastboot_output_msg msg st =
     cbind (cassert (length (t_msgs st) < FB_MAX_INFO_COUNT) OutOfBounds) (\<lambda>_.
     cbind (strcpy_cap FB_MAX_MSG_LEN msg) (\<lambda>m. Inr (st\<lparr>t_msgs := t_msgs st @ [m]\<rparr>)))"

section \<open>Responses\<close>

text \<open>\<^verbatim>\<open>strtol(s, 0, 16)\<close>\<close>

definition strtol16 :: "string \<Rightarrow> int" where
  "strtol16 s =
     (let t = dropWhile isspace s;
          neg = (t \<noteq> [] \<and> hd t = CHR ''-'');
          u = strip_0x (if t \<noteq> [] \<and> (hd t = CHR ''-'' \<or> hd t = CHR ''+'') then tl t else t)
      in clamp_long ((if neg then -1 else 1) * int (hex_val 0 u)))"

text \<open>The string behind the first four characters of a status.\<close>

definition status_text :: "string \<Rightarrow> string" where
  "status_text s = takeWhile (\<lambda>c. c \<noteq> NUL) (drop 4 s)"

definition fail_closed :: "string \<Rightarrow> fbt \<Rightarrow> (int \<times> string \<times> fbt) cres" where
  "fail_closed txt st = cbind (set_error txt st) (\<lambda>s. Inr (-1, [], t_close s))"

definition info_line :: "string \<Rightarrow> fbt \<Rightarrow> fbt cres" where
  "info_line s st =
     cbind (set_error (''(bootloader) '' @ status_text s @ [NL]) st) (\<lambda>s1. push_fastboot_output_msg (t_error_msg s1) s1)"

text \<open>What \<^verbatim>\<open>check_response\<close> does with a status that is not an \<^verbatim>\<open>INFO\<close>; the string is the response of an \<^verbatim>\<open>OKAY\<close>.\<close>

definition final_status :: "32 word \<Rightarrow> string \<Rightarrow> fbt \<Rightarrow> (int \<times> string \<times> fbt) cres" where
  "final_status sz s st =
     (if take 4 s = ''OKAY'' then Inr (0, status_text s, st)
      else if take 4 s = ''FAIL''
      then cbind (set_error (if length s > 4 then ''remote: '' @ status_text s else ''remote failure'') st) (\<lambda>s1. Inr (-1, [], s1))
      else if take 4 s = ''DATA'' \<and> sz > 0
      then let dsize = word_of_int (strtol16 (status_text s)) :: 32 word
           in if dsize > sz then fail_closed (''data size too large ('' @ show_int (sint dsize) @ '')'') st
              else Inr (uint dsize, [], st)
      else fail_closed ''unknown status code'' st)"

text \<open>The loop over the statuses that are read; \<open>rs\<close> are the results of the reads to come.\<close>

fun check_loop :: "32 word \<Rightarrow> string option list \<Rightarrow> fbt \<Rightarrow> (int \<times> string \<times> fbt) cres" where
  "check_loop sz [] st = Inl Blocked"
| "check_loop sz (None # rs) st = fail_closed (''status read failed ('' @ t_errno st @ '')'') (st\<lparr>t_reads := rs\<rparr>)"
| "check_loop sz (Some r # rs) st =
     (let s = take 64 r; s1 = st\<lparr>t_reads := rs\<rparr>
      in if length s < 4 then fail_closed (''status malformed ('' @ show_int (int (length s)) @ '' bytes)'') s1
         else if take 4 s = ''INFO'' then cbind (info_line s s1) (check_loop sz rs)
         else final_status sz s s1)"

definition check_response :: "32 word \<Rightarrow> fbt \<Rightarrow> (int \<times> string \<times> fbt) cres" where
  "check_response sz st =
     (if t_open st then check_loop sz (t_reads st) st
      else fail_closed (''status read failed ('' @ t_errno st @ '')'') st)"

section \<open>Commands and data\<close>

definition command_start :: "string \<Rightarrow> 32 word \<Rightarrow> fbt \<Rightarrow> (int \<times> string \<times> fbt) cres" where
  "command_start cmd sz st =
     (if length cmd > FB_COMMAND_SZ
      then cbind (set_error (''command too large ('' @ show_nat (length cmd) @ '')'') st) (\<lambda>s. Inr (-1, [], s))
      else let (n, s) = t_write cmd st
           in if n \<noteq> int (length cmd) then fail_closed (''command write failed ('' @ t_errno s @ '')'') s
              else check_response sz s)"

definition command_write_data :: "string \<Rightarrow> fbt \<Rightarrow> (int \<times> fbt) cres" where
  "command_write_data bytes st =
     (let (r, s) = t_write bytes st
      in if r < 0
         then cbind (set_error (''data write failure ('' @ t_errno s @ '')'') s) (\<lambda>s1. Inr (-1, t_close s1))
         else if r \<noteq> int (length bytes)
         then cbind (set_error ''data write failure (short transfer)'' s) (\<lambda>s1. Inr (-1, t_close s1))
         else Inr (r, s))"

definition command_end :: "fbt \<Rightarrow> (int \<times> fbt) cres" where
  "command_end st = cbind (check_response 0 st) (\<lambda>(r, _, s). Inr (if r < 0 then -1 else 0, s))"

definition command_send :: "string \<Rightarrow> string \<Rightarrow> 32 word \<Rightarrow> fbt \<Rightarrow> (int \<times> fbt) cres" where
  "command_send cmd bytes sz st =
     (if sz = 0 then Inr (-1, st)
      else cbind (command_start cmd sz st) (\<lambda>(r, _, s1). if r < 0 then Inr (-1, s1) else
           cbind (command_write_data bytes s1) (\<lambda>(r2, s2). if r2 < 0 then Inr (-1, s2) else
           cbind (command_end s2) (\<lambda>(r3, s3). if r3 < 0 then Inr (-1, s3) else Inr (uint sz, s3)))))"

text \<open>The parts of at most \<open>n\<close> bytes that a loop cuts a string into.\<close>

function pieces :: "nat \<Rightarrow> string \<Rightarrow> string list" where
  "pieces n s = (if s = [] \<or> n = 0 then [] else take n s # pieces n (drop n s))"
  by pat_completeness auto
termination by (relation "measure (\<lambda>(n, s). length s)") auto

declare pieces.simps [simp del]

fun send_pieces :: "string list \<Rightarrow> fbt \<Rightarrow> (int \<times> fbt) cres" where
  "send_pieces [] st = Inr (0, st)"
| "send_pieces (p # ps) st = cbind (command_write_data p st) (\<lambda>(r, s). if r < 0 then Inr (-1, s) else send_pieces ps s)"

text \<open>The loop maps at most \<^verbatim>\<open>MAX_MAP_SIZE\<close> bytes of the file at a time; a mapping is taken to succeed.\<close>

definition command_send_fd :: "string \<Rightarrow> string \<Rightarrow> 32 word \<Rightarrow> fbt \<Rightarrow> (int \<times> fbt) cres" where
  "command_send_fd cmd file_bytes sz st =
     cbind (command_start cmd sz st) (\<lambda>(r, _, s1). if r < 0 then Inr (-1, s1) else
     cbind (send_pieces (pieces MAX_MAP_SIZE (take (unat sz) file_bytes)) s1) (\<lambda>(r2, s2). if r2 < 0 then Inr (-1, s2) else
     cbind (command_end s2) (\<lambda>(r3, s3). if r3 < 0 then Inr (-1, s3) else Inr (uint sz, s3))))"

definition fb_command_plain :: "string \<Rightarrow> fbt \<Rightarrow> (int \<times> fbt) cres" where
  "fb_command_plain cmd st = cbind (command_start cmd 0 st) (\<lambda>(r, _, s). Inr (r, s))"

definition fb_command_response :: "string \<Rightarrow> fbt \<Rightarrow> (int \<times> string \<times> fbt) cres" where
  "fb_command_response cmd st = command_start cmd 0 st"

definition download_cmd :: "32 word \<Rightarrow> string" where
  "download_cmd sz = ''download:'' @ show_x8 (unat sz)"

definition fb_download_data :: "string \<Rightarrow> 32 word \<Rightarrow> fbt \<Rightarrow> (int \<times> fbt) cres" where
  "fb_download_data bytes sz st =
     cbind (set_error (download_cmd sz) st) (\<lambda>s.
     cbind (command_send (t_error_msg s) bytes sz s) (\<lambda>(r, s1). Inr (if r < 0 then -1 else 0, s1)))"

definition fb_download_data_fd :: "string \<Rightarrow> 32 word \<Rightarrow> fbt \<Rightarrow> (int \<times> fbt) cres" where
  "fb_download_data_fd bytes sz st =
     cbind (set_error (download_cmd sz) st) (\<lambda>s.
     cbind (command_send_fd (t_error_msg s) bytes sz s) (\<lambda>(r, s1). Inr (if r < 0 then -1 else 0, s1)))"

definition fb_getvar :: "string \<Rightarrow> fbt \<Rightarrow> (string option \<times> fbt) cres" where
  "fb_getvar key st =
     cbind (fb_command_response (''getvar:'' @ key) st) (\<lambda>(r, buf, s). Inr (if r \<noteq> 0 then None else Some buf, s))"

section \<open>Queue of actions\<close>

text \<open>The callbacks; a failure is noted with the text of the error.\<close>

definition cb_default :: "int \<Rightarrow> string \<Rightarrow> fbt \<Rightarrow> (int \<times> fbt) cres" where
  "cb_default rc resp st =
     cbind (strcpy_cap GFB_MSG_LEN (if rc \<noteq> 0 then ''FAILED ('' @ resp @ '')'' @ [NL] else ''OKAY ['' @ t_secs st @ ''s]'' @ [NL])) (\<lambda>m.
     cbind (push_fastboot_output_msg m st) (\<lambda>s. Inr (rc, s)))"

definition cb_do_nothing :: "fbt \<Rightarrow> (int \<times> fbt) cres" where
  "cb_do_nothing st = Inr (0, st)"

definition call_back :: "callback \<Rightarrow> int \<Rightarrow> string \<Rightarrow> fbt \<Rightarrow> (int \<times> fbt) cres" where
  "call_back f rc resp st = (case f of CB_DEFAULT \<Rightarrow> cb_default rc resp st | CB_DO_NOTHING \<Rightarrow> cb_do_nothing st)"

definition queue_action :: "action \<Rightarrow> fbt \<Rightarrow> fbt" where
  "queue_action a st = st\<lparr>t_queue := t_queue st @ [a]\<rparr>"

definition new_action :: "op \<Rightarrow> string \<Rightarrow> action" where
  "new_action p cmd = \<lparr>a_op = p, a_cmd = cmd, a_msg = [], a_data = [], a_size = 0, a_func = CB_DEFAULT\<rparr>"

definition fb_queue_flash_fd :: "string \<Rightarrow> string \<Rightarrow> 32 word \<Rightarrow> fbt \<Rightarrow> fbt cres" where
  "fb_queue_flash_fd part bytes sz st =
     cbind (strcpy_cap GFB_MSG_LEN (''Sending '' @ [CHR 0x27] @ part @ [CHR 0x27] @ '' ('' @ show_nat (unat sz div 1024) @ '' KB)...'')) (\<lambda>m1.
     cbind (strcpy_cap GFB_MSG_LEN (''Writing '' @ [CHR 0x27] @ part @ [CHR 0x27] @ '' ....'')) (\<lambda>m2.
       Inr (queue_action ((new_action OP_COMMAND (''flash:'' @ part))\<lparr>a_msg := m2\<rparr>)
              (queue_action ((new_action OP_DOWNLOAD_FD [])\<lparr>a_msg := m1, a_data := bytes, a_size := sz\<rparr>) st))))"

definition fb_queue_reboot :: "fbt \<Rightarrow> fbt" where
  "fb_queue_reboot = queue_action ((new_action OP_COMMAND ''reboot'')\<lparr>a_msg := ''Rebooting...'', a_func := CB_DO_NOTHING\<rparr>)"

definition fb_queue_command :: "string \<Rightarrow> string \<Rightarrow> fbt \<Rightarrow> fbt" where
  "fb_queue_command cmd msg = queue_action ((new_action OP_COMMAND cmd)\<lparr>a_msg := msg\<rparr>)"

definition fb_queue_wait_for_disconnect :: "fbt \<Rightarrow> fbt" where
  "fb_queue_wait_for_disconnect = queue_action (new_action OP_WAIT_FOR_DISCONNECT [])"

text \<open>The end of an action: the callback is given the error text of a failure, or \<open>resp\<close>.\<close>

definition conclude :: "action \<Rightarrow> string \<Rightarrow> int \<times> fbt \<Rightarrow> (int \<times> fbt) cres" where
  "conclude a resp = (\<lambda>(rc, s). call_back (a_func a) rc (if rc \<noteq> 0 then t_error_msg s else resp) s)"

text \<open>\<open>None\<close>: \<^verbatim>\<open>die\<close> ends the process.\<close>

definition run_action :: "action \<Rightarrow> int \<Rightarrow> fbt \<Rightarrow> (int option \<times> fbt) cres" where
  "run_action a rc st =
     (let fin = (\<lambda>r. cbind r (\<lambda>(v, s). Inr (Some v, s)))
      in case a_op a of
           OP_DOWNLOAD \<Rightarrow> fin (cbind (fb_download_data (a_data a) (a_size a) st) (conclude a []))
         | OP_DOWNLOAD_FD \<Rightarrow> fin (cbind (fb_download_data_fd (a_data a) (a_size a) st) (conclude a []))
         | OP_COMMAND \<Rightarrow> fin (cbind (fb_command_plain (a_cmd a) st) (conclude a []))
         | OP_QUERY \<Rightarrow> fin (cbind (fb_command_response (a_cmd a) st) (\<lambda>(r, resp, s). conclude a resp (r, s)))
         | OP_NOTICE \<Rightarrow> Inr (Some rc, st)
         | OP_WAIT_FOR_DISCONNECT \<Rightarrow> Inr (Some rc, st)
         | OP_DOWNLOAD_SPARSE \<Rightarrow> Inr (None, st)
         | OP_UPLOAD \<Rightarrow> Inr (None, st))"

fun run_actions :: "action list \<Rightarrow> int \<Rightarrow> fbt \<Rightarrow> (int option \<times> fbt) cres" where
  "run_actions [] rc st = Inr (Some rc, st)"
| "run_actions (a # as) rc st =
     cbind (run_action a rc st) (\<lambda>(r, s).
       case r of
         None \<Rightarrow> Inr (None, s)
       | Some v \<Rightarrow> if v \<noteq> 0 then Inr (Some v, s) else run_actions as v s)"

definition fb_execute_queue :: "fbt \<Rightarrow> (int option \<times> fbt) cres" where
  "fb_execute_queue st = cbind (run_actions (t_queue st) 0 st) (\<lambda>(r, s). Inr (r, s\<lparr>t_queue := []\<rparr>))"

section \<open>fastboot_main\<close>

text \<open>\<^verbatim>\<open>open_device\<close> looks for the device until it is there.\<close>

fun open_device :: "bool list \<Rightarrow> fbt \<Rightarrow> fbt cres" where
  "open_device [] st = Inl Blocked"
| "open_device (p # ps) st = (if p then Inr (st\<lparr>t_present := ps, t_open := True\<rparr>) else open_device ps st)"

definition check_fastboot_download_port :: "fbt \<Rightarrow> int \<times> fbt" where
  "check_fastboot_download_port st =
     (case t_present st of [] \<Rightarrow> (0, st) | p # ps \<Rightarrow> (if p then 1 else 0, st\<lparr>t_present := ps\<rparr>))"

definition get_current_slot :: "fbt \<Rightarrow> (string \<times> fbt) cres" where
  "get_current_slot st =
     cbind (fb_getvar ''current-slot'' st) (\<lambda>(v, s).
       Inr (case v of None \<Rightarrow> [] | Some c \<Rightarrow> if c = ''_a'' then ''a'' else if c = ''_b'' then ''b'' else c, s))"

text \<open>The name of the partition with its slot; \<open>None\<close> when \<^verbatim>\<open>die\<close> ends the process.\<close>

definition do_for_partition :: "string \<Rightarrow> string \<Rightarrow> fbt \<Rightarrow> (string option \<times> fbt) cres" where
  "do_for_partition part slot st =
     cbind (fb_getvar (''has-slot:'' @ part) st) (\<lambda>(v, s).
       if v = Some ''yes''
       then (if slot = []
             then cbind (get_current_slot s) (\<lambda>(current_slot, s1).
                    Inr (if current_slot = [] then None else Some (part @ ''_'' @ current_slot), s1))
             else Inr (Some (part @ ''_'' @ slot), s))
       else Inr (Some part, s))"

definition load_buf :: "string \<Rightarrow> fs \<Rightarrow> string option" where
  "load_buf fname w = fopen_r w fname"

definition do_flash :: "string \<Rightarrow> string \<Rightarrow> fs \<Rightarrow> fbt \<Rightarrow> (bool \<times> fbt) cres" where
  "do_flash pname fname w st =
     (case load_buf fname w of
        None \<Rightarrow> Inr (False, st)
      | Some bytes \<Rightarrow> cbind (fb_queue_flash_fd pname bytes (of_nat (length bytes)) st) (\<lambda>s. Inr (True, s)))"

definition do_oem_command :: "string \<Rightarrow> string option \<Rightarrow> string option \<Rightarrow> fbt \<Rightarrow> fbt cres" where
  "do_oem_command cmd arg1 arg2 st =
     cbind (strcpy_cap 128 (case (arg1, arg2) of
              (Some a1, None) \<Rightarrow> cmd @ '' '' @ a1
            | (Some a1, Some a2) \<Rightarrow> cmd @ '' '' @ a1 @ '' '' @ a2
            | _ \<Rightarrow> [])) (\<lambda>c. Inr (fb_queue_command c [] st))"

text \<open>The actions that a command puts into the queue; the branch that would erase is commented out.\<close>

definition queue_command :: "fb_command \<Rightarrow> string option \<Rightarrow> string option \<Rightarrow> fs \<Rightarrow> fbt \<Rightarrow> (bool \<times> fbt) cres" where
  "queue_command exe_case argv1 argv2 w st =
     (case exe_case of
        FASTBOOT_REBOOT_COMMAND \<Rightarrow> Inr (True, fb_queue_wait_for_disconnect (fb_queue_reboot st))
      | FASTBOOT_FLASH_COMMAND \<Rightarrow>
          (case (argv1, argv2) of
             (Some pname, Some fname) \<Rightarrow>
               if fname = [] then Inr (False, st)
               else cbind (do_for_partition pname [] st) (\<lambda>(part, s).
                      case part of None \<Rightarrow> Inr (False, s) | Some p \<Rightarrow> do_flash p fname w s)
           | _ \<Rightarrow> Inr (True, st))
      | FASTBOOT_OEM_COMMAND \<Rightarrow> cbind (do_oem_command ''oem'' argv1 argv2 st) (\<lambda>s. Inr (True, s))
      | FASTBOOT_FLASHING_COMMAND \<Rightarrow>
          (case argv1 of
             None \<Rightarrow> Inr (True, st)
           | Some _ \<Rightarrow> cbind (do_oem_command ''flashing'' argv1 argv2 st) (\<lambda>s. Inr (True, s)))
      | FASTBOOT_EARSE_COMMAND \<Rightarrow> Inr (True, st))"

definition fastboot_main :: "fb_command \<Rightarrow> string option \<Rightarrow> string option \<Rightarrow> fs \<Rightarrow> fbt \<Rightarrow> (int option \<times> fbt) cres" where
  "fastboot_main exe_case argv1 argv2 w st =
     cbind (open_device (t_present st) st) (\<lambda>s0.
     cbind (queue_command exe_case argv1 argv2 w (rest_fastboot_output_msg s0)) (\<lambda>(alive, s1).
       if \<not> alive then Inr (None, s1)
       else cbind (fb_execute_queue s1) (\<lambda>(r, s2).
            Inr (case r of None \<Rightarrow> None | Some v \<Rightarrow> Some (if v \<noteq> 0 then 1 else 0), t_close s2))))"

text \<open>A command of the updater with the library behind it; \<open>None\<close> when the process ended.\<close>

definition send_command_on_wire ::
  "int \<times> int \<Rightarrow> fb_command \<Rightarrow> string option \<Rightarrow> string option \<Rightarrow> flash_step \<Rightarrow> fs \<Rightarrow> fdtl \<times> fbt \<Rightarrow> (int option \<times> fdtl \<times> fbt) cres"
where
  "send_command_on_wire os exe_case argv1 argv2 step w = (\<lambda>(fd, st).
     cbind (fastboot_main exe_case argv1 argv2 w st) (\<lambda>(r, s).
       case r of
         None \<Rightarrow> Inr (None, fd, s)
       | Some _ \<Rightarrow> cbind (post_process_fastboot step os (answers (t_msgs s)) fd) (\<lambda>(v, fd'). Inr (Some v, fd', s))))"

section \<open>What a command leaves\<close>

definition is_info :: "string \<Rightarrow> bool" where
  "is_info m \<longleftrightarrow> prefix ''(bootloader) '' m"

definition is_failed :: "string \<Rightarrow> bool" where
  "is_failed m \<longleftrightarrow> prefix ''FAILED'' m"

text \<open>\<open>heard\<close>: from one state to a later one while responses are read: lines of the boot loader are added to the messages.\<close>

definition heard :: "fbt \<Rightarrow> fbt \<Rightarrow> bool" where
  "heard st s \<longleftrightarrow> t_queue s = t_queue st \<and> (\<exists>infos. t_msgs s = t_msgs st @ infos \<and> list_all is_info infos)
     \<and> (length (t_msgs st) \<le> FB_MAX_INFO_COUNT \<longrightarrow> length (t_msgs s) \<le> FB_MAX_INFO_COUNT)
     \<and> (list_all (\<lambda>m. length m < FB_MAX_MSG_LEN) (t_msgs st) \<longrightarrow> list_all (\<lambda>m. length m < FB_MAX_MSG_LEN) (t_msgs s))"

text \<open>\<open>acknowledged\<close>: the last status that was read is an \<^verbatim>\<open>OKAY\<close>.\<close>

definition acknowledged :: "fbt \<Rightarrow> fbt \<Rightarrow> bool" where
  "acknowledged st s \<longleftrightarrow> (\<exists>used r. t_reads st = used @ Some r # t_reads s \<and> take 4 r = ''OKAY'')"

definition reads_on :: "fbt \<Rightarrow> fbt \<Rightarrow> bool" where
  "reads_on st s \<longleftrightarrow> suffix (t_reads s) (t_reads st)"

lemma heard_refl [simp]: "heard st st"
  by (simp add: heard_def)

lemma heard_trans: "heard a b \<Longrightarrow> heard b c \<Longrightarrow> heard a c"
  unfolding heard_def by (elim conjE exE) (intro conjI, simp, rule exI, rule conjI, simp, simp, simp, simp)

lemma heard_same: "t_queue s = t_queue st \<Longrightarrow> t_msgs s = t_msgs st \<Longrightarrow> heard st s"
  by (simp add: heard_def)

lemma reads_on_refl [simp]: "reads_on st st"
  by (simp add: reads_on_def)

lemma reads_on_trans: "reads_on a b \<Longrightarrow> reads_on b c \<Longrightarrow> reads_on a c"
  unfolding reads_on_def using suffix_order.trans by blast

lemma acknowledged_later: "reads_on a b \<Longrightarrow> acknowledged b c \<Longrightarrow> acknowledged a c"
  by (auto simp: reads_on_def acknowledged_def suffix_def)

lemma set_error_post: "cpost (\<lambda>s. s = st\<lparr>t_error_msg := txt\<rparr>) (set_error txt st)"
  by (simp add: set_error_def strcpy_cap_def)

lemma push_post: "cpost (\<lambda>s. s = st\<lparr>t_msgs := t_msgs st @ [m]\<rparr> \<and> length (t_msgs s) \<le> FB_MAX_INFO_COUNT \<and> length m < FB_MAX_MSG_LEN)
    (push_fastboot_output_msg m st)"
  by (auto simp: push_fastboot_output_msg_def strcpy_cap_def cassert_def)

lemma fail_closed_post: "cpost (\<lambda>(r, resp, s). s = st\<lparr>t_error_msg := txt, t_open := False\<rparr> \<and> r = -1) (fail_closed txt st)"
  unfolding fail_closed_def t_close_def by (rule cpost_cbindI [OF set_error_post]) simp

lemma info_line_post: "cpost (\<lambda>s. heard st s \<and> t_reads s = t_reads st \<and> t_sent s = t_sent st \<and> t_open s = t_open st) (info_line r st)"
  unfolding info_line_def
  by (rule cpost_cbindI [OF set_error_post], rule cpost_weaken [OF push_post]) (auto simp: heard_def is_info_def)

lemma minus_one_le_uint [simp]: "- 1 \<le> uint w"
  using uint_ge_0 [of w] by linarith

lemma final_status_post:
  "cpost (\<lambda>(r, resp, s). heard st s \<and> t_reads s = t_reads st \<and> t_sent s = t_sent st
     \<and> -1 \<le> r \<and> (sz = 0 \<longrightarrow> r \<le> 0) \<and> (r \<ge> 0 \<longrightarrow> take 4 x = ''OKAY'' \<or> take 4 x = ''DATA'' \<and> 0 < sz \<and> r \<le> uint sz)) (final_status sz x st)"
  unfolding final_status_def Let_def
  by (intro cpost_ifI) (auto intro!: cpost_cbindI [OF set_error_post] cpost_weaken [OF fail_closed_post] heard_same
      simp: word_le_def not_less)

text \<open>What the loop over the statuses keeps.\<close>

definition answered_from :: "32 word \<Rightarrow> fbt \<Rightarrow> int \<Rightarrow> fbt \<Rightarrow> bool" where
  "answered_from sz st r s \<longleftrightarrow> heard st s \<and> reads_on st s \<and> t_sent s = t_sent st \<and> -1 \<le> r \<and> (sz = 0 \<longrightarrow> r \<le> 0)
     \<and> (sz = 0 \<and> r = 0 \<longrightarrow> acknowledged st s)"

lemma check_loop_post: "t_reads st = rs \<Longrightarrow> cpost (\<lambda>(r, resp, s). answered_from sz st r s) (check_loop sz rs st)"
proof (induction rs arbitrary: st)
  case (Cons r rs)
  show ?case
  proof (cases r)
    case None
    then show ?thesis using Cons.prems
      by (auto intro!: cpost_weaken [OF fail_closed_post] simp: answered_from_def heard_def reads_on_def suffix_Cons)
  next
    case (Some x)
    let ?s = "st\<lparr>t_reads := rs\<rparr>"
    have on: "heard st ?s" "reads_on st ?s" by (auto simp: heard_def reads_on_def Cons.prems suffix_Cons)
    have later: "answered_from sz st v s" if "answered_from sz s1 v s" "heard ?s s1" "t_reads s1 = rs" "t_sent s1 = t_sent st" for s1 v s
    proof -
      have "reads_on st s1" using that(3) on(2) by (simp add: reads_on_def)
      then show ?thesis using that on(1) heard_trans [of st ?s s1] heard_trans [of st s1 s] reads_on_trans acknowledged_later
        by (auto simp: answered_from_def)
    qed
    have info: "cpost (\<lambda>(v, resp, s). answered_from sz st v s) (cbind (info_line (take 64 x) ?s) (check_loop sz rs))"
      by (rule cpost_cbindI [OF info_line_post], rule cpost_weaken [OF Cons.IH]) (auto intro: later)
    have final: "cpost (\<lambda>(v, resp, s). answered_from sz st v s) (final_status sz (take 64 x) ?s)"
      by (rule cpost_weaken [OF final_status_post])
        (use Cons.prems Some heard_trans [OF on(1)] in \<open>auto simp: answered_from_def acknowledged_def reads_on_def suffix_Cons min_def\<close>)
    have short: "cpost (\<lambda>(v, resp, s). answered_from sz st v s) (fail_closed why ?s)" for why
      by (rule cpost_weaken [OF fail_closed_post]) (use Cons.prems in \<open>auto simp: answered_from_def heard_def reads_on_def suffix_Cons\<close>)
    show ?thesis unfolding Some check_loop.simps Let_def by (intro cpost_ifI short info final)
  qed
qed simp

lemma check_response_post: "cpost (\<lambda>(r, resp, s). answered_from sz st r s) (check_response sz st)"
proof -
  have "cpost (\<lambda>(r, resp, s). answered_from sz st r s) (fail_closed why st)" for why
    by (rule cpost_weaken [OF fail_closed_post]) (auto simp: answered_from_def heard_def reads_on_def)
  then show ?thesis unfolding check_response_def using check_loop_post [OF refl] by simp
qed

text \<open>\<open>said\<close>: a step that sends the texts \<open>out\<close> when it succeeds.\<close>

definition said :: "fbt \<Rightarrow> string list \<Rightarrow> int \<Rightarrow> fbt \<Rightarrow> bool" where
  "said st out r s \<longleftrightarrow> heard st s \<and> reads_on st s \<and> prefix (t_sent st) (t_sent s) \<and> -1 \<le> r \<and> (r \<ge> 0 \<longrightarrow> t_sent s = t_sent st @ out)"

lemma said_fail: "heard st s \<Longrightarrow> reads_on st s \<Longrightarrow> prefix (t_sent st) (t_sent s) \<Longrightarrow> said st out (-1) s"
  by (simp add: said_def)

lemma said_trans: "said st out r s \<Longrightarrow> r \<ge> 0 \<Longrightarrow> said s out' r' s' \<Longrightarrow> said st (out @ out') r' s'"
  by (auto simp: said_def intro: heard_trans reads_on_trans prefix_order.trans)

lemma said_stop: "said st out r s \<Longrightarrow> said st out' (-1) s"
  by (simp add: said_def)

lemma said_value: "said st out r s \<Longrightarrow> \<not> r < 0 \<Longrightarrow> 0 \<le> v \<Longrightarrow> said st out v s"
  by (simp add: said_def)

lemma said_cpost:
  "said st out r s \<Longrightarrow> \<not> r < 0 \<Longrightarrow> cpost (\<lambda>(r', s'). said s out' r' s' \<and> Q r') m \<Longrightarrow> cpost (\<lambda>(r', s'). said st (out @ out') r' s' \<and> Q r') m"
  by (erule cpost_weaken) (auto simp: not_less dest: said_trans [of st out r s])

lemma t_write_said:
  assumes "t_write bytes st = (n, s)"
  shows "t_reads s = t_reads st" "t_msgs s = t_msgs st" "t_queue s = t_queue st" "-1 \<le> n"
    "prefix (t_sent st) (t_sent s)" "n = int (length bytes) \<Longrightarrow> t_sent s = t_sent st @ [bytes]"
  using assms by (auto simp: t_write_def min_def split: if_splits list.splits option.splits)

lemma command_start_post:
  "cpost (\<lambda>(r, resp, s). said st [cmd] r s \<and> (sz = 0 \<longrightarrow> r \<le> 0) \<and> (sz = 0 \<and> r = 0 \<longrightarrow> acknowledged st s)) (command_start cmd sz st)"
proof -
  obtain n s where w: "t_write cmd st = (n, s)" by (cases "t_write cmd st")
  note keep = t_write_said [OF w]
  have on: "heard st s" "reads_on st s" using keep by (simp_all add: heard_same reads_on_def)
  have long: "cpost (\<lambda>(r, resp, s). said st [cmd] r s \<and> (sz = 0 \<longrightarrow> r \<le> 0) \<and> (sz = 0 \<and> r = 0 \<longrightarrow> acknowledged st s))
      (cbind (set_error why st) (\<lambda>s. Inr (-1, [], s)))" for why
    by (rule cpost_cbindI [OF set_error_post]) (auto intro!: said_fail simp: heard_same reads_on_def)
  have closed: "cpost (\<lambda>(r, resp, s). said st [cmd] r s \<and> (sz = 0 \<longrightarrow> r \<le> 0) \<and> (sz = 0 \<and> r = 0 \<longrightarrow> acknowledged st s)) (fail_closed why s)" for why
    by (rule cpost_weaken [OF fail_closed_post]) (use keep in \<open>auto intro!: said_fail simp: heard_same reads_on_def\<close>)
  have answer: "cpost (\<lambda>(r, resp, s). said st [cmd] r s \<and> (sz = 0 \<longrightarrow> r \<le> 0) \<and> (sz = 0 \<and> r = 0 \<longrightarrow> acknowledged st s)) (check_response sz s)"
    if "n = int (length cmd)"
    by (rule cpost_weaken [OF check_response_post])
      (use keep(5) keep(6) [OF that] on in \<open>auto simp: answered_from_def said_def intro: heard_trans reads_on_trans acknowledged_later\<close>)
  show ?thesis unfolding command_start_def w Let_def prod.case
    by (intro cpost_ifI long closed answer) simp
qed

lemma command_write_data_post:
  "cpost (\<lambda>(r, s). said st [bytes] r s \<and> t_reads s = t_reads st) (command_write_data bytes st)"
proof -
  obtain n s where w: "t_write bytes st = (n, s)" by (cases "t_write bytes st")
  note keep = t_write_said [OF w]
  have bad: "cpost (\<lambda>(r, s). said st [bytes] r s \<and> t_reads s = t_reads st) (cbind (set_error why s) (\<lambda>s1. Inr (-1, t_close s1)))" for why
    by (rule cpost_cbindI [OF set_error_post]) (use keep in \<open>auto intro!: said_fail simp: heard_same reads_on_def t_close_def\<close>)
  show ?thesis unfolding command_write_data_def w Let_def prod.case
    by (intro cpost_ifI bad) (use keep in \<open>auto simp: said_def heard_same reads_on_def\<close>)
qed

lemma command_end_post: "cpost (\<lambda>(r, s). said st [] r s \<and> r \<le> 0 \<and> (r = 0 \<longrightarrow> acknowledged st s)) (command_end st)"
  unfolding command_end_def
  by (rule cpost_cbindI [OF check_response_post]) (auto simp: answered_from_def said_def)

lemma send_pieces_post: "cpost (\<lambda>(r, s). said st ps r s \<and> r \<le> 0) (send_pieces ps st)"
proof (induction ps arbitrary: st)
  case (Cons p ps)
  show ?case unfolding send_pieces.simps
    by (rule cpost_cbindI [OF command_write_data_post], clarify, rule cpost_ifI)
      (auto intro: said_stop dest: said_cpost [OF _ _ Cons.IH, of _ "[p]"])
qed (simp add: said_def)

definition image_pieces :: "string \<Rightarrow> 32 word \<Rightarrow> string list" where
  "image_pieces bytes sz = pieces MAX_MAP_SIZE (take (unat sz) bytes)"

lemma fb_download_data_fd_post:
  "cpost (\<lambda>(r, s). said st (download_cmd sz # image_pieces bytes sz) r s \<and> r \<le> 0) (fb_download_data_fd bytes sz st)"
proof -
  let ?P = "\<lambda>cmd st (r :: int, s). said st (cmd # image_pieces bytes sz) r s"
  have send: "cpost (\<lambda>(r, s). ?P cmd st (r, s)) (command_send_fd cmd bytes sz st)" for cmd st
    unfolding command_send_fd_def image_pieces_def
  proof (rule cpost_cbindI [OF command_start_post], clarify, rule cpost_ifI)
    fix r :: int and resp s1 assume s1: "said st [cmd] r s1" and nonneg: "\<not> r < 0"
    show "cpost (\<lambda>(r, s). said st (cmd # pieces MAX_MAP_SIZE (take (unat sz) bytes)) r s)
      (cbind (send_pieces (pieces MAX_MAP_SIZE (take (unat sz) bytes)) s1) (\<lambda>(r2, s2). if r2 < 0 then Inr (-1, s2) else
         cbind (command_end s2) (\<lambda>(r3, s3). if r3 < 0 then Inr (-1, s3) else Inr (uint sz, s3))))"
    proof (rule cpost_cbindI [OF send_pieces_post], clarify, rule cpost_ifI)
      fix r2 :: int and s2 assume s2: "said s1 (pieces MAX_MAP_SIZE (take (unat sz) bytes)) r2 s2"
      have s12: "said st (cmd # pieces MAX_MAP_SIZE (take (unat sz) bytes)) r2 s2"
        using said_trans [OF s1 _ s2] nonneg by simp
      then show "cpost (\<lambda>(r, s). said st (cmd # pieces MAX_MAP_SIZE (take (unat sz) bytes)) r s) (Inr (-1, s2))"
        by (auto intro: said_stop)
      assume n2: "\<not> r2 < 0"
      have r3: "said st (cmd # pieces MAX_MAP_SIZE (take (unat sz) bytes)) r3 s3" if "said s2 [] r3 s3" for r3 s3
        using said_trans [OF s12 _ that] n2 by simp
      show "cpost (\<lambda>(r, s). said st (cmd # pieces MAX_MAP_SIZE (take (unat sz) bytes)) r s)
          (cbind (command_end s2) (\<lambda>(r3, s3). if r3 < 0 then Inr (-1, s3) else Inr (uint sz, s3)))"
        by (rule cpost_cbindI [OF command_end_post], clarify, rule cpost_ifI) (auto dest!: r3 intro: said_stop said_value)
    qed
  qed (auto intro: said_stop)
  have from_error: "said st (cmd # out) r s" if "said (st\<lparr>t_error_msg := e\<rparr>) (cmd # out) r s" for cmd out r s e
    using that by (simp add: said_def heard_def reads_on_def)
  show ?thesis unfolding fb_download_data_fd_def
    by (rule cpost_cbindI [OF set_error_post], simp only: fbt.simps, rule cpost_cbindI [OF send])
      (auto dest!: from_error intro: said_stop said_value)
qed

section \<open>What the queue leaves\<close>

definition is_okay :: "string \<Rightarrow> bool" where
  "is_okay m \<longleftrightarrow> prefix ''OKAY ['' m"

definition is_message :: "string \<Rightarrow> bool" where
  "is_message m \<longleftrightarrow> length m < FB_MAX_MSG_LEN \<and> (is_info m \<or> is_okay m \<or> is_failed m)"

definition messages_ok :: "fbt \<Rightarrow> bool" where
  "messages_ok st \<longleftrightarrow> length (t_msgs st) \<le> FB_MAX_INFO_COUNT \<and> list_all is_message (t_msgs st)"

text \<open>\<open>noted\<close>: from one state to a later one while actions run.\<close>

definition noted :: "fbt \<Rightarrow> fbt \<Rightarrow> bool" where
  "noted st s \<longleftrightarrow> t_queue s = t_queue st \<and> prefix (t_msgs st) (t_msgs s) \<and> reads_on st s \<and> (messages_ok st \<longrightarrow> messages_ok s)"

lemma noted_refl [simp]: "noted st st"
  by (simp add: noted_def)

lemma noted_trans: "noted a b \<Longrightarrow> noted b c \<Longrightarrow> noted a c"
  by (auto simp: noted_def intro: prefix_order.trans reads_on_trans)

lemma heard_messages: "heard st s \<Longrightarrow> messages_ok st \<Longrightarrow> messages_ok s"
proof -
  assume h: "heard st s" and ok: "messages_ok st"
  have "list_all (\<lambda>m. length m < FB_MAX_MSG_LEN) (t_msgs st)" using ok by (auto simp: messages_ok_def is_message_def list_all_iff)
  moreover obtain infos where "t_msgs s = t_msgs st @ infos" "list_all is_info infos" using h by (auto simp: heard_def)
  ultimately show ?thesis using h ok by (auto simp: heard_def messages_ok_def is_message_def list_all_iff)
qed

lemma heard_noted: "heard st s \<Longrightarrow> reads_on st s \<Longrightarrow> noted st s"
  using heard_messages [of st s] by (auto simp: noted_def heard_def)

lemma said_noted: "said st out r s \<Longrightarrow> noted st s"
  by (simp add: said_def heard_noted)

lemma cb_default_post:
  "cpost (\<lambda>(v, s). v = rc \<and> noted st s \<and> t_sent s = t_sent st \<and> t_reads s = t_reads st
     \<and> (\<exists>m. t_msgs s = t_msgs st @ [m] \<and> (if rc = 0 then is_okay m else is_failed m))) (cb_default rc resp st)"
  unfolding cb_default_def
proof (rule cpost_cbind_any, rule cpost_cbindI [OF push_post])
  fix m s assume m: "strcpy_cap GFB_MSG_LEN (if rc \<noteq> 0 then ''FAILED ('' @ resp @ '')'' @ [NL] else ''OKAY ['' @ t_secs st @ ''s]'' @ [NL]) = Inr m"
    and s: "s = st\<lparr>t_msgs := t_msgs st @ [m]\<rparr> \<and> length (t_msgs s) \<le> FB_MAX_INFO_COUNT \<and> length m < FB_MAX_MSG_LEN"
  have kind: "if rc = 0 then is_okay m else is_failed m"
    using m by (auto simp: strcpy_cap_def is_okay_def is_failed_def split: if_splits)
  moreover have "is_okay m \<or> is_failed m" using kind by (simp split: if_splits)
  ultimately show "cpost (\<lambda>(v, s). v = rc \<and> noted st s \<and> t_sent s = t_sent st \<and> t_reads s = t_reads st
     \<and> (\<exists>m. t_msgs s = t_msgs st @ [m] \<and> (if rc = 0 then is_okay m else is_failed m))) (Inr (rc, s))"
    using s by (auto simp: noted_def reads_on_def messages_ok_def is_message_def)
qed

text \<open>What an action sends.\<close>

definition action_out :: "action \<Rightarrow> string list" where
  "action_out a = (if a_op a = OP_DOWNLOAD_FD then download_cmd (a_size a) # image_pieces (a_data a) (a_size a) else [a_cmd a])"

definition plain_action :: "action \<Rightarrow> bool" where
  "plain_action a \<longleftrightarrow> a_op a \<in> {OP_COMMAND, OP_DOWNLOAD_FD} \<and> a_func a = CB_DEFAULT"

text \<open>\<open>ended st out b v s\<close>: the actions that send \<open>out\<close> ended with the value \<open>v\<close>; \<open>b\<close>: the last one was a command.\<close>

definition ended :: "fbt \<Rightarrow> string list \<Rightarrow> bool \<Rightarrow> int \<Rightarrow> fbt \<Rightarrow> bool" where
  "ended st out b v s \<longleftrightarrow> noted st s \<and> (v \<noteq> 0 \<longrightarrow> (\<exists>m \<in> set (t_msgs s). is_failed m))
     \<and> (v = 0 \<longrightarrow> t_sent s = t_sent st @ out \<and> (b \<longrightarrow> acknowledged st s))"

lemma conclude_plain:
  assumes "a_func a = CB_DEFAULT" "said st out r s" "r \<le> 0" "b \<longrightarrow> r = 0 \<longrightarrow> acknowledged st s"
  shows "cpost (\<lambda>(v, s'). ended st out b v s') (conclude a resp (r, s))"
proof -
  have n: "noted st s" using said_noted [OF assms(2)] .
  have "ended st out b v s'" if "v = r" "noted s s'" "t_sent s' = t_sent s" "t_reads s' = t_reads s"
      "t_msgs s' = t_msgs s @ [m]" "if r = 0 then is_okay m else is_failed m" for v s' m
    using that assms n noted_trans [OF n that(2)] by (auto simp: ended_def said_def acknowledged_def)
  then show ?thesis
    by (auto simp: conclude_def call_back_def assms(1) intro!: cpost_weaken [OF cb_default_post])
qed

lemma fb_command_plain_post: "cpost (\<lambda>(r, s). said st [cmd] r s \<and> r \<le> 0 \<and> (r = 0 \<longrightarrow> acknowledged st s)) (fb_command_plain cmd st)"
  unfolding fb_command_plain_def by (rule cpost_cbindI [OF command_start_post]) auto

lemma run_action_post:
  assumes "plain_action a"
  shows "cpost (\<lambda>(r, s). \<exists>v. r = Some v \<and> ended st (action_out a) (a_op a = OP_COMMAND) v s) (run_action a rc st)"
proof -
  let ?P = "\<lambda>(r, s). \<exists>v. r = Some v \<and> ended st (action_out a) (a_op a = OP_COMMAND) v s"
  have f: "a_func a = CB_DEFAULT" using assms by (simp add: plain_action_def)
  consider "a_op a = OP_COMMAND" | "a_op a = OP_DOWNLOAD_FD" using assms by (auto simp: plain_action_def)
  then show ?thesis
  proof cases
    case 1
    have "cpost (\<lambda>(v, s'). ended st (action_out a) True v s') (conclude a [] x)"
      if "case x of (r, s) \<Rightarrow> said st [a_cmd a] r s \<and> r \<le> 0 \<and> (r = 0 \<longrightarrow> acknowledged st s)" for x
      using that conclude_plain [OF f, of st "[a_cmd a]" "fst x" "snd x" True "[]"] by (cases x) (simp add: action_out_def 1)
    then have "cpost (\<lambda>(v, s'). ended st (action_out a) True v s') (cbind (fb_command_plain (a_cmd a) st) (conclude a []))"
      by (rule cpost_cbindI [OF fb_command_plain_post])
    from cpost_cbindI [OF this, of ?P "\<lambda>(v, s). Inr (Some v, s)"] show ?thesis by (simp add: run_action_def 1 case_prod_beta)
  next
    case 2
    have "cpost (\<lambda>(v, s'). ended st (action_out a) False v s') (conclude a [] x)"
      if "case x of (r, s) \<Rightarrow> said st (download_cmd (a_size a) # image_pieces (a_data a) (a_size a)) r s \<and> r \<le> 0" for x
      using that conclude_plain [OF f, of st "action_out a" "fst x" "snd x" False "[]"] by (cases x) (simp add: action_out_def 2)
    then have "cpost (\<lambda>(v, s'). ended st (action_out a) False v s') (cbind (fb_download_data_fd (a_data a) (a_size a) st) (conclude a []))"
      by (rule cpost_cbindI [OF fb_download_data_fd_post])
    from cpost_cbindI [OF this, of ?P "\<lambda>(v, s). Inr (Some v, s)"] show ?thesis by (simp add: run_action_def 2 case_prod_beta)
  qed
qed

lemma ended_next:
  assumes "ended st out b 0 s" "ended s out' b' v s'"
  shows "ended st (out @ out') b' v s'"
  using assms noted_trans [of st s s'] acknowledged_later [of st s s'] by (auto simp: ended_def noted_def)

lemma run_actions_post:
  "list_all plain_action as \<Longrightarrow> as \<noteq> [] \<Longrightarrow>
     cpost (\<lambda>(r, s). \<exists>v. r = Some v \<and> ended st (concat (map action_out as)) (a_op (last as) = OP_COMMAND) v s) (run_actions as rc st)"
proof (induction as arbitrary: rc st)
  case (Cons a as)
  have rest: "cpost (\<lambda>(r, s'). \<exists>v. r = Some v \<and> ended st (action_out a @ concat (map action_out as)) (a_op (last (a # as)) = OP_COMMAND) v s')
      (run_actions as 0 s)" if "ended st (action_out a) (a_op a = OP_COMMAND) 0 s" for s
  proof (cases "as = []")
    case True
    then show ?thesis using that by simp
  next
    case False
    then show ?thesis using Cons.prems ended_next [OF that] by (auto intro!: cpost_weaken [OF Cons.IH])
  qed
  have stop: "ended st out' b' v s" if "ended st out b v s" "v \<noteq> 0" for out out' b b' v s
    using that by (simp add: ended_def)
  have plain: "plain_action a" using Cons.prems(1) by simp
  show ?case unfolding run_actions.simps list.map concat.simps
    by (rule cpost_cbindI [OF run_action_post [OF plain]], clarify, simp only: option.case, rule cpost_ifI)
      (auto intro: stop rest simp del: last.simps)
qed simp

section \<open>What fastboot_main leaves\<close>

lemma fb_getvar_post: "cpost (\<lambda>(v, s). said st [''getvar:'' @ key] (if v = None then -1 else 0) s) (fb_getvar key st)"
  unfolding fb_getvar_def fb_command_response_def
  by (rule cpost_cbindI [OF command_start_post]) (auto simp: said_def)

definition names_partition :: "string \<Rightarrow> string \<Rightarrow> bool" where
  "names_partition part q \<longleftrightarrow> q = part \<or> (\<exists>slot. q = part @ ''_'' @ slot)"

text \<open>From the start of a command to the state in which its actions are put into the queue.\<close>

definition asked_device :: "fbt \<Rightarrow> fbt \<Rightarrow> bool" where
  "asked_device st s \<longleftrightarrow> heard st s \<and> reads_on st s \<and> prefix (t_sent st) (t_sent s)"

lemma asked_device_refl [simp]: "asked_device st st"
  by (simp add: asked_device_def)

lemma asked_device_trans: "asked_device a b \<Longrightarrow> asked_device b c \<Longrightarrow> asked_device a c"
  by (auto simp: asked_device_def intro: heard_trans reads_on_trans prefix_order.trans)

lemma getvar_asked: "cpost (\<lambda>(v, s). asked_device st s) (fb_getvar key st)"
  by (rule cpost_weaken [OF fb_getvar_post]) (auto simp: said_def asked_device_def)

lemma do_for_partition_post:
  "cpost (\<lambda>(p, s). asked_device st s \<and> (\<forall>q. p = Some q \<longrightarrow> names_partition part q)) (do_for_partition part [] st)"
proof -
  have slot: "cpost (\<lambda>(c, s'). asked_device st s') (get_current_slot s)" if "asked_device st s" for s
    unfolding get_current_slot_def
    by (rule cpost_cbindI [OF getvar_asked]) (use that asked_device_trans in auto)
  show ?thesis unfolding do_for_partition_def
    by (rule cpost_cbindI [OF getvar_asked])
      (auto simp: names_partition_def intro!: cpost_cbindI [OF slot] split: if_splits)
qed

text \<open>A flash command puts the transfer of the image and the command for the partition into the queue.\<close>

definition flash_queue :: "string \<Rightarrow> string \<Rightarrow> action list \<Rightarrow> bool" where
  "flash_queue q bytes as \<longleftrightarrow> (\<exists>a b. as = [a, b] \<and> plain_action a \<and> a_op a = OP_DOWNLOAD_FD \<and> a_data a = bytes
     \<and> a_size a = of_nat (length bytes) \<and> plain_action b \<and> a_op b = OP_COMMAND \<and> a_cmd b = ''flash:'' @ q)"

lemma queue_flash_post:
  "cpost (\<lambda>s. \<exists>as. flash_queue q bytes as \<and> s = st\<lparr>t_queue := t_queue st @ as\<rparr>) (fb_queue_flash_fd q bytes (of_nat (length bytes)) st)"
  unfolding fb_queue_flash_fd_def queue_action_def new_action_def
  by (rule cpost_cbind_any, rule cpost_cbind_any, simp del: append_Cons, rule exI, rule conjI [rotated], rule refl)
    (simp add: flash_queue_def plain_action_def)

lemma do_flash_post:
  "cpost (\<lambda>(alive, s). alive \<longrightarrow> (\<exists>bytes as. load_buf fname w = Some bytes \<and> flash_queue q bytes as
     \<and> s = st\<lparr>t_queue := t_queue st @ as\<rparr>)) (do_flash q fname w st)"
  unfolding do_flash_def by (auto intro!: cpost_cbindI [OF queue_flash_post] split: option.split)

lemma do_oem_post:
  "cpost (\<lambda>s. \<exists>a. plain_action a \<and> a_op a = OP_COMMAND \<and> s = st\<lparr>t_queue := t_queue st @ [a]\<rparr>) (do_oem_command cmd arg1 arg2 st)"
  unfolding do_oem_command_def fb_queue_command_def queue_action_def new_action_def
  by (rule cpost_cbind_any, simp, rule exI, rule conjI [rotated], rule conjI [rotated], rule refl) (simp_all add: plain_action_def)

lemma open_device_post: "cpost (\<lambda>s. \<exists>ps. s = st\<lparr>t_present := ps, t_open := True\<rparr>) (open_device ps st)"
  by (induction ps) auto

definition reboot_queue :: "action list" where
  "reboot_queue = [(new_action OP_COMMAND ''reboot'')\<lparr>a_msg := ''Rebooting...'', a_func := CB_DO_NOTHING\<rparr>, new_action OP_WAIT_FOR_DISCONNECT []]"

lemma queue_command_post:
  assumes "t_queue st = []"
  shows "cpost (\<lambda>(alive, s). alive \<longrightarrow> (\<exists>s'. asked_device st s' \<and> s = s'\<lparr>t_queue := t_queue s\<rparr>)
      \<and> (if exe_case = FASTBOOT_REBOOT_COMMAND then t_queue s = reboot_queue else list_all plain_action (t_queue s))
      \<and> (\<forall>part fname. exe_case = FASTBOOT_FLASH_COMMAND \<longrightarrow> argv1 = Some part \<longrightarrow> argv2 = Some fname \<longrightarrow>
           (\<exists>q bytes. names_partition part q \<and> load_buf fname w = Some bytes \<and> flash_queue q bytes (t_queue s))))
    (queue_command exe_case argv1 argv2 w st)"
proof -
  have flash: "cpost (\<lambda>(alive, s). alive \<longrightarrow> (\<exists>s'. asked_device st s' \<and> s = s'\<lparr>t_queue := t_queue s\<rparr>)
      \<and> (\<exists>q bytes. names_partition part q \<and> load_buf fname w = Some bytes \<and> flash_queue q bytes (t_queue s)))
    (cbind (do_for_partition part [] st) (\<lambda>(p, s). case p of None \<Rightarrow> Inr (False, s) | Some q \<Rightarrow> do_flash q fname w s))" for part fname
  proof (rule cpost_cbindI [OF do_for_partition_post], clarify)
    fix p s assume s: "asked_device st s" and q: "\<forall>q. p = Some q \<longrightarrow> names_partition part q"
    then have "t_queue s = []" using assms by (simp add: asked_device_def heard_def)
    then show "cpost (\<lambda>(alive, s). alive \<longrightarrow> (\<exists>s'. asked_device st s' \<and> s = s'\<lparr>t_queue := t_queue s\<rparr>)
        \<and> (\<exists>q bytes. names_partition part q \<and> load_buf fname w = Some bytes \<and> flash_queue q bytes (t_queue s)))
      (case p of None \<Rightarrow> Inr (False, s) | Some q \<Rightarrow> do_flash q fname w s)"
      using s q by (cases p) (auto intro!: cpost_weaken [OF do_flash_post])
  qed
  have plain: "list_all plain_action as" if "flash_queue q bytes as" for q bytes as using that by (auto simp: flash_queue_def)
  have oem: "cpost (\<lambda>(alive, s). alive \<longrightarrow> (\<exists>s'. asked_device st s' \<and> s = s'\<lparr>t_queue := t_queue s\<rparr>) \<and> list_all plain_action (t_queue s))
      (cbind (do_oem_command cmd a1 a2 st) (\<lambda>s. Inr (True, s)))" for cmd a1 a2
    by (rule cpost_cbindI [OF do_oem_post]) (use assms in \<open>auto intro!: exI [of _ st]\<close>)
  have same0: "\<exists>s'. asked_device st s' \<and> st = s'\<lparr>t_queue := []\<rparr>"
    by (rule exI [of _ st]) (use assms in \<open>cases st, simp\<close>)
  have same: "\<exists>s'. asked_device st s' \<and> st\<lparr>t_queue := as\<rparr> = s'\<lparr>t_queue := as\<rparr>" for as
    by (rule exI [of _ st]) simp
  show ?thesis
  proof (cases exe_case)
    case FASTBOOT_REBOOT_COMMAND
    then show ?thesis using assms same
      by (simp add: queue_command_def fb_queue_wait_for_disconnect_def fb_queue_reboot_def queue_action_def reboot_queue_def)
  next
    case FASTBOOT_FLASH_COMMAND
    show ?thesis
    proof (cases "\<exists>part fname. argv1 = Some part \<and> argv2 = Some fname")
      case True
      then obtain part fname where a: "argv1 = Some part" "argv2 = Some fname" by blast
      show ?thesis unfolding queue_command_def FASTBOOT_FLASH_COMMAND a fb_command.case option.case prod.case
        by (rule cpost_ifI) (auto intro!: cpost_weaken [OF flash [of part fname]] dest: plain)
    next
      case False
      then have "queue_command exe_case argv1 argv2 w st = Inr (True, st)"
        by (auto simp: queue_command_def FASTBOOT_FLASH_COMMAND split: option.split)
      then show ?thesis using assms same0 False by (auto simp: FASTBOOT_FLASH_COMMAND)
    qed
  next
    case FASTBOOT_EARSE_COMMAND
    then show ?thesis using assms same0 by (simp add: queue_command_def)
  next
    case FASTBOOT_OEM_COMMAND
    then show ?thesis by (auto simp: queue_command_def intro!: cpost_weaken [OF oem])
  next
    case FASTBOOT_FLASHING_COMMAND
    show ?thesis
    proof (cases argv1)
      case None
      then show ?thesis using assms same0 by (simp add: queue_command_def FASTBOOT_FLASHING_COMMAND)
    next
      case (Some a)
      then show ?thesis
        by (auto simp: queue_command_def FASTBOOT_FLASHING_COMMAND intro!: cpost_weaken [OF oem])
    qed
  qed
qed

lemma run_plain_post:
  "list_all plain_action as \<Longrightarrow>
     cpost (\<lambda>(r, s). \<exists>v. r = Some v \<and> noted st s \<and> (v \<noteq> 0 \<longrightarrow> (\<exists>m \<in> set (t_msgs s). is_failed m))) (run_actions as 0 st)"
  by (cases "as = []") (auto simp: ended_def intro!: cpost_weaken [OF run_actions_post])

lemma run_reboot_post: "cpost (\<lambda>(r, s). r = Some 0 \<and> noted st s) (run_actions reboot_queue 0 st)"
proof -
  have "cpost (\<lambda>(r, s). r = Some 0 \<and> noted st s) (run_action (hd reboot_queue) 0 st)"
    unfolding run_action_def reboot_queue_def Let_def
    by (simp add: new_action_def cbind_assoc, rule cpost_cbindI [OF fb_command_plain_post])
      (auto simp: conclude_def call_back_def cb_do_nothing_def dest: said_noted)
  then have "cpost (\<lambda>(r, s). r = Some 0 \<and> noted st s) (cbind (run_action (hd reboot_queue) 0 st) (\<lambda>(r, s).
      case r of None \<Rightarrow> Inr (None, s) | Some v \<Rightarrow> if v \<noteq> 0 then Inr (Some v, s) else run_actions (tl reboot_queue) v s))"
    by (rule cpost_cbindI) (auto simp: reboot_queue_def run_action_def new_action_def)
  then show ?thesis unfolding reboot_queue_def run_actions.simps list.sel .
qed

definition main_ok :: "fb_command \<Rightarrow> string option \<Rightarrow> string option \<Rightarrow> fs \<Rightarrow> fbt \<Rightarrow> int \<Rightarrow> fbt \<Rightarrow> bool" where
  "main_ok exe_case argv1 argv2 w st v s \<longleftrightarrow> t_queue s = [] \<and> \<not> t_open s \<and> messages_ok s \<and> (v = 0 \<or> v = 1)
     \<and> (v = 1 \<longrightarrow> exe_case \<noteq> FASTBOOT_REBOOT_COMMAND \<and> (\<exists>m \<in> set (t_msgs s). is_failed m))
     \<and> (\<forall>part fname. v = 0 \<longrightarrow> exe_case = FASTBOOT_FLASH_COMMAND \<longrightarrow> argv1 = Some part \<longrightarrow> argv2 = Some fname \<longrightarrow>
          (\<exists>q bytes asked. names_partition part q \<and> load_buf fname w = Some bytes \<and> acknowledged st s
             \<and> t_sent s = t_sent st @ asked @ download_cmd (of_nat (length bytes)) # image_pieces bytes (of_nat (length bytes)) @ [''flash:'' @ q]))"

lemma flash_run_post:
  assumes "flash_queue q bytes as"
  shows "cpost (\<lambda>(r, s). \<exists>v. r = Some v \<and> ended st (download_cmd (of_nat (length bytes)) # image_pieces bytes (of_nat (length bytes)) @ [''flash:'' @ q]) True v s)
    (run_actions as 0 st)"
proof -
  obtain a b where ab: "as = [a, b]" "plain_action a" "plain_action b" "a_op a = OP_DOWNLOAD_FD" "a_op b = OP_COMMAND"
      "a_data a = bytes" "a_size a = of_nat (length bytes)" "a_cmd b = ''flash:'' @ q"
    using assms by (auto simp: flash_queue_def)
  have "cpost (\<lambda>(r, s). \<exists>v. r = Some v \<and> ended st (concat (map action_out as)) (a_op (last as) = OP_COMMAND) v s) (run_actions as 0 st)"
    by (rule run_actions_post) (simp_all add: ab)
  then show ?thesis by (rule cpost_weaken) (simp add: ab action_out_def)
qed

lemma execute_post:
  assumes "cpost P (run_actions (t_queue st) 0 st)"
  shows "cpost (\<lambda>(r, s). \<exists>s'. P (r, s') \<and> s = s'\<lparr>t_queue := []\<rparr>) (fb_execute_queue st)"
  unfolding fb_execute_queue_def by (rule cpost_cbindI [OF assms]) auto

lemma fastboot_main_post:
  assumes "t_queue st = []"
  shows "cpost (\<lambda>(r, s). \<forall>v. r = Some v \<longrightarrow> main_ok exe_case argv1 argv2 w st v s) (fastboot_main exe_case argv1 argv2 w st)"
  unfolding fastboot_main_def
proof (rule cpost_cbindI [OF open_device_post], elim exE)
  fix s0 ps assume s0: "s0 = st\<lparr>t_present := ps, t_open := True\<rparr>"
  let ?s0 = "rest_fastboot_output_msg s0"
  have start: "t_queue ?s0 = []" "messages_ok ?s0" "t_reads ?s0 = t_reads st" "t_sent ?s0 = t_sent st"
    using assms by (simp_all add: s0 rest_fastboot_output_msg_def messages_ok_def)
  let ?fin = "\<lambda>s1. cbind (fb_execute_queue s1) (\<lambda>(r, s2). Inr (case r of None \<Rightarrow> None | Some v \<Rightarrow> Some (if v \<noteq> 0 then 1 else 0), t_close s2))"
  show "cpost (\<lambda>(r, s). \<forall>v. r = Some v \<longrightarrow> main_ok exe_case argv1 argv2 w st v s)
      (cbind (queue_command exe_case argv1 argv2 w ?s0) (\<lambda>(alive, s1). if \<not> alive then Inr (None, s1) else ?fin s1))"
  proof (rule cpost_cbindI [OF queue_command_post [OF start(1)]], clarify, rule cpost_ifI)
    fix alive s1
    assume q: "alive \<longrightarrow> (\<exists>s'. asked_device ?s0 s' \<and> s1 = s'\<lparr>t_queue := t_queue s1\<rparr>)
      \<and> (if exe_case = FASTBOOT_REBOOT_COMMAND then t_queue s1 = reboot_queue else list_all plain_action (t_queue s1))
      \<and> (\<forall>part fname. exe_case = FASTBOOT_FLASH_COMMAND \<longrightarrow> argv1 = Some part \<longrightarrow> argv2 = Some fname \<longrightarrow>
           (\<exists>q bytes. names_partition part q \<and> load_buf fname w = Some bytes \<and> flash_queue q bytes (t_queue s1)))"
    show "cpost (\<lambda>(r, s). \<forall>v. r = Some v \<longrightarrow> main_ok exe_case argv1 argv2 w st v s) (Inr (None, s1))" by simp
    assume "\<not> \<not> alive"
    with q obtain s' where s': "asked_device ?s0 s'" "s1 = s'\<lparr>t_queue := t_queue s1\<rparr>" by blast
    have same: "t_msgs s1 = t_msgs s'" "t_reads s1 = t_reads s'" "t_sent s1 = t_sent s'" by (subst s'(2), simp)+
    have ok1: "messages_ok s1" using s'(1) heard_messages [OF _ start(2), of s'] same by (simp add: asked_device_def messages_ok_def)
    have on1: "reads_on st s1" "prefix (t_sent st) (t_sent s1)"
      using s'(1) start(3,4) same by (simp_all add: asked_device_def reads_on_def)
    have base: "main_ok exe_case argv1 argv2 w st (if v \<noteq> 0 then 1 else 0) (t_close (s2\<lparr>t_queue := []\<rparr>))"
      if "noted s1 s2" "v \<noteq> 0 \<longrightarrow> exe_case \<noteq> FASTBOOT_REBOOT_COMMAND \<and> (\<exists>m \<in> set (t_msgs s2). is_failed m)"
        "exe_case = FASTBOOT_FLASH_COMMAND \<longrightarrow> argv1 = None \<or> argv2 = None" for v :: int and s2
      using that ok1 by (auto simp: main_ok_def noted_def messages_ok_def t_close_def)
    have fin: "cpost (\<lambda>(r, s). \<forall>v. r = Some v \<longrightarrow> main_ok exe_case argv1 argv2 w st v s)
        (Inr (case r of None \<Rightarrow> None | Some v \<Rightarrow> Some (if v \<noteq> 0 then 1 else 0), t_close s2))"
      if "\<And>v. r = Some v \<Longrightarrow> main_ok exe_case argv1 argv2 w st (if v \<noteq> 0 then 1 else 0) (t_close s2)" for r :: "int option" and s2
      using that by (cases r) simp_all
    consider (reboot) "exe_case = FASTBOOT_REBOOT_COMMAND"
      | (flash) part fname where "exe_case = FASTBOOT_FLASH_COMMAND" "argv1 = Some part" "argv2 = Some fname"
      | (other) "exe_case \<noteq> FASTBOOT_REBOOT_COMMAND" "exe_case = FASTBOOT_FLASH_COMMAND \<longrightarrow> argv1 = None \<or> argv2 = None"
      by (cases "exe_case = FASTBOOT_REBOOT_COMMAND"; cases argv1; cases argv2) auto
    then show "cpost (\<lambda>(r, s). \<forall>v. r = Some v \<longrightarrow> main_ok exe_case argv1 argv2 w st v s) (?fin s1)"
    proof cases
      case reboot
      then have "cpost (\<lambda>(r, s). r = Some 0 \<and> noted s1 s) (run_actions (t_queue s1) 0 s1)"
        using q \<open>\<not> \<not> alive\<close> run_reboot_post by simp
      from execute_post [OF this] show ?thesis
        by (rule cpost_cbindI, clarify, intro fin base) (use reboot in auto)
    next
      case (flash part fname)
      then obtain qn bytes where f: "names_partition part qn" "load_buf fname w = Some bytes" "flash_queue qn bytes (t_queue s1)"
        using q \<open>\<not> \<not> alive\<close> by blast
      let ?out = "download_cmd (of_nat (length bytes)) # image_pieces bytes (of_nat (length bytes)) @ [''flash:'' @ qn]"
      obtain asked where asked: "t_sent s1 = t_sent st @ asked" using on1(2) by (auto simp: prefix_def)
      have "main_ok exe_case argv1 argv2 w st (if v \<noteq> 0 then 1 else 0) (t_close (s2\<lparr>t_queue := []\<rparr>))" if e: "ended s1 ?out True v s2" for v s2
      proof -
        have "messages_ok s2" using e ok1 by (simp add: ended_def noted_def)
        moreover have "acknowledged st s2" if "v = 0" using e that acknowledged_later [OF on1(1)] by (simp add: ended_def)
        moreover have "t_sent s2 = t_sent st @ asked @ ?out" if "v = 0" using e that asked by (simp add: ended_def)
        ultimately show ?thesis using e f flash
          by (auto simp: main_ok_def messages_ok_def t_close_def ended_def acknowledged_def)
      qed
      note flashed = this
      show ?thesis
        by (rule cpost_cbindI [OF execute_post [OF flash_run_post [OF f(3)]]], clarify, intro fin flashed) auto
    next
      case other
      then have "list_all plain_action (t_queue s1)" using q \<open>\<not> \<not> alive\<close> by simp
      from execute_post [OF run_plain_post [OF this]] show ?thesis
        by (rule cpost_cbindI, clarify, intro fin base) (use other in auto)
    qed
  qed
qed

end
