(* ===== verification/Fb_Wire.thy ===== *)
theory Fb_Wire
  imports Fb_Engine
begin

text \<open>
  Properties of the fastboot library of \<open>Fb_Engine\<close>: what a command of the updater leaves and has sent, the sizes of the \<^verbatim>\<open>DATA\<close> statuses, an example of a whole transfer,
  and the messages that a command leaves.
\<close>

section \<open>Commands of the updater\<close>

lemma clean_answers:
  assumes "clean_answer (answers msgs)" "m \<in> set msgs"
  shows "\<not> is_failed m"
proof -
  obtain j where j: "j < length msgs" "m = msgs ! j" using assms(2) by (auto simp: in_set_conv_nth)
  then have "strstr m ''FAILED'' = None" using assms(1) by (auto simp: clean_answer_def answers_def list_all_iff)
  then show ?thesis using strstr_eq_None_iff prefix_imp_sublist by (auto simp: is_failed_def)
qed

lemma wire_cases:
  assumes "t_queue st = []" "send_command_on_wire os exe_case argv1 argv2 step w (fd, st) = Inr (Some v, fd', s)"
  obtains r where "fastboot_main exe_case argv1 argv2 w st = Inr (Some r, s)" "main_ok exe_case argv1 argv2 w st r s"
    "post_process_fastboot step os (answers (t_msgs s)) fd = Inr (v, fd')"
proof -
  obtain r where r: "fastboot_main exe_case argv1 argv2 w st = Inr (Some r, s)"
      "post_process_fastboot step os (answers (t_msgs s)) fd = Inr (v, fd')"
    using assms(2) by (auto simp: send_command_on_wire_def split: option.splits elim!: cbind_InrE)
  have "main_ok exe_case argv1 argv2 w st r s" using cpostD [OF fastboot_main_post [OF assms(1)] r(1)] by simp
  with r show ?thesis using that by blast
qed

lemma pieces_concat: "0 < n \<Longrightarrow> concat (pieces n s) = s"
proof (induction n s rule: pieces.induct)
  case (1 n s)
  show ?case
  proof (cases "s = []")
    case True
    then show ?thesis by (subst pieces.simps) simp
  next
    case False
    then show ?thesis using 1 by (subst pieces.simps) simp
  qed
qed

lemma image_pieces_concat: "concat (image_pieces bytes (of_nat (length bytes))) = take (length bytes mod 2 ^ 32) bytes"
  by (simp add: image_pieces_def pieces_concat MAX_MAP_SIZE_def unat_of_nat)

text \<open>C7: A flash command that counts as successful reached the device: the size, the bytes of the image (up to its
  size modulo \<open>2 ^ 32\<close>) and the command for the partition were sent in this order, and the last thing the device said is \<^verbatim>\<open>OKAY\<close>.\<close>

theorem flash_acknowledged:
  assumes "t_queue st = []" "v > 0"
    and "send_command_on_wire os FASTBOOT_FLASH_COMMAND (Some part) (Some fname) step w (fd, st) = Inr (Some v, fd', s)"
  shows "\<exists>q bytes asked ps. (q = part \<or> (\<exists>slot. q = part @ ''_'' @ slot)) \<and> fopen_r w fname = Some bytes
    \<and> t_sent s = t_sent st @ asked @ download_cmd (of_nat (length bytes)) # ps @ [''flash:'' @ q]
    \<and> concat ps = take (length bytes mod 2 ^ 32) bytes
    \<and> (\<exists>used r. t_reads st = used @ Some r # t_reads s \<and> take 4 r = ''OKAY'')"
proof (rule wire_cases [OF assms(1,3)])
  fix r assume r: "main_ok FASTBOOT_FLASH_COMMAND (Some part) (Some fname) w st r s"
    "post_process_fastboot step os (answers (t_msgs s)) fd = Inr (v, fd')"
  have "clean_answer (answers (t_msgs s))" using cpostD [OF post_process_clean r(2)] assms(2) by simp
  then have "r \<noteq> 1" using r(1) clean_answers by (auto simp: main_ok_def)
  then have "r = 0" using r(1) by (auto simp: main_ok_def)
  then obtain q bytes asked where q: "names_partition part q" "load_buf fname w = Some bytes" "acknowledged st s"
      "t_sent s = t_sent st @ asked @ download_cmd (of_nat (length bytes)) # image_pieces bytes (of_nat (length bytes)) @ [''flash:'' @ q]"
    using r(1) unfolding main_ok_def by blast
  show ?thesis
    by (rule exI [of _ q], rule exI [of _ bytes], rule exI [of _ asked], rule exI [of _ "image_pieces bytes (of_nat (length bytes))"])
      (use q image_pieces_concat [of bytes] in \<open>simp only: names_partition_def load_buf_def acknowledged_def simp_thms\<close>)
qed

text \<open>A device that takes an image of three bytes.\<close>

definition example_wire :: fbt where
  "example_wire = \<lparr>t_present = [False, True], t_reads = [Some ''OKAYno'', Some ''DATA00000003'', Some ''OKAY'', Some ''INFOerasing'', Some ''OKAY''],
     t_writes = [], t_open = False, t_sent = [], t_error_msg = [], t_msgs = [], t_queue = [], t_errno = ''Input/output error'',
     t_secs = ''  0.123''\<rparr>"

definition example_wire_fs :: fs where
  "example_wire_fs = write_file ''I'' ''abc'' fs0"

lemma example_download: "download_cmd 3 = ''download:00000003''"
  by (simp add: download_cmd_def show_x8_def hex_char_def digit_char_def) code_simp

section \<open>Sizes on the wire\<close>

lemma of_hex_char:
  assumes "n < 16"
  shows "(of_char (hex_char n) :: nat) = (if n < 10 then 48 + n else 87 + n)"
proof (cases "n < 10")
  case False
  then have "(of_char (char_of (87 + n) :: char) :: nat) = 87 + n" using assms by (simp del: of_char_of add: of_char_of)
  then show ?thesis using False by (simp add: hex_char_def)
qed (simp add: hex_char_def of_char_digit_char)

lemma hex_char_not:
  assumes "n < 16" "(of_char c :: nat) < 48 \<or> 102 < (of_char c :: nat)"
  shows "hex_char n \<noteq> c"
  using assms of_hex_char [of n] by (auto split: if_splits)

lemma tolower_hex_char: "n < 16 \<Longrightarrow> tolower (hex_char n) = hex_char n"
  by (simp add: tolower_def of_hex_char)

lemma hex_char_class:
  assumes "n < 16"
  shows "isxdigit (hex_char n)" "xdigit_val (hex_char n) = n" "tolower (hex_char n) \<noteq> CHR ''x''" "\<not> isspace (hex_char n)"
    "hex_char n \<noteq> CHR ''-''" "hex_char n \<noteq> CHR ''+''" "hex_char n \<noteq> NUL"
  using assms hex_char_not [OF assms]
  by (simp_all add: isxdigit_def xdigit_val_def isdigit_def of_hex_char tolower_hex_char isspace_def)

lemma hex_val_digits:
  "list_all (\<lambda>d. d < 16) ds \<Longrightarrow> hex_val acc (map hex_char ds) = foldl (\<lambda>a d. 16 * a + d) acc ds"
  by (induction ds arbitrary: acc) (simp_all add: hex_char_class)

lemma hex_step: "16 * (n div 16 ^ Suc k) + n div 16 ^ k mod 16 = (n div 16 ^ k :: nat)"
  using mult_div_mod_eq [of 16 "n div 16 ^ k"] by (simp only: power_Suc2 div_mult2_eq)

lemma hex_digits: "foldl (\<lambda>a d. 16 * a + d) (n div 16 ^ k) (map (\<lambda>i. n div 16 ^ i mod 16) (rev [0..<k])) = (n :: nat)"
  by (induction k) (simp_all only: upt_Suc_append rev_append rev.simps append.simps list.map foldl_Cons hex_step zero_le upt_0 foldl_Nil power_0 div_by_1)

lemma hex_val_show_x8:
  assumes "n < 2 ^ 32"
  shows "hex_val 0 (show_x8 n) = n"
proof -
  let ?ds = "map (\<lambda>k. n div 16 ^ k mod 16) (rev [0..<8])"
  have "n div 16 ^ 8 = 0" using assms by simp
  then have "foldl (\<lambda>a d. 16 * a + d) 0 ?ds = n" using hex_digits [of n 8] by simp
  moreover have "show_x8 n = map hex_char ?ds" by (simp add: show_x8_def upt_rec)
  moreover have "list_all (\<lambda>d. d < 16) ?ds" by (simp add: list_all_iff)
  ultimately show ?thesis using hex_val_digits by presburger
qed

lemma strtol16_show_x8:
  assumes "n < 2 ^ 32"
  shows "strtol16 (show_x8 n) = int n"
proof -
  define g where "g k = hex_char (n div 16 ^ k mod 16)" for k
  have s: "show_x8 n = g 7 # g 6 # map g [5, 4, 3, 2, 1, 0]" by (simp add: show_x8_def g_def)
  have g: "tolower (g k) \<noteq> CHR ''x''" "\<not> isspace (g k)" "g k \<noteq> CHR ''-''" "g k \<noteq> CHR ''+''" for k
    using hex_char_class(3-6) by (simp_all add: g_def)
  have "strip_0x (show_x8 n) = show_x8 n" by (simp add: s strip_0x_def g)
  moreover have "dropWhile isspace (show_x8 n) = show_x8 n" "hd (show_x8 n) = g 7" "show_x8 n \<noteq> []" by (simp_all add: s g)
  ultimately have "strtol16 (show_x8 n) = clamp_long (int (hex_val 0 (show_x8 n)))"
    by (simp add: strtol16_def Let_def g)
  then show ?thesis using assms by (simp add: hex_val_show_x8 clamp_long_def)
qed

text \<open>The size in a \<^verbatim>\<open>DATA\<close> status is read back: a device that announces \<open>n\<close> bytes in eight hexadecimal digits is
  understood as announcing \<open>n\<close> bytes whenever that is at most the size of the command, and closes the transport with
  an error otherwise.\<close>

theorem data_size_roundtrip:
  "final_status sz (''DATA'' @ show_x8 (unat n)) st =
     (if sz = 0 then fail_closed ''unknown status code'' st
      else if n \<le> sz then Inr (uint n, [], st)
      else fail_closed (''data size too large ('' @ show_int (sint n) @ '')'') st)"
proof -
  have "status_text (''DATA'' @ show_x8 (unat n)) = show_x8 (unat n)"
    by (simp add: status_text_def show_x8_def takeWhile_eq_all_conv hex_char_class)
  moreover have "word_of_int (strtol16 (show_x8 (unat n))) = n"
    using unsigned_less [of n] by (subst strtol16_show_x8) simp_all
  ultimately show ?thesis by (auto simp: final_status_def Let_def word_neq_0_conv)
qed

section \<open>A transfer\<close>

lemma example_size: "strtol16 ''00000003'' = 3"
  by code_simp

lemma example_pieces: "pieces MAX_MAP_SIZE ''abc'' = [''abc'']"
  by (simp add: pieces.simps MAX_MAP_SIZE_def)

lemma example_image: "fopen_r example_wire_fs ''I'' = Some ''abc''"
  by code_simp

lemma example_zero: "show_nat 0 = ''0''"
  by code_simp

lemmas queue_defs = queue_command_def do_for_partition_def fb_getvar_def fb_command_response_def do_flash_def load_buf_def
  fb_queue_flash_fd_def queue_action_def new_action_def

lemmas protocol_defs = command_start_def t_write_def check_response_def final_status_def status_text_def set_error_def
  command_send_fd_def command_write_data_def command_end_def fb_download_data_fd_def fb_command_plain_def t_close_def
  push_fastboot_output_msg_def info_line_def strcpy_cap_def

lemmas engine_defs = fastboot_main_def rest_fastboot_output_msg_def fb_execute_queue_def run_action_def conclude_def
  call_back_def cb_default_def

lemma example_main:
  "\<exists>s. fastboot_main FASTBOOT_FLASH_COMMAND (Some ''capri_c'') (Some ''I'') example_wire_fs example_wire = Inr (Some 0, s)
     \<and> t_msgs s = [''OKAY [  0.123s]'' @ [NL], ''(bootloader) erasing'' @ [NL], ''OKAY [  0.123s]'' @ [NL]]"
  by (simp add: queue_defs protocol_defs engine_defs fb_sizes cassert_def cbind_def Let_def example_wire_def example_image
      example_size example_pieces example_zero example_download)

lemma answers_verdict:
  assumes "length msgs \<le> FB_MAX_INFO_COUNT" "\<forall>m \<in> set msgs. length m < FAST_BOOT_RETURN_STR_LEN" "step \<noteq> FASTBOOT_SOP_HDR"
  shows "post_process_fastboot step os (answers msgs) fd = Inr (if \<exists>m \<in> set msgs. strstr m ''FAILED'' \<noteq> None then -1 else 1, fd)"
proof -
  have "answers msgs = (answers msgs)\<lparr>g_output_msg_count := int (length msgs - 0)\<rparr>" by (simp add: answers_def)
  then show ?thesis using verdict_from [OF assms, of 0 os fd] by simp
qed

lemma example_on_wire:
  "\<exists>s. send_command_on_wire (0, 0) FASTBOOT_FLASH_COMMAND (Some ''capri_c'') (Some ''I'') FASTBOOT_FLASH_FW example_wire_fs
     (example_fd, example_wire) = Inr (Some 1, example_fd, s)"
proof -
  have "post_process_fastboot FASTBOOT_FLASH_FW (0, 0)
      (answers [''OKAY [  0.123s]'' @ [NL], ''(bootloader) erasing'' @ [NL], ''OKAY [  0.123s]'' @ [NL]]) example_fd = Inr (1, example_fd)"
    by (subst answers_verdict) (simp_all add: FB_MAX_INFO_COUNT_def FAST_BOOT_RETURN_STR_LEN_def strstr.simps)
  with example_main show ?thesis by (auto simp: send_command_on_wire_def)
qed

theorem flash_acknowledged_witness:
  "\<exists>(s :: fbt) q ps asked. t_sent s = t_sent example_wire @ asked @ download_cmd (of_nat 3) # ps @ [''flash:'' @ q] \<and> concat ps = ''abc''
     \<and> (\<exists>used r. t_reads example_wire = used @ Some r # t_reads s \<and> take 4 r = ''OKAY'')"
proof -
  obtain s where run: "send_command_on_wire (0, 0) FASTBOOT_FLASH_COMMAND (Some ''capri_c'') (Some ''I'') FASTBOOT_FLASH_FW example_wire_fs
     (example_fd, example_wire) = Inr (Some 1, example_fd, s)" using example_on_wire by blast
  have "t_queue example_wire = []" by (simp add: example_wire_def)
  from flash_acknowledged [OF this _ run] obtain q asked ps where
    "t_sent s = t_sent example_wire @ asked @ download_cmd (of_nat 3) # ps @ [''flash:'' @ q]" "concat ps = ''abc''"
    "\<exists>used r. t_reads example_wire = used @ Some r # t_reads s \<and> take 4 r = ''OKAY''"
    by (auto simp: example_image simp del: append_Cons)
  then show ?thesis by blast
qed

section \<open>Messages\<close>

text \<open>C17: What a command that returns leaves behind is well-formed: the queue is empty and the transport is closed, there are
  at most 16 messages, each of them fits its place and is a line of the boot loader, an \<^verbatim>\<open>OKAY [...]\<close> or a \<^verbatim>\<open>FAILED\<close>;
  the value is 0 or 1, and 1 only with a \<^verbatim>\<open>FAILED\<close> among the messages and never for a reboot.\<close>

theorem fastboot_main_messages:
  assumes "t_queue st = []" "fastboot_main exe_case argv1 argv2 w st = Inr (Some r, s)"
  shows "t_queue s = [] \<and> \<not> t_open s \<and> length (t_msgs s) \<le> FB_MAX_INFO_COUNT \<and> list_all is_message (t_msgs s)
    \<and> (r = 0 \<or> r = 1 \<and> exe_case \<noteq> FASTBOOT_REBOOT_COMMAND \<and> (\<exists>m \<in> set (t_msgs s). is_failed m))"
  using cpostD [OF fastboot_main_post [OF assms(1)] assms(2)] by (auto simp: main_ok_def messages_ok_def)

text \<open>A device that refuses to reboot.\<close>

theorem fastboot_main_messages_witness:
  "\<exists>(s :: fbt) r. fastboot_main FASTBOOT_REBOOT_COMMAND None None example_wire_fs (example_wire\<lparr>t_reads := [Some ''FAILlocked'']\<rparr>) = Inr (Some r, s)
     \<and> r = 0 \<and> t_queue s = [] \<and> t_msgs s = [] \<and> t_error_msg s = ''remote: locked''"
proof -
  obtain s r where run: "fastboot_main FASTBOOT_REBOOT_COMMAND None None example_wire_fs (example_wire\<lparr>t_reads := [Some ''FAILlocked'']\<rparr>) = Inr (Some r, s)"
      "t_msgs s = []" "t_error_msg s = ''remote: locked''"
    by (simp add: fb_queue_reboot_def fb_queue_wait_for_disconnect_def cb_do_nothing_def queue_defs protocol_defs engine_defs
        fb_sizes cassert_def cbind_def Let_def example_wire_def)
  have "t_queue (example_wire\<lparr>t_reads := [Some ''FAILlocked'']\<rparr>) = []" by (simp add: example_wire_def)
  from fastboot_main_messages [OF this run(1)] show ?thesis using run by auto
qed

lemma info_line_pushes:
  assumes "length (t_msgs st) < FB_MAX_INFO_COUNT" "length s \<le> FB_RESPONSE_SZ"
  shows "\<exists>e m. info_line s st = Inr (st\<lparr>t_error_msg := e, t_msgs := t_msgs st @ [m]\<rparr>)"
proof -
  have "length (status_text s) \<le> FB_RESPONSE_SZ"
    using length_takeWhile_le [of "\<lambda>c. c \<noteq> NUL" "drop 4 s"] assms(2) by (simp add: status_text_def)
  then show ?thesis using assms(1)
    by (auto simp: info_line_def set_error_def strcpy_cap_def push_fastboot_output_msg_def cassert_def fb_sizes)
qed

lemma info_line_full:
  assumes "length (t_msgs st) = FB_MAX_INFO_COUNT" "length s \<le> FB_RESPONSE_SZ"
  shows "info_line s st = Inl OutOfBounds"
proof -
  have "length (status_text s) \<le> FB_RESPONSE_SZ"
    using length_takeWhile_le [of "\<lambda>c. c \<noteq> NUL" "drop 4 s"] assms(2) by (simp add: status_text_def)
  then show ?thesis using assms(1)
    by (simp add: info_line_def set_error_def strcpy_cap_def push_fastboot_output_msg_def cassert_def fb_sizes)
qed

definition is_info_status :: "string \<Rightarrow> bool" where
  "is_info_status x \<longleftrightarrow> take 4 x = ''INFO''"

lemma check_loop_overflow:
  assumes "length (t_msgs st) \<le> FB_MAX_INFO_COUNT" "FB_MAX_INFO_COUNT < length (t_msgs st) + length xs" "list_all is_info_status xs"
  shows "check_loop sz (map Some xs @ rs) st = Inl OutOfBounds"
  using assms
proof (induction xs arbitrary: st)
  case (Cons x xs)
  let ?s = "take 64 x" and ?rs = "map Some xs @ rs"
  have x: "take 4 x = ''INFO''" using Cons.prems(3) by (simp add: is_info_status_def)
  have "4 \<le> length x" using arg_cong [OF x, of length] by simp
  then have s: "length ?s \<le> FB_RESPONSE_SZ" "\<not> length ?s < 4" "take 4 ?s = ''INFO''" using x by (simp_all add: FB_RESPONSE_SZ_def min_def)
  have loop: "check_loop sz (map Some (x # xs) @ rs) st = cbind (info_line ?s (st\<lparr>t_reads := ?rs\<rparr>)) (check_loop sz ?rs)"
    using s(2,3) by (simp only: list.map append.simps check_loop.simps Let_def if_False simp_thms if_True)
  show ?case
  proof (cases "length (t_msgs st) = FB_MAX_INFO_COUNT")
    case True
    then show ?thesis unfolding loop by (subst info_line_full) (use s(1) in simp_all)
  next
    case False
    then obtain e m where "info_line ?s (st\<lparr>t_reads := ?rs\<rparr>) = Inr (st\<lparr>t_reads := ?rs, t_error_msg := e, t_msgs := t_msgs st @ [m]\<rparr>)"
      using info_line_pushes [of "st\<lparr>t_reads := ?rs\<rparr>" ?s] s(1) Cons.prems(1) by auto
    then show ?thesis unfolding loop using Cons.prems False by (simp add: Cons.IH)
  qed
qed simp

lemma open_device_present: "True \<in> set ps \<Longrightarrow> \<exists>ps'. open_device ps st = Inr (st\<lparr>t_present := ps', t_open := True\<rparr>)"
  by (induction ps) auto

section \<open>A command without an image\<close>

text \<open>The line that an \<^verbatim>\<open>INFO\<close> status leaves, and what the updater counts as a failure in it.\<close>

definition boot_line :: "string \<Rightarrow> string" where
  "boot_line r = ''(bootloader) '' @ status_text (take 64 r) @ [NL]"

definition harmless :: "string \<Rightarrow> bool" where
  "harmless m \<longleftrightarrow> strstr m ''FAILED'' = None"

definition okay_line :: "fbt \<Rightarrow> string" where
  "okay_line st = ''OKAY ['' @ t_secs st @ ''s]'' @ [NL]"

definition command_text :: "fb_command \<Rightarrow> string \<Rightarrow> string option \<Rightarrow> string" where
  "command_text exe_case a1 a2 = (if exe_case = FASTBOOT_OEM_COMMAND then ''oem'' else ''flashing'') @ '' '' @ a1
     @ (case a2 of None \<Rightarrow> [] | Some a \<Rightarrow> '' '' @ a)"

lemma status_text_length: "length (status_text (take 64 r)) \<le> 60"
  using length_takeWhile_le [of "\<lambda>c. c \<noteq> NUL" "drop 4 (take 64 r)"] by (simp add: status_text_def)

lemma info_line_text:
  assumes "length (t_msgs st) < FB_MAX_INFO_COUNT"
  shows "info_line (take 64 r) st = Inr (st\<lparr>t_error_msg := boot_line r, t_msgs := t_msgs st @ [boot_line r]\<rparr>)"
  using assms status_text_length [of r]
  by (simp add: info_line_def boot_line_def set_error_def strcpy_cap_def push_fastboot_output_msg_def cassert_def fb_sizes)

lemma check_loop_infos:
  "length (t_msgs st) + length infos \<le> FB_MAX_INFO_COUNT \<Longrightarrow> list_all is_info_status infos \<Longrightarrow> 4 \<le> length r \<Longrightarrow> \<not> is_info_status r \<Longrightarrow>
     \<exists>e. check_loop sz (map Some infos @ Some r # rest) st
       = final_status sz (take 64 r) (st\<lparr>t_reads := rest, t_msgs := t_msgs st @ map boot_line infos, t_error_msg := e\<rparr>)"
proof (induction infos arbitrary: st)
  case Nil
  have "check_loop sz (map Some [] @ Some r # rest) st
      = final_status sz (take 64 r) (st\<lparr>t_reads := rest, t_msgs := t_msgs st @ map boot_line [], t_error_msg := t_error_msg st\<rparr>)"
    using Nil.prems(3,4) by (simp add: is_info_status_def min_def)
  then show ?case by blast
next
  case (Cons x xs)
  have x: "take 4 x = ''INFO''" using Cons.prems(2) by (simp add: is_info_status_def)
  have "4 \<le> length x" using arg_cong [OF x, of length] by simp
  then have "check_loop sz (map Some (x # xs) @ Some r # rest) st
      = cbind (info_line (take 64 x) (st\<lparr>t_reads := map Some xs @ Some r # rest\<rparr>)) (check_loop sz (map Some xs @ Some r # rest))"
    using x by (simp add: min_def)
  also have "\<dots> = check_loop sz (map Some xs @ Some r # rest)
      (st\<lparr>t_reads := map Some xs @ Some r # rest, t_error_msg := boot_line x, t_msgs := t_msgs st @ [boot_line x]\<rparr>)"
    using Cons.prems(1) by (subst info_line_text) simp_all
  finally have step: "check_loop sz (map Some (x # xs) @ Some r # rest) st = \<dots>" .
  obtain e where "check_loop sz (map Some xs @ Some r # rest)
      (st\<lparr>t_reads := map Some xs @ Some r # rest, t_error_msg := boot_line x, t_msgs := t_msgs st @ [boot_line x]\<rparr>)
      = final_status sz (take 64 r) (st\<lparr>t_reads := rest, t_msgs := t_msgs st @ map boot_line (x # xs), t_error_msg := e\<rparr>)"
    using Cons.IH [of "st\<lparr>t_reads := map Some xs @ Some r # rest, t_error_msg := boot_line x, t_msgs := t_msgs st @ [boot_line x]\<rparr>"] Cons.prems
    by auto
  then show ?case using step by metis
qed

text \<open>The last status of a command that announces no data: \<^verbatim>\<open>OKAY\<close> alone is a success.\<close>

lemma final_status_plain:
  "\<exists>rc resp e b. final_status 0 (take 64 r) st = Inr (rc, resp, st\<lparr>t_error_msg := e, t_open := b\<rparr>)
     \<and> (if take 4 r = ''OKAY'' then rc = 0 else rc = -1 \<and> length e \<le> 70)"
proof -
  have same: "st = st\<lparr>t_error_msg := t_error_msg st, t_open := t_open st\<rparr>" "st\<lparr>t_error_msg := e\<rparr> = st\<lparr>t_error_msg := e, t_open := t_open st\<rparr>" for e
    by simp_all
  consider "take 4 r = ''OKAY''" | "take 4 r = ''FAIL''" | "take 4 r \<noteq> ''OKAY''" "take 4 r \<noteq> ''FAIL''" by blast
  then show ?thesis
  proof cases
    case 1
    then show ?thesis by (simp add: final_status_def min_def) (metis same(1))
  next
    case 2
    define e where "e = (if length (take 64 r) > 4 then ''remote: '' @ status_text (take 64 r) else ''remote failure'')"
    have "length e \<le> 70" using status_text_length [of r] by (simp add: e_def)
    then have "final_status 0 (take 64 r) st = Inr (-1, [], st\<lparr>t_error_msg := e, t_open := t_open st\<rparr>)"
      using 2 unfolding final_status_def e_def [symmetric] by (simp add: min_def set_error_def strcpy_cap_def fb_sizes)
    then show ?thesis using 2 \<open>length e \<le> 70\<close>
      by (intro exI [of _ "-1"] exI [of _ "[]"] exI [of _ e] exI [of _ "t_open st"]) simp
  next
    case 3
    then have "final_status 0 (take 64 r) st = Inr (-1, [], st\<lparr>t_error_msg := ''unknown status code'', t_open := False\<rparr>)"
      by (simp add: final_status_def min_def fail_closed_def set_error_def strcpy_cap_def fb_sizes t_close_def)
    then show ?thesis using 3 by force
  qed
qed

lemma command_on_wire:
  assumes "t_open st" "t_writes st = []" "length cmd \<le> FB_COMMAND_SZ" "t_reads st = map Some infos @ Some r # rest"
    and "length (t_msgs st) + length infos \<le> FB_MAX_INFO_COUNT" "list_all is_info_status infos" "4 \<le> length r" "\<not> is_info_status r"
  shows "\<exists>rc resp e b. command_start cmd 0 st
      = Inr (rc, resp, st\<lparr>t_sent := t_sent st @ [cmd], t_reads := rest, t_msgs := t_msgs st @ map boot_line infos, t_error_msg := e, t_open := b\<rparr>)
    \<and> (if take 4 r = ''OKAY'' then rc = 0 else rc = -1 \<and> length e \<le> 70)"
proof -
  let ?s = "st\<lparr>t_sent := t_sent st @ [cmd]\<rparr>"
  obtain e where "check_loop 0 (map Some infos @ Some r # rest) ?s
      = final_status 0 (take 64 r) (?s\<lparr>t_reads := rest, t_msgs := t_msgs ?s @ map boot_line infos, t_error_msg := e\<rparr>)"
    using check_loop_infos [of ?s infos r 0 rest] assms(5-8) by auto
  moreover obtain rc resp e' b where
    "final_status 0 (take 64 r) (?s\<lparr>t_reads := rest, t_msgs := t_msgs ?s @ map boot_line infos, t_error_msg := e\<rparr>)
      = Inr (rc, resp, ?s\<lparr>t_reads := rest, t_msgs := t_msgs ?s @ map boot_line infos, t_error_msg := e'\<rparr>\<lparr>t_open := b\<rparr>)"
    "if take 4 r = ''OKAY'' then rc = 0 else rc = -1 \<and> length e' \<le> 70"
    using final_status_plain [of r "?s\<lparr>t_reads := rest, t_msgs := t_msgs ?s @ map boot_line infos, t_error_msg := e\<rparr>"] by auto
  ultimately show ?thesis using assms(1-4)
    by (intro exI [of _ rc] exI [of _ resp] exI [of _ e'] exI [of _ b])
      (simp add: command_start_def t_write_def check_response_def)
qed

text \<open>C6: What the updater makes of a device's answer: a command without an image is sent once, the lines of the boot loader
  are read, and the command counts as successful exactly when the status behind them is \<^verbatim>\<open>OKAY\<close>. A refusal and any
  other status count as failed; nothing behind that status is read, and the transport is closed.\<close>

theorem command_verdict_on_wire:
  assumes "exe_case = FASTBOOT_OEM_COMMAND \<or> exe_case = FASTBOOT_FLASHING_COMMAND" "step \<noteq> FASTBOOT_SOP_HDR"
    and "t_queue st = []" "True \<in> set (t_present st)" "t_writes st = []" "t_reads st = map Some infos @ Some r # rest"
    and "list_all is_info_status infos" "length infos < FB_MAX_INFO_COUNT" "4 \<le> length r" "\<not> is_info_status r"
    and "length (command_text exe_case a1 a2) \<le> FB_COMMAND_SZ" "length (t_secs st) \<le> 20"
    and "list_all (\<lambda>i. harmless (boot_line i)) infos" "harmless (okay_line st)"
  shows "\<exists>s. send_command_on_wire os exe_case (Some a1) a2 step w (fd, st) = Inr (Some (if take 4 r = ''OKAY'' then 1 else -1), fd, s)
    \<and> t_sent s = t_sent st @ [command_text exe_case a1 a2] \<and> t_reads s = rest \<and> t_queue s = [] \<and> \<not> t_open s"
proof -
  let ?cmd = "command_text exe_case a1 a2"
  obtain ps where ps: "open_device (t_present st) st = Inr (st\<lparr>t_present := ps, t_open := True\<rparr>)"
    using open_device_present [OF assms(4)] by blast
  define a where "a = (new_action OP_COMMAND ?cmd)\<lparr>a_msg := []\<rparr>"
  define s0 where "s0 = st\<lparr>t_present := ps, t_open := True, t_msgs := [], t_queue := [a]\<rparr>"
  have queued: "queue_command exe_case (Some a1) a2 w (rest_fastboot_output_msg (st\<lparr>t_present := ps, t_open := True\<rparr>)) = Inr (True, s0)"
    using assms(1,3,11)
    by (cases a2) (auto simp: queue_command_def do_oem_command_def command_text_def strcpy_cap_def fb_sizes fb_queue_command_def queue_action_def
        rest_fastboot_output_msg_def s0_def a_def)
  obtain rc resp e b where run: "command_start ?cmd 0 s0
      = Inr (rc, resp, s0\<lparr>t_sent := t_sent st @ [?cmd], t_reads := rest, t_msgs := map boot_line infos, t_error_msg := e, t_open := b\<rparr>)"
    and rc: "if take 4 r = ''OKAY'' then rc = 0 else rc = -1 \<and> length e \<le> 70"
    using command_on_wire [of s0 ?cmd infos r rest] assms(5-11) by (auto simp: s0_def)
  let ?s1 = "s0\<lparr>t_sent := t_sent st @ [?cmd], t_reads := rest, t_msgs := map boot_line infos, t_error_msg := e, t_open := b\<rparr>"
  define m where "m = (if rc \<noteq> 0 then ''FAILED ('' @ e @ '')'' @ [NL] else okay_line st)"
  have m: "length m < 128" using assms(12) rc by (auto simp: m_def okay_line_def split: if_splits)
  define s2 where "s2 = ?s1\<lparr>t_msgs := map boot_line infos @ [m]\<rparr>"
  have "run_action a 0 s0 = Inr (Some rc, s2)"
    using run assms(8) m by (simp add: run_action_def a_def new_action_def fb_command_plain_def conclude_def call_back_def cb_default_def
        strcpy_cap_def push_fastboot_output_msg_def cassert_def fb_sizes m_def okay_line_def s2_def s0_def Let_def split: if_splits)
  then have main: "fastboot_main exe_case (Some a1) a2 w st = Inr (Some (if rc \<noteq> 0 then 1 else 0), t_close (s2\<lparr>t_queue := []\<rparr>))"
    using ps queued by (simp add: fastboot_main_def fb_execute_queue_def s0_def [THEN arg_cong [of _ _ t_queue]])
  have short: "\<forall>x \<in> set (map boot_line infos @ [m]). length x < FAST_BOOT_RETURN_STR_LEN"
    using m by (auto simp: FAST_BOOT_RETURN_STR_LEN_def boot_line_def intro!: le_less_trans [OF status_text_length])
  have found: "(\<exists>x \<in> set (map boot_line infos @ [m]). strstr x ''FAILED'' \<noteq> None) \<longleftrightarrow> take 4 r \<noteq> ''OKAY''"
    using assms(13,14) rc strstr_prefix [of "''FAILED''" "'' ('' @ e @ '')'' @ [NL]"]
    by (auto simp: harmless_def list_all_iff m_def split: if_splits)
  have "post_process_fastboot step os (answers (map boot_line infos @ [m])) fd = Inr (if take 4 r = ''OKAY'' then 1 else -1, fd)"
    using answers_verdict [OF _ short assms(2), of os fd] assms(8) found by auto
  then show ?thesis using main by (auto simp: send_command_on_wire_def t_close_def s2_def s0_def)
qed

text \<open>C40: The lines of the boot loader are not counted: a device that answers the first request of a flash command with
  more than 16 \<^verbatim>\<open>INFO\<close> statuses makes the library write behind the array of messages.\<close>

theorem info_lines_overflow:
  assumes "True \<in> set (t_present st)" "t_writes st = []" "t_reads st = map Some xs @ rs" "list_all is_info_status xs"
    and "length xs > FB_MAX_INFO_COUNT" "length part \<le> 48" "fname \<noteq> []"
  shows "fastboot_main FASTBOOT_FLASH_COMMAND (Some part) (Some fname) w st = Inl OutOfBounds"
proof -
  obtain ps where ps: "open_device (t_present st) st = Inr (st\<lparr>t_present := ps, t_open := True\<rparr>)"
    using open_device_present [OF assms(1)] by blast
  have "fb_getvar (''has-slot:'' @ part) (rest_fastboot_output_msg (st\<lparr>t_present := ps, t_open := True\<rparr>)) = Inl OutOfBounds"
    using assms(2-6) by (simp add: fb_getvar_def fb_command_response_def command_start_def t_write_def rest_fastboot_output_msg_def
        check_response_def check_loop_overflow fb_sizes)
  then show ?thesis using ps assms(7) by (simp add: fastboot_main_def queue_command_def do_for_partition_def)
qed

theorem info_lines_overflow_witness:
  "fastboot_main FASTBOOT_FLASH_COMMAND (Some ''capri_c'') (Some ''I'') example_wire_fs
     (example_wire\<lparr>t_reads := map Some (replicate 17 ''INFObusy'')\<rparr>) = Inl OutOfBounds"
  by (rule info_lines_overflow [where xs = "replicate 17 ''INFObusy''" and rs = "[]"])
    (simp_all add: example_wire_def FB_MAX_INFO_COUNT_def list_all_iff is_info_status_def)

text \<open>A device that reports a line of its boot loader before it unlocks, and one that refuses.\<close>

theorem command_verdict_on_wire_witness:
  "\<exists>s s'. send_command_on_wire (0, 0) FASTBOOT_FLASHING_COMMAND (Some ''unlock'') None FASTBOOT_FLASH_FW example_wire_fs
       (example_fd, example_wire\<lparr>t_reads := [Some ''INFOwait'', Some ''OKAY'']\<rparr>) = Inr (Some 1, example_fd, s)
     \<and> t_sent s = [''flashing unlock'']
     \<and> send_command_on_wire (0, 0) FASTBOOT_OEM_COMMAND (Some ''boot-flag'') (Some ''9'') FASTBOOT_FLASH_FW example_wire_fs
       (example_fd, example_wire\<lparr>t_reads := [Some ''FAIL'']\<rparr>) = Inr (Some (-1), example_fd, s')
     \<and> t_sent s' = [''oem boot-flag 9'']"
proof -
  have "harmless (boot_line ''INFOwait'')" "harmless (okay_line (example_wire\<lparr>t_reads := rs\<rparr>))" for rs
    by (simp_all add: harmless_def boot_line_def okay_line_def status_text_def example_wire_def)
  then show ?thesis
    using command_verdict_on_wire [where exe_case = FASTBOOT_FLASHING_COMMAND and step = FASTBOOT_FLASH_FW and os = "(0, 0)" and fd = example_fd
        and w = example_wire_fs and ?a1.0 = "''unlock''" and ?a2.0 = None
        and st = "example_wire\<lparr>t_reads := [Some ''INFOwait'', Some ''OKAY'']\<rparr>" and infos = "[''INFOwait'']" and r = "''OKAY''" and rest = "[]"]
      command_verdict_on_wire [where exe_case = FASTBOOT_OEM_COMMAND and step = FASTBOOT_FLASH_FW and os = "(0, 0)" and fd = example_fd
        and w = example_wire_fs and ?a1.0 = "''boot-flag''" and ?a2.0 = "Some ''9''"
        and st = "example_wire\<lparr>t_reads := [Some ''FAIL'']\<rparr>" and infos = "[]" and r = "''FAIL''" and rest = "[]"]
    by (auto simp: example_wire_def is_info_status_def command_text_def fb_sizes)
qed

end
