(* ===== verification/Fb_Usb.thy ===== *)
theory Fb_Usb
  imports Fb_Wire
begin

text \<open>
  The updater, part five: how the fastboot library finds a device on the USB bus and exchanges bytes with it,
  \<^verbatim>\<open>fastboot/usb_linux.cpp\<close> and the matching of \<^verbatim>\<open>fastboot/fastboot.cpp\<close>.

  The descriptors of a device are read into \<^verbatim>\<open>desc\<close>, an array of 1024 bytes that all devices share; a pointer into it
  is a position, and bytes behind the ones that were read are those of an earlier device. A \<open>usb_dev\<close> is an entry of
  \<^verbatim>\<open>/sys/bus/usb/devices\<close> with what opening, reading and claiming it give; its name is taken to be short enough for
  the paths of 80 characters. A \<open>usbt\<close> is an open device with the results of the bulk transfers to come: what a read
  delivers (\<open>None\<close> an error, no entry waits for ever) and what a write returns (no entry: all of it).
\<close>

section \<open>State\<close>

type_synonym byte = "8 word"

definition MAX_USBFS_BULK_SIZE :: nat where "MAX_USBFS_BULK_SIZE = 16 * 1024"
definition MAX_RETRIES :: nat where "MAX_RETRIES = 5"
definition DESC_SIZE :: nat where "DESC_SIZE = 1024"

record usb_handle =
  uh_fname :: string
  uh_desc :: bool
  uh_ep_in :: byte
  uh_ep_out :: byte

record usb_ifc_info =
  dev_vendor :: "16 word"
  dev_product :: "16 word"
  dev_class :: byte
  dev_subclass :: byte
  dev_protocol :: byte
  ifc_class :: byte
  ifc_subclass :: byte
  ifc_protocol :: byte
  has_bulk_in :: bool
  has_bulk_out :: bool
  writable :: bool
  serial_number :: cbuf
  device_path :: string

type_synonym ifc_match_func = "usb_ifc_info \<Rightarrow> string option \<Rightarrow> int"

record usb_dev =
  ud_name :: string
  ud_busnum :: "string option"
  ud_devnum :: "string option"
  ud_rdwr :: bool
  ud_rdonly :: bool
  ud_bytes :: "byte list option"
  ud_serial :: "string option"
  ud_claim :: bool

record usbt =
  ut_handle :: usb_handle
  ut_in :: "string option list"
  ut_out :: "int list"
  ut_sent :: "string list"

section \<open>Names\<close>

definition badname :: "string \<Rightarrow> bool" where
  "badname name \<longleftrightarrow>
     (case name of
        [] \<Rightarrow> True
      | c # cs \<Rightarrow> \<not> isdigit c \<or> list_ex (\<lambda>c. \<not> isdigit c \<and> c \<noteq> CHR ''.'' \<and> c \<noteq> CHR ''-'') cs)"

text \<open>\<^verbatim>\<open>sscanf(s, "%d", &value) == 1\<close> and \<^verbatim>\<open>%03d\<close> of a number that is not negative.\<close>

definition sscanf_d :: "string \<Rightarrow> int option" where
  "sscanf_d s =
     (let t = dropWhile isspace s;
          u = (if t \<noteq> [] \<and> (hd t = CHR ''-'' \<or> hd t = CHR ''+'') then tl t else t)
      in if u \<noteq> [] \<and> isdigit (hd u) then Some (atoi s) else None)"

definition show_d03 :: "int \<Rightarrow> string" where
  "show_d03 i = (let s = show_nat (nat i) in replicate (3 - length s) (CHR ''0'') @ s)"

definition read_sysfs_string :: "string option \<Rightarrow> nat \<Rightarrow> string option" where
  "read_sysfs_string content_of bufsize = map_option (\<lambda>s. takeWhile (\<lambda>c. c \<noteq> NUL) (take (bufsize - 1) s)) content_of"

definition read_sysfs_number :: "string option \<Rightarrow> int" where
  "read_sysfs_number content_of =
     (case read_sysfs_string content_of 16 of
        None \<Rightarrow> -1
      | Some s \<Rightarrow> (case sscanf_d s of None \<Rightarrow> -1 | Some v \<Rightarrow> v))"

definition convert_to_devfs_name :: "usb_dev \<Rightarrow> string option" where
  "convert_to_devfs_name d =
     (let busnum = read_sysfs_number (ud_busnum d); devnum = read_sysfs_number (ud_devnum d)
      in if busnum < 0 then None
         else if devnum < 0 then None
         else Some (take 63 (''/dev/bus/usb/'' @ show_d03 busnum @ ''/'' @ show_d03 devnum)))"

section \<open>Descriptors\<close>

definition USB_DT_DEVICE :: byte where "USB_DT_DEVICE = 1"
definition USB_DT_CONFIG :: byte where "USB_DT_CONFIG = 2"
definition USB_DT_INTERFACE :: byte where "USB_DT_INTERFACE = 4"
definition USB_DT_ENDPOINT :: byte where "USB_DT_ENDPOINT = 5"
definition USB_DT_SS_ENDPOINT_COMP :: byte where "USB_DT_SS_ENDPOINT_COMP = 0x30"
definition USB_DT_DEVICE_SIZE :: nat where "USB_DT_DEVICE_SIZE = 18"
definition USB_DT_CONFIG_SIZE :: nat where "USB_DT_CONFIG_SIZE = 9"
definition USB_DT_INTERFACE_SIZE :: nat where "USB_DT_INTERFACE_SIZE = 9"
definition USB_DT_ENDPOINT_SIZE :: nat where "USB_DT_ENDPOINT_SIZE = 7"
definition USB_DT_SS_EP_COMP_SIZE :: nat where "USB_DT_SS_EP_COMP_SIZE = 6"

lemmas usb_dts = USB_DT_DEVICE_def USB_DT_CONFIG_def USB_DT_INTERFACE_def USB_DT_ENDPOINT_def USB_DT_SS_ENDPOINT_COMP_def
lemmas usb_dt_sizes = USB_DT_DEVICE_SIZE_def USB_DT_CONFIG_SIZE_def USB_DT_INTERFACE_SIZE_def USB_DT_ENDPOINT_SIZE_def
  USB_DT_SS_EP_COMP_SIZE_def

definition desc_byte :: "byte list \<Rightarrow> nat \<Rightarrow> byte cres" where
  "desc_byte buf p = (if p < length buf then Inr (buf ! p) else Inl OutOfBounds)"

text \<open>True where \<^verbatim>\<open>check\<close> returns 0. The length of a header is its first byte, its type the second one.\<close>

definition check_desc :: "byte list \<Rightarrow> nat \<Rightarrow> int \<Rightarrow> byte \<Rightarrow> nat \<Rightarrow> bool cres" where
  "check_desc buf pos len typ sz =
     (if len < int sz then Inr False
      else cbind (desc_byte buf pos) (\<lambda>bLength.
           if unat bLength < sz then Inr False
           else if uint bLength > len then Inr False
           else cbind (desc_byte buf (pos + 1)) (\<lambda>bDescriptorType. Inr (bDescriptorType = typ))))"

text \<open>The loop that looks for a descriptor; the first argument bounds its rounds.\<close>

fun skip_to :: "nat \<Rightarrow> byte list \<Rightarrow> byte \<Rightarrow> nat \<Rightarrow> nat \<times> int \<Rightarrow> (nat \<times> int) cres" where
  "skip_to 0 buf typ sz (pos, len) = (if len > 0 then Inl Blocked else Inr (pos, len))"
| "skip_to (Suc n) buf typ sz (pos, len) =
     (if len > 0
      then cbind (check_desc buf pos len typ sz) (\<lambda>found.
             if found then Inr (pos, len)
             else cbind (desc_byte buf pos) (\<lambda>bLength. skip_to n buf typ sz (pos + unat bLength, len - uint bLength)))
      else Inr (pos, len))"

definition find_desc :: "byte list \<Rightarrow> byte \<Rightarrow> nat \<Rightarrow> nat \<times> int \<Rightarrow> (nat \<times> int) cres" where
  "find_desc buf typ sz x = skip_to (Suc (nat (snd x))) buf typ sz x"

text \<open>The loop over the endpoints of an interface; the last two numbers are \<^verbatim>\<open>in\<close> and \<^verbatim>\<open>out\<close>.\<close>

fun endpoints :: "nat \<Rightarrow> byte list \<Rightarrow> nat \<times> int \<Rightarrow> int \<times> int \<Rightarrow> ((nat \<times> int) \<times> int \<times> int) cres" where
  "endpoints 0 buf x io = Inr (x, io)"
| "endpoints (Suc e) buf x io =
     cbind (find_desc buf USB_DT_ENDPOINT USB_DT_ENDPOINT_SIZE x) (\<lambda>(pos, len).
       if len < 0 then Inr ((pos, len), io)
       else cbind (desc_byte buf pos) (\<lambda>bLength.
            cbind (desc_byte buf (pos + 3)) (\<lambda>bmAttributes.
              let pos1 = pos + unat bLength; len1 = len - uint bLength
              in if and bmAttributes 3 \<noteq> 2 then endpoints e buf (pos1, len1) io
                 else cbind (desc_byte buf (pos + 2)) (\<lambda>bEndpointAddress.
                      let io1 = (if and bEndpointAddress 0x80 \<noteq> 0 then (uint bEndpointAddress, snd io) else (fst io, uint bEndpointAddress))
                      in cbind (check_desc buf pos1 len1 USB_DT_SS_ENDPOINT_COMP USB_DT_SS_EP_COMP_SIZE) (\<lambda>comp.
                         if comp then endpoints e buf (pos1 + USB_DT_SS_EP_COMP_SIZE, len1 - int USB_DT_SS_EP_COMP_SIZE) io1
                         else endpoints e buf (pos1, len1) io1)))))"

text \<open>The loop over the interfaces; \<open>None\<close> where \<^verbatim>\<open>filter_usb_device\<close> returns -1.\<close>

fun interfaces ::
  "nat \<Rightarrow> usb_ifc_info \<Rightarrow> ifc_match_func \<Rightarrow> string option \<Rightarrow> byte list \<Rightarrow> nat \<times> int \<Rightarrow> (int \<times> int \<times> byte) option cres"
where
  "interfaces 0 info cb local_serial buf x = Inr None"
| "interfaces (Suc i) info cb local_serial buf x =
     cbind (find_desc buf USB_DT_INTERFACE USB_DT_INTERFACE_SIZE x) (\<lambda>(pos, len).
       if len \<le> 0 then Inr None
       else cbind (desc_byte buf pos) (\<lambda>bLength.
            cbind (desc_byte buf (pos + 2)) (\<lambda>bInterfaceNumber.
            cbind (desc_byte buf (pos + 4)) (\<lambda>bNumEndpoints.
            cbind (desc_byte buf (pos + 5)) (\<lambda>cl.
            cbind (desc_byte buf (pos + 6)) (\<lambda>sub.
            cbind (desc_byte buf (pos + 7)) (\<lambda>prot.
            cbind (endpoints (unat bNumEndpoints) buf (pos + unat bLength, len - uint bLength) (-1, -1)) (\<lambda>(y, inp, outp).
              if cb (info\<lparr>ifc_class := cl, ifc_subclass := sub, ifc_protocol := prot, has_bulk_in := inp \<noteq> -1, has_bulk_out := outp \<noteq> -1\<rparr>)
                   local_serial = 0
              then Inr (Some (inp, outp, bInterfaceNumber))
              else interfaces i info cb local_serial buf y))))))))"

text \<open>The array of the serial number; \<open>junk\<close> is what the array held.\<close>

definition serial_buf :: "bool \<Rightarrow> string option \<Rightarrow> cbuf \<Rightarrow> cbuf" where
  "serial_buf has_serial content_of junk =
     (let empty = junk[0 := NUL]
      in if \<not> has_serial then empty
         else case content_of of
           None \<Rightarrow> empty
         | Some s \<Rightarrow>
             let got = take 255 s; b = got @ drop (length got) empty
             in if got = [] then empty
                else if last got = NL then b[length got - 1 := NUL]
                else b)"

definition filter_usb_device ::
  "string \<Rightarrow> byte list \<Rightarrow> int \<Rightarrow> bool \<Rightarrow> ifc_match_func \<Rightarrow> string option \<Rightarrow> string option \<Rightarrow> cbuf \<Rightarrow> (int \<times> int \<times> byte) option cres"
where
  "filter_usb_device sysfs_name buf len wr cb local_serial serial_file junk =
     cbind (check_desc buf 0 len USB_DT_DEVICE USB_DT_DEVICE_SIZE) (\<lambda>dev_ok. if \<not> dev_ok then Inr None else
     cbind (desc_byte buf 0) (\<lambda>dl. let cfg = unat dl; len1 = len - uint dl in
     cbind (check_desc buf cfg len1 USB_DT_CONFIG USB_DT_CONFIG_SIZE) (\<lambda>cfg_ok. if \<not> cfg_ok then Inr None else
     cbind (desc_byte buf cfg) (\<lambda>cl.
     cbind (desc_byte buf (cfg + 4)) (\<lambda>bNumInterfaces.
       let info = \<lparr>dev_vendor = word_cat (buf ! 9) (buf ! 8), dev_product = word_cat (buf ! 11) (buf ! 10), dev_class = buf ! 4,
                   dev_subclass = buf ! 5, dev_protocol = buf ! 6, ifc_class = 0, ifc_subclass = 0, ifc_protocol = 0,
                   has_bulk_in = False, has_bulk_out = False, writable = wr,
                   serial_number = serial_buf (buf ! 16 \<noteq> 0) serial_file junk, device_path = take 255 (''usb:'' @ sysfs_name)\<rparr>
       in interfaces (unat bNumInterfaces) info cb local_serial buf (cfg + unat cl, len1 - uint cl))))))"

section \<open>Matching\<close>

text \<open>\<^verbatim>\<open>strcmp(s, buf) == 0\<close> for an array that is long enough.\<close>

definition strcmp_buf :: "string \<Rightarrow> cbuf \<Rightarrow> bool" where
  "strcmp_buf s b \<longleftrightarrow> take (Suc (length s)) b = s @ [NUL]"

definition match_fastboot_with_serial :: ifc_match_func where
  "match_fastboot_with_serial info local_serial =
     (if ifc_class info \<noteq> 0xff \<or> ifc_subclass info \<noteq> 0x42 \<or> ifc_protocol info \<noteq> 0x03 then -1
      else case local_serial of
             None \<Rightarrow> 0
           | Some s \<Rightarrow> if \<not> strcmp_buf s (serial_number info) \<and> s \<noteq> device_path info then -1 else 0)"

definition match_fastboot :: ifc_match_func where
  "match_fastboot info serial = match_fastboot_with_serial info serial"

section \<open>Finding a device\<close>

text \<open>\<^verbatim>\<open>read\<close> into the array \<^verbatim>\<open>desc\<close>: \<open>buf\<close> is the array as the device before has left it.\<close>

definition read_desc :: "usb_dev \<Rightarrow> byte list \<Rightarrow> byte list \<times> int" where
  "read_desc d buf =
     (case ud_bytes d of
        None \<Rightarrow> (buf, -1)
      | Some b \<Rightarrow> let got = take DESC_SIZE b in (got @ drop (length got) buf, int (length got)))"

fun find_usb_device :: "ifc_match_func \<Rightarrow> string option \<Rightarrow> cbuf \<Rightarrow> byte list \<Rightarrow> usb_dev list \<Rightarrow> usb_handle option cres" where
  "find_usb_device cb local_serial junk buf [] = Inr None"
| "find_usb_device cb local_serial junk buf (d # ds) =
     (if badname (ud_name d) then find_usb_device cb local_serial junk buf ds
      else case convert_to_devfs_name d of
        None \<Rightarrow> find_usb_device cb local_serial junk buf ds
      | Some devname \<Rightarrow>
          if \<not> ud_rdwr d \<and> \<not> ud_rdonly d then find_usb_device cb local_serial junk buf ds
          else let (desc, n) = read_desc d buf
               in cbind (filter_usb_device (ud_name d) desc n (ud_rdwr d) cb local_serial (ud_serial d) junk) (\<lambda>r.
                    case r of
                      None \<Rightarrow> find_usb_device cb local_serial junk desc ds
                    | Some (inp, outp, ifc) \<Rightarrow>
                        if ud_claim d
                        then Inr (Some \<lparr>uh_fname = devname, uh_desc = True, uh_ep_in = word_of_int inp, uh_ep_out = word_of_int outp\<rparr>)
                        else find_usb_device cb local_serial junk desc ds))"

definition usb_open :: "ifc_match_func \<Rightarrow> string option \<Rightarrow> cbuf \<Rightarrow> byte list \<Rightarrow> usb_dev list option \<Rightarrow> usb_handle option cres" where
  "usb_open cb local_serial junk buf busdir = (case busdir of None \<Rightarrow> Inr None | Some ds \<Rightarrow> find_usb_device cb local_serial junk buf ds)"

text \<open>How \<^verbatim>\<open>open_device\<close> and \<^verbatim>\<open>check_fastboot_download_port\<close> call it.\<close>

definition open_by_serial :: "string \<Rightarrow> cbuf \<Rightarrow> byte list \<Rightarrow> usb_dev list option \<Rightarrow> usb_handle option cres" where
  "open_by_serial g_device_serial_number = usb_open match_fastboot (if g_device_serial_number = [] then None else Some g_device_serial_number)"

section \<open>Transfers\<close>

definition bulk_out :: "string \<Rightarrow> usbt \<Rightarrow> int \<times> usbt" where
  "bulk_out bytes st =
     (case ut_out st of
        [] \<Rightarrow> (int (length bytes), st\<lparr>ut_sent := ut_sent st @ [bytes]\<rparr>)
      | n # ns \<Rightarrow> (n, if n < 0 then st\<lparr>ut_out := ns\<rparr> else st\<lparr>ut_out := ns, ut_sent := ut_sent st @ [take (nat n) bytes]\<rparr>))"

function write_loop :: "string \<Rightarrow> 32 word \<Rightarrow> usbt \<Rightarrow> int \<times> usbt" where
  "write_loop bytes cnt st =
     (let xfer = (if length bytes > MAX_USBFS_BULK_SIZE then MAX_USBFS_BULK_SIZE else length bytes);
          (n, st1) = bulk_out (take xfer bytes) st
      in if n \<noteq> int xfer then (-1, st1)
         else let cnt1 = cnt + of_nat xfer; rest = drop xfer bytes
              in if rest = [] then (uint cnt1, st1) else write_loop rest cnt1 st1)"
  by pat_completeness auto
termination by (relation "measure (\<lambda>(bytes, cnt, st). length bytes)") (auto simp: MAX_USBFS_BULK_SIZE_def split: if_splits)

declare write_loop.simps [simp del]

definition usb_write :: "string \<Rightarrow> usbt \<Rightarrow> int \<times> usbt" where
  "usb_write bytes st =
     (if uh_ep_out (ut_handle st) = 0 \<or> \<not> uh_desc (ut_handle st) then (-1, st) else write_loop bytes 0 st)"

text \<open>A transfer is tried again after an error, at most \<^verbatim>\<open>MAX_RETRIES\<close> times.\<close>

fun read_try :: "nat \<Rightarrow> nat \<Rightarrow> string option list \<Rightarrow> (string option \<times> string option list) cres" where
  "read_try retry xfer [] = Inl Blocked"
| "read_try retry xfer (None # rs) = (if Suc retry > MAX_RETRIES then Inr (None, rs) else read_try (Suc retry) xfer rs)"
| "read_try retry xfer (Some d # rs) = Inr (Some (take xfer d), rs)"

function read_loop :: "nat \<Rightarrow> string \<Rightarrow> usbt \<Rightarrow> (string option \<times> usbt) cres" where
  "read_loop len acc st =
     (if len = 0 then Inr (Some acc, st)
      else let xfer = (if len > MAX_USBFS_BULK_SIZE then MAX_USBFS_BULK_SIZE else len)
           in cbind (read_try 0 xfer (ut_in st)) (\<lambda>(r, rs).
                case r of
                  None \<Rightarrow> Inr (None, st\<lparr>ut_in := rs\<rparr>)
                | Some d \<Rightarrow> if length d < xfer then Inr (Some (acc @ d), st\<lparr>ut_in := rs\<rparr>)
                            else read_loop (len - length d) (acc @ d) (st\<lparr>ut_in := rs\<rparr>)))"
  by pat_completeness auto
termination by (relation "measure (\<lambda>(len, acc, st). len)") (auto simp: MAX_USBFS_BULK_SIZE_def split: if_splits)

declare read_loop.simps [simp del]

text \<open>\<open>None\<close> where \<^verbatim>\<open>Read\<close> returns -1.\<close>

definition usb_read :: "nat \<Rightarrow> usbt \<Rightarrow> (string option \<times> usbt) cres" where
  "usb_read len st =
     (if uh_ep_in (ut_handle st) = 0 \<or> \<not> uh_desc (ut_handle st) then Inr (None, st) else read_loop len [] st)"

definition usb_close :: "usbt \<Rightarrow> usbt" where
  "usb_close st = st\<lparr>ut_handle := (ut_handle st)\<lparr>uh_desc := False\<rparr>\<rparr>"

text \<open>\<^verbatim>\<open>WaitForDisconnect\<close>: \<open>obs\<close> are the times and, for each, whether the file of the device is gone.\<close>

fun wait_loop :: "int \<Rightarrow> (int \<times> bool) list \<Rightarrow> int cres" where
  "wait_loop deadline [] = Inl Blocked"
| "wait_loop deadline ((t, gone) # obs) = (if t < deadline then (if gone then Inr 0 else wait_loop deadline obs) else Inr (-1))"

definition wait_for_disconnect :: "int \<Rightarrow> (int \<times> bool) list \<Rightarrow> int cres" where
  "wait_for_disconnect now obs = wait_loop (now + 3000) obs"

section \<open>The search for a descriptor\<close>

lemma check_desc_found:
  assumes "check_desc buf pos len typ sz = Inr True"
  shows "int sz \<le> len" "pos + 1 < length buf" "sz \<le> unat (buf ! pos)" "uint (buf ! pos) \<le> len" "buf ! (pos + 1) = typ"
  using assms by (auto simp: check_desc_def desc_byte_def split: if_splits elim!: cbind_InrE)

lemma skip_to_zero_length:
  assumes "0 < len" "pos < length buf" "buf ! pos = 0" "0 < sz"
  shows "skip_to n buf typ sz (pos, len) = Inl Blocked"
  by (induction n) (use assms in \<open>auto simp: check_desc_def desc_byte_def\<close>)

lemma uint_pos: "(b :: byte) \<noteq> 0 \<Longrightarrow> 0 < uint b"
  by (simp add: word_neq_0_conv word_less_def)

lemma check_desc_zero: "check_desc buf pos len typ sz = Inr False \<Longrightarrow> pos < length buf \<Longrightarrow> buf ! pos = 0 \<Longrightarrow> 0 < len \<Longrightarrow>
    skip_to n buf typ sz (pos, len) = Inl Blocked"
  by (induction n) (simp_all add: desc_byte_def)

text \<open>The bound of \<open>find_desc\<close> is enough: more rounds change nothing.\<close>

lemma skip_to_enough:
  "nat len < m \<Longrightarrow> nat len < n \<Longrightarrow> skip_to m buf typ sz (pos, len) = skip_to n buf typ sz (pos, len)"
proof (induction m arbitrary: n pos len)
  case (Suc m)
  then obtain k where n: "n = Suc k" by (cases n) auto
  show ?case
  proof (cases "0 < len \<and> check_desc buf pos len typ sz = Inr False \<and> pos < length buf")
    case False
    then show ?thesis by (cases "check_desc buf pos len typ sz") (auto simp: n desc_byte_def)
  next
    case True
    show ?thesis
    proof (cases "buf ! pos = 0")
      case True
      then show ?thesis using \<open>0 < len \<and> _\<close> check_desc_zero by metis
    next
      case False
      then have "nat (len - uint (buf ! pos)) < m" "nat (len - uint (buf ! pos)) < k"
        using uint_pos [OF False] \<open>0 < len \<and> _\<close> Suc.prems n by linarith+
      from Suc.IH [OF this] show ?thesis using True by (simp add: n desc_byte_def)
    qed
  qed
qed simp

section \<open>Reading stays within the array\<close>

definition within :: "('a \<Rightarrow> bool) \<Rightarrow> 'a cres \<Rightarrow> bool" where
  "within P m \<longleftrightarrow> (case m of Inl e \<Rightarrow> e \<noteq> OutOfBounds | Inr a \<Rightarrow> P a)"

lemma within_Inr [simp]: "within P (Inr a) = P a"
  by (simp add: within_def)

lemma within_Blocked [simp]: "within P (Inl Blocked)"
  by (simp add: within_def)

lemma within_bind: "within P m \<Longrightarrow> (\<And>a. P a \<Longrightarrow> within Q (f a)) \<Longrightarrow> within Q (cbind m f)"
  by (cases m) (simp_all add: within_def)

lemma within_if: "(b \<Longrightarrow> within P x) \<Longrightarrow> (\<not> b \<Longrightarrow> within P y) \<Longrightarrow> within P (if b then x else y)"
  by simp

lemma within_weaken: "within P m \<Longrightarrow> (\<And>a. P a \<Longrightarrow> Q a) \<Longrightarrow> within Q m"
  by (cases m) (simp_all add: within_def)

text \<open>The position and the rest add up to what was read.\<close>

definition inside :: "int \<Rightarrow> nat \<times> int \<Rightarrow> bool" where
  "inside tot = (\<lambda>(pos, len). int pos + len = tot)"

lemma inside_step: "inside tot (pos, len) \<Longrightarrow> inside tot (pos + unat (b :: byte), len - uint b)"
  by (simp add: inside_def)

lemma within_check:
  assumes "inside tot (pos, len)" "tot \<le> int (length buf)" "2 \<le> sz"
  shows "within (\<lambda>ok. ok \<longrightarrow> int sz \<le> len) (check_desc buf pos len typ sz)"
  unfolding check_desc_def
proof (rule within_if)
  assume "\<not> len < int sz"
  then have p: "pos + 1 < length buf" using assms by (simp add: inside_def)
  then have b: "within (\<lambda>b. True) (desc_byte buf pos)" "within (\<lambda>b. True) (desc_byte buf (pos + 1))" by (simp_all add: desc_byte_def)
  then show "within (\<lambda>ok. ok \<longrightarrow> int sz \<le> len) (cbind (desc_byte buf pos) (\<lambda>bLength. if unat bLength < sz then Inr False
      else if uint bLength > len then Inr False else cbind (desc_byte buf (pos + 1)) (\<lambda>bDescriptorType. Inr (bDescriptorType = typ))))"
    using \<open>\<not> len < int sz\<close> by (intro within_bind [OF b(1)] within_if within_bind [OF b(2)]) simp_all
qed simp

lemma within_skip_to:
  assumes "2 \<le> sz" "tot \<le> int (length buf)" "inside tot (pos, len)"
  shows "within (\<lambda>x. inside tot x \<and> (0 < snd x \<longrightarrow> int sz \<le> snd x)) (skip_to n buf typ sz (pos, len))"
  using assms(3)
proof (induction n arbitrary: pos len)
  case (Suc n)
  have byte: "within (\<lambda>b. True) (desc_byte buf pos)" if "0 < len"
    using that assms(2) Suc.prems by (auto simp: inside_def desc_byte_def)
  show ?case unfolding skip_to.simps
  proof (rule within_if)
    assume "0 < len"
    then show "within (\<lambda>x. inside tot x \<and> (0 < snd x \<longrightarrow> int sz \<le> snd x)) (cbind (check_desc buf pos len typ sz) (\<lambda>found.
        if found then Inr (pos, len)
        else cbind (desc_byte buf pos) (\<lambda>bLength. skip_to n buf typ sz (pos + unat bLength, len - uint bLength))))"
      using Suc.prems
      by (intro within_bind [OF within_check [OF Suc.prems assms(2,1)]] within_if within_bind [OF byte] Suc.IH inside_step) simp_all
  qed (use Suc.prems in simp)
qed simp

lemma within_find_desc:
  assumes "2 \<le> sz" "tot \<le> int (length buf)" "inside tot x"
  shows "within (\<lambda>y. inside tot y \<and> (0 < snd y \<longrightarrow> int sz \<le> snd y)) (find_desc buf typ sz x)"
  using within_skip_to [OF assms(1,2)] assms(3) by (cases x) (simp add: find_desc_def del: skip_to.simps)

lemma within_endpoints:
  assumes "tot + 4 \<le> int (length buf)" "inside tot x"
  shows "within (\<lambda>(y, io). inside tot y) (endpoints e buf x io)"
  using assms(2)
proof (induction e arbitrary: x io)
  case (Suc e)
  have "2 \<le> USB_DT_ENDPOINT_SIZE" "2 \<le> USB_DT_SS_EP_COMP_SIZE" by (simp_all add: usb_dt_sizes)
  have comp: "inside tot (pos + USB_DT_SS_EP_COMP_SIZE, len - int USB_DT_SS_EP_COMP_SIZE)" if "inside tot (pos, len)" for pos len
    using that by (simp add: inside_def)
  show ?case unfolding endpoints.simps
  proof (rule within_bind [OF within_find_desc [OF \<open>2 \<le> USB_DT_ENDPOINT_SIZE\<close> _ Suc.prems]], use assms(1) in simp, clarify, rule within_if)
    fix pos len assume i: "inside tot (pos, len)"
    then show "within (\<lambda>(y, io). inside tot y) (Inr ((pos, len), io))" by simp
    assume "\<not> len < 0"
    then have p: "within (\<lambda>b. True) (desc_byte buf pos)" "within (\<lambda>b. True) (desc_byte buf (pos + 3))" "within (\<lambda>b. True) (desc_byte buf (pos + 2))"
      using i assms(1) by (auto simp: inside_def desc_byte_def)
    have c: "within (\<lambda>ok. True) (check_desc buf pos1 len1 USB_DT_SS_ENDPOINT_COMP USB_DT_SS_EP_COMP_SIZE)" if "inside tot (pos1, len1)" for pos1 len1
      by (rule within_weaken [OF within_check [OF that]]) (use assms(1) in \<open>simp_all add: usb_dt_sizes\<close>)
    show "within (\<lambda>(y, io). inside tot y) (cbind (desc_byte buf pos) (\<lambda>bLength.
            cbind (desc_byte buf (pos + 3)) (\<lambda>bmAttributes.
              let pos1 = pos + unat bLength; len1 = len - uint bLength
              in if and bmAttributes 3 \<noteq> 2 then endpoints e buf (pos1, len1) io
                 else cbind (desc_byte buf (pos + 2)) (\<lambda>bEndpointAddress.
                      let io1 = (if and bEndpointAddress 0x80 \<noteq> 0 then (uint bEndpointAddress, snd io) else (fst io, uint bEndpointAddress))
                      in cbind (check_desc buf pos1 len1 USB_DT_SS_ENDPOINT_COMP USB_DT_SS_EP_COMP_SIZE) (\<lambda>comp.
                         if comp then endpoints e buf (pos1 + USB_DT_SS_EP_COMP_SIZE, len1 - int USB_DT_SS_EP_COMP_SIZE) io1
                         else endpoints e buf (pos1, len1) io1)))))"
      unfolding Let_def
      by (intro within_bind [OF p(1)] within_bind [OF p(2)] within_if within_bind [OF p(3)] within_bind [OF c] Suc.IH comp inside_step [OF i])
  qed
qed simp

lemma within_interfaces:
  assumes "tot + 4 \<le> int (length buf)" "inside tot x"
  shows "within (\<lambda>_. True) (interfaces i info cb local_serial buf x)"
  using assms(2)
proof (induction i arbitrary: x)
  case (Suc i)
  have sz: "2 \<le> USB_DT_INTERFACE_SIZE" by (simp add: usb_dt_sizes)
  show ?case unfolding interfaces.simps
  proof (rule within_bind [OF within_find_desc [OF sz _ Suc.prems]], use assms(1) in simp, clarify, rule within_if, simp)
    fix pos len assume i: "inside tot (pos, len)" and found: "0 < snd (pos, len) \<longrightarrow> int USB_DT_INTERFACE_SIZE \<le> snd (pos, len)" and "\<not> len \<le> 0"
    then have b: "within (\<lambda>b. True) (desc_byte buf (pos + k))" if "k < 9" for k
      using that assms(1) by (auto simp: inside_def desc_byte_def usb_dt_sizes)
    note e = within_endpoints [OF assms(1)]
    show "within (\<lambda>_. True) (cbind (desc_byte buf pos) (\<lambda>bLength.
            cbind (desc_byte buf (pos + 2)) (\<lambda>bInterfaceNumber.
            cbind (desc_byte buf (pos + 4)) (\<lambda>bNumEndpoints.
            cbind (desc_byte buf (pos + 5)) (\<lambda>cl.
            cbind (desc_byte buf (pos + 6)) (\<lambda>sub.
            cbind (desc_byte buf (pos + 7)) (\<lambda>prot.
            cbind (endpoints (unat bNumEndpoints) buf (pos + unat bLength, len - uint bLength) (-1, -1)) (\<lambda>(y, inp, outp).
              if cb (info\<lparr>ifc_class := cl, ifc_subclass := sub, ifc_protocol := prot, has_bulk_in := inp \<noteq> -1, has_bulk_out := outp \<noteq> -1\<rparr>)
                   local_serial = 0
              then Inr (Some (inp, outp, bInterfaceNumber))
              else interfaces i info cb local_serial buf y))))))))"
      by (rule within_bind [OF b [of 0, simplified]], rule within_bind [OF b], simp, rule within_bind [OF b], simp, rule within_bind [OF b], simp,
          rule within_bind [OF b], simp, rule within_bind [OF b], simp, rule within_bind [OF e [OF inside_step [OF i]]])
        (auto intro!: within_if Suc.IH)
  qed
qed simp

lemma within_filter:
  assumes "len + 4 \<le> int (length buf)"
  shows "within (\<lambda>_. True) (filter_usb_device name buf len wr cb local_serial serial_file junk)"
proof (cases "check_desc buf 0 len USB_DT_DEVICE USB_DT_DEVICE_SIZE = Inr True")
  case True
  let ?cfg = "unat (buf ! 0)" and ?len = "len - uint (buf ! 0)"
  have i: "inside len (?cfg, ?len)" using inside_step [of len 0 len "buf ! 0"] by (simp add: inside_def)
  have b0: "desc_byte buf 0 = Inr (buf ! 0)" using check_desc_found(2) [OF True] by (auto simp: desc_byte_def)
  have c: "within (\<lambda>ok. ok \<longrightarrow> int USB_DT_CONFIG_SIZE \<le> ?len) (check_desc buf ?cfg ?len USB_DT_CONFIG USB_DT_CONFIG_SIZE)"
    by (rule within_check [OF i]) (use assms in \<open>simp_all add: usb_dt_sizes\<close>)
  have d: "within (\<lambda>b. b = buf ! ?cfg) (desc_byte buf ?cfg)" "within (\<lambda>b. True) (desc_byte buf (?cfg + 4))" if "int USB_DT_CONFIG_SIZE \<le> ?len"
  proof -
    have "int ?cfg + 9 \<le> int (length buf)" using that assms by (simp add: usb_dt_sizes)
    then have "?cfg + 9 \<le> length buf" by linarith
    then show "within (\<lambda>b. b = buf ! ?cfg) (desc_byte buf ?cfg)" "within (\<lambda>b. True) (desc_byte buf (?cfg + 4))" by (simp_all add: desc_byte_def)
  qed
  show ?thesis unfolding filter_usb_device_def True b0 cbind_Inr Let_def not_True_eq_False if_False
    by (rule within_bind [OF c], rule within_if, simp, rule within_bind [OF d(1)], simp, rule within_bind [OF d(2)], simp,
        rule within_interfaces [OF assms], rule inside_step [OF i])
next
  case False
  then have "check_desc buf 0 len USB_DT_DEVICE USB_DT_DEVICE_SIZE = Inr False"
    using within_check [of len 0 len buf USB_DT_DEVICE_SIZE USB_DT_DEVICE] assms
    by (cases "check_desc buf 0 len USB_DT_DEVICE USB_DT_DEVICE_SIZE") (auto simp: inside_def usb_dt_sizes check_desc_def desc_byte_def split: if_splits)
  then show ?thesis by (simp add: filter_usb_device_def)
qed

lemma within_find_usb_device:
  assumes "list_all (\<lambda>d. \<forall>b. ud_bytes d = Some b \<longrightarrow> length b + 4 \<le> DESC_SIZE) ds" "length buf = DESC_SIZE"
  shows "within (\<lambda>_. True) (find_usb_device cb local_serial junk buf ds)"
  using assms
proof (induction ds arbitrary: buf)
  case (Cons d ds)
  have IH: "within (\<lambda>_. True) (find_usb_device cb local_serial junk desc ds)" if "length desc = DESC_SIZE" for desc
    using Cons.IH [OF _ that] Cons.prems(1) by simp
  obtain desc n where read: "read_desc d buf = (desc, n)" by (cases "read_desc d buf")
  have len: "length desc = DESC_SIZE" "n + 4 \<le> int (length desc)"
    using Cons.prems read by (auto simp: read_desc_def Let_def DESC_SIZE_def split: option.splits)
  have "within (\<lambda>_. True) (cbind (filter_usb_device (ud_name d) desc n (ud_rdwr d) cb local_serial (ud_serial d) junk) (\<lambda>r.
      case r of None \<Rightarrow> find_usb_device cb local_serial junk desc ds
      | Some (inp, outp, ifc) \<Rightarrow> if ud_claim d
          then Inr (Some \<lparr>uh_fname = devname, uh_desc = True, uh_ep_in = word_of_int inp, uh_ep_out = word_of_int outp\<rparr>)
          else find_usb_device cb local_serial junk desc ds))" for devname
    by (rule within_bind [OF within_filter [OF len(2)]]) (auto intro: IH [OF len(1)] split: option.split)
  then show ?case unfolding find_usb_device.simps read Let_def prod.case
    using IH [OF Cons.prems(2)] by (simp split: option.split)
qed simp

section \<open>Devices\<close>

definition device_desc :: "byte list \<Rightarrow> bool" where
  "device_desc d \<longleftrightarrow> length d = 18 \<and> d ! 0 = 18 \<and> d ! 1 = 1"

definition config_desc :: "byte list \<Rightarrow> bool" where
  "config_desc c \<longleftrightarrow> length c = 9 \<and> c ! 0 = 9 \<and> c ! 1 = 2"

lemma filter_start:
  assumes "device_desc d" "config_desc c" "27 \<le> len"
  shows "\<exists>info. filter_usb_device name (d @ c @ rest) len wr cb local_serial serial_file junk
      = interfaces (unat (c ! 4)) info cb local_serial (d @ c @ rest) (27, len - 27)
    \<and> serial_number info = serial_buf (d ! 16 \<noteq> 0) serial_file junk \<and> device_path info = take 255 (''usb:'' @ name)"
proof -
  have at: "(d @ c @ rest) ! 0 = 18" "(d @ c @ rest) ! Suc 0 = 1" "(d @ c @ rest) ! 18 = 9" "(d @ c @ rest) ! 19 = 2" "(d @ c @ rest) ! 22 = c ! 4"
      "(d @ c @ rest) ! 16 = d ! 16"
    using assms(1,2) by (simp_all add: device_desc_def config_desc_def nth_append)
  have len: "27 \<le> length (d @ c @ rest)" "d \<noteq> []" using assms(1,2) by (auto simp: device_desc_def config_desc_def)
  show ?thesis using at len assms(3)
    by (auto simp: filter_usb_device_def check_desc_def desc_byte_def usb_dts usb_dt_sizes Let_def)
qed

lemma desc_nth:
  assumes "device_desc d" "config_desc c" "27 \<le> k"
  shows "(d @ c @ rest) ! k = rest ! (k - 27)"
proof -
  have "\<not> k < 18" "\<not> k - 18 < 9" using assms(3) by linarith+
  then show ?thesis using assms(1,2) by (simp add: device_desc_def config_desc_def nth_append)
qed

lemma desc_length:
  assumes "device_desc d" "config_desc c"
  shows "length (d @ c @ rest) = 27 + length rest"
  using assms by (simp add: device_desc_def config_desc_def)

lemma find_desc_here: "0 < len \<Longrightarrow> check_desc buf pos len typ sz = Inr True \<Longrightarrow> find_desc buf typ sz (pos, len) = Inr (pos, len)"
  by (simp add: find_desc_def)

lemma find_desc_end: "len \<le> 0 \<Longrightarrow> find_desc buf typ sz (pos, len) = Inr (pos, len)"
  by (simp add: find_desc_def)

text \<open>What a regular fastboot device sends behind its configuration: the interface and its endpoints.\<close>

definition fastboot_ifc :: "byte \<Rightarrow> byte \<Rightarrow> byte list" where
  "fastboot_ifc num eps = [9, 4, num, 0, eps, 0xff, 0x42, 0x03, 0]"

definition bulk_ep :: "byte \<Rightarrow> byte list" where
  "bulk_ep address = [7, 5, address, 2, 0, 2, 0]"

lemma no_comp:
  assumes "len < 6 \<or> pos + 1 < length buf \<and> buf ! (pos + 1) \<noteq> 0x30"
  shows "check_desc buf pos len USB_DT_SS_ENDPOINT_COMP USB_DT_SS_EP_COMP_SIZE = Inr False"
  using assms by (auto simp: check_desc_def desc_byte_def usb_dts usb_dt_sizes)

lemma endpoint_here:
  assumes "pos + 7 \<le> length buf" "7 \<le> len" "buf ! pos = 7" "buf ! (pos + 1) = 5" "buf ! (pos + 3) = 2"
    and "len < 13 \<or> pos + 8 < length buf \<and> buf ! (pos + 8) \<noteq> 0x30"
  shows "endpoints (Suc e) buf (pos, len) io = endpoints e buf (pos + 7, len - 7)
    (if and (buf ! (pos + 2)) 0x80 \<noteq> 0 then (uint (buf ! (pos + 2)), snd io) else (fst io, uint (buf ! (pos + 2))))"
proof -
  have f: "find_desc buf USB_DT_ENDPOINT USB_DT_ENDPOINT_SIZE (pos, len) = Inr (pos, len)"
    using assms by (intro find_desc_here) (simp_all add: check_desc_def desc_byte_def usb_dts usb_dt_sizes)
  have c: "check_desc buf (pos + 7) (len - 7) USB_DT_SS_ENDPOINT_COMP USB_DT_SS_EP_COMP_SIZE = Inr False"
    using assms(6) by (intro no_comp) (simp add: add.commute)
  show ?thesis using assms(1-5) by (simp add: f c desc_byte_def Let_def)
qed

lemma interface_here:
  assumes "pos + 9 \<le> length buf" "9 \<le> len" "buf ! pos = 9" "buf ! (pos + 1) = 4"
    and "endpoints (unat (buf ! (pos + 4))) buf (pos + 9, len - 9) (-1, -1) = Inr (y, inp, outp)"
    and "cb (info\<lparr>ifc_class := buf ! (pos + 5), ifc_subclass := buf ! (pos + 6), ifc_protocol := buf ! (pos + 7),
           has_bulk_in := inp \<noteq> -1, has_bulk_out := outp \<noteq> -1\<rparr>) local_serial = 0"
  shows "interfaces (Suc i) info cb local_serial buf (pos, len) = Inr (Some (inp, outp, buf ! (pos + 2)))"
proof -
  have f: "find_desc buf USB_DT_INTERFACE USB_DT_INTERFACE_SIZE (pos, len) = Inr (pos, len)"
    using assms by (intro find_desc_here) (simp_all add: check_desc_def desc_byte_def usb_dts usb_dt_sizes)
  show ?thesis using assms by (simp add: f desc_byte_def)
qed

lemma two_endpoints:
  assumes "device_desc d" "config_desc c" "and a1 0x80 \<noteq> 0" "and a2 0x80 = 0"
  shows "endpoints 2 (d @ c @ fastboot_ifc num 2 @ bulk_ep a1 @ bulk_ep a2 @ rest) (36, 14) (-1, -1) = Inr ((50, 0), uint a1, uint a2)"
proof -
  let ?buf = "d @ c @ fastboot_ifc num 2 @ bulk_ep a1 @ bulk_ep a2 @ rest"
  have at: "?buf ! 36 = 7" "?buf ! 37 = 5" "?buf ! 38 = a1" "?buf ! 39 = 2" "?buf ! 43 = 7" "?buf ! 44 = 5" "?buf ! 45 = a2" "?buf ! 46 = 2"
    by (simp_all add: desc_nth [OF assms(1,2)] fastboot_ifc_def bulk_ep_def)
  have len: "50 \<le> length ?buf" using assms(1,2) by (simp add: device_desc_def config_desc_def fastboot_ifc_def bulk_ep_def)
  have 1: "endpoints (Suc 1) ?buf (36, 14) (-1, -1) = endpoints 1 ?buf (43, 7) (uint a1, -1)"
    using endpoint_here [of 36 ?buf 14 1 "(-1, -1)"] at len assms(3) by simp
  have 2: "endpoints (Suc 0) ?buf (43, 7) (uint a1, -1) = endpoints 0 ?buf (50, 0) (uint a1, uint a2)"
    using endpoint_here [of 43 ?buf 7 0 "(uint a1, -1)"] at len assms(4) by simp
  show ?thesis using 1 2 by (simp add: numeral_2_eq_2)
qed

lemma strcmp_buf_terminated:
  assumes "NUL \<notin> set t" "NUL \<notin> set u"
  shows "strcmp_buf t (u @ NUL # v) \<longleftrightarrow> t = u"
proof
  assume "strcmp_buf t (u @ NUL # v)"
  then have "u @ NUL # v = t @ NUL # drop (Suc (length t)) (u @ NUL # v)"
    using append_take_drop_id [of "Suc (length t)" "u @ NUL # v"] by (simp add: strcmp_buf_def)
  then have "takeWhile (\<lambda>c. c \<noteq> NUL) (u @ NUL # v) = takeWhile (\<lambda>c. c \<noteq> NUL) (t @ NUL # drop (Suc (length t)) (u @ NUL # v))" by (rule arg_cong)
  moreover have "takeWhile (\<lambda>c. c \<noteq> NUL) (x @ NUL # y) = x" if "NUL \<notin> set x" for x y
    using that by (subst takeWhile_append2) auto
  ultimately show "t = u" using assms by simp
qed (simp add: strcmp_buf_def)

lemma serial_matches:
  assumes "length s < 255" "length junk = 256" "NUL \<notin> set t" "NUL \<notin> set s"
  shows "strcmp_buf t (serial_buf True (Some (s @ [NL])) junk) \<longleftrightarrow> t = s"
proof -
  have "serial_buf True (Some (s @ [NL])) junk = s @ NUL # drop (Suc (length s)) (junk[0 := NUL])"
    using assms(1,2) by (simp add: serial_buf_def Let_def list_update_append)
  then show ?thesis using strcmp_buf_terminated [OF assms(3,4)] by simp
qed

lemma serial_empty:
  assumes "length junk = 256" "NUL \<notin> set t" "strcmp_buf t (junk[0 := NUL])"
  shows "t = []"
  using assms by (cases junk; cases t) (auto simp: strcmp_buf_def)

text \<open>How a device at the head of the list is opened.\<close>

lemma open_head:
  assumes "\<not> badname (ud_name d)" "convert_to_devfs_name d = Some devname" "ud_rdwr d \<or> ud_rdonly d"
    and "ud_bytes d = Some b" "length b \<le> DESC_SIZE"
    and "filter_usb_device (ud_name d) (b @ drop (length b) buf) (int (length b)) (ud_rdwr d) match_fastboot
           (if s = [] then None else Some s) (ud_serial d) junk = r"
  shows "open_by_serial s junk buf (Some (d # ds)) =
    cbind r (\<lambda>x. case x of None \<Rightarrow> open_by_serial s junk (b @ drop (length b) buf) (Some ds)
      | Some (inp, outp, ifc) \<Rightarrow>
          if ud_claim d then Inr (Some \<lparr>uh_fname = devname, uh_desc = True, uh_ep_in = word_of_int inp, uh_ep_out = word_of_int outp\<rparr>)
          else open_by_serial s junk (b @ drop (length b) buf) (Some ds))"
proof -
  have read: "read_desc d buf = (b @ drop (length b) buf, int (length b))" using assms(4,5) by (simp add: read_desc_def Let_def)
  have find: "open_by_serial s junk x (Some es) = find_usb_device match_fastboot (if s = [] then None else Some s) junk x es" for x es
    by (simp add: open_by_serial_def usb_open_def)
  have ok: "(\<not> ud_rdwr d \<and> \<not> ud_rdonly d) = False" using assms(3) by simp
  show ?thesis unfolding find find_usb_device.simps read Let_def prod.case assms(2,6) option.case ok if_False using assms(1) by simp
qed

lemma match_by_serial:
  assumes "ifc_class info = 0xff" "ifc_subclass info = 0x42" "ifc_protocol info = 0x03"
    and "serial_number info = serial_buf True (Some (s @ [NL])) junk" "length s < 255" "length junk = 256" "NUL \<notin> set s"
  shows "match_fastboot info (if s = [] then None else Some s) = 0"
  using assms(1-4) serial_matches [OF assms(5,6,7,7)] by (simp add: match_fastboot_def match_fastboot_with_serial_def)

lemma filter_regular:
  assumes "device_desc dd" "config_desc cc" "cc ! 4 \<noteq> 0" "dd ! 16 \<noteq> 0" "and a1 0x80 \<noteq> 0" "and a2 0x80 = 0"
    and "length s < 255" "NUL \<notin> set s" "length junk = 256" "b = dd @ cc @ fastboot_ifc num 2 @ bulk_ep a1 @ bulk_ep a2"
  shows "length b = 50" "filter_usb_device name (b @ drop (length b) buf) (int (length b)) wr match_fastboot (if s = [] then None else Some s)
      (Some (s @ [NL])) junk = Inr (Some (uint a1, uint a2, num))"
proof -
  let ?rest = "fastboot_ifc num 2 @ bulk_ep a1 @ bulk_ep a2 @ drop (length b) buf"
  let ?buf = "dd @ cc @ ?rest" and ?sn = "if s = [] then None else Some s"
  show len: "length b = 50" using assms(1,2,10) by (simp add: device_desc_def config_desc_def fastboot_ifc_def bulk_ep_def)
  obtain i where i: "unat (cc ! 4) = Suc i" using assms(3) by (cases "unat (cc ! 4)") (auto simp: unat_eq_0)
  obtain info where start: "filter_usb_device name ?buf (int (length b)) wr match_fastboot ?sn (Some (s @ [NL])) junk
      = interfaces (Suc i) info match_fastboot ?sn ?buf (27, 23)" "serial_number info = serial_buf True (Some (s @ [NL])) junk"
    using filter_start [OF assms(1,2), of "int (length b)" name ?rest wr match_fastboot ?sn "Some (s @ [NL])" junk] assms(4)
    unfolding len i by auto
  have at: "?buf ! 27 = 9" "?buf ! 28 = 4" "?buf ! 29 = num" "?buf ! 31 = 2" "?buf ! 32 = 0xff" "?buf ! 33 = 0x42" "?buf ! 34 = 0x03"
    by (simp_all add: desc_nth [OF assms(1,2)] fastboot_ifc_def)
  have "36 \<le> length ?buf" using len assms(10) by simp
  then have "interfaces (Suc i) info match_fastboot ?sn ?buf (27, 23) = Inr (Some (uint a1, uint a2, num))"
    using interface_here [of 27 ?buf 23 "(50, 0)" "uint a1" "uint a2" match_fastboot info ?sn i]
      two_endpoints [OF assms(1,2,5,6), of num "drop (length b) buf"] at start(2) assms(7-9)
    by (simp add: match_by_serial)
  then show "filter_usb_device name (b @ drop (length b) buf) (int (length b)) wr match_fastboot ?sn (Some (s @ [NL])) junk
      = Inr (Some (uint a1, uint a2, num))" using start(1) assms(10) by simp
qed

lemma regular_device_opened:
  assumes "\<not> badname (ud_name d)" "convert_to_devfs_name d = Some devname" "ud_rdwr d \<or> ud_rdonly d" "ud_claim d"
    and "device_desc dd" "config_desc cc" "cc ! 4 \<noteq> 0" "dd ! 16 \<noteq> 0"
    and "ud_bytes d = Some (dd @ cc @ fastboot_ifc num 2 @ bulk_ep a1 @ bulk_ep a2)" "and a1 0x80 \<noteq> 0" "and a2 0x80 = 0"
    and "ud_serial d = Some (s @ [NL])" "length s < 255" "NUL \<notin> set s" "length junk = 256"
  shows "open_by_serial s junk buf (Some (d # ds)) = Inr (Some \<lparr>uh_fname = devname, uh_desc = True, uh_ep_in = a1, uh_ep_out = a2\<rparr>)"
proof -
  obtain b where b: "ud_bytes d = Some b" "b = dd @ cc @ fastboot_ifc num 2 @ bulk_ep a1 @ bulk_ep a2" using assms(9) by blast
  note f = filter_regular [OF assms(5-8,10,11,13-15) b(2)]
  show ?thesis using open_head [OF assms(1-3) b(1) _ f(2) [folded assms(12)]] f(1) assms(4) by (simp add: DESC_SIZE_def)
qed

lemma endpoint_behind:
  assumes "pos + 3 < length buf" "0 < uint (buf ! pos)" "and (buf ! (pos + 3)) 3 = 2"
  shows "endpoints (Suc (Suc e)) buf (pos, 0) io = Inr ((pos + unat (buf ! pos), - uint (buf ! pos)),
    if and (buf ! (pos + 2)) 0x80 \<noteq> 0 then (uint (buf ! (pos + 2)), snd io) else (fst io, uint (buf ! (pos + 2))))"
proof -
  have f: "find_desc buf USB_DT_ENDPOINT USB_DT_ENDPOINT_SIZE (p, - n) = Inr (p, - n)" if "0 \<le> n" for p n
    using that by (intro find_desc_end) simp
  have c: "check_desc buf p (- uint (buf ! pos)) USB_DT_SS_ENDPOINT_COMP USB_DT_SS_EP_COMP_SIZE = Inr False" for p
    using assms(2) by (intro no_comp) simp
  have next_round: "endpoints (Suc e) buf (p, - uint (buf ! pos)) io' = Inr ((p, - uint (buf ! pos)), io')" for p io'
    using assms(2) f [of "uint (buf ! pos)"] by simp
  show ?thesis using assms f [of 0] c by (subst endpoints.simps(2)) (simp add: desc_byte_def Let_def next_round del: endpoints.simps)
qed

text \<open>An interface that announces an endpoint it does not send takes it from an earlier device: the descriptor is read behind
  the bytes that were read, and the missing second address becomes \<^verbatim>\<open>0xff\<close>, which the guards against 0 let pass.\<close>

theorem stale_endpoint_taken:
  assumes "\<not> badname (ud_name d)" "convert_to_devfs_name d = Some devname" "ud_rdwr d \<or> ud_rdonly d" "ud_claim d"
    and "device_desc dd" "config_desc cc" "cc ! 4 \<noteq> 0" "ud_bytes d = Some (dd @ cc @ fastboot_ifc num 2)"
    and "length buf = DESC_SIZE" "buf ! 36 \<noteq> 0" "and (buf ! 39) 3 = 2" "and (buf ! 38) 0x80 \<noteq> 0"
  shows "open_by_serial [] junk buf (Some (d # ds)) = Inr (Some \<lparr>uh_fname = devname, uh_desc = True, uh_ep_in = buf ! 38, uh_ep_out = 0xff\<rparr>)"
proof -
  let ?b = "dd @ cc @ fastboot_ifc num 2"
  let ?rest = "fastboot_ifc num 2 @ drop (length ?b) buf"
  define bf where bf: "bf = dd @ cc @ ?rest"
  have len: "length ?b = 36" using assms(5,6) by (simp add: device_desc_def config_desc_def fastboot_ifc_def)
  have total: "length bf = 1024" using len assms(9) by (simp add: DESC_SIZE_def bf)
  obtain i where i: "unat (cc ! 4) = Suc i" using assms(7) by (cases "unat (cc ! 4)") (auto simp: unat_eq_0)
  obtain info where start: "filter_usb_device (ud_name d) bf (int (length ?b)) (ud_rdwr d) match_fastboot None (ud_serial d) junk
      = interfaces (Suc i) info match_fastboot None bf (27, 9)"
    using filter_start [OF assms(5,6), of "int (length ?b)" "ud_name d" ?rest "ud_rdwr d" match_fastboot None "ud_serial d" junk]
    unfolding len i bf by auto
  have at: "bf ! 27 = 9" "bf ! 28 = 4" "bf ! 29 = num" "bf ! 31 = 2" "bf ! 32 = 0xff" "bf ! 33 = 0x42" "bf ! 34 = 0x03"
    by (simp_all add: bf desc_nth [OF assms(5,6)] fastboot_ifc_def)
  have stale: "bf ! k = buf ! k" if "36 \<le> k" "k < 1024" for k
    using that len assms(9) unfolding bf by (simp add: append_assoc [symmetric] nth_append DESC_SIZE_def del: append_assoc)
  have "0 < uint (buf ! 36)" using uint_pos assms(10) by blast
  then have "endpoints 2 bf (36, 0) (-1, -1) = Inr ((36 + unat (buf ! 36), - uint (buf ! 36)), uint (buf ! 38), -1)"
    using endpoint_behind [of 36 bf 0 "(-1, -1)"] total assms(11,12) by (simp add: stale numeral_2_eq_2 del: endpoints.simps)
  then have "interfaces (Suc i) info match_fastboot None bf (27, 9) = Inr (Some (uint (buf ! 38), -1, num))"
    using interface_here [of 27 bf 9 "(36 + unat (buf ! 36), - uint (buf ! 36))" "uint (buf ! 38)" "-1" match_fastboot info None i] at total
    by (simp add: match_fastboot_def match_fastboot_with_serial_def del: endpoints.simps interfaces.simps)
  then have "filter_usb_device (ud_name d) (?b @ drop (length ?b) buf) (int (length ?b)) (ud_rdwr d) match_fastboot
      (if [] = [] then None else Some []) (ud_serial d) junk = Inr (Some (uint (buf ! 38), -1, num))" using start by (simp add: bf)
  from open_head [OF assms(1-3,8) _ this] len assms(4) show ?thesis by (simp add: DESC_SIZE_def)
qed

lemma zero_length_hangs_head:
  assumes "\<not> badname (ud_name d)" "convert_to_devfs_name d = Some devname" "ud_rdwr d \<or> ud_rdonly d"
    and "device_desc dd" "config_desc cc" "cc ! 4 \<noteq> 0" "ud_bytes d = Some (dd @ cc @ 0 # more_bytes)" "length more_bytes < 997"
  shows "open_by_serial s junk buf (Some (d # ds)) = Inl Blocked"
    "skip_to n (dd @ cc @ 0 # more_bytes) USB_DT_INTERFACE USB_DT_INTERFACE_SIZE (27, 1 + int (length more_bytes)) = Inl Blocked"
proof -
  let ?b = "dd @ cc @ 0 # more_bytes"
  let ?rest = "0 # more_bytes @ drop (length ?b) buf"
  let ?buf = "dd @ cc @ ?rest" and ?sn = "if s = [] then None else Some s"
  have len: "length ?b = 28 + length more_bytes" using assms(4,5) by (simp add: device_desc_def config_desc_def)
  obtain i where i: "unat (cc ! 4) = Suc i" using assms(6) by (cases "unat (cc ! 4)") (auto simp: unat_eq_0)
  have at: "?buf ! 27 = 0" "27 < length ?buf" "?b ! 27 = 0" "27 < length ?b"
    using len by (simp_all add: desc_nth [OF assms(4,5)])
  note hang = skip_to_zero_length [OF _ at(2,1)] skip_to_zero_length [OF _ at(4,3)]
  obtain info where start: "filter_usb_device (ud_name d) ?buf (int (length ?b)) (ud_rdwr d) match_fastboot ?sn (ud_serial d) junk
      = interfaces (Suc i) info match_fastboot ?sn ?buf (27, int (length ?b) - 27)"
    using filter_start [OF assms(4,5), of "int (length ?b)" "ud_name d" ?rest "ud_rdwr d" match_fastboot ?sn "ud_serial d" junk] len
    unfolding i by auto
  have "find_desc ?buf USB_DT_INTERFACE USB_DT_INTERFACE_SIZE (27, int (length ?b) - 27) = Inl Blocked"
    unfolding find_desc_def by (rule hang(1)) (use len in \<open>simp_all add: usb_dt_sizes\<close>)
  then have "filter_usb_device (ud_name d) (?b @ drop (length ?b) buf) (int (length ?b)) (ud_rdwr d) match_fastboot ?sn (ud_serial d) junk = Inl Blocked"
    using start by simp
  from open_head [OF assms(1-3,7) _ this] len assms(8)
  show "open_by_serial s junk buf (Some (d # ds)) = Inl Blocked" by (simp add: DESC_SIZE_def)
  show "skip_to n ?b USB_DT_INTERFACE USB_DT_INTERFACE_SIZE (27, 1 + int (length more_bytes)) = Inl Blocked"
    using hang(2) by (auto simp: usb_dt_sizes)
qed

text \<open>Devices among which none is opened only leave their bytes in the array.\<close>

lemma find_none_append:
  "find_usb_device cb local_serial junk buf xs = Inr None \<Longrightarrow>
     \<exists>buf'. \<forall>ys. find_usb_device cb local_serial junk buf (xs @ ys) = find_usb_device cb local_serial junk buf' ys"
proof (induction xs arbitrary: buf)
  case Nil
  show ?case by (rule exI [of _ buf]) simp
next
  case (Cons d xs)
  obtain desc n where r: "read_desc d buf = (desc, n)" by (cases "read_desc d buf")
  show ?case
  proof (cases "badname (ud_name d) \<or> convert_to_devfs_name d = None \<or> \<not> ud_rdwr d \<and> \<not> ud_rdonly d")
    case True
    then have "find_usb_device cb local_serial junk buf ((d # xs) @ ys) = find_usb_device cb local_serial junk buf (xs @ ys)" for ys
      by (cases "convert_to_devfs_name d") auto
    from this [of "[]"] this show ?thesis using Cons by simp
  next
    case False
    then obtain devname where n: "convert_to_devfs_name d = Some devname" by auto
    obtain x where f: "filter_usb_device (ud_name d) desc n (ud_rdwr d) cb local_serial (ud_serial d) junk = Inr x"
      using Cons.prems False n r by (cases "filter_usb_device (ud_name d) desc n (ud_rdwr d) cb local_serial (ud_serial d) junk") auto
    have "x = None \<or> \<not> ud_claim d" using Cons.prems False n r f by (auto split: option.splits prod.splits)
    then have "find_usb_device cb local_serial junk buf ((d # xs) @ ys) = find_usb_device cb local_serial junk desc (xs @ ys)" for ys
      using False n r f by (cases x) auto
    from this [of "[]"] this show ?thesis using Cons by simp
  qed
qed

lemma open_by_serial_find:
  "open_by_serial s junk buf (Some ds) = find_usb_device match_fastboot (if s = [] then None else Some s) junk buf ds"
  by (simp add: open_by_serial_def usb_open_def)

lemma open_behind:
  assumes "open_by_serial s junk buf (Some before) = Inr None"
  obtains buf' where "\<And>ys. open_by_serial s junk buf (Some (before @ ys)) = open_by_serial s junk buf' (Some ys)"
  using find_none_append [OF assms [unfolded open_by_serial_find]] unfolding open_by_serial_find by blast

text \<open>C26: A regular fastboot device is found, wherever it is on the bus behind devices that are not opened: when the serial
  number in sysfs is the one that is asked for, the device with a fastboot interface and two bulk endpoints is opened with the
  addresses of these endpoints, whatever the array holds behind its descriptors.\<close>

theorem fastboot_device_opened:
  assumes "\<not> badname (ud_name d)" "convert_to_devfs_name d = Some devname" "ud_rdwr d \<or> ud_rdonly d" "ud_claim d"
    and "device_desc dd" "config_desc cc" "cc ! 4 \<noteq> 0" "dd ! 16 \<noteq> 0"
    and "ud_bytes d = Some (dd @ cc @ fastboot_ifc num 2 @ bulk_ep a1 @ bulk_ep a2)" "and a1 0x80 \<noteq> 0" "and a2 0x80 = 0"
    and "ud_serial d = Some (s @ [NL])" "length s < 255" "NUL \<notin> set s" "length junk = 256"
    and "open_by_serial s junk buf (Some before) = Inr None"
  shows "open_by_serial s junk buf (Some (before @ d # ds)) = Inr (Some \<lparr>uh_fname = devname, uh_desc = True, uh_ep_in = a1, uh_ep_out = a2\<rparr>)"
  by (rule open_behind [OF assms(16)]) (simp only: regular_device_opened [OF assms(1-15)])

text \<open>C28: A descriptor of length 0 behind the configuration stops the updater for ever, wherever the device is on the bus: when
  none of the devices before it is opened, and whatever comes after it, the search does not end. The loop that looks for
  the interface stands still at the descriptor, after any number of rounds.\<close>

theorem zero_length_descriptor_hangs:
  assumes "\<not> badname (ud_name d)" "convert_to_devfs_name d = Some devname" "ud_rdwr d \<or> ud_rdonly d"
    and "device_desc dd" "config_desc cc" "cc ! 4 \<noteq> 0" "ud_bytes d = Some (dd @ cc @ 0 # more_bytes)" "length more_bytes < 997"
    and "open_by_serial s junk buf (Some before) = Inr None"
  shows "open_by_serial s junk buf (Some (before @ d # ds)) = Inl Blocked
    \<and> (\<forall>n. skip_to n (dd @ cc @ 0 # more_bytes) USB_DT_INTERFACE USB_DT_INTERFACE_SIZE (27, 1 + int (length more_bytes)) = Inl Blocked)"
  by (rule open_behind [OF assms(9)]) (simp only: zero_length_hangs_head [OF assms(1-8)] simp_thms)

lemma interfaces_sound:
  "interfaces i info cb local_serial buf x = Inr (Some r) \<Longrightarrow>
     \<exists>info'. cb info' local_serial = 0 \<and> serial_number info' = serial_number info \<and> device_path info' = device_path info"
proof (induction i arbitrary: x)
  case (Suc i)
  from Suc.prems obtain y inp outp c su pr num where
    "(if cb (info\<lparr>ifc_class := c, ifc_subclass := su, ifc_protocol := pr, has_bulk_in := inp \<noteq> -1, has_bulk_out := outp \<noteq> -1\<rparr>) local_serial = 0
      then Inr (Some (inp, outp, num)) else interfaces i info cb local_serial buf y) = Inr (Some r)"
    unfolding interfaces.simps
    by (elim cbind_InrE) (auto split: if_splits prod.splits elim!: cbind_InrE)
  then show ?case using Suc.IH by (auto split: if_splits)
qed simp

lemma filter_sound:
  assumes "filter_usb_device name buf len wr cb local_serial serial_file junk = Inr (Some r)"
  shows "\<exists>info has. cb info local_serial = 0 \<and> serial_number info = serial_buf has serial_file junk \<and> device_path info = take 255 (''usb:'' @ name)"
  using assms unfolding filter_usb_device_def
  by (auto split: if_splits simp: Let_def elim!: cbind_InrE dest!: interfaces_sound) blast

lemma find_sound:
  "find_usb_device cb local_serial junk buf ds = Inr (Some h) \<Longrightarrow>
     \<exists>d \<in> set ds. \<not> badname (ud_name d) \<and> convert_to_devfs_name d = Some (uh_fname h) \<and> ud_claim d \<and> uh_desc h
       \<and> (\<exists>info has. cb info local_serial = 0 \<and> serial_number info = serial_buf has (ud_serial d) junk \<and> device_path info = take 255 (''usb:'' @ ud_name d))"
proof (induction ds arbitrary: buf)
  case (Cons d ds)
  show ?case
  proof (cases "\<exists>buf'. find_usb_device cb local_serial junk buf' ds = Inr (Some h)")
    case True
    then show ?thesis using Cons.IH by auto
  next
    case False
    then obtain devname desc n r where *: "\<not> badname (ud_name d)" "convert_to_devfs_name d = Some devname" "uh_fname h = devname" "ud_claim d" "uh_desc h"
        "filter_usb_device (ud_name d) desc n (ud_rdwr d) cb local_serial (ud_serial d) junk = Inr (Some r)"
      using Cons.prems by (auto split: if_splits option.splits prod.splits elim!: cbind_InrE)
    with filter_sound [OF *(6)] show ?thesis by auto
  qed
qed simp

text \<open>A serial number as the kernel shows it: it ends with a newline and is shorter than the array.\<close>

definition serial_line :: "usb_dev \<Rightarrow> bool" where
  "serial_line d \<longleftrightarrow> (\<forall>c. ud_serial d = Some c \<longrightarrow> (\<exists>t. c = t @ [NL] \<and> NUL \<notin> set t \<and> length t < 255))"

lemma serial_of_match:
  assumes "strcmp_buf s (serial_buf has (ud_serial d) junk)" "serial_line d" "s \<noteq> []" "NUL \<notin> set s" "length junk = 256"
  shows "ud_serial d = Some (s @ [NL])"
proof (cases "has \<and> ud_serial d \<noteq> None")
  case True
  then obtain t where t: "ud_serial d = Some (t @ [NL])" "NUL \<notin> set t" "length t < 255" using assms(2) by (auto simp: serial_line_def)
  then show ?thesis using True assms(1) serial_matches [OF t(3) assms(5,4) t(2)] by simp
next
  case False
  then have "serial_buf has (ud_serial d) junk = junk[0 := NUL]" by (cases has; cases "ud_serial d") (simp_all add: serial_buf_def Let_def)
  then have "strcmp_buf s (junk[0 := NUL])" using assms(1) by simp
  from serial_empty [OF assms(5,4) this] assms(3) show ?thesis by simp
qed

text \<open>C23: Only the device that was asked for is opened: with a serial number, the opened device is one of the bus whose name and
  device file are valid, that could be claimed, and whose serial number, or whose path, is the one that was asked for.\<close>

theorem opened_device_matches:
  assumes "open_by_serial s junk buf (Some ds) = Inr (Some h)" "s \<noteq> []" "NUL \<notin> set s" "length junk = 256" "list_all serial_line ds"
  shows "\<exists>d \<in> set ds. \<not> badname (ud_name d) \<and> convert_to_devfs_name d = Some (uh_fname h) \<and> ud_claim d \<and> uh_desc h
    \<and> (ud_serial d = Some (s @ [NL]) \<or> s = take 255 (''usb:'' @ ud_name d))"
proof -
  have "find_usb_device match_fastboot (Some s) junk buf ds = Inr (Some h)" using assms(1,2) by (simp add: open_by_serial_def usb_open_def)
  from find_sound [OF this] obtain d info has where d: "d \<in> set ds" "\<not> badname (ud_name d)" "convert_to_devfs_name d = Some (uh_fname h)" "ud_claim d" "uh_desc h"
      "match_fastboot info (Some s) = 0" "serial_number info = serial_buf has (ud_serial d) junk" "device_path info = take 255 (''usb:'' @ ud_name d)" by auto
  then have "strcmp_buf s (serial_buf has (ud_serial d) junk) \<or> s = take 255 (''usb:'' @ ud_name d)"
    by (auto simp: match_fastboot_def match_fastboot_with_serial_def split: if_splits)
  moreover have "serial_line d" using assms(5) d(1) by (simp add: list_all_iff)
  ultimately have "ud_serial d = Some (s @ [NL]) \<or> s = take 255 (''usb:'' @ ud_name d)"
    using serial_of_match assms(2-4) by blast
  with d show ?thesis by blast
qed

section \<open>Transfers\<close>

text \<open>The results of the reads as the protocol sees them: six errors in a row are one.\<close>

fun responses :: "nat \<Rightarrow> string option list \<Rightarrow> string option list" where
  "responses k [] = []"
| "responses k (Some d # rs) = Some d # responses 0 rs"
| "responses k (None # rs) = (if Suc k > MAX_RETRIES then None # responses 0 rs else responses (Suc k) rs)"


lemma read_try_responses:
  "case responses k rs of
     [] \<Rightarrow> read_try k xfer rs = Inl Blocked
   | r # rest \<Rightarrow> \<exists>rs'. read_try k xfer rs = Inr (map_option (take xfer) r, rs') \<and> responses 0 rs' = rest"
proof (induction k xfer rs rule: read_try.induct)
  case (2 retry xfer rs)
  then show ?case by (cases "Suc retry > MAX_RETRIES") (simp_all split: list.splits)
qed simp_all

text \<open>C25: A status is one transfer: reading the 64 bytes of a status from the bus takes the next response of the script that
  the protocol is modelled with, an error being six failed transfers in a row, and changes nothing else.\<close>

theorem usb_read_refines:
  assumes "uh_desc (ut_handle st)" "uh_ep_in (ut_handle st) \<noteq> 0"
  shows "case responses 0 (ut_in st) of
      [] \<Rightarrow> usb_read FB_RESPONSE_SZ st = Inl Blocked
    | r # rest \<Rightarrow> \<exists>rs. usb_read FB_RESPONSE_SZ st = Inr (map_option (take FB_RESPONSE_SZ) r, st\<lparr>ut_in := rs\<rparr>) \<and> responses 0 rs = rest"
proof -
  have rd: "usb_read FB_RESPONSE_SZ st = cbind (read_try 0 64 (ut_in st)) (\<lambda>(r, rs).
      case r of None \<Rightarrow> Inr (None, st\<lparr>ut_in := rs\<rparr>)
      | Some d \<Rightarrow> if length d < 64 then Inr (Some d, st\<lparr>ut_in := rs\<rparr>) else read_loop (64 - length d) d (st\<lparr>ut_in := rs\<rparr>))"
    using assms by (simp add: usb_read_def FB_RESPONSE_SZ_def, subst read_loop.simps, simp only: append_Nil MAX_USBFS_BULK_SIZE_def) simp
  have last: "read_loop 0 d s = Inr (Some d, s)" for d s by (subst read_loop.simps) simp
  show ?thesis
  proof (cases "responses 0 (ut_in st)")
    case Nil
    then show ?thesis using read_try_responses [where k = 0 and rs = "ut_in st" and xfer = 64] rd by simp
  next
    case (Cons r rest)
    then obtain rs where "read_try 0 64 (ut_in st) = Inr (map_option (take 64) r, rs)" "responses 0 rs = rest"
      using read_try_responses [where k = 0 and rs = "ut_in st" and xfer = 64] by auto
    then show ?thesis using Cons rd last by (cases r) (auto simp: FB_RESPONSE_SZ_def min_def)
  qed
qed

lemma bulk_out_sent:
  assumes "bulk_out b st = (n, s)"
  shows "\<exists>ts. ut_sent s = ut_sent st @ ts \<and> prefix (concat ts) b \<and> list_all (\<lambda>t. length t \<le> length b) ts \<and> (n = int (length b) \<longrightarrow> concat ts = b)"
    "ut_handle s = ut_handle st"
  using assms by (auto simp: bulk_out_def take_is_prefix split: list.splits if_splits)

lemma write_loop_sent:
  "write_loop bytes cnt st = (n, s) \<Longrightarrow>
     ut_handle s = ut_handle st \<and> (n = -1 \<or> n = uint (cnt + of_nat (length bytes)))
     \<and> (\<exists>ts. ut_sent s = ut_sent st @ ts \<and> prefix (concat ts) bytes \<and> list_all (\<lambda>t. length t \<le> MAX_USBFS_BULK_SIZE) ts \<and> (n \<noteq> -1 \<longrightarrow> concat ts = bytes))"
proof (induction bytes cnt st rule: write_loop.induct)
  case (1 bytes cnt st)
  let ?x = "if length bytes > MAX_USBFS_BULK_SIZE then MAX_USBFS_BULK_SIZE else length bytes"
  obtain m s1 where b: "bulk_out (take ?x bytes) st = (m, s1)" by (cases "bulk_out (take ?x bytes) st")
  have len: "length (take ?x bytes) = ?x" "?x \<le> length bytes" "?x \<le> MAX_USBFS_BULK_SIZE" by simp_all
  obtain ts where ts: "ut_sent s1 = ut_sent st @ ts" "prefix (concat ts) (take ?x bytes)" "list_all (\<lambda>t. length t \<le> MAX_USBFS_BULK_SIZE) ts"
      "m = int ?x \<longrightarrow> concat ts = take ?x bytes" "ut_handle s1 = ut_handle st"
  proof -
    obtain ts where "ut_sent s1 = ut_sent st @ ts" "prefix (concat ts) (take ?x bytes)" "list_all (\<lambda>t. length t \<le> ?x) ts"
        "m = int ?x \<longrightarrow> concat ts = take ?x bytes" using bulk_out_sent(1) [OF b] unfolding len(1) by blast
    moreover have "list_all (\<lambda>t. length t \<le> MAX_USBFS_BULK_SIZE) ts" by (rule list.pred_mono_strong [OF calculation(3)]) (use len(3) in linarith)
    ultimately show ?thesis using that bulk_out_sent(2) [OF b] by blast
  qed
  have step: "write_loop bytes cnt st = (if m \<noteq> int ?x then (-1, s1)
      else if drop ?x bytes = [] then (uint (cnt + of_nat ?x), s1) else write_loop (drop ?x bytes) (cnt + of_nat ?x) s1)"
    using b by (subst write_loop.simps) (simp add: Let_def)
  show ?case
  proof (cases "m = int ?x")
    case False
    moreover have "prefix (concat ts) bytes" using ts(2) take_is_prefix prefix_order.trans by blast
    ultimately show ?thesis using 1(2) step ts by auto
  next
    case True
    show ?thesis
    proof (cases "drop ?x bytes = []")
      case True
      then have "?x = length bytes" by (auto split: if_splits)
      then show ?thesis using 1(2) step ts \<open>m = int ?x\<close> True by auto
    next
      case False
      have "write_loop (drop ?x bytes) (cnt + of_nat ?x) s1 = (n, s)" using 1(2) step \<open>m = int ?x\<close> False by simp
      from 1(1) [OF refl b [symmetric] refl _ refl refl False this] \<open>m = int ?x\<close> obtain us where
        us: "ut_handle s = ut_handle s1" "n = -1 \<or> n = uint (cnt + of_nat ?x + of_nat (length (drop ?x bytes)))" "ut_sent s = ut_sent s1 @ us"
          "prefix (concat us) (drop ?x bytes)" "list_all (\<lambda>t. length t \<le> MAX_USBFS_BULK_SIZE) us" "n \<noteq> -1 \<longrightarrow> concat us = drop ?x bytes" by auto
      have "(of_nat ?x + of_nat (length (drop ?x bytes)) :: 32 word) = of_nat (length bytes)"
        by (simp only: length_drop of_nat_add [symmetric] le_add_diff_inverse [OF len(2)])
      moreover have c: "concat ts = take ?x bytes" using ts(4) \<open>m = int ?x\<close> by simp
      moreover have "prefix (concat (ts @ us)) bytes" using us(4) c by (metis append_take_drop_id concat_append same_prefix_prefix)
      moreover have "n \<noteq> -1 \<longrightarrow> concat (ts @ us) = bytes" using us(6) c by simp
      ultimately show ?thesis using us ts by (auto simp: add.assoc intro!: exI [of _ "ts @ us"])
    qed
  qed
qed

section \<open>Streams of bytes\<close>

text \<open>What \<^verbatim>\<open>Transport::Write\<close> promises: a write that returns the length of its data has put all of it on the stream, any
  other one a beginning of it.\<close>

locale byte_stream =
  fixes wr :: "string \<Rightarrow> 's \<Rightarrow> int \<times> 's"
    and stream :: "'s \<Rightarrow> string"
  assumes whole: "length b < 2 ^ 32 \<Longrightarrow> wr b st = (int (length b), s) \<Longrightarrow> stream s = stream st @ b"
    and part: "wr b st = (n, s) \<Longrightarrow> \<exists>p. prefix p b \<and> stream s = stream st @ p"

text \<open>Pieces that are written one by one, up to the first that is not written completely.\<close>

fun write_all :: "(string \<Rightarrow> 's \<Rightarrow> int \<times> 's) \<Rightarrow> string list \<Rightarrow> 's \<Rightarrow> bool \<times> 's" where
  "write_all wr [] st = (True, st)"
| "write_all wr (p # ps) st = (let (n, s) = wr p st in if n = int (length p) then write_all wr ps s else (False, s))"

context byte_stream
begin

lemma pieces_written:
  "list_all (\<lambda>p. length p < 2 ^ 32) ps \<Longrightarrow> write_all wr ps st = (ok, s) \<Longrightarrow>
     \<exists>sent. stream s = stream st @ sent \<and> prefix sent (concat ps) \<and> (ok \<longrightarrow> sent = concat ps)"
proof (induction ps arbitrary: st)
  case (Cons p ps)
  obtain n s1 where w: "wr p st = (n, s1)" by (cases "wr p st")
  show ?case
  proof (cases "n = int (length p)")
    case True
    then have "stream s1 = stream st @ p" using whole [of p st s1] w Cons.prems(1) by simp
    moreover have "write_all wr ps s1 = (ok, s)" using Cons.prems(2) w True by simp
    ultimately show ?thesis using Cons.IH [of s1] Cons.prems(1) by auto
  next
    case False
    then show ?thesis using part [OF w] Cons.prems(2) w by (auto intro: prefix_prefix)
  qed
qed auto

end

interpretation engine: byte_stream t_write "\<lambda>st. concat (t_sent st)"
  by unfold_locales (auto simp: t_write_def take_is_prefix min_def split: if_splits list.splits option.splits)

lemma usb_write_sent:
  assumes "usb_write b st = (n, s)"
  shows "\<exists>ts. ut_sent s = ut_sent st @ ts \<and> prefix (concat ts) b \<and> list_all (\<lambda>t. length t \<le> MAX_USBFS_BULK_SIZE) ts \<and> (n \<noteq> -1 \<longrightarrow> concat ts = b)"
proof (cases "uh_ep_out (ut_handle st) = 0 \<or> \<not> uh_desc (ut_handle st)")
  case True
  then have "n = -1 \<and> s = st" using assms by (auto simp: usb_write_def)
  then show ?thesis by (intro exI [of _ "[]"]) simp
next
  case False
  then have "write_loop b 0 st = (n, s)" using assms by (simp add: usb_write_def)
  from write_loop_sent [OF this] show ?thesis by blast
qed

interpretation bus: byte_stream usb_write "\<lambda>st. concat (ut_sent st)"
proof unfold_locales
  fix b :: string and st s :: usbt
  assume "usb_write b st = (int (length b), s)"
  from usb_write_sent [OF this] show "concat (ut_sent s) = concat (ut_sent st) @ b" by auto
next
  fix b :: string and st s :: usbt and n :: int
  assume "usb_write b st = (n, s)"
  from usb_write_sent [OF this] show "\<exists>p. prefix p b \<and> concat (ut_sent s) = concat (ut_sent st) @ p" by auto
qed

lemma pieces_short: "list_all (\<lambda>p. length p \<le> n) (pieces n s)"
proof (induction n s rule: pieces.induct)
  case (1 n s)
  then show ?case by (subst pieces.simps) simp
qed

text \<open>C24: The image arrives: sending its pieces over the bus puts the bytes of the image on it in order, a beginning of them
  when a transfer fails, and all of them, up to the size that was announced, when every write reports success.\<close>

theorem image_on_the_bus:
  assumes "write_all usb_write (image_pieces bytes sz) st = (ok, s)"
  shows "\<exists>sent. concat (ut_sent s) = concat (ut_sent st) @ sent \<and> prefix sent (take (unat sz) bytes) \<and> (ok \<longrightarrow> sent = take (unat sz) bytes)"
proof -
  have "list_all (\<lambda>p. length p < 2 ^ 32) (image_pieces bytes sz)"
    unfolding image_pieces_def by (rule list.pred_mono_strong [OF pieces_short]) (simp add: MAX_MAP_SIZE_def)
  from bus.pieces_written [OF this assms] show ?thesis by (simp add: image_pieces_def pieces_concat MAX_MAP_SIZE_def)
qed

text \<open>C27: Reading the descriptors stays within the array \<^verbatim>\<open>desc\<close> when every device sends at least four bytes less than it holds.\<close>

theorem usb_scan_in_bounds:
  assumes "list_all (\<lambda>d. \<forall>b. ud_bytes d = Some b \<longrightarrow> length b + 4 \<le> DESC_SIZE) ds" "length buf = DESC_SIZE"
  shows "open_by_serial s junk buf (Some ds) \<noteq> Inl OutOfBounds"
  using within_find_usb_device [OF assms, of match_fastboot "if s = [] then None else Some s" junk]
  by (auto simp: open_by_serial_def usb_open_def within_def)

section \<open>An example\<close>

definition example_dd :: "byte list" where
  "example_dd = [18, 1, 0, 2, 0, 0, 0, 64, 0xd1, 0x18, 0x0d, 0xd0, 0, 1, 1, 2, 3, 1]"

definition example_cc :: "byte list" where
  "example_cc = [9, 2, 32, 0, 1, 1, 0, 0xc0, 50]"

definition example_dev :: usb_dev where
  "example_dev = \<lparr>ud_name = ''1-2'', ud_busnum = Some (''1'' @ [NL]), ud_devnum = Some (''5'' @ [NL]), ud_rdwr = True, ud_rdonly = True,
     ud_bytes = Some (example_dd @ example_cc @ fastboot_ifc 0 2 @ bulk_ep 0x81 @ bulk_ep 0x01), ud_serial = Some (''S1'' @ [NL]), ud_claim = True\<rparr>"

lemma example_dev_facts:
  "\<not> badname (ud_name example_dev)" "convert_to_devfs_name example_dev = Some ''/dev/bus/usb/001/005''"
  "device_desc example_dd" "config_desc example_cc" "example_cc ! 4 \<noteq> 0" "example_dd ! 16 \<noteq> 0"
  by code_simp+

definition example_junk :: cbuf where
  "example_junk = replicate 256 NUL"

definition example_desc :: "byte list" where
  "example_desc = replicate DESC_SIZE 0"

theorem fastboot_device_opened_witness:
  "open_by_serial ''S1'' example_junk example_desc (Some [example_dev\<lparr>ud_serial := Some (''S2'' @ [NL])\<rparr>, example_dev])
     = Inr (Some \<lparr>uh_fname = ''/dev/bus/usb/001/005'', uh_desc = True, uh_ep_in = 0x81, uh_ep_out = 0x01\<rparr>)"
proof -
  have "open_by_serial ''S1'' example_junk example_desc (Some [example_dev\<lparr>ud_serial := Some (''S2'' @ [NL])\<rparr>]) = Inr None" by code_simp
  from fastboot_device_opened [OF example_dev_facts(1,2) _ _ example_dev_facts(3-6) _ _ _ _ _ _ _ this]
  show ?thesis by (simp add: example_dev_def example_junk_def)
qed

text \<open>A matching device with another serial number comes first, one with the right one behind.\<close>

theorem zero_length_descriptor_hangs_witness:
  "open_by_serial ''S2'' example_junk example_desc
     (Some [example_dev, example_dev\<lparr>ud_bytes := Some (example_dd @ example_cc @ [0, 4])\<rparr>, example_dev\<lparr>ud_serial := Some (''S2'' @ [NL])\<rparr>]) = Inl Blocked"
proof -
  have "open_by_serial ''S2'' example_junk example_desc (Some [example_dev]) = Inr None" by code_simp
  from zero_length_descriptor_hangs [of "example_dev\<lparr>ud_bytes := Some (example_dd @ example_cc @ [0, 4])\<rparr>", OF _ _ _ example_dev_facts(3-5) _ _ this]
  show ?thesis using example_dev_facts(1,2) by (simp add: example_dev_def convert_to_devfs_name_def)
qed

theorem usb_scan_in_bounds_witness:
  "open_by_serial ''S2'' example_junk example_desc (Some [example_dev]) \<noteq> Inl OutOfBounds"
  by (rule usb_scan_in_bounds)
    (simp_all add: example_dev_def example_desc_def DESC_SIZE_def example_dd_def example_cc_def fastboot_ifc_def bulk_ep_def)

definition example_handle :: usb_handle where
  "example_handle = \<lparr>uh_fname = ''/dev/bus/usb/001/005'', uh_desc = True, uh_ep_in = 0x81, uh_ep_out = 0x01\<rparr>"

text \<open>A device that drops out five times before it answers, and one that takes the first transfer only.\<close>

theorem usb_read_refines_witness:
  "usb_read FB_RESPONSE_SZ \<lparr>ut_handle = example_handle, ut_in = [None, None, None, None, None, Some ''OKAY''], ut_out = [], ut_sent = []\<rparr>
     = Inr (Some ''OKAY'', \<lparr>ut_handle = example_handle, ut_in = [], ut_out = [], ut_sent = []\<rparr>)"
proof -
  let ?st = "\<lparr>ut_handle = example_handle, ut_in = [None, None, None, None, None, Some ''OKAY''], ut_out = [], ut_sent = []\<rparr>"
  have "responses 0 (ut_in ?st) = [Some ''OKAY'']" by (simp add: MAX_RETRIES_def)
  then obtain rs where "usb_read FB_RESPONSE_SZ ?st = Inr (Some ''OKAY'', ?st\<lparr>ut_in := rs\<rparr>)" "responses 0 rs = []"
    using usb_read_refines [of ?st] by (auto simp: example_handle_def FB_RESPONSE_SZ_def)
  moreover have "usb_read FB_RESPONSE_SZ ?st = Inr (Some ''OKAY'', ?st\<lparr>ut_in := []\<rparr>)"
    by (simp add: usb_read_def example_handle_def FB_RESPONSE_SZ_def, subst read_loop.simps) (simp add: MAX_RETRIES_def MAX_USBFS_BULK_SIZE_def)
  ultimately show ?thesis by simp
qed

theorem image_on_the_bus_witness:
  "\<exists>sent s. write_all usb_write (image_pieces ''abc'' 3) \<lparr>ut_handle = example_handle, ut_in = [], ut_out = [1], ut_sent = []\<rparr> = (False, s)
     \<and> concat (ut_sent s) = sent \<and> prefix sent ''abc''"
proof -
  let ?st = "\<lparr>ut_handle = example_handle, ut_in = [], ut_out = [1], ut_sent = []\<rparr>"
  have "image_pieces ''abc'' 3 = [''abc'']" by (simp add: image_pieces_def example_pieces)
  then have "\<exists>s. write_all usb_write (image_pieces ''abc'' 3) ?st = (False, s)"
    by (simp add: usb_write_def example_handle_def, subst write_loop.simps) (simp add: bulk_out_def Let_def MAX_USBFS_BULK_SIZE_def)
  then obtain s where run: "write_all usb_write (image_pieces ''abc'' 3) ?st = (False, s)" by blast
  from image_on_the_bus [OF run] run show ?thesis by auto
qed

theorem opened_device_matches_witness:
  "\<exists>d \<in> {example_dev}. ud_serial d = Some (''S1'' @ [NL]) \<or> ''S1'' = take 255 (''usb:'' @ ud_name d)"
proof -
  have run: "open_by_serial ''S1'' example_junk example_desc (Some [example_dev])
     = Inr (Some \<lparr>uh_fname = ''/dev/bus/usb/001/005'', uh_desc = True, uh_ep_in = 0x81, uh_ep_out = 0x01\<rparr>)"
    using open_head [OF example_dev_facts(1,2), where s = "''S1''" and junk = example_junk]
      filter_regular [OF example_dev_facts(3-6), of "0x81" "0x01" "''S1''" example_junk _ 0]
    by (simp add: example_dev_def example_junk_def DESC_SIZE_def)
  have "serial_line example_dev" by (auto simp: serial_line_def example_dev_def)
  then show ?thesis using opened_device_matches [OF run] by (simp add: example_junk_def)
qed

end
