(* ===== verification/Fw_Monitor.thy ===== *)
theory Fw_Monitor
  imports Fw_Retry
begin

text \<open>
  The thread of the updater that watches the folder of the packages (\<^verbatim>\<open>monitor_package_func2\<close>), and the dialogs of an update.

  The kernel is outside: what it does for a call of \<^verbatim>\<open>inotify_add_watch\<close> and of \<^verbatim>\<open>read\<close> is a list of rounds, each the
  success of the first and the bytes of the second. The events in them are read out of the array byte by byte, in the layout
  of \<^verbatim>\<open>struct inotify_event\<close>. A dialog is a process that the updater writes lines to; the model keeps what was written.
\<close>

section \<open>Events in memory\<close>

definition EVENT_BUFSIZ :: nat where "EVENT_BUFSIZ = 8192"
definition EVENT_HEADER :: nat where "EVENT_HEADER = 16"
definition EVENT_NUM :: nat where "EVENT_NUM = 12"
definition MONITOR_FOLDER_NAME :: string where "MONITOR_FOLDER_NAME = ''firmware''"

text \<open>The names of the bits of a mask, by their positions.\<close>

definition event_str :: "string list" where
  "event_str = [''IN_ACCESS'', ''IN_MODIFY'', ''IN_ATTRIB'', ''IN_CLOSE_WRITE'', ''IN_CLOSE_NOWRITE'', ''IN_OPEN'',
     ''IN_MOVED_FROM'', ''IN_MOVED_TO'', ''IN_CREATE'', ''IN_DELETE'', ''IN_DELETE_SELF'', ''IN_MOVE_SELF'']"

text \<open>A field of 32 bits; the machine is little-endian.\<close>

definition u32_at :: "cbuf \<Rightarrow> nat \<Rightarrow> nat" where
  "u32_at buf i = of_char (buf ! i) + 256 * (of_char (buf ! (i + 1)) + 256 * (of_char (buf ! (i + 2)) + 256 * of_char (buf ! (i + 3))))"

text \<open>The fields \<^verbatim>\<open>mask\<close>, \<^verbatim>\<open>len\<close> and \<^verbatim>\<open>name\<close> of the event at an offset.\<close>

definition event_at :: "cbuf \<Rightarrow> nat \<Rightarrow> (nat \<times> nat) cres" where
  "event_at buf i = (if i + EVENT_HEADER \<le> length buf then Inr (u32_at buf (i + 4), u32_at buf (i + 12)) else Inl OutOfBounds)"

definition event_name :: "cbuf \<Rightarrow> nat \<Rightarrow> string cres" where
  "event_name buf i = cstr (drop (i + EVENT_HEADER) buf)"

section \<open>The monitor\<close>

text \<open>The handler of a package may not come back, because an update does not end or ends the process: \<open>None\<close>.\<close>

type_synonym 's handler = "'s \<Rightarrow> 's option cres"

definition after_handler :: "('s \<Rightarrow> 's option cres) \<Rightarrow> 's option \<Rightarrow> 's option cres" where
  "after_handler f r = (case r of None \<Rightarrow> Inr None | Some s \<Rightarrow> f s)"

text \<open>The bits of one event, in their order.\<close>

fun event_bits :: "'s handler \<Rightarrow> cbuf \<Rightarrow> nat \<Rightarrow> nat \<Rightarrow> nat \<Rightarrow> nat list \<Rightarrow> 's \<Rightarrow> 's option cres" where
  "event_bits h buf nread msk len [] st = Inr (Some st)"
| "event_bits h buf nread msk len (i # is) st =
     cbind (if odd (msk div 2 ^ i) \<and> len > 0
            then cbind (event_name buf nread) (\<lambda>name.
                   if name = MONITOR_FOLDER_NAME \<and> event_str ! i = ''IN_MOVED_TO'' then h st else Inr (Some st))
            else Inr (Some st)) (after_handler (event_bits h buf nread msk len is))"

text \<open>The loop over the events of one call of \<^verbatim>\<open>read\<close>, with a number of rounds; the subtraction is one of \<^verbatim>\<open>size_t\<close>,
  converted back to \<^verbatim>\<open>int\<close>.\<close>

fun event_loop :: "nat \<Rightarrow> 's handler \<Rightarrow> cbuf \<Rightarrow> int \<Rightarrow> nat \<Rightarrow> 's \<Rightarrow> 's option cres" where
  "event_loop 0 h buf len nread st = Inl Blocked"
| "event_loop (Suc n) h buf len nread st =
     (if len \<le> 0 then Inr (Some st)
      else cbind (event_at buf nread) (\<lambda>(msk, l).
           cbind (event_bits h buf nread msk l [0..<EVENT_NUM] st)
             (after_handler (event_loop n h buf (to_int32 (len - int EVENT_HEADER - int l)) (nread + EVENT_HEADER + l)))))"

datatype 's monitor_end = Watching 's | Stopped 's | Busy

text \<open>From the label \<^verbatim>\<open>INOTIFY_AGAIN\<close> on. A round is the success of \<^verbatim>\<open>inotify_add_watch\<close> and what \<^verbatim>\<open>read\<close> delivers, \<open>None\<close> when
  it fails; behind the list the thread waits in \<^verbatim>\<open>read\<close>.\<close>

fun monitor_again :: "'s handler \<Rightarrow> (bool \<times> cbuf option) list \<Rightarrow> cbuf \<Rightarrow> 's \<Rightarrow> 's monitor_end cres" where
  "monitor_again h [] buf st = Inr (Watching st)"
| "monitor_again h ((watched, bytes) # rs) buf st =
     (if \<not> watched then Inr (Stopped st)
      else case bytes of
             None \<Rightarrow> monitor_again h rs buf st
           | Some bs \<Rightarrow>
               (let b = take (EVENT_BUFSIZ - 1) bs; buf' = b @ drop (length b) buf
                in cbind (event_loop (EVENT_BUFSIZ div EVENT_HEADER + 1) h buf' (int (length b)) 0 st) (\<lambda>r.
                     case r of None \<Rightarrow> Inr Busy | Some s \<Rightarrow> monitor_again h rs buf' s)))"

text \<open>\<open>junk\<close>: the array before it is written.\<close>

definition monitor_package_func2 :: "cbuf \<Rightarrow> 's handler \<Rightarrow> bool \<Rightarrow> (bool \<times> cbuf option) list \<Rightarrow> 's \<Rightarrow> 's monitor_end cres" where
  "monitor_package_func2 junk h opened rs st =
     (if \<not> opened then Inr (Stopped st) else monitor_again h rs (junk[EVENT_BUFSIZ - 1 := NUL]) st)"

text \<open>What a package moved to its place starts, by the type of the module. For a USB module the list is that of the results
  of \<^verbatim>\<open>unzip\<close>.\<close>

definition package_moved_usb :: "nat \<Rightarrow> shell \<Rightarrow> djunk \<Rightarrow> (int list \<times> upd) handler" where
  "package_moved_usb n sh dj = (\<lambda>(zips, x).
     (let (e, zips') = extract_update_files zips (u_fs (up_fwu x))
      in if e = 0
         then cbind (start_update_process n sh dj False x) (\<lambda>y. Inr (case y of None \<Rightarrow> None | Some (f, x') \<Rightarrow> if f = Exited then None else Some (zips', x')))
         else Inr (Some (zips', x))))"

definition package_moved :: "pwl_device_type_t \<Rightarrow> 'u handler \<Rightarrow> 'p handler \<Rightarrow> ('u \<times> 'p) handler" where
  "package_moved ty usb pcie = (\<lambda>(u, p).
     if ty = PWL_DEVICE_TYPE_USB then cbind (usb u) (\<lambda>r. Inr (map_option (\<lambda>u'. (u', p)) r))
     else if ty = PWL_DEVICE_TYPE_PCIE then cbind (pcie p) (\<lambda>r. Inr (map_option (\<lambda>p'. (u, p')) r))
     else Inr (Some (u, p)))"

section \<open>What the kernel writes\<close>

record kernel_event =
  k_wd :: nat
  k_mask :: nat
  k_cookie :: nat
  k_name :: string
  k_pad :: nat

definition le32 :: "nat \<Rightarrow> cbuf" where
  "le32 x = [char_of (x mod 256), char_of (x div 256 mod 256), char_of (x div 65536 mod 256), char_of (x div 16777216 mod 256)]"

definition k_len :: "kernel_event \<Rightarrow> nat" where
  "k_len e = length (k_name e) + k_pad e"

definition encode_event :: "kernel_event \<Rightarrow> cbuf" where
  "encode_event e = le32 (k_wd e) @ le32 (k_mask e) @ le32 (k_cookie e) @ le32 (k_len e) @ k_name e @ replicate (k_pad e) NUL"

text \<open>The name is at most 255 characters long, without NUL, and followed by one; an event of the folder itself has no name.\<close>

definition kernel_wf :: "kernel_event \<Rightarrow> bool" where
  "kernel_wf e \<longleftrightarrow> k_wd e < 2 ^ 32 \<and> k_mask e < 2 ^ 32 \<and> k_cookie e < 2 ^ 32 \<and> NUL \<notin> set (k_name e)
     \<and> (k_pad e = 0 \<longrightarrow> k_name e = []) \<and> k_len e < 2 ^ 16"

definition package_event :: "kernel_event \<Rightarrow> bool" where
  "package_event e \<longleftrightarrow> odd (k_mask e div 2 ^ 7) \<and> k_name e = MONITOR_FOLDER_NAME"

fun handled_times :: "nat \<Rightarrow> 's handler \<Rightarrow> 's \<Rightarrow> 's option cres" where
  "handled_times 0 h st = Inr (Some st)"
| "handled_times (Suc n) h st = cbind (h st) (after_handler (handled_times n h))"

section \<open>Reading back the fields\<close>

lemma le32_length [simp]: "length (le32 x) = 4"
  by (simp add: le32_def)

lemma le32_sum:
  assumes "x < 2 ^ 32"
  shows "x mod 256 + 256 * (x div 256 mod 256 + 256 * (x div 65536 mod 256 + 256 * (x div 16777216 mod 256))) = (x :: nat)"
proof -
  have top: "x div 16777216 mod 256 = x div 16777216" using assms by (simp add: div_less_iff_less_mult)
  have d: "x div 65536 = x div 256 div 256" "x div 16777216 = x div 256 div 256 div 256"
    by (simp_all add: div_mult2_eq [symmetric])
  have step: "y mod 256 + 256 * (y div 256) = y" for y :: nat by simp
  show ?thesis unfolding top unfolding d by (simp only: step)
qed

lemma u32_le32: "x < 2 ^ 32 \<Longrightarrow> u32_at (pre @ le32 x @ post) (length pre) = x"
  unfolding u32_at_def le32_def using le32_sum [of x] by (simp add: nth_append del: distrib_left_numeral)

lemma encode_length [simp]: "length (encode_event e) = EVENT_HEADER + k_len e"
  by (simp add: encode_event_def EVENT_HEADER_def k_len_def)

lemma event_at_encoded:
  assumes "kernel_wf e" and "length pre = i"
  shows "event_at (pre @ encode_event e @ post) i = Inr (k_mask e, k_len e)"
proof -
  have l: "k_len e < 2 ^ 32" using assms(1) by (simp add: kernel_wf_def)
  have "u32_at ((pre @ le32 (k_wd e)) @ le32 (k_mask e) @ le32 (k_cookie e) @ le32 (k_len e) @ k_name e @ replicate (k_pad e) NUL @ post) (i + 4) = k_mask e"
    using u32_le32 [of "k_mask e" "pre @ le32 (k_wd e)"] assms by (simp add: kernel_wf_def)
  moreover have "u32_at ((pre @ le32 (k_wd e) @ le32 (k_mask e) @ le32 (k_cookie e)) @ le32 (k_len e) @ k_name e @ replicate (k_pad e) NUL @ post) (i + 12) = k_len e"
    using u32_le32 [of "k_len e" "pre @ le32 (k_wd e) @ le32 (k_mask e) @ le32 (k_cookie e)"] assms l by simp
  ultimately show ?thesis using assms(2) by (simp add: event_at_def encode_event_def EVENT_HEADER_def)
qed

lemma event_name_encoded:
  assumes "kernel_wf e" and "0 < k_len e"
  shows "event_name (pre @ encode_event e @ post) (length pre) = Inr (k_name e)"
proof -
  obtain p where "k_pad e = Suc p" using assms by (cases "k_pad e") (auto simp: kernel_wf_def k_len_def)
  then have "drop (length pre + EVENT_HEADER) (pre @ encode_event e @ post) = k_name e @ NUL # replicate p NUL @ post"
    by (simp add: encode_event_def EVENT_HEADER_def)
  moreover have "takeWhile (\<lambda>c. c \<noteq> NUL) (k_name e @ NUL # replicate p NUL @ post) = k_name e"
    using assms(1) by (subst takeWhile_append2) (auto simp: kernel_wf_def)
  ultimately show ?thesis by (simp add: event_name_def cstr_def)
qed

section \<open>One event\<close>

lemma after_handler_Some [simp]: "after_handler f (Some s) = f s"
  by (simp add: after_handler_def)

lemma after_handler_None [simp]: "after_handler f None = Inr None"
  by (simp add: after_handler_def)

lemma after_handler_unit: "after_handler (\<lambda>s. Inr (Some s)) = Inr"
  by (auto simp: after_handler_def fun_eq_iff split: option.splits)

lemma cbind_unit: "cbind m Inr = m"
  by (cases m) auto

lemma cbind_after_assoc: "cbind (cbind m (after_handler f)) (after_handler g) = cbind m (after_handler (\<lambda>s. cbind (f s) (after_handler g)))"
  by (cases m) (auto simp: after_handler_def split: option.splits)

lemma event_bits_append:
  "event_bits h buf nread msk len (is @ js) st = cbind (event_bits h buf nread msk len is st) (after_handler (event_bits h buf nread msk len js))"
proof (induction "is" arbitrary: st)
  case (Cons i "is")
  have "event_bits h buf nread msk len (is @ js)
        = (\<lambda>s. cbind (event_bits h buf nread msk len is s) (after_handler (event_bits h buf nread msk len js)))"
    by (rule ext) (rule Cons.IH)
  then show ?case by (simp only: append_Cons event_bits.simps cbind_after_assoc)
qed simp

lemma event_bits_idle:
  assumes "\<forall>i \<in> set is. event_str ! i \<noteq> ''IN_MOVED_TO''" and "0 < len \<Longrightarrow> event_name buf nread = Inr name"
  shows "event_bits h buf nread msk len is st = Inr (Some st)"
  using assms by (induction "is" arbitrary: st) auto

lemma event_bits_moved:
  assumes "0 < len \<Longrightarrow> event_name buf nread = Inr name"
  shows "event_bits h buf nread msk len [0..<EVENT_NUM] st =
           (if odd (msk div 2 ^ 7) \<and> 0 < len \<and> name = MONITOR_FOLDER_NAME then h st else Inr (Some st))"
proof -
  have split: "[0..<EVENT_NUM] = [0..<7] @ 7 # [8..<12]" by (simp add: EVENT_NUM_def upt_rec)
  have idle: "event_bits h buf nread msk len is st = Inr (Some st)" if "set is \<subseteq> {0..<7} \<union> {8..<12}" for "is" st
  proof (rule event_bits_idle [OF _ assms])
    have "\<forall>i \<in> {0..<7} \<union> {8..<12}. event_str ! i \<noteq> ''IN_MOVED_TO''" by (simp add: event_str_def atLeastLessThan_nat_numeral)
    then show "\<forall>i \<in> set is. event_str ! i \<noteq> ''IN_MOVED_TO''" using that by blast
  qed
  have "after_handler (event_bits h buf nread msk len [8..<12]) = Inr"
    using idle [of "[8..<12]"] by (auto simp: after_handler_def fun_eq_iff split: option.splits)
  then show ?thesis using idle [of "[0..<7]"] assms
    by (simp add: split event_bits_append event_str_def cbind_unit del: upt_rec_numeral)
qed

lemma event_handled:
  assumes "kernel_wf e"
  shows "event_bits h (pre @ encode_event e @ post) (length pre) (k_mask e) (k_len e) [0..<EVENT_NUM] st = (if package_event e then h st else Inr (Some st))"
proof -
  have "MONITOR_FOLDER_NAME \<noteq> []" by (simp add: MONITOR_FOLDER_NAME_def)
  then have "package_event e \<longleftrightarrow> odd (k_mask e div 2 ^ 7) \<and> 0 < k_len e \<and> k_name e = MONITOR_FOLDER_NAME"
    by (auto simp: package_event_def k_len_def)
  then show ?thesis by (simp add: event_bits_moved [OF event_name_encoded [OF assms]])
qed

section \<open>All events\<close>

definition encode_events :: "kernel_event list \<Rightarrow> cbuf" where
  "encode_events es = concat (map encode_event es)"

definition packages :: "kernel_event list \<Rightarrow> nat" where
  "packages es = length (filter package_event es)"

lemma event_loop_encoded:
  assumes "\<forall>e \<in> set es. kernel_wf e" and "length (encode_events es) < EVENT_BUFSIZ" and "length es < n"
  shows "event_loop n h (pre @ encode_events es @ post) (int (length (encode_events es))) (length pre) st = handled_times (packages es) h st"
  using assms
proof (induction es arbitrary: n pre st)
  case Nil
  then obtain k where "n = Suc k" by (cases n) auto
  then show ?case by (simp add: encode_events_def packages_def)
next
  case (Cons e es)
  obtain k where n: "n = Suc k" using Cons.prems(3) by (cases n) auto
  have wf: "kernel_wf e" using Cons.prems(1) by simp
  have enc: "encode_events (e # es) = encode_event e @ encode_events es" by (simp add: encode_events_def)
  have sz: "EVENT_HEADER + k_len e + length (encode_events es) < 8192" using Cons.prems(2) by (simp add: enc EVENT_BUFSIZ_def)
  have rest: "to_int32 (int (length (encode_events (e # es))) - int EVENT_HEADER - int (k_len e)) = int (length (encode_events es))"
    using sz by (simp add: enc to_int32_small)
  have pos: "0 < int (length (encode_events (e # es)))" by (simp add: enc EVENT_HEADER_def)
  have ih: "event_loop k h (pre @ encode_events (e # es) @ post) (int (length (encode_events es))) (length pre + EVENT_HEADER + k_len e) s
            = handled_times (packages es) h s" for s
    using Cons.IH [of k "pre @ encode_event e" s] Cons.prems sz by (simp add: n enc EVENT_BUFSIZ_def add.assoc)
  have bits: "event_bits h (pre @ encode_events (e # es) @ post) (length pre) (k_mask e) (k_len e) [0..<EVENT_NUM] st
              = (if package_event e then h st else Inr (Some st))"
    using event_handled [OF wf, of h pre "encode_events es @ post" st] by (simp add: enc)
  have ev: "event_at (pre @ encode_events (e # es) @ post) (length pre) = Inr (k_mask e, k_len e)"
    using event_at_encoded [OF wf refl, of pre "encode_events es @ post"] by (simp add: enc)
  have "event_loop n h (pre @ encode_events (e # es) @ post) (int (length (encode_events (e # es)))) (length pre) st
        = cbind (if package_event e then h st else Inr (Some st)) (after_handler (handled_times (packages es) h))"
    using pos by (simp add: n ev bits rest ih [abs_def])
  then show ?case by (simp add: packages_def)
qed

section \<open>All rounds\<close>

lemma times_add: "handled_times (m + n) h st = cbind (handled_times m h st) (after_handler (handled_times n h))"
proof (induction m arbitrary: st)
  case (Suc m)
  have "handled_times (m + n) h = (\<lambda>s. cbind (handled_times m h s) (after_handler (handled_times n h)))" by (rule ext) (rule Suc.IH)
  then show ?case by (simp only: add_Suc handled_times.simps cbind_after_assoc)
qed simp

lemma events_few: "EVENT_HEADER * length es \<le> length (encode_events es)"
  by (induction es) (simp_all add: encode_events_def EVENT_HEADER_def)

definition readable_events :: "kernel_event list \<Rightarrow> bool" where
  "readable_events es \<longleftrightarrow> (\<forall>e \<in> set es. kernel_wf e) \<and> length (encode_events es) < EVENT_BUFSIZ"

lemma one_read:
  assumes "readable_events es" and "length buf = EVENT_BUFSIZ"
  defines "buf' \<equiv> encode_events es @ drop (length (encode_events es)) buf"
  shows "monitor_again h ((True, Some (encode_events es)) # rs) buf st
         = cbind (handled_times (packages es) h st) (\<lambda>r. case r of None \<Rightarrow> Inr Busy | Some s \<Rightarrow> monitor_again h rs buf' s)"
proof -
  have "length (encode_events es) < EVENT_BUFSIZ" "\<forall>e \<in> set es. kernel_wf e" using assms(1) by (simp_all add: readable_events_def)
  moreover from this have "take (EVENT_BUFSIZ - 1) (encode_events es) = encode_events es" by simp
  moreover have "length es < EVENT_BUFSIZ div EVENT_HEADER + 1"
    using events_few [of es] calculation by (simp add: EVENT_BUFSIZ_def EVENT_HEADER_def)
  ultimately show ?thesis
    using event_loop_encoded [of es "EVENT_BUFSIZ div EVENT_HEADER + 1" h "[]" "drop (length (encode_events es)) buf" st]
    by (simp add: buf'_def Let_def del: event_loop.simps)
qed

definition reads :: "kernel_event list list \<Rightarrow> (bool \<times> cbuf option) list" where
  "reads ess = map (\<lambda>es. (True, Some (encode_events es))) ess"

lemma all_reads:
  assumes "\<forall>es \<in> set ess. readable_events es" and "length buf = EVENT_BUFSIZ"
    and "\<And>b s. length b = EVENT_BUFSIZ \<Longrightarrow> monitor_again h rs b s = Inr (fin s)"
  shows "monitor_again h (reads ess @ rs) buf st
         = cbind (handled_times (packages (concat ess)) h st) (\<lambda>r. Inr (case r of None \<Rightarrow> Busy | Some s \<Rightarrow> fin s))"
  using assms
proof (induction ess arbitrary: buf st)
  case (Cons es ess)
  let ?buf = "encode_events es @ drop (length (encode_events es)) buf"
  let ?fin = "\<lambda>r. Inr (case r of None \<Rightarrow> Busy | Some s \<Rightarrow> fin s)"
  have "length ?buf = EVENT_BUFSIZ" using Cons.prems(1,2) by (simp add: readable_events_def)
  then have ih: "monitor_again h (reads ess @ rs) ?buf s = cbind (handled_times (packages (concat ess)) h s) ?fin" for s
    using Cons by simp
  have cons: "reads (es # ess) @ rs = (True, Some (encode_events es)) # (reads ess @ rs)" by (simp add: reads_def)
  have n: "packages (concat (es # ess)) = packages es + packages (concat ess)" by (simp add: packages_def)
  have "monitor_again h (reads (es # ess) @ rs) buf st
        = cbind (handled_times (packages es) h st) (\<lambda>r. case r of None \<Rightarrow> Inr Busy | Some s \<Rightarrow> monitor_again h (reads ess @ rs) ?buf s)"
    using one_read [of es buf h "reads ess @ rs" st] Cons.prems(1,2) by (simp only: cons) simp
  also have "\<dots> = cbind (handled_times (packages es + packages (concat ess)) h st) ?fin"
    by (cases "handled_times (packages es) h st") (auto simp: times_add ih split: option.splits)
  finally show ?case by (simp only: n)
qed (simp add: reads_def packages_def)

text \<open>C21: Whatever events the kernel reports for the folder, in whatever portions, the monitor starts the handling of a package
  once for each move of the package folder to its place, one after the other, and for nothing else. It goes on watching
  until the watch cannot be renewed; then it ends for good.\<close>

theorem package_noticed_once:
  assumes "\<forall>es \<in> set ess. readable_events es" and "length junk = EVENT_BUFSIZ"
  shows "monitor_package_func2 junk h True (reads ess) st
           = cbind (handled_times (packages (concat ess)) h st) (\<lambda>r. Inr (case r of None \<Rightarrow> Busy | Some s \<Rightarrow> Watching s))
         \<and> monitor_package_func2 junk h True (reads ess @ (False, x) # rs) st
           = cbind (handled_times (packages (concat ess)) h st) (\<lambda>r. Inr (case r of None \<Rightarrow> Busy | Some s \<Rightarrow> Stopped s))"
proof -
  have l: "length (junk[EVENT_BUFSIZ - 1 := NUL]) = EVENT_BUFSIZ" using assms(2) by simp
  show ?thesis
    using all_reads [OF assms(1) l, of h "[]" Watching st] all_reads [OF assms(1) l, of h "(False, x) # rs" Stopped st]
    by (simp add: monitor_package_func2_def)
qed

definition example_events :: "kernel_event list" where
  "example_events = [\<lparr>k_wd = 1, k_mask = 0x40000100, k_cookie = 0, k_name = ''firmware'', k_pad = 8\<rparr>,
     \<lparr>k_wd = 1, k_mask = 0x40000080, k_cookie = 77, k_name = ''firmware'', k_pad = 8\<rparr>, \<lparr>k_wd = 1, k_mask = 0x40000020, k_cookie = 0, k_name = [], k_pad = 0\<rparr>]"

theorem package_noticed_once_witness:
  "monitor_package_func2 (replicate EVENT_BUFSIZ CHR ''x'') (\<lambda>n. Inr (Some (n + 1))) True (reads [example_events, example_events]) 0 = Inr (Watching (2 :: nat))"
proof -
  have r: "readable_events example_events"
    by (simp add: readable_events_def example_events_def kernel_wf_def k_len_def encode_events_def EVENT_BUFSIZ_def EVENT_HEADER_def)
  have p: "packages (example_events @ example_events) = Suc (Suc 0)"
    by (simp add: packages_def example_events_def package_event_def MONITOR_FOLDER_NAME_def)
  let ?h = "\<lambda>n. Inr (Some (n + 1)) :: nat option cres"
  have "monitor_package_func2 (replicate EVENT_BUFSIZ CHR ''x'') ?h True (reads [example_events, example_events]) 0
        = cbind (handled_times (packages (concat [example_events, example_events])) ?h 0) (\<lambda>r. Inr (case r of None \<Rightarrow> Busy | Some s \<Rightarrow> Watching s))"
    by (rule conjunct1 [OF package_noticed_once]) (simp_all add: r)
  also have "\<dots> = Inr (Watching 2)" by (simp add: p)
  finally show ?thesis .
qed

end
