(* ===== verification/Fw_Dialogs.thy ===== *)
theory Fw_Dialogs
  imports Fw_Retry
begin

text \<open>
  The dialogs of an update: the search for the display (\<^verbatim>\<open>get_env_variable\<close>), the check for a GPU, and the \<^verbatim>\<open>zenity\<close> processes
  that show the progress and the module configuration.

  What the two \<^verbatim>\<open>find\<close> commands print, what is below \<^verbatim>\<open>/sys/class/drm\<close> and whether a process can be started are the desktop, a
  parameter. A dialog that is open is the command it was started with and the text that was written to it.
\<close>

section \<open>State\<close>

record desktop =
  dk_mutter :: "string option"
  dk_x11 :: "string option"
  dk_drm :: "(string \<times> string option) list option"
  dk_popen :: bool

type_synonym dialog = "string \<times> string"

record dialogs =
  dg_env_variable :: cbuf
  dg_set_env :: string
  dg_percent :: int
  dg_status :: string
  dg_command :: string
  dg_prompt_status :: string
  dg_prompt_command :: string
  dg_progress :: "dialog option"
  dg_prompt :: "dialog option"
  dg_closed :: "dialog list"

definition ENV_VARIABLE_LENGTH :: nat where "ENV_VARIABLE_LENGTH = 64"
definition SET_ENV_SIZE :: nat where "SET_ENV_SIZE = 256"


text \<open>Characters that need care in a text: the quotation mark, and a backslash followed by \<open>n\<close> twice.\<close>

definition QUOTE :: string where "QUOTE = [CHR 0x22]"

section \<open>The display\<close>

text \<open>\<^verbatim>\<open>fread\<close> leaves the bytes behind those it stores; \<open>None\<close> is a pipe that cannot be opened.\<close>

definition fread_into :: "cbuf \<Rightarrow> string \<Rightarrow> cbuf" where
  "fread_into buf out = (let b = take (length buf) out in b @ drop (length b) buf)"

definition env_prefix :: string where
  "env_prefix = ''export DISPLAY='' @ QUOTE @ '':0'' @ QUOTE @ [NL] @ ''export XDG_CURRENT_DESKTOP='' @ QUOTE @ ''ubuntu:GNOME'' @ QUOTE @ [NL]
     @ ''export XAUTHORITY=''"

definition set_environment :: "cbuf \<Rightarrow> dialogs \<Rightarrow> (int \<times> dialogs) cres" where
  "set_environment buf d =
     cbind (cstr buf) (\<lambda>env. cbind (strcpy_cap SET_ENV_SIZE (env_prefix @ env @ [NL])) (\<lambda>txt.
       Inr (0, d\<lparr>dg_env_variable := buf, dg_set_env := txt\<rparr>)))"

definition get_env_variable :: "desktop \<Rightarrow> dialogs \<Rightarrow> (int \<times> dialogs) cres" where
  "get_env_variable dk d =
     (let buf = dg_env_variable d
      in case dk_mutter dk of
           None \<Rightarrow> Inr (-1, d)
         | Some out \<Rightarrow>
             if out \<noteq> [] then set_environment (fread_into buf out) d
             else (case dk_x11 dk of
                     None \<Rightarrow> Inr (-1, d)
                   | Some out' \<Rightarrow> if out' = [] then Inr (-1, d) else set_environment (fread_into buf out') d))"

section \<open>The GPU\<close>

text \<open>The entries of \<^verbatim>\<open>/sys/class/drm\<close> with what is in their \<^verbatim>\<open>device/device\<close>; closing a file twice is \<open>UseAfterFree\<close>.\<close>

fun gpu_loop :: "(string \<times> string option) list \<Rightarrow> int cres" where
  "gpu_loop [] = Inr (-1)"
| "gpu_loop ((name, dev) # es) =
     (if \<not> strncmp_eq name ''card'' 4 then gpu_loop es
      else case dev of
             None \<Rightarrow> gpu_loop es
           | Some txt \<Rightarrow>
               (case fgets 64 txt of
                  None \<Rightarrow> gpu_loop es
                | Some line \<Rightarrow> if cut_at line [NL] \<noteq> [] then Inr 0 else Inl UseAfterFree))"

definition detect_gpu_status :: "desktop \<Rightarrow> int cres" where
  "detect_gpu_status dk = (case dk_drm dk of None \<Rightarrow> Inr (-1) | Some es \<Rightarrow> gpu_loop es)"

section \<open>Dialogs\<close>

definition write_progress :: "string \<Rightarrow> dialogs \<Rightarrow> dialogs" where
  "write_progress txt d = (case dg_progress d of None \<Rightarrow> d | Some (c, w) \<Rightarrow> d\<lparr>dg_progress := Some (c, w @ txt)\<rparr>)"


definition pclose_progress :: "dialogs \<Rightarrow> dialogs" where
  "pclose_progress d = (case dg_progress d of None \<Rightarrow> d | Some p \<Rightarrow> d\<lparr>dg_progress := None, dg_closed := dg_closed d @ [p]\<rparr>)"



definition close_prompt :: "dialogs \<Rightarrow> dialogs" where
  "close_prompt d = (case dg_prompt d of None \<Rightarrow> d | Some p \<Rightarrow> d\<lparr>dg_prompt := None, dg_closed := dg_closed d @ [p]\<rparr>)"

definition show_module_config_prompt :: "desktop \<Rightarrow> dialogs \<Rightarrow> dialogs" where
  "show_module_config_prompt dk d =
     (let d1 = close_prompt d in d1\<lparr>dg_prompt := if dk_popen dk then Some (dg_prompt_command d1, []) else None\<rparr>)"

definition dismiss_module_config_prompt :: "dialogs \<Rightarrow> dialogs" where
  "dismiss_module_config_prompt d =
     (case dg_prompt d of None \<Rightarrow> d | Some (c, w) \<Rightarrow> close_prompt (d\<lparr>dg_prompt := Some (c, w @ ''100'' @ [NL])\<rparr>))"

text \<open>The part of \<^verbatim>\<open>restart_madpt_and_fwupdate_service\<close> that closes both dialogs.\<close>

definition close_dialogs_for_restart :: "dialogs \<Rightarrow> dialogs" where
  "close_dialogs_for_restart d = dismiss_module_config_prompt (pclose_progress (write_progress (''100'' @ [NL]) d))"







section \<open>Lemmas\<close>


text \<open>The array for the path ends with NUL as long as the paths are shorter than it.\<close>

definition env_inv :: "dialogs \<Rightarrow> bool" where
  "env_inv d \<longleftrightarrow> length (dg_env_variable d) = ENV_VARIABLE_LENGTH \<and> dg_env_variable d ! (ENV_VARIABLE_LENGTH - 1) = NUL
     \<and> length (dg_set_env d) < 160"








text \<open>A path that is longer is read without its end: the text of the environment then runs over it.\<close>

lemma get_env_unterminated:
  "dk_mutter dk = Some out \<Longrightarrow> ENV_VARIABLE_LENGTH \<le> length out \<Longrightarrow> NUL \<notin> set out \<Longrightarrow> env_inv d \<Longrightarrow>
     get_env_variable dk d = Inl Unterminated"
  by (auto simp: get_env_variable_def set_environment_def cstr_def fread_into_def Let_def env_inv_def ENV_VARIABLE_LENGTH_def dest: in_set_takeD)

lemma gpu_empty_id_closes_twice:
  "dk_drm dk = Some ((name, Some (NL # txt)) # es) \<Longrightarrow> strncmp_eq name ''card'' 4 \<Longrightarrow> detect_gpu_status dk = Inl UseAfterFree"
  by (simp add: detect_gpu_status_def fgets_def fgets_lines_def cut_at_def strcspn_def)

















section \<open>Properties\<close>




end
