(* ===== verification/Spec2Isabelle.thy ===== *)
theory Spec2Isabelle
  imports Dbus_Clients Fw_Gone Fb_Usb Fw_Monitor Fw_Dialogs
begin

text \<open>
  Verification of the Palcom Wireless (pwl) Linux services for WWAN modules.

  \<^bold>\<open>The program.\<close> Four system services written in C work together. The core service
  (\<^verbatim>\<open>pwl-core\<close>) watches the module and publishes signals on D-Bus. The preference service
  (\<^verbatim>\<open>pwl-pref\<close>) keeps what the others ask for: manufacturer, SKU, firmware versions, SIM carrier,
  a backup of serial number and IMEI. The module adapter (\<^verbatim>\<open>pwl-madpt\<close>) turns requests into AT
  commands and sends them to the module over the MBIM library, the \<^verbatim>\<open>mbimcli\<close> tool or a serial
  port. The updater (\<^verbatim>\<open>pwl-fwupdate\<close>) selects firmware images and flashes them. The services
  exchange fixed-size messages over POSIX message queues, one queue per service, and share text
  files of status values below \<^verbatim>\<open>/opt/pwl\<close>; \<^verbatim>\<open>common/common.c\<close> holds the code that all of them link.

  \<^bold>\<open>Theories.\<close>
  \<^item> \<open>Pwl_Prelude\<close>: the result type \<open>'a cres\<close> (\<open>Inl\<close> of a \<open>cerr\<close> where C leaves defined behaviour:
    null pointer, overflow of an array, reading an uninitialised or unterminated object), its bind
    \<open>cbind\<close>, the postcondition \<open>cpost\<close> with its rules, and general lemmas on lists.
  \<^item> \<open>C_String\<close>: the functions of \<^verbatim>\<open>string.h\<close>, \<^verbatim>\<open>stdio.h\<close> and \<^verbatim>\<open>stdlib.h\<close> that the services use.
    A C string is the list of characters before its terminator; a raw array, where the code
    depends on the bytes behind the terminator, is a list of all its bytes (\<open>cbuf\<close>).
  \<^item> \<open>Common_Status\<close>: the status records of \<^verbatim>\<open>common.c\<close> (\<^verbatim>\<open>set_fw_update_status_value\<close>,
    \<^verbatim>\<open>get_fw_update_status_value\<close> and their siblings for the eSIM and the boot-up record), on an
    explicit file system \<open>fs\<close>. The contract of a record, a store of small integers under fixed
    keys, is the locale \<open>status_store\<close>, interpreted for each of the three records.
  \<^item> \<open>Common_Messages\<close>: the message record \<^verbatim>\<open>msg_buffer_t\<close>, the numbering of the commands, replies,
    routing, and emptying a queue at start-up.
  \<^item> \<open>Common_Device\<close>: detection of the host and of the module, the cached device type, the query
    over \<^verbatim>\<open>mbimcli\<close>, and the string helpers of \<^verbatim>\<open>common.c\<close>.
  \<^item> \<open>At_Channel\<close>: the serial port, \<^verbatim>\<open>pwl_atchannel.c\<close>: discovery of the port, assembly of a
    response in its array of \<^verbatim>\<open>PWL_MQ_MAX_RESP\<close> bytes, removal of NUL bytes, requests.
  \<^item> \<open>Madpt\<close>: the module adapter, \<^verbatim>\<open>pwl_madpt.c\<close> and \<^verbatim>\<open>pwl_mbimdeviceadpt.c\<close>: the command table, the
    parser of responses, the message loop (\<open>madpt_handle\<close> is one turn), the error counter, the
    JP FCC and OEM PRI configuration, restart and the choice of the interface. The locale
    \<open>at_transport\<close> is what a synchronous transport promises; it is interpreted for \<^verbatim>\<open>mbimcli\<close>
    and for the serial channel.
  \<^item> \<open>Pref\<close>: the preference service, \<^verbatim>\<open>pwl_pref.c\<close>: the message loop (\<open>pref_handle\<close> is one turn),
    version strings, the carrier list, the backup file, the carrier check and the two signal
    callbacks.
  \<^item> \<open>Core\<close>: the core service, \<^verbatim>\<open>pwl_core.c\<close>: the monitor that recovers a PCIe module
    (\<open>mbim_monitor_thread_func\<close>), the connection to the MBIM device as a step relation
    (\<open>conn_step\<close>), the GPIO reset and its limit, the D-Bus methods, start-up. The locale
    \<open>limited_action\<close> of the prelude is the contract of an action that a recorded count limits; it is
    interpreted for the GPIO reset and for the recovery from the flash folder.
  \<^item> \<open>Fw_Requests\<close>: the updater's message thread (\<open>u_handle\<close> is one turn) and every function that asks
    the module for something and waits. The locale \<open>request_protocol\<close> is a request that is repeated
    until an answer can be used; it is interpreted for the three ways in which the code waits.
  \<^item> \<open>Fw_Images\<close>: the images: search of the folders, comparison with the module, order, package
    version, key, recovery images, set-up of the transfer (\<open>setup_download_parameter\<close>).
  \<^item> \<open>Fb_Programming\<close>: flashing a USB module: \<^verbatim>\<open>fb_programing.c\<close>, \<^verbatim>\<open>fastboot_send_command_v3\<close> and
    \<^verbatim>\<open>fastboot_flash_process_v2\<close>; the answers of the boot loader are a script.
  \<^item> \<open>Fw_Update\<close>: the update of a USB module from start to end: \<^verbatim>\<open>start_update_process\<close>,
    \<^verbatim>\<open>download_process\<close>, the retry thread and the checks of \<^verbatim>\<open>main\<close>.
  \<^item> \<open>Fw_Table\<close>: the packages of a PCIe module: \<^verbatim>\<open>check_update_data\<close>, the choice of the images from the XML
    descriptions (\<^verbatim>\<open>find_fw_download_image\<close>, \<^verbatim>\<open>find_device_image\<close>), checksums, the flash table
    (\<^verbatim>\<open>generate_download_table\<close>, \<^verbatim>\<open>check_image_downlaod_table\<close>). The record \<open>pcie\<close> holds the globals of a PCIe update
    beside \<open>fwu\<close>; the XML library is a parameter (\<open>penv\<close>).
  \<^item> \<open>Fw_Pcie\<close>: flashing a PCIe module: the fastboot port, \<^verbatim>\<open>flash_image\<close>, \<^verbatim>\<open>parse_download_table_and_flash\<close>,
    \<^verbatim>\<open>switch_t7xx_mode\<close> and \<^verbatim>\<open>do_fastboot_reboot\<close>.
  \<^item> \<open>Fw_Retry\<close>: \<^verbatim>\<open>start_update_process_pcie\<close> and the two places that start and retry it. The locale
    \<open>message_invariant\<close> is what every message keeps, and so every request of an update; it is interpreted for the sizes
    of the data and for the stored number of retries.
  \<^item> \<open>Fb_Engine\<close>, \<open>Fb_Wire\<close>, \<open>Fb_Usb\<close>: the fastboot library: \<^verbatim>\<open>protocol.cpp\<close>, \<^verbatim>\<open>engine.cpp\<close> and \<^verbatim>\<open>fastboot.cpp\<close>; what a
    command leaves for the updater, and that this is the script that \<open>Fb_Programming\<close> works with; the search for the device and
    the transfers of \<^verbatim>\<open>usb_linux.cpp\<close>. The locale \<open>byte_stream\<close> is a channel that takes bytes in order.
  \<^item> \<open>Fw_Gone\<close>: an update of a module that has left the bus.
  \<^item> \<open>Fw_Monitor\<close>: the thread that watches the folder of the packages, \<^verbatim>\<open>monitor_package_func2\<close>, from the bytes of the
    kernel's events to the start of an update.
  \<^item> \<open>Fw_Dialogs\<close>: the dialogs: \<^verbatim>\<open>get_env_variable\<close>, \<^verbatim>\<open>detect_gpu_status\<close>, \<^verbatim>\<open>update_progress_dialog\<close>, \<^verbatim>\<open>close_progress_msg_box\<close>.
  \<^item> \<open>Dbus_Clients\<close>: how the three clients of the core service connect to it (\<^verbatim>\<open>gdbus_init\<close>, \<^verbatim>\<open>dbus_service_is_ready\<close>), which
    handlers a signal reaches, and the methods that the core service exports.
  \<^item> This theory: properties that span components.

  \<^bold>\<open>Correspondence.\<close> The static variables of a C file are the fields of one record (\<open>dev\<close>,
  \<open>madpt\<close>, \<open>pref\<close>, \<open>core\<close>, \<open>fwu\<close>; the transfer data \<^verbatim>\<open>fdtl_data_t\<close> are \<open>fdtl\<close>, and
  \<open>upd\<close> joins what an update of a USB module works on, \<open>pcie\<close> what one of a PCIe module does), with the fields the environment owns beside them: the files, the messages sent
  so far, and a script. Each C function is one definition of the same name that takes and returns
  the record; a loop is a recursive definition whose first argument is the number of rounds left. A
  function that another file also defines carries a prefix (\<open>p_send_message_queue\<close>, \<open>u_send_message_queue\<close>). Nothing else
  is chosen by the model: the unwritten bytes of an automatic array, the initial value of an
  uninitialised variable and the bytes behind a short string are parameters (\<open>junk\<close>, \<open>pjunk\<close>, \<open>ujunk\<close>), so
  the theorems hold for all their values.

  \<^bold>\<open>Concurrency.\<close> Each service has a message thread, and callbacks that wait on a condition variable
  until an answer has been handled. Whenever the code waits, the next entry of the script says
  what the other thread does meanwhile and whether the wait is signalled or times out; an empty
  script is a silent module. Every theorem holds for all scripts, so for every interleaving at the
  points where the code waits. Data races between these points are not modelled.
  The mutex of the updater is a field of its record; a thread that locks it while it holds it already
  stops with the error \<open>SelfDeadlock\<close>.

  \<^bold>\<open>Bounds.\<close> Loops with a constant limit run with that limit. Some loops of the modelled code have
  none. The search for a USB descriptor (\<open>skip_to\<close>) runs for one round more than there are bytes; \<open>skip_to_enough\<close> shows that
  more rounds change nothing, so that \<open>Blocked\<close> means that it never ends. The loop that retries an update of a PCIe module (\<open>retry_update\<close>) takes the number of attempts that are observed
  and is \<open>None\<close> when it still runs after them; \<open>module_gone_retried_for_ever\<close> shows that no number is enough. The thread that
  waits for the answer to an image (\<open>get_send_image_resp\<close>) ends with the script, with the error \<open>Blocked\<close>. \<open>await_fw_version\<close> of the updater takes the number of rounds that are observed, and is \<open>None\<close> when
  the version of the module is still unknown after them; \<open>update_waits_for_version\<close> says which number is
  enough. The initialisation of the MBIM device tries until the port appears; its model \<open>mbim_init\<close> takes the number of attempts that are observed as an argument, and a call that
  is still waiting after them sets the field \<open>m_blocked\<close>, after which the thread does nothing more. Integers are \<open>int\<close>, with the
  conversion to 32 bits of \<^verbatim>\<open>atoi\<close> written out.

  \<^bold>\<open>What is shown.\<close> Status records: a sequence of writes and restarts is a sequence of updates of a
  finite map, and the limits of that abstraction (values of four or more characters). Messages: when a
  reply is sent and where it goes. Device: the cached device type is consistent with the module.
  Serial channel: the assembly equals concatenation and never writes outside its array. Module
  adapter: each request gets exactly one answer, the error counter stays below its limit, the
  parser returns the body of a response. Preference service: each request is answered, all data fit
  their arrays, a carrier check always releases its flag, the carrier is the one in the list. Core
  service: the recovery monitor ends in every environment and recovers at most once, six GPIO resets
  are the most there can be, and there is always exactly one activity that owns the connection. Updater: a
  request is sent at most three times and an answer in time is taken; the chosen images are those of the
  folders in the intended order; success of the flashing means that no answer reported a failure; the
  temporary images are the slices named by the header; a script of answers is what the library
  leaves, and a flash command that succeeds has sent size, image and partition and was acknowledged;
  only the device that was asked for is opened, and the image reaches the bus; a download that went as far as the boot loader ends
  with a reboot, and a failed one is retried once after a reset. For a PCIe module the flash table is read as it was
  written, images are flashed in its order and nothing is sent after a failure, nothing is sent when nothing is new, and an
  attempt always gives up its claim on the module; but the number of retries that is stored never grows, so a module that is gone
  is retried for ever. A package that is moved to its place is noticed once, a dialog fits its arrays and ends with the
  result. Across components: a signal of the core service runs the callback of the preference service once, that of the other two
  clients once per connection; a backup of serial number and IMEI survives any other traffic. Where the code departs
  from what it means to do, a theorem shows the departure on all inputs of a class or on one.

  \<^bold>\<open>Assumptions.\<close> Memory allocation succeeds; a file that was opened for writing takes what is
  written; files contain no NUL bytes; \<^verbatim>\<open>char\<close> arrays passed to overlapping copies are copied in order.

  \<^bold>\<open>Not modelled.\<close> Log output; GLib and the generated code for D-Bus; the single steps of a progress dialog; threads as such;
  delays; of the vendored fastboot sources in C++ the sockets, the queue functions without a caller and the
  code that is not compiled; the binary \<^verbatim>\<open>pwl_unlock\<close>; packaging scripts;
  \<^verbatim>\<open>setup_parameter\<close>, \<^verbatim>\<open>stop_modem_mgr\<close> and \<^verbatim>\<open>get_test_sku_id\<close> of the updater, which nothing calls, and \<^verbatim>\<open>check_fastboot\<close>
  and \<^verbatim>\<open>check_fastboot_device\<close>, which only an installed fastboot tool needs, an option that is compiled out.
\<close>

section \<open>Backup of the serial number and the IMEI, across components\<close>

text \<open>
  The updater asks the preference service to save the serial number and the IMEI before it flashes
  the module, and asks for them afterwards; it splits the answer with the routine of the common
  library.
\<close>

definition backup_request :: "nat \<Rightarrow> string \<Rightarrow> string \<Rightarrow> msg_buffer_t" where
  "backup_request from sn imei = request_msg from (cid_num PWL_CID_BACKUP_SN_IMEI) (sn @ '';'' @ imei)"

definition restore_request :: "nat \<Rightarrow> msg_buffer_t" where
  "restore_request from = request_msg from (cid_num PWL_CID_GET_BACKUP_SN_IMEI) []"

lemma backup_cids:
  "cid_of (cid_num PWL_CID_BACKUP_SN_IMEI) = Some PWL_CID_BACKUP_SN_IMEI"
  "cid_of (cid_num PWL_CID_GET_BACKUP_SN_IMEI) = Some PWL_CID_GET_BACKUP_SN_IMEI"
  "is_request PWL_CID_BACKUP_SN_IMEI" "is_request PWL_CID_GET_BACKUP_SN_IMEI"
  "cid_num PWL_CID_BACKUP_SN_IMEI < 48" "cid_num PWL_CID_GET_BACKUP_SN_IMEI < 48"
  by code_simp+

lemma joined_trimmed:
  assumes "trim sn = sn" "trim imei = imei"
  shows "trim (sn @ '';'' @ imei) = sn @ '';'' @ imei"
proof (rule trim_fixed)
  have "sn = [] \<or> \<not> isspace (hd sn)" "imei = [] \<or> \<not> isspace (last imei)"
    using trim_ends [of sn] trim_ends [of imei] assms by auto
  then show "sn @ '';'' @ imei = [] \<or> \<not> isspace (hd (sn @ '';'' @ imei)) \<and> \<not> isspace (last (sn @ '';'' @ imei))"
    by (cases sn; cases imei) (auto simp: isspace_def)
qed

text \<open>C1: a serial number and an IMEI that were saved by a backup request come back unchanged: whatever
  other messages the preference service handles in between (as long as none is a new backup), the
  reply to the restore request has status OK, goes to the requester and splits into the same two
  strings.\<close>

theorem sn_imei_backup_restored:
  assumes "CHR '';'' \<notin> set sn" "NL \<notin> set (sn @ imei)" "length sn < SN_MAX_LENGTH" "length imei < IMEI_MAX_LENGTH"
    and "trim sn = sn" "trim imei = imei"
    and "can_write (p_fs st) SN_IMEI_INFO_RECORD" "can_read (p_fs st) SN_IMEI_INFO_RECORD"
    and "\<forall>m \<in> set ms. pwl_cid m \<noteq> cid_num PWL_CID_BACKUP_SN_IMEI"
  shows "\<exists>st1. pref_handle j (backup_request from sn imei) st = Inr st1 \<and>
    (\<forall>st2. pref_run j ms st1 = Inr st2 \<longrightarrow>
      (\<exists>st3 r. pref_handle j (restore_request to) st2 = Inr st3 \<and> p_out st3 = p_out st2 @ [(PWL_MQ_PATH to, r)]
         \<and> status r = PWL_CID_STATUS_OK
         \<and> split_backup_sn_imei SN_MAX_LENGTH IMEI_MAX_LENGTH (response r) = Inr (0, sn, imei)))"
proof -
  let ?in = "sn @ '';'' @ imei"
  have len: "length ?in < 64" using assms(3,4) by (simp add: SN_MAX_LENGTH_def IMEI_MAX_LENGTH_def)
  have NLin: "NL \<notin> set ?in" using assms(2) by auto
  let ?w = "write_file SN_IMEI_INFO_RECORD (?in @ [NL]) (p_fs st)"
  have save: "\<exists>st1. pref_handle j (backup_request from sn imei) st = Inr st1 \<and> p_fs st1 = ?w"
    using assms(7) backup_cids
    by (simp add: pref_handle_def backup_request_def request_msg_def print_message_info_def cid_name_at_ok
        pref_request_def handle_sn_imei_backup_file_def backup_save_def p_reply_ok PWL_MQ_MAX_RESP_def)
  have load: "\<exists>st3. pref_handle j (restore_request to) st2 = Inr st3 \<and> p_out st3 = p_out st2 @
      [(PWL_MQ_PATH to, \<lparr>sender_id = PWL_MQ_ID_PREF, pwl_cid = cid_num PWL_CID_GET_BACKUP_SN_IMEI,
        status = PWL_CID_STATUS_OK, response = ?in, content = j_content j\<rparr>)]" if "p_fs st2 = ?w" for st2
    using backup_load_saved [OF joined_trimmed [OF assms(5,6)] NLin len, of st2 "[]"] that assms(8) len backup_cids
    by (simp add: pref_handle_def restore_request_def request_msg_def print_message_info_def cid_name_at_ok
        pref_request_def p_reply_ok PWL_MQ_MAX_RESP_def write_file_def)
  have "split_backup_sn_imei SN_MAX_LENGTH IMEI_MAX_LENGTH ?in = Inr (0, sn, imei)"
    using assms(1,3-6) by (simp add: split_backup_sn_imei_def strchr_append trim_string_trim strcpy_cap_def)
  with save load cpostD [OF pref_run_fs [OF assms(9)]] show ?thesis by fastforce
qed

theorem sn_imei_backup_restored_witness:
  "\<exists>st1. pref_handle pjunk0 (backup_request 4 ''SN1'' ''356789012345678'') (pref_start PWL_DEVICE_TYPE_PCIE fs0 []) = Inr st1 \<and>
    (\<exists>st2. pref_run pjunk0 [crsm_answer] st1 = Inr st2 \<and> g_mnc_len st2 = 2 \<and>
      (\<exists>st3 r. pref_handle pjunk0 (restore_request 4) st2 = Inr st3 \<and> p_out st3 = p_out st2 @ [(PWL_MQ_PATH 4, r)]
         \<and> split_backup_sn_imei SN_MAX_LENGTH IMEI_MAX_LENGTH (response r) = Inr (0, ''SN1'', ''356789012345678'')))"
proof -
  have "\<exists>st1. pref_handle pjunk0 (backup_request 4 ''SN1'' ''356789012345678'') (pref_start PWL_DEVICE_TYPE_PCIE fs0 []) = Inr st1 \<and>
    (\<forall>st2. pref_run pjunk0 [crsm_answer] st1 = Inr st2 \<longrightarrow>
      (\<exists>st3 r. pref_handle pjunk0 (restore_request 4) st2 = Inr st3 \<and> p_out st3 = p_out st2 @ [(PWL_MQ_PATH 4, r)]
         \<and> status r = PWL_CID_STATUS_OK
         \<and> split_backup_sn_imei SN_MAX_LENGTH IMEI_MAX_LENGTH (response r) = Inr (0, ''SN1'', ''356789012345678'')))"
  proof (rule sn_imei_backup_restored)
    show "\<forall>m \<in> set [crsm_answer]. pwl_cid m \<noteq> cid_num PWL_CID_BACKUP_SN_IMEI"
      by (simp add: crsm_answer_def) code_simp
  qed (simp_all add: SN_MAX_LENGTH_def IMEI_MAX_LENGTH_def trim_def isspace_def pref_start_def fs0_def)
  then show ?thesis by (auto simp: handle_crsm_answer)
qed

end
